(* ===== verification/Prelude.thy ===== *)
theory Prelude
  imports Complex_Main "HOL-Library.Signed_Division"
begin

text \<open>
  The shared vocabulary of the development: Go's operations with their rounding modes
  (\<^verbatim>\<open>/\<close> and \<^verbatim>\<open>%\<close> on machine integers and \<^verbatim>\<open>big.Int.Quo\<close> truncate towards zero,
  \<^verbatim>\<open>big.Int.Div\<close> is Euclidean and is HOL's \<^verbatim>\<open>div\<close> for a positive divisor), the wrap-around
  of signed 64-bit arithmetic, the table operations the relay uses through gorm (a table is the
  list of its rows in id order), and the shape of a fallible stateful operation: a function from
  the state to a result and the state it leaves behind.  The state is the pair of the database
  and the process memory; a transaction that fails restores the first component only, exactly as
  a Go closure that has already written to a cache cannot take that write back.
\<close>

named_theorems sql_simps \<open>how the table operations act on rows\<close>
named_theorems op_simps \<open>how the combinators of the operation monad run\<close>
named_theorems step_intros \<open>compositional rules for what every step of an operation keeps\<close>

section \<open>Integers as Go has them\<close>

definition go_quo :: "int \<Rightarrow> int \<Rightarrow> int" where
  "go_quo a b = a sdiv b"

definition go_rem :: "int \<Rightarrow> int \<Rightarrow> int" where
  "go_rem a b = a smod b"

text \<open>\<^verbatim>\<open>big.Int.Div\<close> is Euclidean: the remainder is never negative.\<close>

definition big_Div :: "int \<Rightarrow> int \<Rightarrow> int" where
  "big_Div a b = (if b < 0 then - (a div (- b)) else a div b)"

definition wrap64 :: "int \<Rightarrow> int" where
  "wrap64 x = (x + 2 ^ 63) mod 2 ^ 64 - 2 ^ 63"

definition wrap_u64 :: "int \<Rightarrow> int" where
  "wrap_u64 x = x mod 2 ^ 64"

definition int64 :: "int \<Rightarrow> bool" where
  "int64 x \<longleftrightarrow> - (2 ^ 63) \<le> x \<and> x < 2 ^ 63"

lemma big_Div_nonneg [simp]: "0 \<le> b \<Longrightarrow> big_Div a b = a div b"
  by (simp add: big_Div_def)

lemma go_quo_nonneg [simp]: "0 \<le> a \<Longrightarrow> 0 \<le> b \<Longrightarrow> go_quo a b = a div b"
  by (cases "a = 0"; cases "b = 0") (auto simp: go_quo_def signed_divide_int_def)

lemma go_rem_nonneg [simp]: "0 \<le> a \<Longrightarrow> 0 \<le> b \<Longrightarrow> go_rem a b = a mod b"
  by (cases "a = 0"; cases "b = 0")
    (auto simp: go_rem_def signed_modulo_int_def signed_divide_int_def minus_div_mult_eq_mod)

lemma go_quo_neg: "a < 0 \<Longrightarrow> 0 < b \<Longrightarrow> go_quo a b = - ((- a) div b)"
  by (simp add: go_quo_def signed_divide_int_def)

lemma go_quo_neg_le: "a < 0 \<Longrightarrow> 0 < b \<Longrightarrow> go_quo a b \<le> 0"
  by (simp add: go_quo_neg pos_imp_zdiv_nonneg_iff)

lemma go_quo_rem: "go_quo a b * b + go_rem a b = a"
  unfolding go_quo_def go_rem_def by (rule sdiv_mult_smod_eq)

lemma wrap64_id [simp]: "int64 x \<Longrightarrow> wrap64 x = x"
  by (simp add: wrap64_def int64_def)

lemma int64_wrap64 [simp]: "int64 (wrap64 x)"
proof -
  have "0 \<le> (x + 2 ^ 63) mod 2 ^ 64" and "(x + 2 ^ 63) mod 2 ^ 64 < 2 ^ 64" for x :: int
    by simp_all
  from this[of x] show ?thesis by (simp add: wrap64_def int64_def)
qed

lemma wrap64_idem [simp]: "wrap64 (wrap64 x) = wrap64 x"
  by (rule wrap64_id) (rule int64_wrap64)

section \<open>Times and durations\<close>

text \<open>
  A \<^verbatim>\<open>time.Time\<close> is its number of nanoseconds since the Unix epoch in UTC; a
  \<^verbatim>\<open>time.Duration\<close> is a signed 64-bit number of nanoseconds.  \<^verbatim>\<open>Time.Sub\<close> saturates at the
  extreme durations, while arithmetic on durations wraps.
\<close>

type_synonym time = int
type_synonym duration = int
type_synonym address = string

definition time_Second :: duration where "time_Second = 1000000000"

definition time_Minute :: duration where "time_Minute = 60 * time_Second"

definition time_Hour :: duration where "time_Hour = 3600 * time_Second"

definition time_Day :: duration where "time_Day = 24 * time_Hour"

definition time_Sub :: "time \<Rightarrow> time \<Rightarrow> duration" where
  "time_Sub t u = max (- (2 ^ 63)) (min (2 ^ 63 - 1) (t - u))"

definition day_start :: "time \<Rightarrow> time" where
  "day_start t = t - t mod time_Day"

lemmas time_units = time_Second_def time_Minute_def time_Hour_def time_Day_def

lemma int64_time_Sub [simp]: "int64 (time_Sub t u)"
  by (auto simp: time_Sub_def int64_def)

lemma time_Sub_exact: "int64 (t - u) \<Longrightarrow> time_Sub t u = t - u"
  by (simp add: time_Sub_def int64_def)

lemma day_start_bounds: "day_start t \<le> t" "t < day_start t + time_Day"
  by (simp_all add: day_start_def time_units)

section \<open>Errors and operations\<close>

text \<open>
  One constructor per sentinel error value of the modelled packages; errors the code makes on
  the spot with \<^verbatim>\<open>errors.New\<close> carry their message, and a run-time panic is an error of its
  own.  \<^verbatim>\<open>ErrRecordNotFound\<close> and \<^verbatim>\<open>ErrDuplicatedKey\<close> are gorm's; failures of the database
  connection itself (timeouts, lost connections) are outside the model.
\<close>

datatype go_error =
    ErrMainnetStartTimeNotSet
  | ErrInvalidMainnetStart
  | ErrNoCompletedEmissionWeek
  | ErrEmissionWeekOutOfRange
  | ErrInvalidChartWeeks
  | ErrInsufficientRelayAccount
  | ErrWithdrawRequestNotPending
  | ErrWithdrawRequestNotProcessedLocally
  | ErrWithdrawDailyLimitExceeded
  | ErrInvalidVestingAddress
  | ErrInvalidVestingAmount
  | ErrInvalidVestingDuration
  | ErrInvalidVestingSignature
  | ErrInvalidVestingSigner
  | ErrInvalidVestingType
  | ErrInvalidVestingDelegationDetail
  | ErrVestingSignerAddressNotSet
  | ErrVestingRecordNotFound
  | ErrVestingReleaseRangeInvalid
  | ErrVestingReleaseExceedsSchedule
  | ErrTaskIDEmpty
  | ErrTaskStatusChanged
  | ErrNodeStatusChanged
  | errWrongTaskStatus
  | ErrWrongNodeCurrentTask
  | ErrDelegatedSlashJobInProgress
  | ErrPendingSlashAlreadyProcessed
  | ErrNodeHealthExcluded
  | ErrInvalidNodeNameGPUName
  | ErrInvalidNodeNameVersion
  | ErrNodeNameWhitelistExists
  | ErrNodeNameWhitelistMissing
  | ErrNodeNameCountEntryMissing
  | ErrNodeNameCountAlreadyZero
  | ErrInvalidModelWhitelistName
  | ErrModelWhitelistNameExists
  | ErrModelWhitelistNameMissing
  | ErrModelWhitelistNotInitialized
  | ErrModelNotWhitelisted
  | ErrInvalidModelFile
  | ErrNodeModelStateIllegal
  | errModelFileNotHeldForTask
  | ErrQueueTimeoutNotAllowed
  | ErrQueueTimeoutZero
  | ErrQueueTimeoutTooLarge
  | ErrValidationAlreadyApplied
  | ErrInconsistentExecutionModelFiles
  | ErrRecordNotFound
  | ErrDuplicatedKey
  | errors_New string
  | Panic string

type_synonym ('s, 'a) op = "'s \<Rightarrow> (go_error + 'a) \<times> 's"

definition ret :: "'a \<Rightarrow> ('s, 'a) op" where
  "ret a = (\<lambda>s. (Inr a, s))"

definition raise :: "go_error \<Rightarrow> ('s, 'a) op" where
  "raise e = (\<lambda>s. (Inl e, s))"

definition bnd :: "('s, 'a) op \<Rightarrow> ('a \<Rightarrow> ('s, 'b) op) \<Rightarrow> ('s, 'b) op" where
  "bnd f g = (\<lambda>s. case f s of (Inl e, s') \<Rightarrow> (Inl e, s') | (Inr a, s') \<Rightarrow> g a s')"

abbreviation seq :: "('s, 'a) op \<Rightarrow> ('s, 'b) op \<Rightarrow> ('s, 'b) op" where
  "seq f g \<equiv> bnd f (\<lambda>_. g)"

definition gets :: "('s \<Rightarrow> 'a) \<Rightarrow> ('s, 'a) op" where
  "gets f = (\<lambda>s. (Inr (f s), s))"

definition modify :: "('s \<Rightarrow> 's) \<Rightarrow> ('s, unit) op" where
  "modify f = (\<lambda>s. (Inr (), f s))"

definition check :: "bool \<Rightarrow> go_error \<Rightarrow> ('s, unit) op" where
  "check b e = (if b then ret () else raise e)"

definition of_sum :: "go_error + 'a \<Rightarrow> ('s, 'a) op" where
  "of_sum r = (\<lambda>s. (r, s))"

definition of_option :: "go_error \<Rightarrow> 'a option \<Rightarrow> ('s, 'a) op" where
  "of_option e r = (case r of None \<Rightarrow> raise e | Some a \<Rightarrow> ret a)"

definition try_catch :: "('s, 'a) op \<Rightarrow> (go_error \<Rightarrow> ('s, 'a) op) \<Rightarrow> ('s, 'a) op" where
  "try_catch f h = (\<lambda>s. case f s of (Inl e, s') \<Rightarrow> h e s' | (Inr a, s') \<Rightarrow> (Inr a, s'))"

definition txn :: "('d \<times> 'm, 'a) op \<Rightarrow> ('d \<times> 'm, 'a) op" where
  "txn f = (\<lambda>s. case f s of (Inl e, s') \<Rightarrow> (Inl e, (fst s, snd s')) | (Inr a, s') \<Rightarrow> (Inr a, s'))"

primrec for_each :: "'a list \<Rightarrow> ('a \<Rightarrow> ('s, unit) op) \<Rightarrow> ('s, unit) op" where
  "for_each [] f = ret ()"
| "for_each (x # xs) f = bnd (f x) (\<lambda>_. for_each xs f)"

primrec map_each :: "('a \<Rightarrow> ('s, 'b) op) \<Rightarrow> 'a list \<Rightarrow> ('s, 'b list) op" where
  "map_each f [] = ret []"
| "map_each f (x # xs) = bnd (f x) (\<lambda>y. bnd (map_each f xs) (\<lambda>ys. ret (y # ys)))"

lemma ret_run [op_simps]: "ret a s = (Inr a, s)" by (simp add: ret_def)

lemma raise_run [op_simps]: "raise e s = (Inl e, s)" by (simp add: raise_def)

lemma gets_run [op_simps]: "gets f s = (Inr (f s), s)" by (simp add: gets_def)

lemma modify_run [op_simps]: "modify f s = (Inr (), f s)" by (simp add: modify_def)

lemma check_run [op_simps]: "check b e s = (if b then Inr () else Inl e, s)"
  by (simp add: check_def ret_def raise_def)

lemma of_sum_run [op_simps]: "of_sum r s = (r, s)" by (simp add: of_sum_def)

lemma of_option_run [op_simps]:
  "of_option e r s = (case r of None \<Rightarrow> Inl e | Some a \<Rightarrow> Inr a, s)"
  by (simp add: of_option_def ret_def raise_def split: option.splits)

lemma bnd_run [op_simps]:
  "bnd f g s = (case f s of (Inl e, s') \<Rightarrow> (Inl e, s') | (Inr a, s') \<Rightarrow> g a s')"
  by (simp add: bnd_def)

lemma txn_run [op_simps]:
  "txn f s = (case f s of (Inl e, s') \<Rightarrow> (Inl e, (fst s, snd s')) | (Inr a, s') \<Rightarrow> (Inr a, s'))"
  by (simp add: txn_def)

lemma try_catch_run [op_simps]:
  "try_catch f h s = (case f s of (Inl e, s') \<Rightarrow> h e s' | (Inr a, s') \<Rightarrow> (Inr a, s'))"
  by (simp add: try_catch_def)

lemma bnd_ret [simp]: "bnd (ret a) g = g a" by (simp add: bnd_def ret_def)

lemma bnd_raise [simp]: "bnd (raise e) g = raise e" by (simp add: bnd_def raise_def)

lemma bnd_assoc: "bnd (bnd f g) h = bnd f (\<lambda>a. bnd (g a) h)"
  by (rule ext) (simp add: bnd_def split: prod.splits sum.splits)

subsection \<open>Successful runs\<close>

text \<open>
  \<^verbatim>\<open>returns f s a s'\<close>: from state \<^verbatim>\<open>s\<close> the operation returns \<^verbatim>\<open>a\<close> with a nil error and
  leaves \<^verbatim>\<open>s'\<close>.  The rules below take a successful run of a composition apart, so a proof
  about a handler starts from the states between its calls.
\<close>

definition returns :: "('s, 'a) op \<Rightarrow> 's \<Rightarrow> 'a \<Rightarrow> 's \<Rightarrow> bool" where
  "returns f s a s' \<longleftrightarrow> f s = (Inr a, s')"

definition fails :: "('s, 'a) op \<Rightarrow> 's \<Rightarrow> go_error \<Rightarrow> bool" where
  "fails f s e \<longleftrightarrow> fst (f s) = Inl e"

lemma returns_ret [simp]: "returns (ret a) s b s' \<longleftrightarrow> b = a \<and> s' = s"
  by (auto simp: returns_def ret_def)

lemma returns_raise [simp]: "\<not> returns (raise e) s b s'"
  by (simp add: returns_def raise_def)

lemma returns_gets [simp]: "returns (gets f) s b s' \<longleftrightarrow> b = f s \<and> s' = s"
  by (auto simp: returns_def gets_def)

lemma returns_modify [simp]: "returns (modify f) s b s' \<longleftrightarrow> s' = f s"
  by (auto simp: returns_def modify_def)

lemma returns_check [simp]: "returns (check c e) s b s' \<longleftrightarrow> c \<and> s' = s"
  by (auto simp: returns_def check_def ret_def raise_def)

lemma returns_of_sum [simp]: "returns (of_sum r) s b s' \<longleftrightarrow> r = Inr b \<and> s' = s"
  by (auto simp: returns_def of_sum_def)

lemma returns_of_option [simp]: "returns (of_option e r) s b s' \<longleftrightarrow> r = Some b \<and> s' = s"
  by (auto simp: returns_def of_option_def ret_def raise_def split: option.splits)

lemma returns_bnd [simp]:
  "returns (bnd f g) s b s' \<longleftrightarrow> (\<exists>a t. returns f s a t \<and> returns (g a) t b s')"
  by (auto simp: returns_def bnd_def split: prod.splits sum.splits)

lemma returns_txn [simp]: "returns (txn f) s b s' \<longleftrightarrow> returns f s b s'"
  by (auto simp: returns_def txn_def split: prod.splits sum.splits)

lemma returns_if: "returns (if c then f else g) s b s' \<longleftrightarrow>
    (if c then returns f s b s' else returns g s b s')"
  by simp

lemma fails_txn_db: "fails (txn f) s e \<Longrightarrow> fst (snd (txn f s)) = fst s"
  by (auto simp: fails_def txn_def split: prod.splits sum.splits)

text \<open>Operations without an error path.\<close>

definition never_fails :: "('s, 'a) op \<Rightarrow> bool" where
  "never_fails f \<longleftrightarrow> (\<forall>s. \<exists>a s'. returns f s a s')"

lemma never_fails_simps [simp]:
  "never_fails (ret a)" "never_fails (gets g)" "never_fails (modify h)"
  by (simp_all add: never_fails_def)

lemma never_fails_bnd: "never_fails f \<Longrightarrow> (\<And>a. never_fails (g a)) \<Longrightarrow> never_fails (bnd f g)"
  unfolding never_fails_def returns_bnd by metis

lemma never_fails_txn: "never_fails f \<Longrightarrow> never_fails (txn f)"
  by (simp add: never_fails_def)

lemma never_fails_for_each: "(\<And>x. never_fails (f x)) \<Longrightarrow> never_fails (for_each xs f)"
  by (induction xs) (simp_all add: never_fails_bnd)

lemma never_fails_returns: "never_fails f \<Longrightarrow> \<exists>a s'. returns f s a s'"
  by (simp add: never_fails_def)

lemmas never_fails_intros = never_fails_bnd never_fails_txn never_fails_for_each

subsection \<open>What every step keeps\<close>

text \<open>
  A relation on databases that is reflexive and transitive can be followed through any
  composition of operations: an operation respects it when the database it leaves is related to
  the database it started from, on success and on failure alike.  The rules are proved once,
  for any such relation; a failing transaction needs reflexivity only.
\<close>

definition db_steps :: "('d \<Rightarrow> 'd \<Rightarrow> bool) \<Rightarrow> ('d \<times> 'm, 'a) op \<Rightarrow> bool" where
  "db_steps R f \<longleftrightarrow> (\<forall>s. R (fst s) (fst (snd (f s))))"

definition db_frame :: "('d \<times> 'm, 'a) op \<Rightarrow> bool" where
  "db_frame f \<longleftrightarrow> (\<forall>s. fst (snd (f s)) = fst s)"

locale step_relation =
  fixes R :: "'d \<Rightarrow> 'd \<Rightarrow> bool"
  assumes step_refl: "R d d" and step_trans: "R d e \<Longrightarrow> R e f \<Longrightarrow> R d f"
begin

lemma steps_frame: "db_frame f \<Longrightarrow> db_steps R f"
  by (simp add: db_frame_def db_steps_def step_refl)

lemma steps_ret: "db_steps R (ret a)"
  and steps_raise: "db_steps R (raise e)"
  and steps_gets: "db_steps R (gets g)"
  and steps_check: "db_steps R (check b e)"
  and steps_of_sum: "db_steps R (of_sum r)"
  and steps_of_option: "db_steps R (of_option e r')"
  by (simp_all add: db_steps_def op_simps step_refl)

lemma steps_modify: "(\<And>s. R (fst s) (fst (g s))) \<Longrightarrow> db_steps R (modify g)"
  by (simp add: db_steps_def op_simps)

lemma steps_bnd:
  assumes "db_steps R f" "\<And>a. db_steps R (g a)"
  shows "db_steps R (bnd f g)"
  unfolding db_steps_def
proof (rule allI)
  fix s
  obtain r t where run: "f s = (r, t)" by (metis surj_pair)
  have "R (fst s) (fst t)" using assms(1) run by (metis db_steps_def snd_conv)
  moreover have "R (fst t) (fst (snd (g a t)))" for a
    using assms(2)[of a] unfolding db_steps_def by blast
  ultimately show "R (fst s) (fst (snd (bnd f g s)))"
    by (cases r) (auto simp: bnd_def run intro: step_trans)
qed

lemma steps_txn: "db_steps R f \<Longrightarrow> db_steps R (txn f)"
  unfolding db_steps_def txn_def
  by (auto simp: step_refl split: prod.splits sum.splits) (metis fst_conv snd_conv)

lemma steps_try:
  assumes "db_steps R f" "\<And>e. db_steps R (h e)"
  shows "db_steps R (try_catch f h)"
  unfolding db_steps_def
proof (rule allI)
  fix s
  obtain r t where run: "f s = (r, t)" by (metis surj_pair)
  have "R (fst s) (fst t)" using assms(1) run by (metis db_steps_def snd_conv)
  moreover have "R (fst t) (fst (snd (h a t)))" for a
    using assms(2)[of a] unfolding db_steps_def by blast
  ultimately show "R (fst s) (fst (snd (try_catch f h s)))"
    by (cases r) (auto simp: try_catch_def run intro: step_trans)
qed

lemma steps_for_each: "(\<And>x. db_steps R (f x)) \<Longrightarrow> db_steps R (for_each xs f)"
  by (induction xs) (auto intro: steps_ret steps_bnd)

lemma steps_map_each: "(\<And>x. db_steps R (f x)) \<Longrightarrow> db_steps R (map_each f xs)"
  by (induction xs) (auto intro: steps_ret steps_bnd)

lemma steps_if: "(b \<Longrightarrow> db_steps R f) \<Longrightarrow> (\<not> b \<Longrightarrow> db_steps R g) \<Longrightarrow> db_steps R (if b then f else g)"
  by simp

lemma steps_option:
  "(r = None \<Longrightarrow> db_steps R f) \<Longrightarrow> (\<And>a. r = Some a \<Longrightarrow> db_steps R (g a)) \<Longrightarrow>
   db_steps R (case r of None \<Rightarrow> f | Some a \<Rightarrow> g a)"
  by (cases r) simp_all

lemma steps_prod: "(\<And>a b. db_steps R (g a b)) \<Longrightarrow> db_steps R (case p of (a, b) \<Rightarrow> g a b)"
  by (cases p) simp

lemma steps_of_sum_bnd: "(\<And>a. r = Inr a \<Longrightarrow> db_steps R (g a)) \<Longrightarrow> db_steps R (bnd (of_sum r) g)"
  by (cases r) (simp_all add: db_steps_def op_simps step_refl)

text \<open>Inside a transaction only the runs that succeed count: the others leave the database alone.\<close>

lemma steps_txn_returns:
  assumes "\<And>s a s'. returns f s a s' \<Longrightarrow> R (fst s) (fst s')"
  shows "db_steps R (txn f)"
  unfolding db_steps_def
proof (rule allI)
  fix s
  obtain r t where run: "f s = (r, t)" by (metis surj_pair)
  show "R (fst s) (fst (snd (txn f s)))"
    using assms[of s _ t] run by (cases r) (auto simp: txn_def returns_def step_refl)
qed

lemmas steps_intros = steps_ret steps_raise steps_gets steps_check steps_of_sum steps_of_option
  steps_bnd steps_txn steps_try steps_for_each steps_map_each steps_if steps_option steps_prod

lemma steps_returns: "db_steps R f \<Longrightarrow> returns f s a s' \<Longrightarrow> R (fst s) (fst s')"
  unfolding db_steps_def returns_def by (metis snd_conv)

end

section \<open>Tables\<close>

text \<open>
  \<^verbatim>\<open>UPDATE ... WHERE\<close> on a table.  Row ids are the values of the auto-increment column: one above
  the largest id in the table.
\<close>

definition upd_where :: "('r \<Rightarrow> bool) \<Rightarrow> ('r \<Rightarrow> 'r) \<Rightarrow> 'r list \<Rightarrow> 'r list" where
  "upd_where p f rows = map (\<lambda>r. if p r then f r else r) rows"

definition next_id :: "('r \<Rightarrow> nat) \<Rightarrow> 'r list \<Rightarrow> nat" where
  "next_id key rows = Suc (foldr max (map key rows) 0)"

lemma upd_where_Nil [sql_simps, simp]: "upd_where p f [] = []"
  by (simp add: upd_where_def)

lemma upd_where_length [sql_simps, simp]: "length (upd_where p f rows) = length rows"
  by (simp add: upd_where_def)

lemma upd_where_set [sql_simps]: "set (upd_where p f rows) = (\<lambda>r. if p r then f r else r) ` set rows"
  by (simp add: upd_where_def)

lemma upd_where_map [sql_simps]:
  "(\<And>r. p r \<Longrightarrow> k (f r) = k r) \<Longrightarrow> map k (upd_where p f rows) = map k rows"
  by (simp add: upd_where_def)

lemma upd_where_find:
  assumes "\<And>r. p r \<Longrightarrow> k (f r) = k r"
  shows "find (\<lambda>r. k r = i) (upd_where p f rows) =
    map_option (\<lambda>r. if p r then f r else r) (find (\<lambda>r. k r = i) rows)"
  by (induction rows) (auto simp: upd_where_def assms)

lemma next_id_fresh: "r \<in> set rows \<Longrightarrow> key r < next_id key rows"
  by (induction rows) (auto simp: next_id_def less_Suc_eq_le)

lemma next_id_pos [simp]: "0 < next_id key rows"
  by (simp add: next_id_def)

lemma next_id_distinct:
  "distinct (map key rows) \<Longrightarrow> key r = next_id key rows \<Longrightarrow> distinct (map key (rows @ [r]))"
  using next_id_fresh[of _ rows key] by fastforce

end
