(* ===== verification/GoStd.thy ===== *)
theory GoStd
  imports Prelude
begin

text \<open>
  The parts of Go's standard library the modelled code calls: decimal printing and
  \<^verbatim>\<open>strconv.ParseUint\<close>, \<^verbatim>\<open>strings.Split\<close>, \<^verbatim>\<open>strings.SplitN\<close> and \<^verbatim>\<open>strings.ToLower\<close>,
  and \<^verbatim>\<open>time.Parse(time.RFC3339, _)\<close> with the proleptic Gregorian calendar.  Strings are byte
  strings, as Go's are.
\<close>

section \<open>Decimal numbers\<close>

definition is_digit :: "char \<Rightarrow> bool" where
  "is_digit c \<longleftrightarrow> 48 \<le> (of_char c :: nat) \<and> (of_char c :: nat) \<le> 57"

definition digit_val :: "char \<Rightarrow> nat" where
  "digit_val c = of_char c - 48"

definition digit_char :: "nat \<Rightarrow> char" where
  "digit_char n = char_of (48 + n)"

fun FormatUint :: "nat \<Rightarrow> string" where
  "FormatUint n =
    (if n < 10 then [digit_char n] else FormatUint (n div 10) @ [digit_char (n mod 10)])"

declare FormatUint.simps [simp del]

fun dec_val :: "nat \<Rightarrow> string \<Rightarrow> nat option" where
  "dec_val acc [] = Some acc"
| "dec_val acc (c # cs) = (if is_digit c then dec_val (10 * acc + digit_val c) cs else None)"

definition ParseUint :: "string \<Rightarrow> nat option" where
  "ParseUint s =
    (if s = [] then None
     else case dec_val 0 s of
            None \<Rightarrow> None
          | Some n \<Rightarrow> if n < 2 ^ 64 then Some n else None)"

lemma digit_char_digit [simp]: "n < 10 \<Longrightarrow> is_digit (digit_char n)"
  by (simp add: is_digit_def digit_char_def)

lemma digit_val_char [simp]: "n < 10 \<Longrightarrow> digit_val (digit_char n) = n"
  by (simp add: digit_val_def digit_char_def)

lemma digit_chars [simp]:
  "digit_char 0 = CHR ''0''" "digit_char (Suc 0) = CHR ''1''" "digit_char 2 = CHR ''2''"
  "digit_char 3 = CHR ''3''" "digit_char 4 = CHR ''4''" "digit_char 5 = CHR ''5''"
  "digit_char 6 = CHR ''6''" "digit_char 7 = CHR ''7''" "digit_char 8 = CHR ''8''"
  "digit_char 9 = CHR ''9''"
  by (simp_all add: digit_char_def char_of_eq_iff)

lemma dec_val_append:
  "dec_val acc (xs @ ys) = (case dec_val acc xs of None \<Rightarrow> None | Some n \<Rightarrow> dec_val n ys)"
  by (induction acc xs rule: dec_val.induct) auto

lemma dec_val_FormatUint: "dec_val 0 (FormatUint n) = Some n"
proof (induction n rule: FormatUint.induct)
  case (1 n)
  show ?case
  proof (cases "n < 10")
    case True
    then show ?thesis by (simp add: FormatUint.simps)
  next
    case False
    with 1 show ?thesis by (subst FormatUint.simps) (simp add: dec_val_append)
  qed
qed

lemma FormatUint_not_Nil [simp]: "FormatUint n \<noteq> []"
  by (subst FormatUint.simps) simp

lemma FormatUint_digits: "c \<in> set (FormatUint n) \<Longrightarrow> is_digit c"
proof (induction n rule: FormatUint.induct)
  case (1 n)
  then show ?case by (cases "n < 10") (auto simp: FormatUint.simps[of n])
qed

lemma ParseUint_FormatUint [simp]: "n < 2 ^ 64 \<Longrightarrow> ParseUint (FormatUint n) = Some n"
  by (simp add: ParseUint_def dec_val_FormatUint)

lemma FormatUint_inject [simp]: "FormatUint m = FormatUint n \<longleftrightarrow> m = n"
  by (metis dec_val_FormatUint option.inject)

section \<open>Splitting and case\<close>

fun Split :: "char \<Rightarrow> string \<Rightarrow> string list" where
  "Split sep [] = [[]]"
| "Split sep (c # cs) =
    (if c = sep then [] # Split sep cs
     else case Split sep cs of [] \<Rightarrow> [[c]] | p # ps \<Rightarrow> (c # p) # ps)"

text \<open>\<^verbatim>\<open>strings.SplitN(s, sep, n)\<close> for a positive \<^verbatim>\<open>n\<close> and a one-byte separator: at most
  \<^verbatim>\<open>n\<close> pieces, the last one unsplit.\<close>

fun SplitN :: "char \<Rightarrow> nat \<Rightarrow> string \<Rightarrow> string list" where
  "SplitN sep 0 s = []"
| "SplitN sep (Suc 0) s = [s]"
| "SplitN sep (Suc (Suc n)) s =
    (let p = takeWhile (\<lambda>c. c \<noteq> sep) s; r = dropWhile (\<lambda>c. c \<noteq> sep) s
     in if r = [] then [p] else p # SplitN sep (Suc n) (tl r))"

fun Join :: "char \<Rightarrow> string list \<Rightarrow> string" where
  "Join sep [] = []"
| "Join sep [p] = p"
| "Join sep (p # q # ps) = p @ sep # Join sep (q # ps)"

definition lower_char :: "char \<Rightarrow> char" where
  "lower_char c = (if 65 \<le> (of_char c :: nat) \<and> (of_char c :: nat) \<le> 90
                   then char_of ((of_char c :: nat) + 32) else c)"

definition ToLower :: "string \<Rightarrow> string" where
  "ToLower s = map lower_char s"

definition EqualFold :: "string \<Rightarrow> string \<Rightarrow> bool" where
  "EqualFold s t \<longleftrightarrow> ToLower s = ToLower t"

lemma Split_not_Nil [simp]: "Split sep s \<noteq> []"
  by (induction sep s rule: Split.induct) (auto split: list.splits)

lemma Split_no_sep: "sep \<notin> set s \<Longrightarrow> Split sep s = [s]"
  by (induction sep s rule: Split.induct) auto

lemma Split_append_sep: "sep \<notin> set p \<Longrightarrow> Split sep (p @ sep # s) = p # Split sep s"
  by (induction p) auto

lemma Split_Join:
  "ps \<noteq> [] \<Longrightarrow> (\<And>p. p \<in> set ps \<Longrightarrow> sep \<notin> set p) \<Longrightarrow> Split sep (Join sep ps) = ps"
  by (induction sep ps rule: Join.induct) (auto simp: Split_no_sep Split_append_sep)

lemma Join_Cons_head: "Join sep ((c # p) # ps) = c # Join sep (p # ps)"
  by (cases ps) simp_all

lemma Join_Split: "Join sep (Split sep s) = s"
proof (induction sep s rule: Split.induct)
  case (2 sep c cs)
  then show ?case by (cases "Split sep cs") (auto simp: Join_Cons_head)
qed simp

lemma takeWhile_sep: "sep \<notin> set p \<Longrightarrow> takeWhile (\<lambda>c. c \<noteq> sep) (p @ sep # s) = p"
  by (induction p) auto

lemma dropWhile_sep: "sep \<notin> set p \<Longrightarrow> dropWhile (\<lambda>c. c \<noteq> sep) (p @ sep # s) = sep # s"
  by (induction p) auto

lemma SplitN_append_sep [simp]:
  "sep \<notin> set p \<Longrightarrow> SplitN sep (Suc (Suc n)) (p @ sep # s) = p # SplitN sep (Suc n) s"
  by (simp add: takeWhile_sep dropWhile_sep Let_def)

lemma SplitN_length: "length (SplitN sep n s) \<le> n"
  by (induction sep n s rule: SplitN.induct) (auto simp: Let_def)

lemma SplitN_no_sep: "sep \<notin> set s \<Longrightarrow> SplitN sep (Suc (Suc n)) s = [s]"
  by (induction s) (auto simp: Let_def)

text \<open>\<^verbatim>\<open>strings.TrimSpace\<close> and \<^verbatim>\<open>strings.TrimPrefix\<close> on ASCII text.\<close>

definition is_space :: "char \<Rightarrow> bool" where
  "is_space c \<longleftrightarrow> (let n = (of_char c :: nat) in (9 \<le> n \<and> n \<le> 13) \<or> n = 32)"

definition TrimSpace :: "string \<Rightarrow> string" where
  "TrimSpace s = rev (dropWhile is_space (rev (dropWhile is_space s)))"

definition TrimPrefix :: "string \<Rightarrow> string \<Rightarrow> string" where
  "TrimPrefix s p = (if take (length p) s = p then drop (length p) s else s)"

text \<open>\<^verbatim>\<open>strings.Fields\<close>: the maximal runs of characters that are not white space.\<close>

function Fields :: "string \<Rightarrow> string list" where
  "Fields s =
    (let t = dropWhile is_space s in
     if t = [] then [] else takeWhile (\<lambda>c. \<not> is_space c) t # Fields (dropWhile (\<lambda>c. \<not> is_space c) t))"
  by auto
termination
proof (relation "measure length")
  fix s t :: string
  assume t: "t = dropWhile is_space s" and ne: "t \<noteq> []"
  from ne obtain c cs where cs: "t = c # cs" by (cases t) simp_all
  with t have "\<not> is_space c" by (metis hd_dropWhile list.sel(1) ne)
  then have "length (dropWhile (\<lambda>c. \<not> is_space c) t) < length t"
    using cs length_dropWhile_le[of "\<lambda>c. \<not> is_space c" cs] by simp
  with t length_dropWhile_le[of is_space s]
  show "(dropWhile (\<lambda>c. \<not> is_space c) t, s) \<in> measure length" by simp
qed simp

declare Fields.simps [simp del]

section \<open>RFC 3339 times\<close>

text \<open>
  The calendar is the proleptic Gregorian one; a date becomes its number of days since
  1970-01-01.  The parser follows \<^verbatim>\<open>time.Parse\<close> with the layout
  \<^verbatim>\<open>2006-01-02T15:04:05Z07:00\<close>: a four digit year, two digit month, day, minute and second,
  an hour of one or two digits, an optional fraction after a period or a comma, and the zone
  either \<^verbatim>\<open>Z\<close> or a signed offset.
\<close>

definition leap_year :: "int \<Rightarrow> bool" where
  "leap_year y \<longleftrightarrow> y mod 4 = 0 \<and> (y mod 100 \<noteq> 0 \<or> y mod 400 = 0)"

definition days_in :: "int \<Rightarrow> nat \<Rightarrow> int" where
  "days_in y m =
    (if m = 2 then (if leap_year y then 29 else 28)
     else if m \<in> {4, 6, 9, 11} then 30 else 31)"

definition days_before_year :: "int \<Rightarrow> int" where
  "days_before_year y = 365 * (y - 1) + (y - 1) div 4 - (y - 1) div 100 + (y - 1) div 400"

definition days_before_month :: "int \<Rightarrow> nat \<Rightarrow> int" where
  "days_before_month y m = sum_list (map (days_in y) [1..<m])"

definition unix_days :: "int \<Rightarrow> nat \<Rightarrow> int \<Rightarrow> int" where
  "unix_days y m d =
    days_before_year y - days_before_year 1970 + days_before_month y m + (d - 1)"

text \<open>\<^verbatim>\<open>getnum\<close>: a number of exactly two digits, or of one digit when that is allowed.\<close>

fun getnum :: "bool \<Rightarrow> string \<Rightarrow> (nat \<times> string) option" where
  "getnum fixed (a # b # s) =
    (if \<not> is_digit a then None
     else if is_digit b then Some (10 * digit_val a + digit_val b, s)
     else if fixed then None else Some (digit_val a, b # s))"
| "getnum fixed [a] = (if is_digit a \<and> \<not> fixed then Some (digit_val a, []) else None)"
| "getnum fixed [] = None"

fun expect :: "char \<Rightarrow> string \<Rightarrow> string option" where
  "expect c (d # s) = (if d = c then Some s else None)"
| "expect c [] = None"

definition getyear :: "string \<Rightarrow> (nat \<times> string) option" where
  "getyear s =
    (if 4 \<le> length s
     then map_option (\<lambda>n. (n, drop 4 s)) (dec_val 0 (take 4 s)) else None)"

text \<open>The fraction of a second in nanoseconds; digits after the ninth are dropped.\<close>

definition getfraction :: "string \<Rightarrow> nat \<times> string" where
  "getfraction s =
    (case s of
       c # d # r \<Rightarrow>
         if c \<in> {CHR ''.'', CHR '',''} \<and> is_digit d
         then (let ds = takeWhile is_digit (d # r); nine = take 9 (ds @ replicate 9 (CHR ''0''))
               in (case dec_val 0 nine of None \<Rightarrow> 0 | Some n \<Rightarrow> n, drop (length ds) (d # r)))
         else (0, s)
     | _ \<Rightarrow> (0, s))"

text \<open>The zone as seconds east of UTC, with nothing left to read after it.\<close>

definition getzone :: "string \<Rightarrow> int option" where
  "getzone s =
    (if s = ''Z'' then Some 0
     else case s of
       sg # r \<Rightarrow>
         (case getnum True r of None \<Rightarrow> None | Some (h, r1) \<Rightarrow>
         (case expect CHR '':'' r1 of None \<Rightarrow> None | Some r2 \<Rightarrow>
         (case getnum True r2 of None \<Rightarrow> None | Some (mi, r3) \<Rightarrow>
           if r3 \<noteq> [] \<or> 24 < h \<or> 60 < mi then None
           else if sg = CHR ''+'' then Some (int (h * 3600 + mi * 60))
           else if sg = CHR ''-'' then Some (- int (h * 3600 + mi * 60))
           else None)))
     | [] \<Rightarrow> None)"

definition Parse_RFC3339 :: "string \<Rightarrow> time option" where
  "Parse_RFC3339 s0 =
    (case getyear s0 of None \<Rightarrow> None | Some (y, s1) \<Rightarrow>
    (case expect CHR ''-'' s1 of None \<Rightarrow> None | Some s2 \<Rightarrow>
    (case getnum True s2 of None \<Rightarrow> None | Some (mo, s3) \<Rightarrow>
    (case expect CHR ''-'' s3 of None \<Rightarrow> None | Some s4 \<Rightarrow>
    (case getnum True s4 of None \<Rightarrow> None | Some (d, s5) \<Rightarrow>
    (case expect CHR ''T'' s5 of None \<Rightarrow> None | Some s6 \<Rightarrow>
    (case getnum False s6 of None \<Rightarrow> None | Some (h, s7) \<Rightarrow>
    (case expect CHR '':'' s7 of None \<Rightarrow> None | Some s8 \<Rightarrow>
    (case getnum True s8 of None \<Rightarrow> None | Some (mi, s9) \<Rightarrow>
    (case expect CHR '':'' s9 of None \<Rightarrow> None | Some s10 \<Rightarrow>
    (case getnum True s10 of None \<Rightarrow> None | Some (se, s11) \<Rightarrow>
    (let (ns, s12) = getfraction s11 in
    (case getzone s12 of None \<Rightarrow> None | Some off \<Rightarrow>
      if mo < 1 \<or> 12 < mo \<or> d < 1 \<or> days_in (int y) mo < int d \<or> 24 \<le> h \<or> 60 \<le> mi \<or> 60 \<le> se
      then None
      else Some (unix_days (int y) mo (int d) * time_Day
                 + (int (h * 3600 + mi * 60 + se) - off) * time_Second + int ns))))))))))))))"

lemmas rfc3339_eval = Parse_RFC3339_def getyear_def getfraction_def getzone_def is_digit_def
  digit_val_def unix_days_def days_before_year_def days_before_month_def days_in_def leap_year_def
  time_units upt_rec

end
