(* ===== verification/Json.thy ===== *)
theory Json
  imports Prelude GoStd "HOL-Library.Char_ord" "HOL-Library.List_Lexorder"
begin

text \<open>
  Canonical JSON (\<^verbatim>\<open>models/model_file.go\<close>): the text every model file identity is hashed from.  A
  decoded value is a \<^verbatim>\<open>json\<close> tree; numbers keep their text, as the decoder is told to
  (\<^verbatim>\<open>UseNumber\<close>), and an object is the list of its members, in no particular order and with distinct
  keys.  Strings are valid UTF-8, which is all the decoder produces, and are written byte by byte.
  The lemmas show that the text determines the value up to the order of members.
\<close>

datatype json =
    JNull
  | JBool bool
  | JNumber string
  | JString string
  | JArray "json list"
  | JObject "(string \<times> json) list"

section \<open>Writing\<close>

abbreviation quote :: char where "quote \<equiv> CHR 0x22"

abbreviation backslash :: char where "backslash \<equiv> CHR 0x5C"

definition hex_digit :: "nat \<Rightarrow> char" where
  "hex_digit n = (if n < 10 then char_of (48 + n) else char_of (87 + n))"

definition escape :: "char \<Rightarrow> string" where
  "escape c =
    (if c = quote then [backslash, quote]
     else if c = backslash then [backslash, backslash]
     else if c = CHR 0x0A then [backslash, CHR ''n'']
     else if c = CHR 0x0D then [backslash, CHR ''r'']
     else if c = CHR 0x09 then [backslash, CHR ''t'']
     else if c = CHR 0x08 then [backslash, CHR ''b'']
     else if c = CHR 0x0C then [backslash, CHR ''f'']
     else if (of_char c :: nat) < 32
       then [backslash, CHR ''u'', CHR ''0'', CHR ''0'', hex_digit (of_char c div 16), hex_digit (of_char c mod 16)]
     else [c])"

definition writeCanonicalString :: "string \<Rightarrow> string" where
  "writeCanonicalString s = quote # concat (map escape s) @ [quote]"

fun writeCanonicalValue :: "json \<Rightarrow> string" where
  "writeCanonicalValue JNull = ''null''"
| "writeCanonicalValue (JBool b) = (if b then ''true'' else ''false'')"
| "writeCanonicalValue (JNumber n) = n"
| "writeCanonicalValue (JString s) = writeCanonicalString s"
| "writeCanonicalValue (JArray vs) = CHR ''['' # Join CHR '','' (map writeCanonicalValue vs) @ [CHR '']'']"
| "writeCanonicalValue (JObject ms) =
    CHR ''{'' # Join CHR '','' (map (\<lambda>(k, v). writeCanonicalString k @ CHR '':'' # writeCanonicalValue v) (sort_key fst ms))
    @ [CHR ''}'']"

section \<open>The text determines the value\<close>

text \<open>Members sorted by key at every level: what is left of a value when the order of members is
  forgotten.\<close>

fun sorted_json :: "json \<Rightarrow> json" where
  "sorted_json (JArray vs) = JArray (map sorted_json vs)"
| "sorted_json (JObject ms) = JObject (sort_key fst (map (\<lambda>(k, v). (k, sorted_json v)) ms))"
| "sorted_json v = v"

definition number_char :: "char \<Rightarrow> bool" where
  "number_char c \<longleftrightarrow> is_digit c \<or> c \<in> set ''+-.eE''"

fun json_ok :: "json \<Rightarrow> bool" where
  "json_ok (JNumber n) \<longleftrightarrow> n \<noteq> [] \<and> list_all number_char n"
| "json_ok (JArray vs) \<longleftrightarrow> list_all json_ok vs"
| "json_ok (JObject ms) \<longleftrightarrow> distinct (map fst ms) \<and> list_all (\<lambda>(k, v). json_ok v) ms"
| "json_ok v \<longleftrightarrow> True"


lemma sort_key_map_same:
  assumes "\<And>x. k (f x) = k' x"
  shows "sort_key k (map f xs) = map f (sort_key k' xs)"
proof (induction xs)
  case (Cons x xs)
  have "insort_key k (f x) (map f ys) = map f (insort_key k' x ys)" for ys
    by (induction ys) (simp_all add: assms)
  with Cons show ?case by simp
qed simp

definition hex_val :: "char \<Rightarrow> nat" where
  "hex_val c = (if is_digit c then of_char c - 48 else of_char c - 87)"

lemma hex_val_digit [simp]: "n < 16 \<Longrightarrow> hex_val (hex_digit n) = n"
  by (auto simp: hex_val_def hex_digit_def is_digit_def)

text \<open>One step of reading a string back: the character an escape stands for and what follows it.\<close>

definition unescape :: "string \<Rightarrow> char \<times> string" where
  "unescape s =
    (if hd s \<noteq> backslash then (hd s, tl s)
     else let c = s ! 1 in
       if c = CHR ''u'' then (char_of (16 * hex_val (s ! 4) + hex_val (s ! 5)), drop 6 s)
       else (if c = CHR ''n'' then CHR 0x0A else if c = CHR ''r'' then CHR 0x0D else if c = CHR ''t'' then CHR 0x09
             else if c = CHR ''b'' then CHR 0x08 else if c = CHR ''f'' then CHR 0x0C else c, drop 2 s))"

lemma unescape_escape: "unescape (escape c @ x) = (c, x)"
proof (cases "c \<in> {quote, backslash, CHR 0x0A, CHR 0x0D, CHR 0x09, CHR 0x08, CHR 0x0C}")
  case True
  then show ?thesis by (auto simp: unescape_def escape_def Let_def)
next
  case False
  show ?thesis
  proof (cases "(of_char c :: nat) < 32")
    case True
    have "char_of (16 * (of_char c div 16) + of_char c mod 16 :: nat) = c" by simp
    with True False show ?thesis
      by (simp add: unescape_def escape_def Let_def del: char_of_eq_iff)
  next
    case ge: False
    with False show ?thesis by (auto simp: unescape_def escape_def)
  qed
qed

lemma escape_prefix: "escape c @ x = escape d @ y \<Longrightarrow> c = d \<and> x = y"
  by (metis unescape_escape prod.inject)

lemma escape_start: "\<exists>b bs. escape c = b # bs \<and> b \<noteq> quote"
  by (auto simp: escape_def)

lemma string_body:
  "concat (map escape s) @ quote # r = concat (map escape t) @ quote # r' \<Longrightarrow> s = t \<and> r = r'"
proof (induction s arbitrary: t)
  case Nil
  then show ?case
  proof (cases t)
    case (Cons c cs)
    then show ?thesis using Nil escape_start[of c] by auto
  qed simp
next
  case (Cons c cs)
  show ?case
  proof (cases t)
    case Nil
    then show ?thesis using Cons.prems escape_start[of c] by auto
  next
    case (Cons d ds)
    with Cons.prems have "escape c @ concat (map escape cs) @ quote # r = escape d @ concat (map escape ds) @ quote # r'"
      by simp
    from escape_prefix[OF this] Cons.IH[of ds] Cons show ?thesis by simp
  qed
qed

lemma writeCanonicalString_prefix:
  "writeCanonicalString s @ r = writeCanonicalString t @ r' \<Longrightarrow> s = t \<and> r = r'"
  using string_body[of s r t r'] by (simp add: writeCanonicalString_def)

text \<open>Nothing that follows a value can be taken for a part of it, as long as it does not begin like
  the rest of a number.\<close>

definition ends :: "string \<Rightarrow> bool" where
  "ends r \<longleftrightarrow> r = [] \<or> \<not> number_char (hd r)"

lemma ends_simps [simp]:
  "ends []" "ends (CHR '','' # r)" "ends (CHR '']'' # r)" "ends (CHR ''}'' # r)"
  by (simp_all add: ends_def number_char_def is_digit_def)

lemma number_prefix:
  assumes "list_all number_char m" "list_all number_char n" "ends r" "ends r'" "m @ r = n @ r'"
  shows "m = n \<and> r = r'"
proof -
  have "takeWhile number_char (m @ r) = m" "takeWhile number_char (n @ r') = n"
    using assms(1-4) by (auto simp: list_all_iff ends_def takeWhile_append2 neq_Nil_conv) (cases r; cases r'; simp)+
  with assms(5) show ?thesis by auto
qed

lemma value_start:
  "json_ok v \<Longrightarrow> \<exists>c cs. writeCanonicalValue v = c # cs \<and> c \<notin> set '',]}:''
     \<and> (case v of JNull \<Rightarrow> c = CHR ''n'' | JBool b \<Rightarrow> c \<in> set ''tf'' | JNumber _ \<Rightarrow> number_char c
        | JString _ \<Rightarrow> c = quote | JArray _ \<Rightarrow> c = CHR ''['' | JObject _ \<Rightarrow> c = CHR ''{'')"
  by (cases v) (auto simp: writeCanonicalString_def neq_Nil_conv number_char_def is_digit_def)

lemma starts_differ:
  "\<not> number_char CHR ''n''" "\<not> number_char CHR ''t''" "\<not> number_char CHR ''f''" "\<not> number_char quote"
  "\<not> number_char CHR ''[''" "\<not> number_char CHR ''{''"
  by (simp_all add: number_char_def is_digit_def)

text \<open>Two values with the same text are of the same kind.\<close>

lemma same_kind:
  assumes "json_ok v" "json_ok w" "writeCanonicalValue v @ r = writeCanonicalValue w @ r'"
  shows "case v of JNull \<Rightarrow> w = JNull | JBool _ \<Rightarrow> \<exists>b. w = JBool b | JNumber _ \<Rightarrow> \<exists>n. w = JNumber n
    | JString _ \<Rightarrow> \<exists>s. w = JString s | JArray _ \<Rightarrow> \<exists>vs. w = JArray vs | JObject _ \<Rightarrow> \<exists>ms. w = JObject ms"
proof -
  obtain c cs d ds where "writeCanonicalValue v = c # cs" "writeCanonicalValue w = d # ds"
    and "case v of JNull \<Rightarrow> c = CHR ''n'' | JBool b \<Rightarrow> c \<in> set ''tf'' | JNumber _ \<Rightarrow> number_char c
        | JString _ \<Rightarrow> c = quote | JArray _ \<Rightarrow> c = CHR ''['' | JObject _ \<Rightarrow> c = CHR ''{''"
    and "case w of JNull \<Rightarrow> d = CHR ''n'' | JBool b \<Rightarrow> d \<in> set ''tf'' | JNumber _ \<Rightarrow> number_char d
        | JString _ \<Rightarrow> d = quote | JArray _ \<Rightarrow> d = CHR ''['' | JObject _ \<Rightarrow> d = CHR ''{''"
    using value_start[OF assms(1)] value_start[OF assms(2)] by blast
  with assms(3) show ?thesis by (cases v; cases w) (auto simp: starts_differ)
qed

text \<open>A separated list can be read back when its items can.\<close>

lemma Join_prefix:
  assumes item: "\<And>x y r r'. x \<in> set xs \<Longrightarrow> y \<in> set ys \<Longrightarrow> ends r \<Longrightarrow> ends r' \<Longrightarrow> f x @ r = f y @ r' \<Longrightarrow> g x = g y \<and> r = r'"
    and start: "\<And>x. x \<in> set xs \<union> set ys \<Longrightarrow> \<exists>c cs. f x = c # cs \<and> c \<noteq> close"
    and close: "close \<in> set '']}''"
    and eq: "Join CHR '','' (map f xs) @ close # r = Join CHR '','' (map f ys) @ close # r'"
  shows "map g xs = map g ys \<and> r = r'"
  using assms(1,2,4)
proof (induction xs arbitrary: ys)
  case Nil
  show ?case
  proof (cases ys)
    case (Cons y zs)
    then show ?thesis using Nil(2)[of y] Nil(3) by (cases zs) auto
  qed (use Nil in simp)
next
  case (Cons x xs)
  obtain y zs where ys: "ys = y # zs" using Cons.prems(2)[of x] Cons.prems(3) by (cases ys; cases xs) auto
  define rest where "rest = (\<lambda>us q. case us of [] \<Rightarrow> close # q | _ \<Rightarrow> CHR '','' # Join CHR '','' (map f us) @ close # q)"
  have ends: "ends (rest us q)" for us q using close by (auto simp: rest_def split: list.splits)
  have unfold: "Join CHR '','' (map f (u # us)) @ close # q = f u @ rest us q" for u us q
    by (cases us) (simp_all add: rest_def)
  have step: "g x = g y \<and> rest xs r = rest zs r'"
    using Cons.prems(1)[of x y "rest xs r" "rest zs r'"] Cons.prems(3) ends
    unfolding ys unfold by simp
  then have rec: "(xs = [] \<longleftrightarrow> zs = []) \<and> Join CHR '','' (map f xs) @ close # r = Join CHR '','' (map f zs) @ close # r'"
    using close by (cases xs; cases zs) (auto simp: rest_def)
  have "map g xs = map g zs \<and> r = r'"
  proof (rule Cons.IH)
    fix x' y' q q'
    assume "x' \<in> set xs" "y' \<in> set zs" "ends q" "ends q'" "f x' @ q = f y' @ q'"
    then show "g x' = g y' \<and> q = q'" using Cons.prems(1)[of x' y' q q'] by (simp add: ys)
  qed (use Cons.prems(2) rec in \<open>auto simp: ys\<close>)
  with step show ?case by (simp add: ys)
qed

definition member :: "string \<times> json \<Rightarrow> string \<times> json" where
  "member m = (fst m, sorted_json (snd m))"

lemma sorted_json_object: "sorted_json (JObject ms) = JObject (map member (sort_key fst ms))"
proof -
  have "(\<lambda>(k, v). (k, sorted_json v)) = member" by (auto simp: member_def)
  then show ?thesis using sort_key_map_same[of fst member fst ms] by (simp add: member_def)
qed

lemma write_prefix:
  "json_ok v \<Longrightarrow> json_ok w \<Longrightarrow> ends r \<Longrightarrow> ends r' \<Longrightarrow>
     writeCanonicalValue v @ r = writeCanonicalValue w @ r' \<Longrightarrow> sorted_json v = sorted_json w \<and> r = r'"
proof (induction v arbitrary: w r r' rule: writeCanonicalValue.induct)
  case 1
  then show ?case using same_kind[OF 1(1,2,5)] by simp
next
  case (2 b)
  then show ?case using same_kind[OF 2(1,2,5)] by (auto split: if_splits)
next
  case (3 n)
  then obtain m where "w = JNumber m" using same_kind[OF 3(1,2,5)] by auto
  with 3 number_prefix[of n m r r'] show ?case by simp
next
  case (4 s)
  then obtain t where "w = JString t" using same_kind[OF 4(1,2,5)] by auto
  with 4 writeCanonicalString_prefix[of s r t r'] show ?case by simp
next
  case (5 vs)
  obtain ws where w: "w = JArray ws" using same_kind[OF 5(2,3,6)] by auto
  have ok: "json_ok x" if "x \<in> set vs \<union> set ws" for x using that 5(2,3) by (auto simp: w list_all_iff)
  have "map sorted_json vs = map sorted_json ws \<and> r = r'"
  proof (rule Join_prefix[where close = "CHR '']''" and f = writeCanonicalValue])
    fix x assume "x \<in> set vs \<union> set ws"
    then show "\<exists>c cs. writeCanonicalValue x = c # cs \<and> c \<noteq> CHR '']''" using value_start[OF ok[of x]] by fastforce
  next
    fix x y q q'
    assume x: "x \<in> set vs" and y: "y \<in> set ws" and "ends q" "ends q'" "writeCanonicalValue x @ q = writeCanonicalValue y @ q'"
    then show "sorted_json x = sorted_json y \<and> q = q'" using 5(1)[OF x] ok by blast
  qed (use 5(6) in \<open>simp_all add: w\<close>)
  then show ?case by (simp add: w)
next
  case (6 ms)
  obtain ns where w: "w = JObject ns" using same_kind[OF 6(2,3,6)] by auto
  let ?f = "\<lambda>(k, v). writeCanonicalString k @ CHR '':'' # writeCanonicalValue v"
  have ok: "json_ok (snd x)" if "x \<in> set ms \<union> set ns" for x using that 6(2,3) by (auto simp: w list_all_iff)
  have "map member (sort_key fst ms) = map member (sort_key fst ns) \<and> r = r'"
  proof (rule Join_prefix[where close = "CHR ''}''" and f = ?f])
    fix x y q q' assume in_ms: "x \<in> set (sort_key fst ms)" and in_ns: "y \<in> set (sort_key fst ns)"
      and ends: "ends q" "ends q'" and eq: "?f x @ q = ?f y @ q'"
    have parts: "fst x = fst y" "writeCanonicalValue (snd x) @ q = writeCanonicalValue (snd y) @ q'"
      using writeCanonicalString_prefix[of "fst x" "CHR '':'' # writeCanonicalValue (snd x) @ q" "fst y"] eq
      by (auto simp: case_prod_beta)
    from 6(1)[OF in_ms prod.collapse _ _ ends parts(2)] ok in_ms in_ns parts(1)
    show "member x = member y \<and> q = q'" by (simp add: member_def)
  qed (use 6(6) in \<open>auto simp: w writeCanonicalString_def\<close>)
  then show ?case by (simp add: w sorted_json_object del: sorted_json.simps)
qed


end
