(* ===== verification/Models.thy ===== *)
theory Models
  imports Json
begin

text \<open>
  The rows of the relay's tables (package \<^verbatim>\<open>models\<close>): one datatype per enumeration and one record
  per struct, with the source's names behind a prefix for the table.  \<^verbatim>\<open>big.Int\<close> columns are
  \<^verbatim>\<open>int\<close>, unsigned columns \<^verbatim>\<open>nat\<close>, nullable columns \<^verbatim>\<open>option\<close>, byte columns byte strings and
  \<^verbatim>\<open>float64\<close> columns the rational number they denote.  Columns no modelled code reads (row
  timestamps kept by gorm, JSON renderings) are left out.
\<close>

type_synonym float64 = rat
type_synonym bytes = string

section \<open>Tasks\<close>

datatype TaskStatus =
    TaskQueued
  | TaskStarted
  | TaskParametersUploaded
  | TaskErrorReported
  | TaskScoreReady
  | TaskValidated
  | TaskGroupValidated
  | TaskEndInvalidated
  | TaskEndSuccess
  | TaskEndAborted
  | TaskEndGroupRefund
  | TaskEndGroupSuccess

datatype TaskType = TaskTypeSD | TaskTypeLLM | TaskTypeSDFTLora

datatype TaskAbortReason =
    TaskAbortReasonNone
  | TaskAbortTimeout
  | TaskAbortModelDownloadFailed
  | TaskAbortIncorrectResult
  | TaskAbortTaskFeeTooLow
  | TaskAbortGroupTimeout
  | TaskAbortErrorReported
  | TaskAbortCreatorCancelled
  | TaskAbortCreatorValidationTimeout
  | TaskAbortResultUploadTimeout
  | TaskAbortNodeSlashed
  | TaskAbortModelNotAllowed

datatype TaskError = TaskErrorNone | TaskErrorParametersValidationFailed

text \<open>Task types are compared as the \<^verbatim>\<open>uint8\<close> values they are declared with.\<close>

fun TaskType_ord :: "TaskType \<Rightarrow> nat" where
  "TaskType_ord TaskTypeSD = 0"
| "TaskType_ord TaskTypeLLM = 1"
| "TaskType_ord TaskTypeSDFTLora = 2"

lemma TaskType_ord_inject [simp]: "TaskType_ord a = TaskType_ord b \<longleftrightarrow> a = b"
  by (cases a; cases b) simp_all

instantiation TaskType :: linorder
begin

definition less_eq_TaskType :: "TaskType \<Rightarrow> TaskType \<Rightarrow> bool" where
  "less_eq_TaskType a b \<longleftrightarrow> TaskType_ord a \<le> TaskType_ord b"

definition less_TaskType :: "TaskType \<Rightarrow> TaskType \<Rightarrow> bool" where
  "less_TaskType a b \<longleftrightarrow> TaskType_ord a < TaskType_ord b"

instance
  by standard (auto simp: less_eq_TaskType_def less_TaskType_def)

end

record InferenceTask =
  t_ID :: nat
  t_TaskArgs :: string
  t_TaskIDCommitment :: string
  t_Creator :: address
  t_SamplingSeed :: string
  t_Nonce :: string
  t_Status :: TaskStatus
  t_TaskType :: TaskType
  t_TaskVersion :: string
  t_ModelName :: string
  t_RequestedDType :: string
  t_ExecutionDType :: string
  t_RequiredModelFileHashes :: bytes
  t_RequiredModelFileSourceHashes :: bytes
  t_ExecutionModelFileHashes :: bytes
  t_RequestedModelCacheHash :: bytes
  t_RequireLinuxCuda :: bool
  t_Timeout :: nat
  t_QueueTimeout :: nat
  t_MinVRAM :: nat
  t_RequiredGPU :: string
  t_RequiredGPUVRAM :: nat
  t_TaskFee :: int
  t_Priority :: int
  t_EstimatedNodeSeconds :: float64
  t_VRAMWeight :: float64
  t_PricingUnits :: float64
  t_TaskSize :: nat
  t_ModelIDs :: "string list"
  t_AbortReason :: TaskAbortReason
  t_TaskError :: TaskError
  t_Score :: string
  t_QOSScore :: "int option"
  t_SelectedNode :: address
  t_ExecutionGPU :: string
  t_ExecutionGPUVRAM :: nat
  t_TaskID :: string
  t_ModelSwtiched :: bool
  t_EstimatedCompletionTime :: "time option"
  t_DeadlineAt :: "time option"
  t_CreateTime :: "time option"
  t_StartTime :: "time option"
  t_DeliveredTime :: "time option"
  t_ScoreReadyTime :: "time option"
  t_ValidatedTime :: "time option"
  t_ResultUploadedTime :: "time option"

text \<open>Statuses are stored and ordered as the numbers they are declared with.\<close>

fun task_status_num :: "TaskStatus \<Rightarrow> nat" where
  "task_status_num TaskQueued = 0"
| "task_status_num TaskStarted = 1"
| "task_status_num TaskParametersUploaded = 2"
| "task_status_num TaskErrorReported = 3"
| "task_status_num TaskScoreReady = 4"
| "task_status_num TaskValidated = 5"
| "task_status_num TaskGroupValidated = 6"
| "task_status_num TaskEndInvalidated = 7"
| "task_status_num TaskEndSuccess = 8"
| "task_status_num TaskEndAborted = 9"
| "task_status_num TaskEndGroupRefund = 10"
| "task_status_num TaskEndGroupSuccess = 11"

lemma task_status_num_inject [simp]: "task_status_num a = task_status_num b \<longleftrightarrow> a = b"
  by (cases a; cases b) simp_all

section \<open>Nodes\<close>

datatype NodeStatus =
    NodeStatusQuit
  | NodeStatusAvailable
  | NodeStatusBusy
  | NodeStatusPendingPause
  | NodeStatusPendingQuit
  | NodeStatusPaused

record Node =
  n_ID :: nat
  n_Network :: string
  n_Address :: address
  n_Status :: NodeStatus
  n_GPUName :: string
  n_GPUVram :: nat
  n_QOSScore :: float64
  n_MajorVersion :: nat
  n_MinorVersion :: nat
  n_PatchVersion :: nat
  n_JoinTime :: time
  n_StakeAmount :: int
  n_HealthBase :: float64
  n_HealthUpdatedAt :: "time option"
  n_HealthExcluded :: bool
  n_DelegatorShare :: nat
  n_CurrentTaskIDCommitment :: "string option"
  n_LastSeenTime :: "time option"

section \<open>Relay accounts, deposits and withdrawals\<close>

record RelayAccount =
  ra_Address :: address
  ra_Balance :: int

datatype RelayAccountEventStatus =
    RelayAccountEventStatusPending
  | RelayAccountEventStatusProcessed
  | RelayAccountEventStatusInvalid

datatype RelayAccountEventType =
    RelayAccountEventTypeTaskIncome
  | RelayAccountEventTypeDaoTaskShare
  | RelayAccountEventTypeWithdrawFeeIncome
  | RelayAccountEventTypeDeposit
  | RelayAccountEventTypeTaskPayment
  | RelayAccountEventTypeTaskRefund
  | RelayAccountEventTypeWithdraw
  | RelayAccountEventTypeWithdrawRefund
  | RelayAccountEventTypeUserDelegation
  | RelayAccountEventTypeVestingCreated
  | RelayAccountEventTypeVestingRelease

fun event_type_num :: "RelayAccountEventType \<Rightarrow> nat" where
  "event_type_num RelayAccountEventTypeTaskIncome = 0"
| "event_type_num RelayAccountEventTypeDaoTaskShare = 1"
| "event_type_num RelayAccountEventTypeWithdrawFeeIncome = 2"
| "event_type_num RelayAccountEventTypeDeposit = 3"
| "event_type_num RelayAccountEventTypeTaskPayment = 4"
| "event_type_num RelayAccountEventTypeTaskRefund = 5"
| "event_type_num RelayAccountEventTypeWithdraw = 6"
| "event_type_num RelayAccountEventTypeWithdrawRefund = 7"
| "event_type_num RelayAccountEventTypeUserDelegation = 8"
| "event_type_num RelayAccountEventTypeVestingCreated = 9"
| "event_type_num RelayAccountEventTypeVestingRelease = 10"

lemma event_type_num_inject [simp]: "event_type_num a = event_type_num b \<longleftrightarrow> a = b"
  by (cases a; cases b) simp_all

record RelayAccountEvent =
  re_ID :: nat
  re_CreatedAt :: time
  re_Address :: address
  re_Amount :: int
  re_Status :: RelayAccountEventStatus
  re_Reason :: string
  re_Type :: RelayAccountEventType
  re_MAC :: string

datatype DepositLocalStatus =
    DepositLocalStatusPending | DepositLocalStatusProcessed | DepositLocalStatusInvalid

record DepositRecord =
  dr_ID :: nat
  dr_Address :: address
  dr_Amount :: int
  dr_Network :: string
  dr_TxHash :: string
  dr_RelayAccountEventID :: nat
  dr_LocalStatus :: DepositLocalStatus

datatype WithdrawStatus = WithdrawStatusPending | WithdrawStatusSuccess | WithdrawStatusFailed

datatype WithdrawLocalStatus =
    WithdrawLocalStatusPending | WithdrawLocalStatusProcessed | WithdrawLocalStatusInvalid

record WithdrawRecord =
  wr_ID :: nat
  wr_CreatedAt :: time
  wr_Address :: address
  wr_BenefitAddress :: address
  wr_Amount :: int
  wr_Network :: string
  wr_Status :: WithdrawStatus
  wr_LocalStatus :: WithdrawLocalStatus
  wr_RelayAccountEventID :: nat
  wr_TxHash :: "string option"
  wr_WithdrawalFee :: int
  wr_Timestamp :: "int option"
  wr_Signature :: "string option"
  wr_MAC :: string

section \<open>Vestings and delegations\<close>

datatype VestingStatus = VestingStatusActive | VestingStatusCompleted | VestingStatusDeprecated

record VestingRecord =
  v_ID :: nat
  v_Address :: address
  v_TotalAmount :: int
  v_ReleasedAmount :: int
  v_StartTime :: time
  v_DurationDays :: nat
  v_Type :: string
  v_AdminSignature :: string
  v_Status :: VestingStatus
  v_Slashed :: bool

record Delegation =
  dg_DelegatorAddress :: address
  dg_NodeAddress :: address
  dg_Amount :: int
  dg_Slashed :: bool
  dg_Network :: string

record VestingDelegationEmissionDetail =
  vd_VestingRecordID :: nat
  vd_UserAddress :: address
  vd_NodeAddress :: address
  vd_Network :: string
  vd_TaskFee :: int
  vd_EmissionAmount :: int
  vd_StartTime :: time

section \<open>Earnings\<close>

record NodeEarning =
  ne_NodeAddress :: address
  ne_OperatorEarning :: int
  ne_DelegatorEarning :: int
  ne_Time :: "time option"

record UserEarning =
  ue_UserAddress :: address
  ue_Earning :: int
  ue_Time :: "time option"

record UserStakingEarning =
  us_UserAddress :: address
  us_NodeAddress :: address
  us_Network :: string
  us_Earning :: int
  us_Time :: "time option"

record NodeIncentive =
  ni_NodeAddress :: address
  ni_Incentive :: float64
  ni_Time :: time
  ni_TaskCount :: int
  ni_SDTaskCount :: int
  ni_LLMTaskCount :: int
  ni_SDFTLoraTaskCount :: int

section \<open>Model files\<close>

text \<open>The canonical JSON column of the catalog is kept as the entry it decodes to.\<close>

record ModelFileEntry =
  me_SourceType :: string
  me_Repository :: string
  me_Revision :: string
  me_Format :: string
  me_FormatKwargs :: "(string \<times> json) list"

record ModelFile =
  mf_ModelFileHash :: bytes
  mf_ModelFileSourceHash :: bytes
  mf_Entry :: ModelFileEntry

record NodeModel =
  nm_NodeAddress :: address
  nm_ModelFileHash :: bytes

record NodeInMemoryModel =
  im_NodeAddress :: address
  im_CurrentModelCacheHash :: bytes
  im_CurrentModelFileHashes :: bytes
  im_CurrentModelCacheConfig :: bytes
  im_ExecutionDType :: string

datatype NodeModelDownloadSelectionStatus =
    NodeModelDownloadSelectionPending
  | NodeModelDownloadSelectionCompleted
  | NodeModelDownloadSelectionExpired

record NodeModelDownloadSelection =
  ds_ID :: nat
  ds_ModelFileHash :: bytes
  ds_RequiredModelFileHashes :: bytes
  ds_RequiredModelFileSourceHashes :: bytes
  ds_NodeAddress :: address
  ds_MinVRAM :: nat
  ds_SentAt :: time
  ds_Deadline :: time
  ds_Status :: NodeModelDownloadSelectionStatus

section \<open>Slash jobs and network data\<close>

datatype DelegatedSlashJobStatus =
    DelegatedSlashJobStatusPending
  | DelegatedSlashJobStatusProcessing
  | DelegatedSlashJobStatusCompleted
  | DelegatedSlashJobStatusFailed

record DelegatedSlashJob =
  sj_NodeAddress :: address
  sj_Network :: string
  sj_Status :: DelegatedSlashJobStatus

record NetworkNodeData =
  nd_Address :: address
  nd_Network :: string
  nd_CardModel :: string
  nd_VRam :: nat
  nd_QoS :: float64
  nd_Staking :: int
  nd_HealthBase :: float64
  nd_HealthUpdatedAt :: "time option"

section \<open>Node names, slashes, chain transactions\<close>

record NodeNameCount =
  nc_GPUName :: string
  nc_GPUVram :: nat
  nc_NodeVersion :: string
  nc_ActiveCount :: nat

record NodeNameWhitelist =
  nw_GPUName :: string
  nw_GPUVram :: nat
  nw_NodeVersion :: string

datatype PendingSlashStatus = PendingSlashStatusPending | PendingSlashStatusSlashed

record PendingSlash =
  ps_ID :: nat
  ps_Status :: PendingSlashStatus
  ps_NodeAddress :: address
  ps_Network :: string
  ps_TaskIDCommitment :: string
  ps_EvidenceJSON :: string
  ps_EvidenceComplete :: bool

datatype TransactionStatus =
    TransactionStatusPending | TransactionStatusSent | TransactionStatusConfirmed | TransactionStatusFailed

record BlockchainTransaction =
  bt_ID :: nat
  bt_Network :: string
  bt_Type :: string
  bt_Status :: TransactionStatus
  bt_FromAddress :: address
  bt_ToAddress :: address
  bt_Data :: string
  bt_MaxRetries :: nat

text \<open>The rows of the \<^verbatim>\<open>events\<close> table carry the event they were made from (\<^verbatim>\<open>models/event.go\<close>):
  one constructor per event struct, with its fields.\<close>

datatype relay_event =
    TaskStartedEvent string address
  | DownloadModelEvent address "ModelFileEntry list" TaskType
  | TaskScoreReadyEvent string address string
  | TaskErrorReportedEvent string address TaskError
  | TaskValidatedEvent string address
  | TaskEndInvalidatedEvent string address
  | TaskEndGroupRefundEvent string address
  | TaskEndAbortedEvent string address TaskStatus TaskAbortReason
  | TaskEndSuccessEvent string address
  | TaskEndGroupSuccessEvent string address
  | NodeKickedOutEvent address string string
  | NodeSlashedEvent address string int string
  | NodeJoinEvent address string
  | NodeQuitEvent address nat string
  | NodeStakingEvent address int string
  | DelegatorStakingEvent address address int string
  | DelegatorUnstakingEvent address address int string
  | NodeDelegatorShareChangedEvent address nat string
  | DelegatedStakingSlashedEvent address address int string

record Event =
  e_Type :: string
  e_NodeAddress :: address
  e_TaskIDCommitment :: string
  e_Args :: relay_event

fun ToEvent :: "relay_event \<Rightarrow> Event" where
  "ToEvent (TaskStartedEvent c n) = \<lparr> e_Type = ''TaskStarted'', e_NodeAddress = n, e_TaskIDCommitment = c, e_Args = TaskStartedEvent c n \<rparr>"
| "ToEvent (DownloadModelEvent n fs t) = \<lparr> e_Type = ''DownloadModel'', e_NodeAddress = n, e_TaskIDCommitment = [], e_Args = DownloadModelEvent n fs t \<rparr>"
| "ToEvent (TaskScoreReadyEvent c n s) = \<lparr> e_Type = ''TaskScoreReady'', e_NodeAddress = n, e_TaskIDCommitment = c, e_Args = TaskScoreReadyEvent c n s \<rparr>"
| "ToEvent (TaskErrorReportedEvent c n x) = \<lparr> e_Type = ''TaskErrorReported'', e_NodeAddress = n, e_TaskIDCommitment = c, e_Args = TaskErrorReportedEvent c n x \<rparr>"
| "ToEvent (TaskValidatedEvent c n) = \<lparr> e_Type = ''TaskValidated'', e_NodeAddress = n, e_TaskIDCommitment = c, e_Args = TaskValidatedEvent c n \<rparr>"
| "ToEvent (TaskEndInvalidatedEvent c n) = \<lparr> e_Type = ''TaskEndInvalidated'', e_NodeAddress = n, e_TaskIDCommitment = c, e_Args = TaskEndInvalidatedEvent c n \<rparr>"
| "ToEvent (TaskEndGroupRefundEvent c n) = \<lparr> e_Type = ''TaskEndGroupRefund'', e_NodeAddress = n, e_TaskIDCommitment = c, e_Args = TaskEndGroupRefundEvent c n \<rparr>"
| "ToEvent (TaskEndAbortedEvent c i l r) = \<lparr> e_Type = ''TaskEndAborted'', e_NodeAddress = i, e_TaskIDCommitment = c, e_Args = TaskEndAbortedEvent c i l r \<rparr>"
| "ToEvent (TaskEndSuccessEvent c n) = \<lparr> e_Type = ''TaskEndSuccess'', e_NodeAddress = n, e_TaskIDCommitment = c, e_Args = TaskEndSuccessEvent c n \<rparr>"
| "ToEvent (TaskEndGroupSuccessEvent c n) = \<lparr> e_Type = ''TaskEndGroupSuccess'', e_NodeAddress = n, e_TaskIDCommitment = c, e_Args = TaskEndGroupSuccessEvent c n \<rparr>"
| "ToEvent (NodeKickedOutEvent n c w) = \<lparr> e_Type = ''NodeKickedOut'', e_NodeAddress = n, e_TaskIDCommitment = c, e_Args = NodeKickedOutEvent n c w \<rparr>"
| "ToEvent (NodeSlashedEvent n c a w) = \<lparr> e_Type = ''NodeSlashed'', e_NodeAddress = n, e_TaskIDCommitment = c, e_Args = NodeSlashedEvent n c a w \<rparr>"
| "ToEvent (NodeJoinEvent n w) = \<lparr> e_Type = ''NodeJoin'', e_NodeAddress = n, e_TaskIDCommitment = [], e_Args = NodeJoinEvent n w \<rparr>"
| "ToEvent (NodeQuitEvent n i w) = \<lparr> e_Type = ''NodeQuit'', e_NodeAddress = n, e_TaskIDCommitment = [], e_Args = NodeQuitEvent n i w \<rparr>"
| "ToEvent (NodeStakingEvent n a w) = \<lparr> e_Type = ''NodeStaking'', e_NodeAddress = n, e_TaskIDCommitment = [], e_Args = NodeStakingEvent n a w \<rparr>"
| "ToEvent (DelegatorStakingEvent d n a w) = \<lparr> e_Type = ''DelegatorStaking'', e_NodeAddress = n, e_TaskIDCommitment = [], e_Args = DelegatorStakingEvent d n a w \<rparr>"
| "ToEvent (DelegatorUnstakingEvent d n a w) = \<lparr> e_Type = ''DelegatorUnstaking'', e_NodeAddress = n, e_TaskIDCommitment = [], e_Args = DelegatorUnstakingEvent d n a w \<rparr>"
| "ToEvent (NodeDelegatorShareChangedEvent n h w) = \<lparr> e_Type = ''NodeDelegatorShareChanged'', e_NodeAddress = n, e_TaskIDCommitment = [], e_Args = NodeDelegatorShareChangedEvent n h w \<rparr>"
| "ToEvent (DelegatedStakingSlashedEvent d n a w) = \<lparr> e_Type = ''DelegatedStakingSlashed'', e_NodeAddress = n, e_TaskIDCommitment = [], e_Args = DelegatedStakingSlashedEvent d n a w \<rparr>"

end
