(* ===== verification/Config.thy ===== *)
theory Config
  imports Models
begin

text \<open>
  The part of the application configuration (\<^verbatim>\<open>config/app_config.go\<close>) that the modelled code
  reads, with the nested sections flattened behind prefixes, and the lookup of a network that
  funds may move on (\<^verbatim>\<open>config/funding_network.go\<close>).  Configuration is an argument of every
  operation that reads it.
\<close>

record WithdrawalFeeTierConfig =
  wt_MinAmount :: nat
  wt_FeeRatio :: float64

record SystemBlockchainConfig =
  bc_AccountAddress :: address
  bc_NodeStakingContract :: address
  bc_BenefitAddressContract :: address
  bc_MaxRetries :: nat
  bc_WithdrawalFee :: nat
  bc_WithdrawalMin :: nat
  bc_WithdrawalFeeTiers :: "WithdrawalFeeTierConfig list"
  bc_MaxWithdrawalsPerDay :: nat

record DepositWithdrawNetworkConfig =
  dw_BenefitAddress :: address
  dw_TokenAddress :: address
  dw_WithdrawalFee :: nat
  dw_WithdrawalMin :: nat
  dw_WithdrawalFeeTiers :: "WithdrawalFeeTierConfig list"
  dw_MaxWithdrawalsPerDay :: nat

datatype FundingTokenType = FundingTokenTypeNative | FundingTokenTypeERC20

record EffectiveFundingNetworkConfig =
  fn_Network :: string
  fn_TokenType :: FundingTokenType
  fn_BenefitAddress :: address
  fn_TokenAddress :: address
  fn_WithdrawalFee :: nat
  fn_WithdrawalMin :: nat
  fn_WithdrawalFeeTiers :: "WithdrawalFeeTierConfig list"
  fn_MaxWithdrawalsPerDay :: nat

record AppConfig =
  cfg_Blockchains :: "(string \<times> SystemBlockchainConfig) list"
  cfg_DepositWithdrawNetworks :: "(string \<times> DepositWithdrawNetworkConfig) list"
  cfg_VestingSignerAddress :: address
  cfg_StakeAmount :: nat
  cfg_DistanceThreshold :: nat
  cfg_ModelWhitelistEnabled :: bool
  cfg_MinimumNodeNameNumber :: nat
  cfg_NodeNameWhitelistEnabled :: bool
  cfg_PassiveSlashMode :: bool
  cfg_TimeoutQueryBatchSize :: int
  cfg_DefaultQueueTimeoutSeconds :: nat
  cfg_MaxQueueTimeoutSeconds :: nat
  cfg_AppValidationTimeoutSeconds :: nat
  cfg_ResultUploadTimeoutSeconds :: nat
  cfg_WithdrawalFeeAddress :: address
  cfg_TaskFeeShareAddress :: address
  cfg_TaskFeeSharePercent :: nat
  cfg_DepositAddress :: address
  cfg_MACSecretKey :: string
  cfg_LockedEmissionCoefficient :: float64
  cfg_ScorePoolSize :: nat
  cfg_TracingMaxTaskEvents :: nat
  cfg_KickoutThreshold :: float64
  cfg_RejoinQosLongFloor :: float64
  cfg_PenaltyFactor :: float64
  cfg_FirstTimeoutPenaltyFactor :: float64
  cfg_FirstTimeoutHealthThreshold :: float64
  cfg_SuccessBoost :: float64
  cfg_RecoveryTauMinutes :: float64
  cfg_HealthExcludeEnterThreshold :: float64
  cfg_HealthExcludeExitThreshold :: float64

definition GetEffectiveFundingNetwork ::
  "AppConfig \<Rightarrow> string \<Rightarrow> EffectiveFundingNetworkConfig option" where
  "GetEffectiveFundingNetwork cfg network =
    (case map_of (cfg_Blockchains cfg) network of
       Some b \<Rightarrow> Some \<lparr> fn_Network = network, fn_TokenType = FundingTokenTypeNative,
                      fn_BenefitAddress = bc_BenefitAddressContract b, fn_TokenAddress = [],
                      fn_WithdrawalFee = bc_WithdrawalFee b, fn_WithdrawalMin = bc_WithdrawalMin b,
                      fn_WithdrawalFeeTiers = bc_WithdrawalFeeTiers b,
                      fn_MaxWithdrawalsPerDay = bc_MaxWithdrawalsPerDay b \<rparr>
     | None \<Rightarrow>
         (case map_of (cfg_DepositWithdrawNetworks cfg) network of
            Some d \<Rightarrow> Some \<lparr> fn_Network = network, fn_TokenType = FundingTokenTypeERC20,
                           fn_BenefitAddress = dw_BenefitAddress d, fn_TokenAddress = dw_TokenAddress d,
                           fn_WithdrawalFee = dw_WithdrawalFee d, fn_WithdrawalMin = dw_WithdrawalMin d,
                           fn_WithdrawalFeeTiers = dw_WithdrawalFeeTiers d,
                           fn_MaxWithdrawalsPerDay = dw_MaxWithdrawalsPerDay d \<rparr>
          | None \<Rightarrow> None))"

text \<open>A configuration to run the model with: one chain, the default shares and timeouts.\<close>

definition sample_chain :: SystemBlockchainConfig where
  "sample_chain = \<lparr> bc_AccountAddress = ''account'', bc_NodeStakingContract = ''staking'',
     bc_BenefitAddressContract = ''benefit'', bc_MaxRetries = 3, bc_WithdrawalFee = 1, bc_WithdrawalMin = 1,
     bc_WithdrawalFeeTiers = [], bc_MaxWithdrawalsPerDay = 2 \<rparr>"

definition sample_cfg :: AppConfig where
  "sample_cfg = \<lparr> cfg_Blockchains = [(''n'', sample_chain)], cfg_DepositWithdrawNetworks = [],
     cfg_VestingSignerAddress = ''signer'', cfg_StakeAmount = 400, cfg_DistanceThreshold = 5,
     cfg_ModelWhitelistEnabled = False, cfg_MinimumNodeNameNumber = 3, cfg_NodeNameWhitelistEnabled = False,
     cfg_PassiveSlashMode = False, cfg_TimeoutQueryBatchSize = 100, cfg_DefaultQueueTimeoutSeconds = 180,
     cfg_MaxQueueTimeoutSeconds = 3600, cfg_AppValidationTimeoutSeconds = 300,
     cfg_ResultUploadTimeoutSeconds = 300, cfg_WithdrawalFeeAddress = ''fees'',
     cfg_TaskFeeShareAddress = ''dao'', cfg_TaskFeeSharePercent = 10, cfg_DepositAddress = ''deposit'',
     cfg_MACSecretKey = ''key'', cfg_LockedEmissionCoefficient = 1, cfg_ScorePoolSize = 50, cfg_TracingMaxTaskEvents = 50,
     cfg_KickoutThreshold = 2, cfg_RejoinQosLongFloor = 1 / 2, cfg_PenaltyFactor = 1 / 2,
     cfg_FirstTimeoutPenaltyFactor = 1 / 2, cfg_FirstTimeoutHealthThreshold = 3 / 4,
     cfg_SuccessBoost = 1 / 8, cfg_RecoveryTauMinutes = 30,
     cfg_HealthExcludeEnterThreshold = 1 / 4, cfg_HealthExcludeExitThreshold = 1 / 2 \<rparr>"

end
