(* ===== verification/Emission.thy ===== *)
theory Emission
  imports GoStd
begin

text \<open>
  The token emission calendar of \<^verbatim>\<open>service/emission.go\<close>: the weekly bootstrap emission table of
  years 1 to 20, the share of it that goes to nodes, the week a moment falls in, and the chart
  ranges.  All quantities are Go \<^verbatim>\<open>int\<close> and \<^verbatim>\<open>int64\<close> values that stay far inside their width (the
  largest product formed is about 3e8); durations wrap at 64 bits as Go's do.  The lemmas show
  that the table emits exactly a fifth of the total supply, that the transition rule of year 1
  distributes its target exactly, and that the week computed for a moment contains it.
\<close>

section \<open>Definitions\<close>

definition emissionWeeksPerYear :: int where "emissionWeeksPerYear = 52"

definition maxEmissionYear :: int where "maxEmissionYear = 20"

definition defaultChartWeeks :: int where "defaultChartWeeks = 24"

definition maxChartWeeks :: int where "maxChartWeeks = 260"

definition emissionWeekDuration :: duration where
  "emissionWeekDuration = 7 * 24 * time_Hour"

definition cnxTotalSupplyCNX :: int where "cnxTotalSupplyCNX = 8617333262"

definition year0TreasuryAllocationPercent :: int where "year0TreasuryAllocationPercent = 6"

definition bootstrapNodeAllocationPercent :: int where "bootstrapNodeAllocationPercent = 80"

definition bootstrapTreasuryAllocationPercent :: int where
  "bootstrapTreasuryAllocationPercent = 20"

definition year1NodeBootstrapTargetCNX :: int where "year1NodeBootstrapTargetCNX = 74318067"

definition year1NodeReleasedBeforeTransitionCNX :: int where
  "year1NodeReleasedBeforeTransitionCNX = 16240159"

definition year1TransitionFirstEmissionWeekIndex :: int where
  "year1TransitionFirstEmissionWeekIndex = 9"

definition year1TransitionEmissionCount :: int where
  "year1TransitionEmissionCount = emissionWeeksPerYear - year1TransitionFirstEmissionWeekIndex"

definition bootstrapFinalWeekRemainderCNX :: int where "bootstrapFinalWeekRemainderCNX = 24"

definition year1TransitionTime :: "time option" where
  "year1TransitionTime = Parse_RFC3339 ''2026-08-26T00:00:00Z''"

lemmas emission_consts = emissionWeeksPerYear_def maxEmissionYear_def defaultChartWeeks_def
  maxChartWeeks_def cnxTotalSupplyCNX_def year0TreasuryAllocationPercent_def
  bootstrapNodeAllocationPercent_def bootstrapTreasuryAllocationPercent_def
  year1NodeBootstrapTargetCNX_def year1NodeReleasedBeforeTransitionCNX_def
  year1TransitionFirstEmissionWeekIndex_def year1TransitionEmissionCount_def
  bootstrapFinalWeekRemainderCNX_def

definition weeklyEmissionCNXByYear :: "int list" where
  "weeklyEmissionCNXByYear =
    [1786492, 2727986, 3042483, 3101410, 3010312,
     2827694, 2592055, 2330245, 2061165, 1797889,
     1549089, 1320097, 1113750, 931051, 771710,
     634560, 517890, 419687, 337827, 270197]"

record EmissionWeekInfo =
  ew_WeekIndex :: int
  ew_YearIndex :: int
  ew_WeekStartDate :: time
  ew_WeekEndDate :: time
  ew_WeeklyEmissionCNX :: int
  ew_NodeEmissionPoolCNX :: int

record EmissionChartRange =
  cr_MainnetWeekStart :: time
  cr_RangeStart :: time
  cr_RangeEnd :: time
  cr_WeekStarts :: "time list"

definition weeklyBootstrapEmissionCNX :: "int \<Rightarrow> int" where
  "weeklyBootstrapEmissionCNX weekIndex =
    (let yearIndex = go_quo weekIndex emissionWeeksPerYear + 1 in
     if yearIndex < 1 \<or> maxEmissionYear < yearIndex then 0
     else let weeklyEmission = weeklyEmissionCNXByYear ! nat (yearIndex - 1) in
          if weekIndex = maxEmissionYear * emissionWeeksPerYear - 1
          then weeklyEmission + bootstrapFinalWeekRemainderCNX
          else weeklyEmission)"

definition nodeBootstrapEmissionCNX :: "int \<Rightarrow> int" where
  "nodeBootstrapEmissionCNX weekIndex =
    (let yearIndex = go_quo weekIndex emissionWeeksPerYear + 1 in
     if yearIndex < 1 \<or> maxEmissionYear < yearIndex then 0
     else if yearIndex = 1 then
       (if weekIndex < year1TransitionFirstEmissionWeekIndex then 0
        else let remaining = year1NodeBootstrapTargetCNX - year1NodeReleasedBeforeTransitionCNX;
                 emissionCount = year1TransitionEmissionCount;
                 base = go_quo remaining emissionCount
             in if weekIndex = emissionWeeksPerYear - 1
                then base + go_rem remaining emissionCount else base)
     else go_quo (weeklyBootstrapEmissionCNX weekIndex * bootstrapNodeAllocationPercent) 100)"

definition EtherToWei :: "int \<Rightarrow> int" where
  "EtherToWei ether = ether * 10 ^ 18"

definition cnxToWei :: "int \<Rightarrow> int" where
  "cnxToWei amount = EtherToWei amount"

definition supplyPercent :: "int \<Rightarrow> int \<Rightarrow> int" where
  "supplyPercent totalSupply percent = (totalSupply * percent) div 100"

definition GetCNXTotalSupply :: int where
  "GetCNXTotalSupply = cnxToWei cnxTotalSupplyCNX"

definition ParseMainnetAlignedWeekStart :: "string \<Rightarrow> go_error + time" where
  "ParseMainnetAlignedWeekStart raw =
    (if raw = [] then Inl ErrMainnetStartTimeNotSet
     else case Parse_RFC3339 raw of
            None \<Rightarrow> Inl ErrInvalidMainnetStart
          | Some t \<Rightarrow> Inr (day_start t))"

definition parseMainnetStartDate :: "string \<Rightarrow> go_error + time" where
  "parseMainnetStartDate raw = ParseMainnetAlignedWeekStart raw"

definition week_info :: "time \<Rightarrow> int \<Rightarrow> go_error + EmissionWeekInfo" where
  "week_info startDate weekIndex =
    (let yearIndex = go_quo weekIndex emissionWeeksPerYear + 1 in
     if yearIndex < 1 \<or> maxEmissionYear < yearIndex then Inl ErrEmissionWeekOutOfRange
     else let weekStart = startDate + wrap64 (weekIndex * emissionWeekDuration) in
          Inr \<lparr> ew_WeekIndex = weekIndex, ew_YearIndex = yearIndex, ew_WeekStartDate = weekStart,
                ew_WeekEndDate = weekStart + emissionWeekDuration,
                ew_WeeklyEmissionCNX = weeklyBootstrapEmissionCNX weekIndex,
                ew_NodeEmissionPoolCNX = nodeBootstrapEmissionCNX weekIndex \<rparr>)"

definition GetPreviousEmissionWeekInfo :: "time \<Rightarrow> string \<Rightarrow> go_error + EmissionWeekInfo" where
  "GetPreviousEmissionWeekInfo now mainnetStartTime =
    (case parseMainnetStartDate mainnetStartTime of
       Inl e \<Rightarrow> Inl e
     | Inr startDate \<Rightarrow>
         (let completedWeeks = go_quo (time_Sub now startDate) emissionWeekDuration in
          if completedWeeks \<le> 0 then Inl ErrNoCompletedEmissionWeek
          else week_info startDate (completedWeeks - 1)))"

definition GetCurrentEmissionWeekInfo :: "time \<Rightarrow> string \<Rightarrow> go_error + EmissionWeekInfo" where
  "GetCurrentEmissionWeekInfo now mainnetStartTime =
    (case parseMainnetStartDate mainnetStartTime of
       Inl e \<Rightarrow> Inl e
     | Inr startDate \<Rightarrow>
         (let elapsedWeeks = go_quo (time_Sub now startDate) emissionWeekDuration in
          week_info startDate (if elapsedWeeks < 0 then 0 else elapsedWeeks)))"

definition NormalizeToUTCWeekStart :: "time \<Rightarrow> time" where
  "NormalizeToUTCWeekStart t =
    (let utcDay = day_start t;
         weekday = (utcDay div time_Day + 4) mod 7;
         offset = go_rem (weekday + 6) 7
     in utcDay - offset * time_Day)"

definition ClampChartWeeks :: "int option \<Rightarrow> go_error + int" where
  "ClampChartWeeks weeks =
    (let v = (case weeks of None \<Rightarrow> defaultChartWeeks | Some w \<Rightarrow> w) in
     if v \<le> 0 \<or> maxChartWeeks < v then Inl ErrInvalidChartWeeks else Inr v)"

definition BuildEmissionChartRange :: "time \<Rightarrow> string \<Rightarrow> int \<Rightarrow> go_error + EmissionChartRange" where
  "BuildEmissionChartRange now mainnetStartTime weeks =
    (if weeks \<le> 0 \<or> maxChartWeeks < weeks then Inl ErrInvalidChartWeeks
     else case ParseMainnetAlignedWeekStart mainnetStartTime of
       Inl e \<Rightarrow> Inl e
     | Inr mainnetWeekStart \<Rightarrow>
         (let q = go_quo (time_Sub now mainnetWeekStart) emissionWeekDuration;
              elapsedWeeks = (if q < 0 then 0 else q);
              currentWeekStart = mainnetWeekStart + wrap64 (elapsedWeeks * emissionWeekDuration);
              rangeStart = currentWeekStart + wrap64 (- (weeks - 1) * emissionWeekDuration)
          in Inr \<lparr> cr_MainnetWeekStart = mainnetWeekStart, cr_RangeStart = rangeStart,
                   cr_RangeEnd = currentWeekStart + emissionWeekDuration,
                   cr_WeekStarts = map (\<lambda>i. rangeStart + wrap64 (int i * emissionWeekDuration))
                                       [0..<nat weeks] \<rparr>))"

definition AlignToMainnetEmissionWeekStart :: "time \<Rightarrow> time \<Rightarrow> time option" where
  "AlignToMainnetEmissionWeekStart vestingStartTime mainnetWeekStart =
    (if vestingStartTime < mainnetWeekStart then None
     else let weekIndex = go_quo (time_Sub vestingStartTime mainnetWeekStart) emissionWeekDuration
          in Some (mainnetWeekStart + wrap64 (weekIndex * emissionWeekDuration)))"

section \<open>The emission table\<close>

lemma year_of_week:
  "go_quo (int w) emissionWeeksPerYear + 1 = int (w div 52) + 1"
  by (simp add: emission_consts zdiv_int)

lemma weekly_table:
  assumes "w < 1040"
  shows "weeklyBootstrapEmissionCNX (int w) =
    weeklyEmissionCNXByYear ! (w div 52) + (if w = 1039 then 24 else 0)"
proof -
  have "w div 52 < 20" using assms by (simp add: div_less_iff_less_mult)
  moreover have "int w = 1039 \<longleftrightarrow> w = 1039" by simp
  ultimately show ?thesis
    unfolding weeklyBootstrapEmissionCNX_def year_of_week by (simp add: emission_consts Let_def)
qed

lemma weekly_outside: "1040 \<le> w \<Longrightarrow> weeklyBootstrapEmissionCNX (int w) = 0"
proof -
  assume "1040 \<le> w"
  then have "20 \<le> w div 52" by simp
  then show ?thesis
    unfolding weeklyBootstrapEmissionCNX_def year_of_week by (simp add: emission_consts Let_def)
qed

lemma weeklyEmissionCNXByYear_nonneg: "y < 20 \<Longrightarrow> 0 < weeklyEmissionCNXByYear ! y"
  by (auto simp: weeklyEmissionCNXByYear_def less_Suc_eq numeral_eq_Suc)

lemma weekly_nonneg: "0 \<le> weeklyBootstrapEmissionCNX (int w)"
proof (cases "w < 1040")
  case True
  then have "w div 52 < 20" by simp
  from weeklyEmissionCNXByYear_nonneg[OF this] True show ?thesis by (simp add: weekly_table)
qed (simp add: weekly_outside)

lemma sum_by_blocks:
  fixes f :: "nat \<Rightarrow> int"
  assumes "0 < k"
  shows "(\<Sum>w<k * n. f (w div k)) = int k * (\<Sum>y<n. f y)"
proof (induction n)
  case (Suc n)
  have "(\<Sum>w<k * Suc n. f (w div k)) = (\<Sum>w<k * n. f (w div k)) + (\<Sum>w\<in>{k * n..<k * n + k}. f (w div k))"
    using sum.union_disjoint[of "{..<k * n}" "{k * n..<k * n + k}" "\<lambda>w. f (w div k)"]
    by (simp add: ivl_disj_un ivl_disj_int add.commute)
  moreover have "f (w div k) = f n" if "w \<in> {k * n..<k * n + k}" for w
    using that assms by (metis add.commute atLeastLessThan_iff div_nat_eqI mult.commute mult_Suc_right)
  ultimately show ?case using Suc by (simp add: algebra_simps)
qed simp

text \<open>
  C12: the bootstrap emissions of the 1,040 weeks of years 1 to 20 add up to exactly 20 percent of
  the total supply rounded down to whole CNX, and no week after them emits anything.
\<close>

theorem emission_total:
  "(\<Sum>w<1040. weeklyBootstrapEmissionCNX (int w)) = 1723466652
   \<and> supplyPercent cnxTotalSupplyCNX 20 = 1723466652
   \<and> (\<Sum>w<1040 + n. weeklyBootstrapEmissionCNX (int w)) = 1723466652"
proof -
  have "(\<Sum>w<1040. weeklyBootstrapEmissionCNX (int w)) =
    (\<Sum>w<1040. weeklyEmissionCNXByYear ! (w div 52) + (if w = 1039 then 24 else 0))"
    by (rule sum.cong) (simp_all add: weekly_table)
  also have "\<dots> = (\<Sum>w<52 * 20. weeklyEmissionCNXByYear ! (w div 52)) + 24"
    by (simp add: sum.distrib)
  also have "\<dots> = 52 * (\<Sum>y<20. weeklyEmissionCNXByYear ! y) + 24"
    using sum_by_blocks[of 52 "\<lambda>y. weeklyEmissionCNXByYear ! y" 20] by simp
  also have "\<dots> = 1723466652"
    by (simp add: weeklyEmissionCNXByYear_def eval_nat_numeral)
  finally have total: "(\<Sum>w<1040. weeklyBootstrapEmissionCNX (int w)) = 1723466652" .
  moreover have "(\<Sum>w<1040 + n. weeklyBootstrapEmissionCNX (int w)) =
      (\<Sum>w<1040. weeklyBootstrapEmissionCNX (int w))"
    by (rule sum.mono_neutral_right) (auto simp: weekly_outside)
  ultimately show ?thesis by (simp add: supplyPercent_def cnxTotalSupplyCNX_def)
qed

lemma node_first_year:
  assumes "w < 52"
  shows "nodeBootstrapEmissionCNX (int w) =
    (if w < 9 then 0 else if w = 51 then 1350649 + 1 else 1350649)"
proof -
  have "w div 52 = 0" using assms by simp
  then show ?thesis
    unfolding nodeBootstrapEmissionCNX_def year_of_week by (auto simp: emission_consts Let_def)
qed

lemma node_later_years:
  assumes "52 \<le> w" "w < 1040"
  shows "nodeBootstrapEmissionCNX (int w) = weeklyBootstrapEmissionCNX (int w) * 80 div 100"
proof -
  have "1 \<le> w div 52" "w div 52 < 20" using assms by (simp_all add: div_less_iff_less_mult)
  then show ?thesis
    unfolding nodeBootstrapEmissionCNX_def year_of_week
    using weekly_nonneg[of w] by (auto simp: emission_consts Let_def)
qed

lemma node_outside: "1040 \<le> w \<Longrightarrow> nodeBootstrapEmissionCNX (int w) = 0"
proof -
  assume "1040 \<le> w"
  then have "20 \<le> w div 52" by simp
  then show ?thesis
    unfolding nodeBootstrapEmissionCNX_def year_of_week by (simp add: emission_consts Let_def)
qed

lemma weekly_first_year: "w < 52 \<Longrightarrow> weeklyBootstrapEmissionCNX (int w) = 1786492"
  by (simp add: weekly_table weeklyEmissionCNXByYear_def)

text \<open>
  C13: the node pools of year 1 hand out exactly what the year's target leaves after the pools
  released before the transition, and in every week the node pool and the treasury's 20 percent
  share together never exceed the week's emission.
\<close>

theorem node_pools_fit:
  "(\<Sum>w<52. nodeBootstrapEmissionCNX (int w)) =
     year1NodeBootstrapTargetCNX - year1NodeReleasedBeforeTransitionCNX
   \<and> 0 \<le> nodeBootstrapEmissionCNX (int w)
   \<and> nodeBootstrapEmissionCNX (int w)
       + go_quo (weeklyBootstrapEmissionCNX (int w) * bootstrapTreasuryAllocationPercent) 100
     \<le> weeklyBootstrapEmissionCNX (int w)"
proof -
  have "(\<Sum>w<52. nodeBootstrapEmissionCNX (int w)) =
    (\<Sum>w<52::nat. (if w < 9 then 0 else 1350649) + (if w = 51 then 1 else 0))"
    by (rule sum.cong) (auto simp: node_first_year)
  also have "\<dots> = (\<Sum>w\<in>{..<52::nat} - {..<9}. 1350649) + 1"
    unfolding sum.distrib by (intro arg_cong2[where f = plus]
      sum.mono_neutral_cong_right[where S = "{..<52} - {..<9}"]) auto
  also have "\<dots> = year1NodeBootstrapTargetCNX - year1NodeReleasedBeforeTransitionCNX"
    by (simp add: card_Diff_subset emission_consts)
  finally have year1: "(\<Sum>w<52. nodeBootstrapEmissionCNX (int w)) =
    year1NodeBootstrapTargetCNX - year1NodeReleasedBeforeTransitionCNX" .
  have share: "go_quo (weeklyBootstrapEmissionCNX (int w) * bootstrapTreasuryAllocationPercent) 100 =
    weeklyBootstrapEmissionCNX (int w) * 20 div 100"
    using weekly_nonneg[of w] by (simp add: emission_consts)
  consider "w < 52" | "52 \<le> w" "w < 1040" | "1040 \<le> w" by linarith
  then show ?thesis
  proof cases
    case 1
    then show ?thesis using year1 share by (auto simp: node_first_year weekly_first_year)
  next
    case 2
    then show ?thesis using year1 share weekly_nonneg[of w] by (simp add: node_later_years) linarith
  next
    case 3
    then show ?thesis using year1 share by (simp add: node_outside weekly_outside)
  qed
qed

section \<open>Weeks and chart ranges\<close>

lemma week_pos: "0 < emissionWeekDuration"
  by (simp add: emissionWeekDuration_def time_units)

lemma week_value: "emissionWeekDuration = 604800000000000"
  by (simp add: emissionWeekDuration_def time_units)

lemma weeks_int64:
  assumes "int64 d" "0 \<le> d"
  shows "int64 (d div emissionWeekDuration * emissionWeekDuration)"
proof -
  have "d div emissionWeekDuration * emissionWeekDuration \<le> d"
    using week_pos minus_mod_eq_div_mult[of d emissionWeekDuration] pos_mod_sign[of emissionWeekDuration d]
    by linarith
  moreover have "0 \<le> d div emissionWeekDuration * emissionWeekDuration"
    using assms(2) week_pos by (simp add: pos_imp_zdiv_nonneg_iff)
  ultimately show ?thesis using assms(1) by (simp add: int64_def)
qed

lemma week_start_contains:
  assumes "s \<le> t" "int64 (t - s)"
  defines "q \<equiv> go_quo (time_Sub t s) emissionWeekDuration"
  shows "0 \<le> q" "s + wrap64 (q * emissionWeekDuration) \<le> t"
    "t < s + wrap64 (q * emissionWeekDuration) + emissionWeekDuration"
proof -
  have q: "q = (t - s) div emissionWeekDuration"
    using assms week_pos by (simp add: q_def time_Sub_exact)
  then have w: "wrap64 (q * emissionWeekDuration) = (t - s) div emissionWeekDuration * emissionWeekDuration"
    using weeks_int64[of "t - s"] assms(1,2) by simp
  show "0 \<le> q" using q assms(1) week_pos by (simp add: pos_imp_zdiv_nonneg_iff)
  have m: "(t - s) div emissionWeekDuration * emissionWeekDuration = (t - s) - (t - s) mod emissionWeekDuration"
    by (simp add: minus_mod_eq_div_mult)
  show "s + wrap64 (q * emissionWeekDuration) \<le> t"
    using week_pos by (simp add: w m)
  show "t < s + wrap64 (q * emissionWeekDuration) + emissionWeekDuration"
    using week_pos pos_mod_bound[of emissionWeekDuration "t - s"] by (simp add: w m)
qed

lemma elapsed_weeks:
  assumes "s \<le> now"
  shows "go_quo (time_Sub now s) emissionWeekDuration = min 15250 ((now - s) div emissionWeekDuration)"
proof -
  have "time_Sub now s = min (2 ^ 63 - 1) (now - s)"
    using assms by (simp add: time_Sub_def)
  moreover have "min (2 ^ 63 - 1) d div emissionWeekDuration = min 15250 (d div emissionWeekDuration)" for d
    using zdiv_mono1[of "2 ^ 63 - 1" d emissionWeekDuration] zdiv_mono1[of d "2 ^ 63 - 1" emissionWeekDuration]
    by (simp add: week_value min_def) linarith
  moreover have "0 \<le> time_Sub now s" using assms by (simp add: time_Sub_def)
  ultimately show ?thesis using week_pos by simp
qed

lemma week_info_simp:
  assumes "0 \<le> w"
  shows "week_info s w =
    (if w < 1040 then
       Inr \<lparr> ew_WeekIndex = w, ew_YearIndex = w div 52 + 1,
             ew_WeekStartDate = s + w * emissionWeekDuration,
             ew_WeekEndDate = s + w * emissionWeekDuration + emissionWeekDuration,
             ew_WeeklyEmissionCNX = weeklyBootstrapEmissionCNX w,
             ew_NodeEmissionPoolCNX = nodeBootstrapEmissionCNX w \<rparr>
     else Inl ErrEmissionWeekOutOfRange)"
proof -
  have "int64 (w * emissionWeekDuration)" if "w < 1040"
    using that assms by (simp add: int64_def week_value)
  moreover have "20 < w div 52 + 1 \<longleftrightarrow> \<not> w < 1040" "\<not> w div 52 + 1 < 1" using assms by linarith+
  ultimately show ?thesis
    using assms by (simp add: week_info_def emission_consts Let_def)
qed

lemma div_week_bounds:
  "d div emissionWeekDuration * emissionWeekDuration \<le> d"
  "d < d div emissionWeekDuration * emissionWeekDuration + emissionWeekDuration"
  using week_pos pos_mod_bound[of emissionWeekDuration d] pos_mod_sign[of emissionWeekDuration d]
    div_mult_mod_eq[of d emissionWeekDuration] by linarith+



lemma align_week:
  assumes "s \<le> t" "int64 (t - s)"
  shows "AlignToMainnetEmissionWeekStart t s =
    Some (s + (t - s) div emissionWeekDuration * emissionWeekDuration)"
  using assms weeks_int64[of "t - s"] week_pos
  by (simp add: AlignToMainnetEmissionWeekStart_def time_Sub_exact Let_def)

lemma chart_range_simp:
  assumes "0 < weeks" "weeks \<le> 260" "ParseMainnetAlignedWeekStart raw = Inr s" "s \<le> now"
    "int64 (now - s)"
  defines "cur \<equiv> s + (now - s) div emissionWeekDuration * emissionWeekDuration"
  shows "BuildEmissionChartRange now raw weeks =
    Inr \<lparr> cr_MainnetWeekStart = s, cr_RangeStart = cur - (weeks - 1) * emissionWeekDuration,
          cr_RangeEnd = cur + emissionWeekDuration,
          cr_WeekStarts = map (\<lambda>i. cur - (weeks - 1) * emissionWeekDuration + int i * emissionWeekDuration)
                              [0..<nat weeks] \<rparr>"
proof -
  have "0 \<le> (now - s) div emissionWeekDuration"
    using assms(4) week_pos by (simp add: pos_imp_zdiv_nonneg_iff)
  moreover have "int64 (int i * emissionWeekDuration)" if "i < nat weeks" for i
    using that assms(1,2) by (simp add: int64_def week_value)
  moreover have "int64 ((1 - weeks) * emissionWeekDuration)"
    using assms(1,2) by (simp add: int64_def week_value)
  ultimately show ?thesis
    using assms weeks_int64[of "now - s"] week_pos
    by (simp add: BuildEmissionChartRange_def emission_consts time_Sub_exact Let_def algebra_simps)
qed



end
