(* ===== verification/VestingSchedule.thy ===== *)
theory VestingSchedule
  imports Models
begin

text \<open>
  The pure part of \<^verbatim>\<open>models/vesting.go\<close>: how much of a vesting is released at a moment, how much is
  still locked, and the reason strings that tie a ledger event to its vesting.  The lemmas show
  the schedule to be a monotone staircase from nothing to the full amount, that locked and
  released parts add up, and that the reason strings can be read back and never collide.
\<close>

section \<open>The schedule\<close>

definition ComputeVestingShouldReleased :: "int \<Rightarrow> time \<Rightarrow> nat \<Rightarrow> time \<Rightarrow> int" where
  "ComputeVestingShouldReleased totalAmount startTime durationDays now =
    (if totalAmount \<le> 0 \<or> durationDays = 0 then 0
     else if now < startTime then 0
     else let startDay = day_start startTime; nowDay = day_start now;
              elapsedDays = go_quo (time_Sub nowDay startDay) (24 * time_Hour)
          in if int durationDays \<le> elapsedDays then totalAmount
             else (totalAmount * elapsedDays) div int durationDays)"

definition LockedAmountAt :: "VestingRecord \<Rightarrow> time \<Rightarrow> int" where
  "LockedAmountAt v now =
    (if v_Status v = VestingStatusDeprecated then 0
     else let locked = v_TotalAmount v -
            ComputeVestingShouldReleased (v_TotalAmount v) (v_StartTime v) (v_DurationDays v) now
          in if locked < 0 then 0 else locked)"

section \<open>Reasons\<close>

definition FormatInt :: "int \<Rightarrow> string" where
  "FormatInt n = (if n < 0 then CHR ''-'' # FormatUint (nat (- n)) else FormatUint (nat n))"

definition SetString10 :: "string \<Rightarrow> int option" where
  "SetString10 s =
    (case s of
       [] \<Rightarrow> None
     | c # r \<Rightarrow>
         if c = CHR ''-'' then (if r = [] then None else map_option (\<lambda>n. - int n) (dec_val 0 r))
         else if c = CHR ''+'' then (if r = [] then None else map_option int (dec_val 0 r))
         else map_option int (dec_val 0 s))"

abbreviation dash :: char where "dash \<equiv> CHR ''-''"

definition BuildVestingCreatedReason :: "VestingRecord \<Rightarrow> string" where
  "BuildVestingCreatedReason v =
    FormatUint (event_type_num RelayAccountEventTypeVestingCreated) @ dash # FormatUint (v_ID v)"

definition BuildVestingReleaseReason :: "nat \<Rightarrow> int \<Rightarrow> int \<Rightarrow> string" where
  "BuildVestingReleaseReason vestingID fromReleased toReleased =
    FormatUint (event_type_num RelayAccountEventTypeVestingRelease) @ dash #
    FormatUint vestingID @ dash # FormatInt fromReleased @ dash # FormatInt toReleased"

definition ParseVestingCreatedReason :: "string \<Rightarrow> nat option" where
  "ParseVestingCreatedReason reason =
    (case SplitN dash 2 reason of
       [p0, p1] \<Rightarrow>
         if p0 \<noteq> FormatUint (event_type_num RelayAccountEventTypeVestingCreated) then None
         else (case ParseUint p1 of
                 None \<Rightarrow> None
               | Some vestingID \<Rightarrow> if vestingID = 0 then None else Some vestingID)
     | _ \<Rightarrow> None)"

definition ParseVestingReleaseReason :: "string \<Rightarrow> (nat \<times> int \<times> int) option" where
  "ParseVestingReleaseReason reason =
    (case SplitN dash 4 reason of
       [p0, p1, p2, p3] \<Rightarrow>
         if p0 \<noteq> FormatUint (event_type_num RelayAccountEventTypeVestingRelease) then None
         else (case ParseUint p1 of
                 None \<Rightarrow> None
               | Some vestingID \<Rightarrow>
                   (case SetString10 p2 of
                      None \<Rightarrow> None
                    | Some fromReleased \<Rightarrow>
                        (case SetString10 p3 of
                           None \<Rightarrow> None
                         | Some toReleased \<Rightarrow> Some (vestingID, fromReleased, toReleased))))
     | _ \<Rightarrow> None)"

text \<open>\<^verbatim>\<open>splitRelayAccountEventReason\<close> of \<^verbatim>\<open>service/relay_account.go\<close>: the pieces of a reason, when
  it has as many as its event type needs and starts with the type's number.\<close>

definition splitRelayAccountEventReason ::
  "RelayAccountEventType \<Rightarrow> string \<Rightarrow> string list option" where
  "splitRelayAccountEventReason eventType reason =
    (let eventTypeStr = FormatUint (event_type_num eventType);
         n = (if eventType = RelayAccountEventTypeDeposit
                 \<or> eventType = RelayAccountEventTypeUserDelegation then 3
              else if eventType = RelayAccountEventTypeVestingRelease then 4 else 2);
         parts = SplitN dash n reason
     in if length parts \<noteq> n \<or> parts ! 0 \<noteq> eventTypeStr then None else Some parts)"

section \<open>The schedule is a staircase\<close>

lemma day_index_nonneg: "0 < time_Day" by (simp add: time_units)

lemma day_start_mono: "t \<le> u \<Longrightarrow> day_start t \<le> day_start u"
proof -
  assume "t \<le> u"
  then have "t div time_Day \<le> u div time_Day" by (simp add: zdiv_mono1 day_index_nonneg)
  then show ?thesis
    using day_index_nonneg by (simp add: day_start_def minus_mod_eq_div_mult mult_right_mono)
qed

lemma time_Sub_mono: "t \<le> u \<Longrightarrow> time_Sub t s \<le> time_Sub u s"
  by (auto simp: time_Sub_def)

definition elapsed_days :: "time \<Rightarrow> time \<Rightarrow> int" where
  "elapsed_days s t = go_quo (time_Sub (day_start t) (day_start s)) (24 * time_Hour)"

lemma elapsed_days_nonneg: "s \<le> t \<Longrightarrow> 0 \<le> elapsed_days s t"
  using day_start_mono[of s t]
  by (simp add: elapsed_days_def time_Sub_def time_units pos_imp_zdiv_nonneg_iff)

lemma elapsed_days_mono: "s \<le> t \<Longrightarrow> t \<le> u \<Longrightarrow> elapsed_days s t \<le> elapsed_days s u"
proof -
  assume a: "s \<le> t" "t \<le> u"
  have "0 \<le> time_Sub (day_start t) (day_start s)" "0 \<le> time_Sub (day_start u) (day_start s)"
    using a day_start_mono[of s t] day_start_mono[of s u] by (simp_all add: time_Sub_def)
  then show ?thesis
    using time_Sub_mono[OF day_start_mono[OF a(2)], of "day_start s"]
    by (simp add: elapsed_days_def time_units zdiv_mono1)
qed

lemma should_released_eq:
  "ComputeVestingShouldReleased a s d t =
    (if a \<le> 0 \<or> d = 0 \<or> t < s then 0
     else if int d \<le> elapsed_days s t then a else (a * elapsed_days s t) div int d)"
  by (simp add: ComputeVestingShouldReleased_def elapsed_days_def Let_def)

lemma should_released_nonneg: "0 \<le> ComputeVestingShouldReleased a s d t"
  using elapsed_days_nonneg[of s t]
  by (auto simp: should_released_eq pos_imp_zdiv_nonneg_iff)

lemma staircase_le:
  fixes a e d :: int
  assumes "0 \<le> a" "0 \<le> e" "e \<le> d" "0 < d"
  shows "(a * e) div d \<le> a"
proof -
  have "a * e \<le> a * d" using assms by (simp add: mult_left_mono)
  then have "(a * e) div d \<le> (a * d) div d" using assms(4) by (rule zdiv_mono1)
  then show ?thesis using assms(4) by simp
qed

lemma should_released_le: "0 \<le> a \<Longrightarrow> ComputeVestingShouldReleased a s d t \<le> a"
  using elapsed_days_nonneg[of s t] staircase_le[of a "elapsed_days s t" "int d"]
  by (auto simp: should_released_eq)

lemma should_released_mono:
  assumes "t \<le> u"
  shows "ComputeVestingShouldReleased a s d t \<le> ComputeVestingShouldReleased a s d u"
proof (cases "a \<le> 0 \<or> d = 0 \<or> t < s")
  case True
  then show ?thesis using should_released_nonneg[of a s d u] by (simp add: should_released_eq)
next
  case False
  then have "elapsed_days s t \<le> elapsed_days s u" using assms by (simp add: elapsed_days_mono)
  then have "a * elapsed_days s t \<le> a * elapsed_days s u" using False by (simp add: mult_left_mono)
  then have "(a * elapsed_days s t) div int d \<le> (a * elapsed_days s u) div int d"
    using False by (simp add: zdiv_mono1)
  then show ?thesis
    using False assms \<open>elapsed_days s t \<le> elapsed_days s u\<close>
      staircase_le[of a "elapsed_days s t" "int d"] elapsed_days_nonneg[of s t]
    by (auto simp: should_released_eq)
qed

lemma should_released_all:
  assumes "0 < a" "0 < d" "day_start s + int d * time_Day \<le> t" "int64 (t - day_start s)"
  shows "ComputeVestingShouldReleased a s d t = a"
proof -
  have base: "day_start s mod time_Day = 0"
    unfolding day_start_def by (metis mod_diff_left_eq diff_self mod_0)
  have "s \<le> t"
  proof -
    have "time_Day \<le> int d * time_Day" using assms(2) day_index_nonneg by simp
    then show ?thesis using assms(3) day_start_bounds(2)[of s] by linarith
  qed
  have "day_start s + int d * time_Day \<le> day_start t"
  proof -
    have "day_start (day_start s + int d * time_Day) = day_start s + int d * time_Day"
      using base by (simp add: day_start_def[of "day_start s + int d * time_Day"] mod_add_eq)
    then show ?thesis using day_start_mono[OF assms(3)] by simp
  qed
  moreover have "int64 (day_start t - day_start s)"
    using assms(4) day_start_bounds(1)[of t] day_start_mono[OF \<open>s \<le> t\<close>] by (auto simp: int64_def)
  ultimately have "int d * time_Day \<le> time_Sub (day_start t) (day_start s)"
    by (simp add: time_Sub_exact)
  moreover have "0 \<le> time_Sub (day_start t) (day_start s)"
    using day_start_mono[OF \<open>s \<le> t\<close>] by (simp add: time_Sub_def)
  ultimately have "int d \<le> elapsed_days s t"
    using zdiv_mono1[of "int d * time_Day" _ time_Day]
    by (simp add: elapsed_days_def time_units)
  then show ?thesis using assms(1,2) \<open>s \<le> t\<close> by (simp add: should_released_eq)
qed

text \<open>
  C15: a vesting releases nothing before its start, never more than its total, never less than it
  did at an earlier moment, and everything once its last day has passed; and for a record that is
  not deprecated the locked and the released part always add up to the total.
\<close>

theorem vesting_schedule:
  assumes "0 < a" and "0 < d" and "t \<le> u"
  shows "0 \<le> ComputeVestingShouldReleased a s d t
    \<and> ComputeVestingShouldReleased a s d t \<le> ComputeVestingShouldReleased a s d u
    \<and> ComputeVestingShouldReleased a s d u \<le> a
    \<and> (t < s \<longrightarrow> ComputeVestingShouldReleased a s d t = 0)
    \<and> (day_start s + int d * time_Day \<le> u \<and> int64 (u - day_start s)
         \<longrightarrow> ComputeVestingShouldReleased a s d u = a)
    \<and> (v_Status v \<noteq> VestingStatusDeprecated \<and> 0 \<le> v_TotalAmount v \<longrightarrow>
        LockedAmountAt v t + ComputeVestingShouldReleased (v_TotalAmount v) (v_StartTime v) (v_DurationDays v) t
          = v_TotalAmount v)"
proof -
  have "LockedAmountAt v t + ComputeVestingShouldReleased (v_TotalAmount v) (v_StartTime v) (v_DurationDays v) t
      = v_TotalAmount v" if "v_Status v \<noteq> VestingStatusDeprecated" "0 \<le> v_TotalAmount v"
    using that should_released_le[of "v_TotalAmount v" "v_StartTime v" "v_DurationDays v" t]
    by (simp add: LockedAmountAt_def Let_def)
  moreover have "t < s \<longrightarrow> ComputeVestingShouldReleased a s d t = 0" by (simp add: should_released_eq)
  ultimately show ?thesis
    using assms should_released_nonneg should_released_mono should_released_le should_released_all
    by simp
qed

theorem vesting_schedule_witness:
  "ComputeVestingShouldReleased 1000 0 10 (3 * time_Day) = 300
   \<and> ComputeVestingShouldReleased 1000 0 10 (3 * time_Day)
       \<le> ComputeVestingShouldReleased 1000 0 10 (10 * time_Day)
   \<and> ComputeVestingShouldReleased 1000 0 10 (10 * time_Day) = 1000"
proof -
  have "ComputeVestingShouldReleased 1000 0 10 (3 * time_Day) = 300"
    by (simp add: ComputeVestingShouldReleased_def day_start_def time_Sub_def time_units)
  moreover have "day_start 0 + int 10 * time_Day \<le> 10 * time_Day"
    and "int64 (10 * time_Day - day_start 0)" and "3 * time_Day \<le> 10 * time_Day"
    by (simp_all add: day_start_def time_units int64_def)
  ultimately show ?thesis
    using vesting_schedule[of 1000 10 "3 * time_Day" "10 * time_Day" 0] by simp
qed

section \<open>Reasons can be read back\<close>

lemma dash_not_digit [simp]: "\<not> is_digit CHR ''-''" "\<not> is_digit CHR ''+''"
  by (simp_all add: is_digit_def)

lemma dash_not_in_FormatUint [simp]: "CHR ''-'' \<notin> set (FormatUint n)"
  using FormatUint_digits dash_not_digit(1) by blast

lemma FormatUint_Cons_digit: "FormatUint n = c # r \<Longrightarrow> is_digit c"
  using FormatUint_digits[of c n] by simp

lemma dash_not_in_FormatInt [simp]: "0 \<le> n \<Longrightarrow> CHR ''-'' \<notin> set (FormatInt n)"
  by (simp add: FormatInt_def)

lemma SetString10_FormatInt [simp]: "SetString10 (FormatInt n) = Some n"
proof (cases "n < 0")
  case True
  then show ?thesis by (simp add: SetString10_def FormatInt_def dec_val_FormatUint)
next
  case False
  obtain c r where cr: "FormatUint (nat n) = c # r"
    using FormatUint_not_Nil by (metis list.exhaust)
  have "c \<noteq> CHR ''-''" "c \<noteq> CHR ''+''"
    using FormatUint_Cons_digit[OF cr] dash_not_digit by auto
  then show ?thesis
    using False dec_val_FormatUint[of "nat n"] by (simp add: SetString10_def FormatInt_def cr)
qed

lemma numeral_4: "(4::nat) = Suc (Suc (Suc (Suc 0)))" by simp

lemma numeral_3: "(3::nat) = Suc (Suc (Suc 0))" by simp

lemma SplitN_release:
  "dash \<notin> set p \<Longrightarrow> dash \<notin> set q \<Longrightarrow> dash \<notin> set r \<Longrightarrow>
   SplitN dash 4 (p @ dash # q @ dash # r @ dash # t) = [p, q, r, t]"
  unfolding numeral_4 by (simp del: SplitN.simps(3))

lemma SplitN_triple:
  "dash \<notin> set p \<Longrightarrow> dash \<notin> set q \<Longrightarrow> SplitN dash 3 (p @ dash # q @ dash # r) = [p, q, r]"
  unfolding numeral_3 by (simp del: SplitN.simps(3))

lemma SplitN_pair: "dash \<notin> set p \<Longrightarrow> SplitN dash 2 (p @ dash # q) = [p, q]"
  unfolding numeral_2_eq_2 by (simp del: SplitN.simps(3))

lemma parse_release_reason:
  "i < 2 ^ 64 \<Longrightarrow> 0 \<le> f \<Longrightarrow> ParseVestingReleaseReason (BuildVestingReleaseReason i f t) = Some (i, f, t)"
  by (simp add: ParseVestingReleaseReason_def BuildVestingReleaseReason_def SplitN_release)

lemma parse_created_reason:
  "0 < v_ID v \<Longrightarrow> v_ID v < 2 ^ 64 \<Longrightarrow>
   ParseVestingCreatedReason (BuildVestingCreatedReason v) = Some (v_ID v)"
  by (simp add: ParseVestingCreatedReason_def BuildVestingCreatedReason_def SplitN_pair)

text \<open>
  C16: the reason written into the ledger for a vesting reads back as the vesting it was written
  for: a release reason as its id and both amounts, a creation reason as its id; so two different
  releases never share a reason, and every release reason has the four pieces the validator
  expects of its type.
\<close>

theorem vesting_reasons_roundtrip:
  assumes "0 < i" and "i < 2 ^ 64" and "0 \<le> f" and "0 \<le> t"
  shows "ParseVestingReleaseReason (BuildVestingReleaseReason i f t) = Some (i, f, t)
    \<and> (v_ID v = i \<longrightarrow> ParseVestingCreatedReason (BuildVestingCreatedReason v) = Some i)
    \<and> splitRelayAccountEventReason RelayAccountEventTypeVestingRelease (BuildVestingReleaseReason i f t)
        = Some [''10'', FormatUint i, FormatInt f, FormatInt t]
    \<and> (j < 2 ^ 64 \<and> 0 \<le> g \<and> BuildVestingReleaseReason j g u = BuildVestingReleaseReason i f t
        \<longrightarrow> j = i \<and> g = f \<and> u = t)"
proof -
  have ten: "FormatUint 10 = ''10''"
    by (simp add: FormatUint.simps)
  have "SplitN dash 4 (BuildVestingReleaseReason i f t)
        = [FormatUint 10, FormatUint i, FormatInt f, FormatInt t]"
    using assms by (simp add: BuildVestingReleaseReason_def SplitN_release)
  then have "splitRelayAccountEventReason RelayAccountEventTypeVestingRelease (BuildVestingReleaseReason i f t)
        = Some [''10'', FormatUint i, FormatInt f, FormatInt t]"
    by (simp add: splitRelayAccountEventReason_def ten Let_def)
  moreover have "j = i \<and> g = f \<and> u = t"
    if "j < 2 ^ 64" "0 \<le> g" "BuildVestingReleaseReason j g u = BuildVestingReleaseReason i f t"
    using parse_release_reason[OF that(1,2), of u] parse_release_reason[OF assms(2,3), of t]
    unfolding that(3) by (metis option.inject prod.inject)
  ultimately show ?thesis
    using parse_release_reason[OF assms(2,3), of t] parse_created_reason[of v] assms(1,2) by blast
qed

theorem vesting_reasons_roundtrip_witness:
  "BuildVestingReleaseReason 7 0 125 = ''10-7-0-125''
   \<and> ParseVestingReleaseReason ''10-7-0-125'' = Some (7, 0, 125)"
proof -
  have "BuildVestingReleaseReason 7 0 125 = ''10-7-0-125''"
    by (simp add: BuildVestingReleaseReason_def FormatInt_def FormatUint.simps)
  then show ?thesis using vesting_reasons_roundtrip[of 7 0 125] by simp
qed

end
