(* ===== verification/MaxStaking.thy ===== *)
theory MaxStaking
  imports Emission "HOL-Library.AList"
begin

text \<open>
  The running maximum of node stakes kept by \<^verbatim>\<open>service/selecting_prob.go\<close>, which every staking
  score divides by.  Go iterates over the map of stakes in an unspecified order; the map is an
  association list here, and the scan's maximum is shown not to depend on the order.  The
  interface locale states what clients rely on: after any history of updates the current value is
  the largest of the stakes last reported, or zero.
\<close>

section \<open>Definitions\<close>

record maxStaking =
  ms_maxStaking :: int
  ms_maxAddress :: address
  ms_stakingMap :: "(address \<times> int) list"

definition newMaxStaking :: maxStaking where
  "newMaxStaking = \<lparr> ms_maxStaking = 0, ms_maxAddress = [], ms_stakingMap = [] \<rparr>"

definition maxStaking_scan :: "address \<times> int \<Rightarrow> (address \<times> int) list \<Rightarrow> address \<times> int" where
  "maxStaking_scan start entries =
    foldl (\<lambda>(maxAddr, maxAmount) (addr, amount).
             if maxAmount < amount then (addr, amount) else (maxAddr, maxAmount)) start entries"

definition maxStaking_init :: "(address \<times> int) list \<Rightarrow> maxStaking \<Rightarrow> maxStaking" where
  "maxStaking_init stakingMap g =
    (let (addr, amount) = maxStaking_scan (ms_maxAddress g, ms_maxStaking g) stakingMap in
     g\<lparr> ms_stakingMap := foldl (\<lambda>m (a, x). AList.update a x m) (ms_stakingMap g) stakingMap,
        ms_maxAddress := addr, ms_maxStaking := amount \<rparr>)"

definition maxStaking_update :: "address \<Rightarrow> int \<Rightarrow> maxStaking \<Rightarrow> maxStaking" where
  "maxStaking_update addr staking g0 =
    (let g = g0\<lparr> ms_stakingMap := AList.update addr staking (ms_stakingMap g0) \<rparr> in
     if ms_maxStaking g < staking
     then g\<lparr> ms_maxStaking := staking, ms_maxAddress := addr \<rparr>
     else if addr = ms_maxAddress g \<and> staking < ms_maxStaking g
     then (let (maxAddr, maxAmount) = maxStaking_scan ([], 0) (ms_stakingMap g) in
           g\<lparr> ms_maxAddress := maxAddr, ms_maxStaking := maxAmount \<rparr>)
     else g)"

text \<open>\<^verbatim>\<open>get\<close>: the configured minimum stake stands in while no stake is known.\<close>

definition maxStaking_get :: "nat \<Rightarrow> maxStaking \<Rightarrow> int" where
  "maxStaking_get StakeAmount g =
    (if ms_maxStaking g = 0 then EtherToWei (int StakeAmount) else ms_maxStaking g)"

section \<open>What clients rely on\<close>

definition is_peak :: "int \<Rightarrow> ('k \<rightharpoonup> int) \<Rightarrow> bool" where
  "is_peak m t \<longleftrightarrow> 0 \<le> m \<and> (\<forall>k x. t k = Some x \<longrightarrow> x \<le> m) \<and> (m = 0 \<or> (\<exists>k. t k = Some m))"

lemma is_peak_unique: "is_peak m t \<Longrightarrow> is_peak n t \<Longrightarrow> m = n"
  unfolding is_peak_def by (metis order_antisym)

locale peak_tracker =
  fixes start :: 's
    and upd :: "'k \<Rightarrow> int \<Rightarrow> 's \<Rightarrow> 's"
    and current :: "'s \<Rightarrow> int"
    and table :: "'s \<Rightarrow> 'k \<rightharpoonup> int"
    and inv :: "'s \<Rightarrow> bool"
  assumes start_inv: "inv start" and start_table: "table start = Map.empty"
    and upd_inv: "inv s \<Longrightarrow> inv (upd k x s)"
    and upd_table: "inv s \<Longrightarrow> table (upd k x s) = (table s)(k \<mapsto> x)"
    and current_peak: "inv s \<Longrightarrow> is_peak (current s) (table s)"
begin

definition history :: "('k \<times> int) list \<Rightarrow> 's" where
  "history us = foldl (\<lambda>s (k, x). upd k x s) start us"

lemma history_inv: "inv (history us)"
  by (induction us rule: rev_induct) (auto simp: history_def start_inv upd_inv)

lemma history_table: "table (history us) = foldl (\<lambda>t (k, x). t(k \<mapsto> x)) Map.empty us"
proof (induction us rule: rev_induct)
  case (snoc u us)
  then show ?case using history_inv[of us] by (cases u) (simp add: history_def upd_table)
qed (simp add: history_def start_table)

lemma history_peak:
  "is_peak (current (history us)) (foldl (\<lambda>t (k, x). t(k \<mapsto> x)) Map.empty us)"
  using current_peak[OF history_inv] by (simp add: history_table)

end

section \<open>The cache keeps the maximum\<close>

definition maxStaking_inv :: "maxStaking \<Rightarrow> bool" where
  "maxStaking_inv g \<longleftrightarrow>
    0 \<le> ms_maxStaking g
    \<and> (\<forall>a x. map_of (ms_stakingMap g) a = Some x \<longrightarrow> x \<le> ms_maxStaking g)
    \<and> (ms_maxStaking g = 0 \<or> map_of (ms_stakingMap g) (ms_maxAddress g) = Some (ms_maxStaking g))
    \<and> distinct (map fst (ms_stakingMap g))"

lemma scan_bound:
  "maxStaking_scan (a, m) es = (b, n) \<Longrightarrow> m \<le> n \<and> (\<forall>(k, x) \<in> set es. x \<le> n)"
proof (induction es arbitrary: a m)
  case (Cons e es)
  obtain k x where e: "e = (k, x)" by (cases e)
  show ?case
  proof (cases "m < x")
    case True
    with Cons.prems e have "maxStaking_scan (k, x) es = (b, n)" by (simp add: maxStaking_scan_def)
    from Cons.IH[OF this] True e show ?thesis by auto
  next
    case False
    with Cons.prems e have "maxStaking_scan (a, m) es = (b, n)" by (simp add: maxStaking_scan_def)
    from Cons.IH[OF this] False e show ?thesis by auto
  qed
qed (simp add: maxStaking_scan_def)

lemma scan_attained:
  "maxStaking_scan (a, m) es = (b, n) \<Longrightarrow> (b, n) = (a, m) \<or> (b, n) \<in> set es"
proof (induction es arbitrary: a m)
  case (Cons e es)
  obtain k x where e: "e = (k, x)" by (cases e)
  show ?case
    using Cons.IH[of k x] Cons.IH[of a m] Cons.prems e
    by (cases "m < x") (auto simp: maxStaking_scan_def)
qed (simp add: maxStaking_scan_def)

lemma scan_order:
  assumes "set es = set fs"
  shows "snd (maxStaking_scan ([], 0) es) = snd (maxStaking_scan ([], 0) fs)"
proof -
  obtain a m b n where s: "maxStaking_scan ([], 0) es = (a, m)" "maxStaking_scan ([], 0) fs = (b, n)"
    by (metis surj_pair)
  have "m \<le> n" using scan_attained[OF s(1)] scan_bound[OF s(2)] assms by auto
  moreover have "n \<le> m" using scan_attained[OF s(2)] scan_bound[OF s(1)] assms by auto
  ultimately show ?thesis using s by simp
qed

lemma update_inv:
  assumes "maxStaking_inv g"
  shows "maxStaking_inv (maxStaking_update a x g)"
proof -
  let ?m = "AList.update a x (ms_stakingMap g)"
  have m: "map_of ?m = (map_of (ms_stakingMap g))(a \<mapsto> x)" by (rule AList.update_conv')
  have d: "distinct (map fst ?m)" using assms by (simp add: maxStaking_inv_def distinct_update)
  show ?thesis
  proof (cases "ms_maxStaking g < x \<or> \<not> (a = ms_maxAddress g \<and> x < ms_maxStaking g)")
    case True
    with assms d show ?thesis
      by (auto simp: maxStaking_update_def maxStaking_inv_def m Let_def split: if_splits)
        (smt (verit))+
  next
    case False
    obtain b n where s: "maxStaking_scan ([], 0) ?m = (b, n)" by (metis surj_pair)
    have u: "maxStaking_update a x g =
      g\<lparr> ms_stakingMap := ?m, ms_maxAddress := b, ms_maxStaking := n \<rparr>"
      using False s by (simp add: maxStaking_update_def Let_def)
    have "y \<le> n" if "map_of ?m k = Some y" for k y
      using map_of_SomeD[OF that] scan_bound[OF s] by auto
    moreover have "n = 0 \<or> map_of ?m b = Some n"
      using scan_attained[OF s] d by (auto simp: map_of_is_SomeI)
    ultimately show ?thesis
      unfolding u maxStaking_inv_def using d scan_bound[OF s] by simp
  qed
qed

lemma update_table:
  "map_of (ms_stakingMap (maxStaking_update a x g)) = (map_of (ms_stakingMap g))(a \<mapsto> x)"
  by (simp add: maxStaking_update_def AList.update_conv' Let_def split: prod.splits)

lemma newMaxStaking_inv: "maxStaking_inv newMaxStaking"
  by (simp add: newMaxStaking_def maxStaking_inv_def)

lemma inv_peak: "maxStaking_inv g \<Longrightarrow> is_peak (ms_maxStaking g) (map_of (ms_stakingMap g))"
  by (auto simp: maxStaking_inv_def is_peak_def)

interpretation ms: peak_tracker newMaxStaking maxStaking_update ms_maxStaking
  "\<lambda>g. map_of (ms_stakingMap g)" maxStaking_inv
  by unfold_locales
    (simp_all add: newMaxStaking_inv update_inv update_table inv_peak, simp add: newMaxStaking_def)

text \<open>
  C11: after any history of stake reports the cached maximum is the largest of the stakes last
  reported per address, or zero when none of them is positive; so a staking score never divides
  by less than the stake it scores.
\<close>

theorem maxStaking_is_maximum:
  fixes us :: "(address \<times> int) list"
  defines "g \<equiv> foldl (\<lambda>g (a, x). maxStaking_update a x g) newMaxStaking us"
    and "t \<equiv> foldl (\<lambda>t (a, x). t(a \<mapsto> x)) Map.empty us"
  shows "is_peak (ms_maxStaking g) t
    \<and> (\<forall>a x. t a = Some x \<and> 0 < x \<longrightarrow> x \<le> maxStaking_get n g)"
proof -
  have "is_peak (ms_maxStaking g) t"
    using ms.history_peak[of us] unfolding g_def t_def ms.history_def .
  then show ?thesis by (fastforce simp: is_peak_def maxStaking_get_def)
qed

theorem maxStaking_is_maximum_witness:
  "ms_maxStaking (maxStaking_update ''a'' 1 (maxStaking_update ''b'' 5
     (maxStaking_update ''a'' 9 newMaxStaking))) = 5"
proof -
  have "is_peak (ms_maxStaking (maxStaking_update ''a'' 1 (maxStaking_update ''b'' 5
     (maxStaking_update ''a'' 9 newMaxStaking)))) [''a'' \<mapsto> 9, ''b'' \<mapsto> 5, ''a'' \<mapsto> 1]"
    using maxStaking_is_maximum[of "[(''a'', 9), (''b'', 5), (''a'', 1)]" 0] by simp
  moreover have "is_peak 5 [''a'' \<mapsto> 9, ''b'' \<mapsto> 5, ''a'' \<mapsto> (1::int)]"
    by (auto simp: is_peak_def)
  ultimately show ?thesis by (rule is_peak_unique)
qed

end
