(* ===== verification/DelegationCache.thy ===== *)
theory DelegationCache
  imports Models "HOL-Library.AList"
begin

text \<open>
  The in-memory books of \<^verbatim>\<open>service/user_staking.go\<close> and \<^verbatim>\<open>service/delegator_share.go\<close>: per network,
  who has delegated how much to which node, indexed both ways, with running totals per node and
  per delegator.  Go's nested maps are nested association lists.  The invariant says that the
  two indexes are transposes of each other and that both totals are the sums of the entries they
  stand for; every operation keeps it, and under it no operation reaches the nil dereference its
  code contains.
\<close>

section \<open>Nested maps\<close>

type_synonym 'k amounts = "('k \<times> int) list"
type_synonym ('k, 'l) ledger = "('k \<times> 'l amounts) list"

definition inner :: "('k, 'l) ledger \<Rightarrow> 'k \<Rightarrow> 'l amounts" where
  "inner m a = (case map_of m a of None \<Rightarrow> [] | Some l \<Rightarrow> l)"

definition entry :: "('k, 'l) ledger \<Rightarrow> 'k \<Rightarrow> 'l \<Rightarrow> int option" where
  "entry m a b = map_of (inner m a) b"

definition nested_put :: "'k \<Rightarrow> 'l \<Rightarrow> int \<Rightarrow> ('k, 'l) ledger \<Rightarrow> ('k, 'l) ledger" where
  "nested_put a b x m = AList.update a (AList.update b x (inner m a)) m"

definition nested_delete :: "'k \<Rightarrow> 'l \<Rightarrow> ('k, 'l) ledger \<Rightarrow> ('k, 'l) ledger" where
  "nested_delete a b m =
    (case map_of m a of
       None \<Rightarrow> m
     | Some l \<Rightarrow> let l' = AList.delete b l in
                if l' = [] then AList.delete a m else AList.update a l' m)"

definition amount_or_0 :: "'k amounts \<Rightarrow> 'k \<Rightarrow> int" where
  "amount_or_0 m a = (case map_of m a of None \<Rightarrow> 0 | Some x \<Rightarrow> x)"

definition total_amount :: "'k amounts \<Rightarrow> int" where
  "total_amount m = sum_list (map snd m)"

section \<open>The cache\<close>

record delegationCache =
  dc_nodeDelegations :: "(address, address) ledger"
  dc_userDelegations :: "(address, address) ledger"
  dc_userStakeAmount :: "address amounts"
  dc_nodeStakeAmount :: "address amounts"

definition newDelegationCache :: delegationCache where
  "newDelegationCache = \<lparr> dc_nodeDelegations = [], dc_userDelegations = [],
     dc_userStakeAmount = [], dc_nodeStakeAmount = [] \<rparr>"

definition delegation_update :: "address \<Rightarrow> address \<Rightarrow> int \<Rightarrow> delegationCache \<Rightarrow> delegationCache" where
  "delegation_update delegatorAddress nodeAddress amount c =
    (let oldAmount = amount_or_0 (inner (dc_nodeDelegations c) nodeAddress) delegatorAddress in
     \<lparr> dc_nodeDelegations = nested_put nodeAddress delegatorAddress amount (dc_nodeDelegations c),
       dc_userDelegations = nested_put delegatorAddress nodeAddress amount (dc_userDelegations c),
       dc_userStakeAmount = AList.update delegatorAddress
         (amount_or_0 (dc_userStakeAmount c) delegatorAddress - oldAmount + amount) (dc_userStakeAmount c),
       dc_nodeStakeAmount = AList.update nodeAddress
         (amount_or_0 (dc_nodeStakeAmount c) nodeAddress - oldAmount + amount) (dc_nodeStakeAmount c) \<rparr>)"

text \<open>Subtracting from a missing total dereferences a nil pointer in the source.\<close>

definition sub_amount :: "address \<Rightarrow> int \<Rightarrow> address amounts \<Rightarrow> go_error + address amounts" where
  "sub_amount a x m =
    (case map_of m a of
       None \<Rightarrow> Inl (Panic ''nil pointer dereference'')
     | Some y \<Rightarrow> Inr (AList.update a (y - x) m))"

definition delegation_unstake ::
  "address \<Rightarrow> address \<Rightarrow> delegationCache \<Rightarrow> go_error + delegationCache" where
  "delegation_unstake delegatorAddress nodeAddress c =
    (let oldAmount = amount_or_0 (inner (dc_nodeDelegations c) nodeAddress) delegatorAddress;
         nd = nested_delete nodeAddress delegatorAddress (dc_nodeDelegations c);
         ud = nested_delete delegatorAddress nodeAddress (dc_userDelegations c)
     in case sub_amount delegatorAddress oldAmount (dc_userStakeAmount c) of
          Inl e \<Rightarrow> Inl e
        | Inr us \<Rightarrow>
            (case sub_amount nodeAddress oldAmount (dc_nodeStakeAmount c) of
               Inl e \<Rightarrow> Inl e
             | Inr ns \<Rightarrow> Inr \<lparr> dc_nodeDelegations = nd, dc_userDelegations = ud,
                             dc_userStakeAmount = us, dc_nodeStakeAmount = ns \<rparr>))"

fun remove_delegators ::
  "address \<Rightarrow> address amounts \<Rightarrow> (address, address) ledger \<Rightarrow> address amounts
   \<Rightarrow> go_error + (address, address) ledger \<times> address amounts" where
  "remove_delegators nodeAddress [] ud us = Inr (ud, us)"
| "remove_delegators nodeAddress ((delegatorAddress, amount) # rest) ud us =
    (case sub_amount delegatorAddress amount us of
       Inl e \<Rightarrow> Inl e
     | Inr us' \<Rightarrow> remove_delegators nodeAddress rest (nested_delete delegatorAddress nodeAddress ud) us')"

definition delegation_removeNode :: "address \<Rightarrow> delegationCache \<Rightarrow> go_error + delegationCache" where
  "delegation_removeNode nodeAddress c =
    (case map_of (dc_nodeDelegations c) nodeAddress of
       None \<Rightarrow> Inr c
     | Some ds \<Rightarrow>
         (case remove_delegators nodeAddress ds (dc_userDelegations c) (dc_userStakeAmount c) of
            Inl e \<Rightarrow> Inl e
          | Inr (ud, us) \<Rightarrow>
              Inr \<lparr> dc_nodeDelegations = AList.delete nodeAddress (dc_nodeDelegations c),
                    dc_userDelegations = ud, dc_userStakeAmount = us,
                    dc_nodeStakeAmount = AList.update nodeAddress 0 (dc_nodeStakeAmount c) \<rparr>))"

definition getDelegatorTotalStakeAmount :: "delegationCache \<Rightarrow> address \<Rightarrow> int" where
  "getDelegatorTotalStakeAmount c delegatorAddress = amount_or_0 (dc_userStakeAmount c) delegatorAddress"

definition getNodeTotalStakeAmount :: "delegationCache \<Rightarrow> address \<Rightarrow> int" where
  "getNodeTotalStakeAmount c nodeAddress = amount_or_0 (dc_nodeStakeAmount c) nodeAddress"

definition getDelegationsOfNode :: "delegationCache \<Rightarrow> address \<Rightarrow> address amounts" where
  "getDelegationsOfNode c nodeAddress = inner (dc_nodeDelegations c) nodeAddress"

definition getDelegationsOfDelegator :: "delegationCache \<Rightarrow> address \<Rightarrow> address amounts" where
  "getDelegationsOfDelegator c delegatorAddress = inner (dc_userDelegations c) delegatorAddress"

definition getDelegatorCountOfNode :: "delegationCache \<Rightarrow> address \<Rightarrow> nat" where
  "getDelegatorCountOfNode c nodeAddress = length (inner (dc_nodeDelegations c) nodeAddress)"

definition getDelegationCountOfDelegator :: "delegationCache \<Rightarrow> address \<Rightarrow> nat" where
  "getDelegationCountOfDelegator c delegatorAddress = length (inner (dc_userDelegations c) delegatorAddress)"

text \<open>One cache per configured network; an unknown network yields a nil cache.\<close>

type_synonym delegationCaches = "(string \<times> delegationCache) list"

definition newDelegationCaches :: "string list \<Rightarrow> delegationCaches" where
  "newDelegationCaches networks = map (\<lambda>n. (n, newDelegationCache)) networks"

definition UpdateDelegation ::
  "address \<Rightarrow> address \<Rightarrow> int \<Rightarrow> string \<Rightarrow> delegationCaches \<Rightarrow> go_error + delegationCaches" where
  "UpdateDelegation delegatorAddress nodeAddress amount network cs =
    (case map_of cs network of
       None \<Rightarrow> Inl (Panic ''nil pointer dereference'')
     | Some c \<Rightarrow> Inr (AList.update network (delegation_update delegatorAddress nodeAddress amount c) cs))"

definition UnstakeDelegation ::
  "address \<Rightarrow> address \<Rightarrow> string \<Rightarrow> delegationCaches \<Rightarrow> go_error + delegationCaches" where
  "UnstakeDelegation delegatorAddress nodeAddress network cs =
    (case map_of cs network of
       None \<Rightarrow> Inl (Panic ''nil pointer dereference'')
     | Some c \<Rightarrow>
         (case delegation_unstake delegatorAddress nodeAddress c of
            Inl e \<Rightarrow> Inl e
          | Inr c' \<Rightarrow> Inr (AList.update network c' cs)))"

definition RemoveNodeDelegations :: "address \<Rightarrow> string \<Rightarrow> delegationCaches \<Rightarrow> go_error + delegationCaches" where
  "RemoveNodeDelegations nodeAddress network cs =
    (case map_of cs network of
       None \<Rightarrow> Inl (Panic ''nil pointer dereference'')
     | Some c \<Rightarrow>
         (case delegation_removeNode nodeAddress c of
            Inl e \<Rightarrow> Inl e
          | Inr c' \<Rightarrow> Inr (AList.update network c' cs)))"

fun load_delegations :: "Delegation list \<Rightarrow> delegationCaches \<Rightarrow> go_error + delegationCaches" where
  "load_delegations [] cs = Inr cs"
| "load_delegations (r # rs) cs =
    (case UpdateDelegation (dg_DelegatorAddress r) (dg_NodeAddress r) (dg_Amount r) (dg_Network r) cs of
       Inl e \<Rightarrow> Inl e
     | Inr cs' \<Rightarrow> load_delegations rs cs')"

definition InitDelegationCaches :: "string list \<Rightarrow> Delegation list \<Rightarrow> go_error + delegationCaches" where
  "InitDelegationCaches networks rows =
    load_delegations (filter (\<lambda>r. \<not> dg_Slashed r) rows) (newDelegationCaches networks)"

section \<open>Delegator shares\<close>

definition makeDelegatorShareKey :: "address \<Rightarrow> string \<Rightarrow> string" where
  "makeDelegatorShareKey nodeAddress network = nodeAddress @ CHR '':'' # network"

definition share_set :: "address \<Rightarrow> string \<Rightarrow> nat \<Rightarrow> (string \<times> nat) list \<Rightarrow> (string \<times> nat) list" where
  "share_set nodeAddress network share c =
    (let key = makeDelegatorShareKey nodeAddress network in
     if 0 < share then AList.update key share c else AList.delete key c)"

definition share_get :: "(string \<times> nat) list \<Rightarrow> address \<Rightarrow> string \<Rightarrow> nat" where
  "share_get c nodeAddress network =
    (case map_of c (makeDelegatorShareKey nodeAddress network) of Some share \<Rightarrow> share | None \<Rightarrow> 0)"

definition InitDelegatorShareCache :: "Node list \<Rightarrow> (string \<times> nat) list" where
  "InitDelegatorShareCache nodes =
    foldl (\<lambda>c n. share_set (n_Address n) (n_Network n) (n_DelegatorShare n) c) []
      (filter (\<lambda>n. 0 < n_DelegatorShare n) nodes)"

section \<open>Totals\<close>

lemma inner_put [simp]:
  "inner (nested_put a b x m) a' = (if a' = a then AList.update b x (inner m a) else inner m a')"
  by (simp add: nested_put_def inner_def AList.update_conv')

lemma inner_delete [simp]:
  "inner (nested_delete a b m) a' = (if a' = a then AList.delete b (inner m a) else inner m a')"
  by (auto simp: nested_delete_def inner_def AList.update_conv' AList.delete_conv' Let_def
      split: option.splits)

lemma entry_put: "entry (nested_put a b x m) a' b' = (if a' = a \<and> b' = b then Some x else entry m a' b')"
  by (simp add: entry_def AList.update_conv')

lemma entry_delete: "entry (nested_delete a b m) a' b' = (if a' = a \<and> b' = b then None else entry m a' b')"
  by (simp add: entry_def AList.delete_conv')

lemma amount_or_0_update [simp]: "amount_or_0 (AList.update a x m) b = (if b = a then x else amount_or_0 m b)"
  by (simp add: amount_or_0_def AList.update_conv')

lemma total_Cons [simp]: "total_amount (e # l) = snd e + total_amount l"
  by (simp add: total_amount_def)

lemma total_Nil [simp]: "total_amount [] = 0"
  by (simp add: total_amount_def)

lemma amount_or_0_Cons: "amount_or_0 (e # l) b = (if fst e = b then snd e else amount_or_0 l b)"
  by (simp add: amount_or_0_def)

lemma amount_or_0_absent: "b \<notin> fst ` set l \<Longrightarrow> amount_or_0 l b = 0"
  by (simp add: amount_or_0_def map_of_eq_None_iff[symmetric])

lemma total_update:
  "distinct (map fst l) \<Longrightarrow> total_amount (AList.update b x l) = total_amount l - amount_or_0 l b + x"
proof (induction l)
  case (Cons e l)
  then show ?case by (cases e) (simp add: amount_or_0_Cons)
qed (simp add: amount_or_0_def)

lemma total_delete:
  "distinct (map fst l) \<Longrightarrow> total_amount (AList.delete b l) = total_amount l - amount_or_0 l b"
proof (induction l)
  case (Cons e l)
  then show ?case by (cases e) (auto simp: amount_or_0_Cons amount_or_0_absent)
qed (simp add: amount_or_0_def)

definition side :: "('k, 'l) ledger \<Rightarrow> 'k amounts \<Rightarrow> bool" where
  "side m totals \<longleftrightarrow>
    (\<forall>a. distinct (map fst (inner m a)) \<and> amount_or_0 totals a = total_amount (inner m a)
       \<and> (inner m a \<noteq> [] \<longrightarrow> map_of totals a \<noteq> None))"

lemma side_put:
  assumes "side m totals" "old = amount_or_0 (inner m a) b"
  shows "side (nested_put a b x m) (AList.update a (amount_or_0 totals a - old + x) totals)"
  using assms unfolding side_def by (simp add: AList.update_conv' total_update distinct_update)

lemma side_delete:
  assumes "side m totals" "old = amount_or_0 (inner m a) b" "map_of totals a = Some y"
  shows "side (nested_delete a b m) (AList.update a (y - old) totals)"
proof -
  have "amount_or_0 totals a = total_amount (inner m a)" using assms(1) unfolding side_def by blast
  then have "y = total_amount (inner m a)" using assms(3) by (simp add: amount_or_0_def)
  then show ?thesis
    using assms(1,2) unfolding side_def by (simp add: AList.update_conv' total_delete distinct_delete)
qed

definition delegation_inv :: "delegationCache \<Rightarrow> bool" where
  "delegation_inv c \<longleftrightarrow>
    side (dc_nodeDelegations c) (dc_nodeStakeAmount c)
    \<and> side (dc_userDelegations c) (dc_userStakeAmount c)
    \<and> (\<forall>n d. entry (dc_nodeDelegations c) n d = entry (dc_userDelegations c) d n)
    \<and> distinct (map fst (dc_nodeDelegations c))"

lemma distinct_nested_put [simp]: "distinct (map fst m) \<Longrightarrow> distinct (map fst (nested_put a b x m))"
  by (simp add: nested_put_def distinct_update)

lemma entry_amount: "amount_or_0 (inner m a) b = (case entry m a b of None \<Rightarrow> 0 | Some x \<Rightarrow> x)"
  by (simp add: amount_or_0_def entry_def)

lemma new_inv [simp]: "delegation_inv newDelegationCache"
  by (simp add: delegation_inv_def newDelegationCache_def side_def inner_def entry_def
      amount_or_0_def total_amount_def)

lemma update_keeps:
  assumes "delegation_inv c"
  shows "delegation_inv (delegation_update d n x c)"
proof -
  have "amount_or_0 (inner (dc_userDelegations c) d) n = amount_or_0 (inner (dc_nodeDelegations c) n) d"
    using assms by (simp add: entry_amount delegation_inv_def)
  then show ?thesis
    using assms side_put[of "dc_nodeDelegations c" "dc_nodeStakeAmount c" _ n d x]
      side_put[of "dc_userDelegations c" "dc_userStakeAmount c" _ d n x]
    by (auto simp: delegation_inv_def delegation_update_def entry_put Let_def)
qed

lemma distinct_nested_delete [simp]:
  "distinct (map fst m) \<Longrightarrow> distinct (map fst (nested_delete a b m))"
  by (simp add: nested_delete_def distinct_update distinct_delete Let_def split: option.splits)

lemma side_total_known:
  assumes "side m totals" "entry m a b = Some x"
  shows "\<exists>y. map_of totals a = Some y"
proof -
  have "inner m a \<noteq> []" using assms(2) by (auto simp: entry_def)
  then show ?thesis using assms(1) unfolding side_def by fastforce
qed

lemma sub_amount_known: "map_of m a = Some y \<Longrightarrow> sub_amount a x m = Inr (AList.update a (y - x) m)"
  by (simp add: sub_amount_def)

lemma unstake_keeps:
  assumes "delegation_inv c" "delegation_unstake d n c = Inr c'"
  shows "delegation_inv c'"
proof -
  let ?old = "amount_or_0 (inner (dc_nodeDelegations c) n) d"
  have old: "?old = amount_or_0 (inner (dc_userDelegations c) d) n"
    using assms(1) by (simp add: entry_amount delegation_inv_def)
  obtain y z where yz: "map_of (dc_userStakeAmount c) d = Some y" "map_of (dc_nodeStakeAmount c) n = Some z"
    and c': "c' = \<lparr> dc_nodeDelegations = nested_delete n d (dc_nodeDelegations c),
      dc_userDelegations = nested_delete d n (dc_userDelegations c),
      dc_userStakeAmount = AList.update d (y - ?old) (dc_userStakeAmount c),
      dc_nodeStakeAmount = AList.update n (z - ?old) (dc_nodeStakeAmount c) \<rparr>"
    using assms(2)
    by (auto simp: delegation_unstake_def sub_amount_def Let_def split: option.splits sum.splits)
  show ?thesis
    using assms(1) side_delete[OF _ refl yz(2), of "dc_nodeDelegations c" d]
      side_delete[OF _ old yz(1)]
    by (auto simp: c' delegation_inv_def entry_delete)
qed

lemma unstake_ok:
  assumes "delegation_inv c" "entry (dc_nodeDelegations c) n d = Some x"
  shows "\<exists>c'. delegation_unstake d n c = Inr c'"
proof -
  obtain y z where "map_of (dc_userStakeAmount c) d = Some y" "map_of (dc_nodeStakeAmount c) n = Some z"
    using side_total_known[of "dc_nodeDelegations c" "dc_nodeStakeAmount c" n d x]
      side_total_known[of "dc_userDelegations c" "dc_userStakeAmount c" d n x] assms
    by (auto simp: delegation_inv_def)
  then show ?thesis by (simp add: delegation_unstake_def sub_amount_known Let_def)
qed

lemma remove_delegators_keeps:
  assumes "side ud us" "distinct (map fst ds)" "\<And>d x. (d, x) \<in> set ds \<Longrightarrow> entry ud d n = Some x"
  shows "\<exists>ud' us'. remove_delegators n ds ud us = Inr (ud', us') \<and> side ud' us'
    \<and> (\<forall>d m. entry ud' d m = (if m = n \<and> d \<in> fst ` set ds then None else entry ud d m))"
  using assms
proof (induction n ds ud us rule: remove_delegators.induct)
  case (2 n d x rest ud us)
  have e: "entry ud d n = Some x" using "2.prems"(3) by simp
  obtain y where y: "map_of us d = Some y" using side_total_known[OF "2.prems"(1) e] by blast
  have s: "side (nested_delete d n ud) (AList.update d (y - x) us)"
    using side_delete[OF "2.prems"(1) _ y, of x n] e by (simp add: entry_amount)
  have "entry (nested_delete d n ud) d' n = Some x'" if "(d', x') \<in> set rest" for d' x'
    using that "2.prems"(2,3) by (auto simp: entry_delete image_iff)
  from "2.IH"[OF sub_amount_known[OF y] s _ this] "2.prems"(2)
  obtain ud' us' where "remove_delegators n rest (nested_delete d n ud) (AList.update d (y - x) us) = Inr (ud', us')"
    "side ud' us'"
    "\<forall>d' m. entry ud' d' m = (if m = n \<and> d' \<in> fst ` set rest then None else entry (nested_delete d n ud) d' m)"
    by auto
  then show ?case by (auto simp: sub_amount_known[OF y] entry_delete)
qed simp

lemma inner_alist_delete: "inner (AList.delete a m) b = (if b = a then [] else inner m b)"
  by (simp add: inner_def AList.delete_conv')

lemma removeNode_keeps:
  assumes "delegation_inv c"
  shows "\<exists>c'. delegation_removeNode n c = Inr c' \<and> delegation_inv c'
    \<and> (\<forall>m d. entry (dc_nodeDelegations c') m d = (if m = n then None else entry (dc_nodeDelegations c) m d))"
proof (cases "map_of (dc_nodeDelegations c) n")
  case None
  then show ?thesis using assms by (auto simp: delegation_removeNode_def entry_def inner_def)
next
  case (Some ds)
  have i: "inner (dc_nodeDelegations c) n = ds" using Some by (simp add: inner_def)
  have d: "distinct (map fst ds)" and s: "side (dc_userDelegations c) (dc_userStakeAmount c)"
    using assms i unfolding delegation_inv_def side_def by metis+
  have e: "entry (dc_userDelegations c) k n = map_of ds k" for k
    using assms i by (simp add: delegation_inv_def entry_def) metis
  have "entry (dc_userDelegations c) k n = Some x" if "(k, x) \<in> set ds" for k x
    using that d e by (simp add: map_of_is_SomeI)
  from remove_delegators_keeps[OF s d this]
  obtain ud us where r: "remove_delegators n ds (dc_userDelegations c) (dc_userStakeAmount c) = Inr (ud, us)"
    and su: "side ud us"
    and eu: "\<And>k m. entry ud k m = (if m = n \<and> k \<in> fst ` set ds then None else entry (dc_userDelegations c) k m)"
    by blast
  let ?c = "\<lparr> dc_nodeDelegations = AList.delete n (dc_nodeDelegations c), dc_userDelegations = ud,
    dc_userStakeAmount = us, dc_nodeStakeAmount = AList.update n 0 (dc_nodeStakeAmount c) \<rparr>"
  have en: "entry (AList.delete n (dc_nodeDelegations c)) m k =
    (if m = n then None else entry (dc_nodeDelegations c) m k)" for m k
    by (simp add: entry_def inner_alist_delete)
  have "entry ud k n = None" for k
    using eu[of k n] e[of k] by (auto simp: map_of_eq_None_iff)
  then have "entry (AList.delete n (dc_nodeDelegations c)) m k = entry ud k m" for m k
    using eu[of k m] assms by (auto simp: en delegation_inv_def)
  moreover have "side (AList.delete n (dc_nodeDelegations c)) (AList.update n 0 (dc_nodeStakeAmount c))"
    using assms by (simp add: delegation_inv_def side_def inner_alist_delete AList.update_conv')
  ultimately have "delegation_inv ?c"
    using su assms by (simp add: delegation_inv_def distinct_delete)
  then show ?thesis using en by (auto simp: delegation_removeNode_def Some r)
qed

section \<open>Reachable caches\<close>

inductive delegation_reach :: "delegationCache \<Rightarrow> bool" where
  start: "delegation_reach newDelegationCache"
| update: "delegation_reach c \<Longrightarrow> delegation_reach (delegation_update d n x c)"
| unstake: "delegation_reach c \<Longrightarrow> delegation_unstake d n c = Inr c' \<Longrightarrow> delegation_reach c'"
| removeNode: "delegation_reach c \<Longrightarrow> delegation_removeNode n c = Inr c' \<Longrightarrow> delegation_reach c'"

lemma reach_inv: "delegation_reach c \<Longrightarrow> delegation_inv c"
proof (induction rule: delegation_reach.induct)
  case (removeNode c n c')
  then show ?case using removeNode_keeps[of c n] by auto
qed (auto intro: update_keeps unstake_keeps)

text \<open>
  What a client of the books relies on: the parts it is given are listed once each and add up to
  the whole; then sharing out an amount pro rata, rounding every share down, leaves a remainder
  that is not negative and smaller than the number of shares.
\<close>

locale stake_book =
  fixes inv :: "'c \<Rightarrow> bool"
    and parts :: "'c \<Rightarrow> 'k \<Rightarrow> 'l amounts"
    and whole :: "'c \<Rightarrow> 'k \<Rightarrow> int"
  assumes parts_distinct: "inv c \<Longrightarrow> distinct (map fst (parts c a))"
    and parts_whole: "inv c \<Longrightarrow> whole c a = total_amount (parts c a)"
begin

lemma shares_bound:
  assumes "0 < w" "0 \<le> f"
  shows "(\<Sum>e\<leftarrow>l. f * snd e div w) * w \<le> f * total_amount l
    \<and> f * total_amount l \<le> (\<Sum>e\<leftarrow>l. f * snd e div w) * w + int (length l) * (w - 1)"
proof (induction l)
  case (Cons e l)
  define q r where "q = f * snd e div w" and "r = f * snd e mod w"
  have "f * snd e = q * w + r" by (simp add: q_def r_def)
  moreover have "0 \<le> r" "r \<le> w - 1" using assms(1) by (simp_all add: r_def)
  ultimately show ?case using Cons by (simp add: q_def[symmetric] algebra_simps)
qed simp

lemma pro_rata:
  assumes "inv c" "0 < whole c a" "0 \<le> f" "parts c a \<noteq> []"
  shows "0 \<le> f - (\<Sum>e\<leftarrow>parts c a. f * snd e div whole c a)
    \<and> f - (\<Sum>e\<leftarrow>parts c a. f * snd e div whole c a) < int (length (parts c a))"
proof -
  let ?w = "whole c a" and ?s = "\<Sum>e\<leftarrow>parts c a. f * snd e div whole c a"
  have b: "?s * ?w \<le> f * ?w" "f * ?w \<le> ?s * ?w + int (length (parts c a)) * (?w - 1)"
    using shares_bound[OF assms(2,3), of "parts c a"] parts_whole[OF assms(1), of a] by simp_all
  have "?s \<le> f" using b(1) assms(2) by simp
  moreover have "f < ?s + int (length (parts c a))"
  proof -
    have "int (length (parts c a)) * (?w - 1) < int (length (parts c a)) * ?w"
      using assms(4) by simp
    then have "f * ?w < (?s + int (length (parts c a))) * ?w"
      using b(2) by (simp add: distrib_right)
    then show ?thesis using assms(2) by simp
  qed
  ultimately show ?thesis by simp
qed

end

lemma side_parts: "side m totals \<Longrightarrow> distinct (map fst (inner m a))"
  and side_whole: "side m totals \<Longrightarrow> amount_or_0 totals a = total_amount (inner m a)"
  by (simp_all add: side_def)

interpretation node_book: stake_book delegation_inv getDelegationsOfNode getNodeTotalStakeAmount
  by unfold_locales (auto simp: delegation_inv_def getDelegationsOfNode_def getNodeTotalStakeAmount_def
      intro: side_parts side_whole)

interpretation user_book: stake_book delegation_inv getDelegationsOfDelegator getDelegatorTotalStakeAmount
  by unfold_locales (auto simp: delegation_inv_def getDelegationsOfDelegator_def
      getDelegatorTotalStakeAmount_def intro: side_parts side_whole)

text \<open>
  C8: in every delegation cache that updates, unstakings and node removals can produce, the total
  kept per node and per delegator is the sum of its delegations, the two indexes agree entry by
  entry, and neither unstaking a recorded delegation nor removing a node dereferences a missing
  total; removing a node removes exactly its delegations.
\<close>

theorem delegation_books_balance:
  assumes "delegation_reach c"
  shows "getNodeTotalStakeAmount c n = total_amount (getDelegationsOfNode c n)
    \<and> getDelegatorTotalStakeAmount c d = total_amount (getDelegationsOfDelegator c d)
    \<and> map_of (getDelegationsOfNode c n) d = map_of (getDelegationsOfDelegator c d) n
    \<and> (map_of (getDelegationsOfNode c n) d \<noteq> None \<longrightarrow> (\<exists>c'. delegation_unstake d n c = Inr c'))
    \<and> (\<exists>c'. delegation_removeNode n c = Inr c' \<and> getDelegationsOfNode c' n = []
         \<and> (\<forall>m k. m \<noteq> n \<longrightarrow> map_of (getDelegationsOfNode c' m) k = map_of (getDelegationsOfNode c m) k))"
proof -
  have i: "delegation_inv c" using assms by (rule reach_inv)
  obtain c' where c': "delegation_removeNode n c = Inr c'"
    and e: "\<And>m k. entry (dc_nodeDelegations c') m k =
      (if m = n then None else entry (dc_nodeDelegations c) m k)"
    using removeNode_keeps[OF i, of n] by blast
  have "map_of (getDelegationsOfNode c' n) k = None" for k
    using e[of n k] by (simp add: getDelegationsOfNode_def entry_def)
  then have "getDelegationsOfNode c' n = []"
    by (metis map_of_eq_empty_iff ext)
  moreover have "map_of (getDelegationsOfNode c' m) k = map_of (getDelegationsOfNode c m) k"
    if "m \<noteq> n" for m k
    using e[of m k] that by (simp add: getDelegationsOfNode_def entry_def)
  moreover have "map_of (getDelegationsOfNode c n) d = map_of (getDelegationsOfDelegator c d) n"
    using i by (simp add: delegation_inv_def entry_def getDelegationsOfNode_def getDelegationsOfDelegator_def)
  moreover have "\<exists>c'. delegation_unstake d n c = Inr c'" if "map_of (getDelegationsOfNode c n) d \<noteq> None"
    using unstake_ok[OF i, of n d] that by (auto simp: entry_def getDelegationsOfNode_def)
  ultimately show ?thesis
    using node_book.parts_whole[OF i] user_book.parts_whole[OF i] c' by auto
qed

theorem delegation_books_balance_witness:
  "getNodeTotalStakeAmount (delegation_update ''bob'' ''node'' 7
     (delegation_update ''alice'' ''node'' 5 newDelegationCache)) ''node'' = 12"
proof -
  have "delegation_reach (delegation_update ''bob'' ''node'' 7
     (delegation_update ''alice'' ''node'' 5 newDelegationCache))"
    by (intro delegation_reach.intros)
  from delegation_books_balance[OF this, of "''node''" "''bob''"] show ?thesis
    by (simp add: getDelegationsOfNode_def delegation_update_def newDelegationCache_def
        nested_put_def inner_def Let_def)
qed

end
