(* ===== verification/State.thy ===== *)
theory State
  imports Config MaxStaking DelegationCache
begin

text \<open>
  The state every operation of the relay works on: the database, one list of rows per table in
  id order, and the process memory, the caches kept beside it.  An operation of type
  \<^verbatim>\<open>'a relay\<close> reads and writes both; \<^verbatim>\<open>txn\<close> undoes only the database.  Calls into components that
  are not modelled (execution calibration, tracing, loaded model records, list snapshots) are
  kept, in order, in \<^verbatim>\<open>m_calls\<close>.  The theory also has the row operations of package \<^verbatim>\<open>models\<close>
  that the services share.
\<close>

section \<open>Database and memory\<close>

record db =
  d_tasks :: "InferenceTask list"
  d_nodes :: "Node list"
  d_accounts :: "RelayAccount list"
  d_events :: "RelayAccountEvent list"
  d_deposits :: "DepositRecord list"
  d_withdraws :: "WithdrawRecord list"
  d_vestings :: "VestingRecord list"
  d_vesting_details :: "VestingDelegationEmissionDetail list"
  d_weekly_emissions :: "((address \<times> time) \<times> int) list"
  d_delegations :: "Delegation list"
  d_node_earnings :: "NodeEarning list"
  d_user_earnings :: "UserEarning list"
  d_staking_earnings :: "UserStakingEarning list"
  d_incentives :: "NodeIncentive list"
  d_name_counts :: "NodeNameCount list"
  d_name_whitelist :: "NodeNameWhitelist list"
  d_pending_slashes :: "PendingSlash list"
  d_chain_txs :: "BlockchainTransaction list"
  d_model_files :: "ModelFile list"
  d_node_models :: "NodeModel list"
  d_in_memory_models :: "NodeInMemoryModel list"
  d_selections :: "NodeModelDownloadSelection list"
  d_slash_jobs :: "DelegatedSlashJob list"
  d_network_nodes :: "NetworkNodeData list"
  d_model_whitelist :: "string list"
  d_loaded_models :: "(nat \<times> string) list"
  d_total_tasks :: nat
  d_log :: "Event list"

datatype call =
    CalibrateValidatedSDTask string
  | CalibrateUploadedLLMTask string nat
  | CaptureTaskExecutionGPUSnapshot string
  | DeleteTaskExecutionGPUSnapshot string
  | captureRunningTaskSnapshot string
  | deleteRunningTaskSnapshot string
  | captureTaskTraceStartSnapshot string
  | updateLoadedModels string address
  | RecordNodeQosTrace address string string
  | RefreshDelegatedStakingNodeListSnapshot address
  | EnsureRequiredModelDownloads address
  | invalidateLoadedModelViewCache

text \<open>What the scheduling index keeps of a node (\<^verbatim>\<open>service/node_index.go\<close>); the sets of file hashes
  are lists without duplicates.\<close>

record NodeIndexEntry =
  ie_Address :: address
  ie_Network :: string
  ie_Status :: NodeStatus
  ie_HasCurrentTask :: bool
  ie_GPUName :: string
  ie_GPUVram :: nat
  ie_MajorVersion :: nat
  ie_MinorVersion :: nat
  ie_PatchVersion :: nat
  ie_QOSScore :: float64
  ie_HealthBase :: float64
  ie_HealthUpdatedAt :: "time option"
  ie_HealthExcluded :: bool
  ie_StakeAmount :: int
  ie_OnDiskModelFileHashes :: "bytes list"
  ie_OnDiskModelFileSourceHashes :: "bytes list"
  ie_CurrentModelCacheHash :: "bytes option"
  ie_CurrentModelFileHashes :: "bytes list"
  ie_CurrentModelFileSourceHashes :: "bytes list"

record mem =
  m_accounts :: "(address \<times> int) list"
  m_delegations :: delegationCaches
  m_shares :: "(string \<times> nat) list"
  m_maxStaking :: maxStaking
  m_vestings :: "(address \<times> VestingRecord list) list option"
  m_qosPool :: "(address \<times> nat list) list"
  m_nameCounts :: "(string \<times> nat) list option"
  m_nameWhitelist :: "string list option"
  m_nodeIndex :: "(address \<times> NodeIndexEntry) list"
  m_modelWhitelist :: "(string list \<times> string list) option"
  m_calls :: "call list"

type_synonym state = "db \<times> mem"
type_synonym 'a relay = "(state, 'a) op"

definition empty_db :: db where
  "empty_db = \<lparr> d_tasks = [], d_nodes = [], d_accounts = [], d_events = [], d_deposits = [],
     d_withdraws = [], d_vestings = [], d_vesting_details = [], d_weekly_emissions = [],
     d_delegations = [], d_node_earnings = [], d_user_earnings = [], d_staking_earnings = [],
     d_incentives = [], d_name_counts = [], d_name_whitelist = [], d_pending_slashes = [],
     d_chain_txs = [], d_model_files = [], d_node_models = [], d_in_memory_models = [], d_selections = [],
     d_slash_jobs = [], d_network_nodes = [], d_model_whitelist = [], d_loaded_models = [], d_total_tasks = 0, d_log = [] \<rparr>"

definition empty_mem :: mem where
  "empty_mem = \<lparr> m_accounts = [], m_delegations = [], m_shares = [], m_maxStaking = newMaxStaking,
     m_vestings = None, m_qosPool = [], m_nameCounts = None, m_nameWhitelist = None,
     m_nodeIndex = [], m_modelWhitelist = None, m_calls = [] \<rparr>"

definition read_db :: "(db \<Rightarrow> 'a) \<Rightarrow> 'a relay" where
  "read_db f = gets (\<lambda>s. f (fst s))"

definition read_mem :: "(mem \<Rightarrow> 'a) \<Rightarrow> 'a relay" where
  "read_mem f = gets (\<lambda>s. f (snd s))"

definition write_db :: "(db \<Rightarrow> db) \<Rightarrow> unit relay" where
  "write_db f = modify (\<lambda>s. (f (fst s), snd s))"

definition write_mem :: "(mem \<Rightarrow> mem) \<Rightarrow> unit relay" where
  "write_mem f = modify (\<lambda>s. (fst s, f (snd s)))"

definition call :: "call \<Rightarrow> unit relay" where
  "call c = write_mem (\<lambda>m. m\<lparr> m_calls := m_calls m @ [c] \<rparr>)"

section \<open>Row operations of package models\<close>

definition emitEvent :: "relay_event \<Rightarrow> unit relay" where
  "emitEvent e = write_db (\<lambda>d. d\<lparr> d_log := d_log d @ [ToEvent e] \<rparr>)"

text \<open>A query by example (\<^verbatim>\<open>Where(&task)\<close>) has no condition for a zero field: an empty
  commitment or address matches every row, and \<^verbatim>\<open>First\<close> takes the row with the least id.\<close>

definition GetTaskByIDCommitment :: "string \<Rightarrow> InferenceTask relay" where
  "GetTaskByIDCommitment taskIDCommitment =
    bnd (read_db (\<lambda>d. find (\<lambda>t. taskIDCommitment = [] \<or> t_TaskIDCommitment t = taskIDCommitment) (d_tasks d)))
      (of_option ErrRecordNotFound)"

definition GetNodeByAddress :: "address \<Rightarrow> Node relay" where
  "GetNodeByAddress addr =
    bnd (read_db (\<lambda>d. find (\<lambda>n. addr = [] \<or> n_Address n = addr) (d_nodes d)))
      (of_option ErrRecordNotFound)"

definition GetNodesByAddresses :: "address list \<Rightarrow> Node list relay" where
  "GetNodesByAddresses addrs = read_db (\<lambda>d. filter (\<lambda>n. n_Address n \<in> set addrs) (d_nodes d))"

definition GetTaskGroupByTaskID :: "string \<Rightarrow> InferenceTask list relay" where
  "GetTaskGroupByTaskID taskID = read_db (\<lambda>d. filter (\<lambda>t. t_TaskID t = taskID) (d_tasks d))"

definition SyncStatus :: "InferenceTask \<Rightarrow> InferenceTask relay" where
  "SyncStatus task =
    (if t_ID task = 0 then raise ErrTaskIDEmpty
     else bnd (read_db (\<lambda>d. find (\<lambda>t. t_ID t = t_ID task) (d_tasks d))) (\<lambda>r.
          bnd (of_option ErrRecordNotFound r) (\<lambda>res.
          ret (task\<lparr> t_Status := t_Status res, t_AbortReason := t_AbortReason res \<rparr>))))"

text \<open>
  \<^verbatim>\<open>task.Update(values)\<close> with a status among the values: the row is written only while it still
  has the status the caller read, and gorm assigns the values to the caller's struct as well.
  \<^verbatim>\<open>upd\<close> is the map of values as a function on the record.
\<close>

definition task_Update_status ::
  "InferenceTask \<Rightarrow> (InferenceTask \<Rightarrow> InferenceTask) \<Rightarrow> InferenceTask relay" where
  "task_Update_status task upd =
    (if t_ID task = 0 then raise ErrTaskIDEmpty
     else bnd (read_db (\<lambda>d. filter (\<lambda>t. t_ID t = t_ID task \<and> t_Status t = t_Status task) (d_tasks d))) (\<lambda>hits.
          bnd (check (hits \<noteq> []) ErrTaskStatusChanged) (\<lambda>_.
          bnd (write_db (\<lambda>d. d\<lparr> d_tasks :=
                 upd_where (\<lambda>t. t_ID t = t_ID task \<and> t_Status t = t_Status task) upd (d_tasks d) \<rparr>)) (\<lambda>_.
          ret (upd task)))))"

definition task_Update ::
  "InferenceTask \<Rightarrow> (InferenceTask \<Rightarrow> InferenceTask) \<Rightarrow> InferenceTask relay" where
  "task_Update task upd =
    (if t_ID task = 0 then raise ErrTaskIDEmpty
     else bnd (write_db (\<lambda>d. d\<lparr> d_tasks := upd_where (\<lambda>t. t_ID t = t_ID task) upd (d_tasks d) \<rparr>)) (\<lambda>_.
          ret (upd task)))"

definition task_Create :: "InferenceTask \<Rightarrow> InferenceTask relay" where
  "task_Create task =
    bnd (read_db d_tasks) (\<lambda>rows.
    bnd (check (\<forall>t\<in>set rows. t_TaskIDCommitment t \<noteq> t_TaskIDCommitment task) ErrDuplicatedKey) (\<lambda>_.
    (let row = task\<lparr> t_ID := next_id t_ID rows \<rparr> in
     bnd (write_db (\<lambda>d. d\<lparr> d_tasks := d_tasks d @ [row] \<rparr>)) (\<lambda>_. ret row))))"

definition node_Update_status :: "Node \<Rightarrow> (Node \<Rightarrow> Node) \<Rightarrow> Node relay" where
  "node_Update_status node upd =
    (if n_ID node = 0 then raise (errors_New ''Node.ID cannot be 0 when update'')
     else bnd (read_db (\<lambda>d. filter (\<lambda>n. n_ID n = n_ID node \<and> n_Status n = n_Status node) (d_nodes d))) (\<lambda>hits.
          bnd (check (hits \<noteq> []) ErrNodeStatusChanged) (\<lambda>_.
          bnd (write_db (\<lambda>d. d\<lparr> d_nodes :=
                 upd_where (\<lambda>n. n_ID n = n_ID node \<and> n_Status n = n_Status node) upd (d_nodes d) \<rparr>)) (\<lambda>_.
          ret (upd node)))))"

definition node_Update :: "Node \<Rightarrow> (Node \<Rightarrow> Node) \<Rightarrow> Node relay" where
  "node_Update node upd =
    (if n_ID node = 0 then raise (errors_New ''Node.ID cannot be 0 when update'')
     else bnd (write_db (\<lambda>d. d\<lparr> d_nodes := upd_where (\<lambda>n. n_ID n = n_ID node) upd (d_nodes d) \<rparr>)) (\<lambda>_.
          ret (upd node)))"

definition node_Sync :: "Node \<Rightarrow> Node relay" where
  "node_Sync node =
    bnd (read_db (\<lambda>d. find (\<lambda>n. n_ID node = 0 \<or> n_ID n = n_ID node) (d_nodes d)))
      (of_option ErrRecordNotFound)"

definition AddTotalTask :: "unit relay" where
  "AddTotalTask = write_db (\<lambda>d. d\<lparr> d_total_tasks := d_total_tasks d + 1 \<rparr>)"

section \<open>How the primitives run\<close>

lemma read_db_run [op_simps]: "read_db f s = (Inr (f (fst s)), s)"
  by (simp add: read_db_def op_simps)

lemma read_mem_run [op_simps]: "read_mem f s = (Inr (f (snd s)), s)"
  by (simp add: read_mem_def op_simps)

lemma write_db_run [op_simps]: "write_db f s = (Inr (), (f (fst s), snd s))"
  by (simp add: write_db_def op_simps)

lemma write_mem_run [op_simps]: "write_mem f s = (Inr (), (fst s, f (snd s)))"
  by (simp add: write_mem_def op_simps)

lemma returns_read_db [simp]: "returns (read_db f) s b s' \<longleftrightarrow> b = f (fst s) \<and> s' = s"
  by (simp add: read_db_def)

lemma returns_read_mem [simp]: "returns (read_mem f) s b s' \<longleftrightarrow> b = f (snd s) \<and> s' = s"
  by (simp add: read_mem_def)

lemma returns_write_db [simp]: "returns (write_db f) s b s' \<longleftrightarrow> s' = (f (fst s), snd s)"
  by (simp add: write_db_def)

lemma returns_write_mem [simp]: "returns (write_mem f) s b s' \<longleftrightarrow> s' = (fst s, f (snd s))"
  by (simp add: write_mem_def)

lemma frame_read_db [simp]: "db_frame (read_db f)"
  and frame_read_mem [simp]: "db_frame (read_mem h)"
  and frame_write_mem [simp]: "db_frame (write_mem g)"
  and frame_call [simp]: "db_frame (call c)"
  by (simp_all add: db_frame_def op_simps call_def)

lemma write_db_steps: "(\<And>d. R d (f d)) \<Longrightarrow> db_steps R (write_db f)"
  by (simp add: db_steps_def op_simps)

lemma never_fails_state [simp]:
  "never_fails (read_db f)" "never_fails (read_mem g)" "never_fails (write_db h)" "never_fails (write_mem k)"
  by (simp_all add: read_db_def read_mem_def write_db_def write_mem_def)

end
