(* ===== verification/RelayAccount.thy ===== *)
theory RelayAccount
  imports State VestingSchedule "HOL-Library.Multiset"
begin

text \<open>
  The ledger of \<^verbatim>\<open>service/relay_account.go\<close>.  Money moves by appending a pending event to the
  database and adjusting the in-memory balance; a background pass later validates pending events
  in id order and folds the valid ones into the stored balances.  A function of the source that
  returns a commit closure returns an operation here, to be run by its caller.  The balance
  pointers the closures capture are the cache's own entries, which are never replaced, so a
  closure is the adjustment of the cache entry of its address.

  Reading receipts and transfers from a chain goes through a client that is an argument; so are
  the Ethereum encodings (topics, checksummed addresses) and the keyed hash that seals a
  processed row.
\<close>

section \<open>Ledger primitives\<close>

definition reason1 :: "RelayAccountEventType \<Rightarrow> string \<Rightarrow> string" where
  "reason1 eventType x = FormatUint (event_type_num eventType) @ dash # x"

definition reason2 :: "RelayAccountEventType \<Rightarrow> string \<Rightarrow> string \<Rightarrow> string" where
  "reason2 eventType x y = FormatUint (event_type_num eventType) @ dash # x @ dash # y"

definition account_balance :: "db \<Rightarrow> address \<Rightarrow> int" where
  "account_balance d addr =
    (case find (\<lambda>a. ra_Address a = addr) (d_accounts d) of Some a \<Rightarrow> ra_Balance a | None \<Rightarrow> 0)"

definition getRelayAccountFromCache :: "address \<Rightarrow> int relay" where
  "getRelayAccountFromCache addr =
    bnd (read_mem (\<lambda>m. map_of (m_accounts m) addr)) (\<lambda>cached.
    case cached of
      Some balance \<Rightarrow> ret balance
    | None \<Rightarrow>
        bnd (read_db (\<lambda>d. account_balance d addr)) (\<lambda>balance.
        bnd (write_mem (\<lambda>m. m\<lparr> m_accounts := AList.update addr balance (m_accounts m) \<rparr>)) (\<lambda>_.
        ret balance)))"

definition GetRelayAccountBalance :: "address \<Rightarrow> int relay" where
  "GetRelayAccountBalance addr = getRelayAccountFromCache addr"

definition GetCachedRelayAccountBalance :: "mem \<Rightarrow> address \<Rightarrow> int" where
  "GetCachedRelayAccountBalance m addr =
    (case map_of (m_accounts m) addr of None \<Rightarrow> 0 | Some balance \<Rightarrow> balance)"

definition add_cached :: "address \<Rightarrow> int \<Rightarrow> unit relay" where
  "add_cached addr amount =
    write_mem (\<lambda>m. m\<lparr> m_accounts := AList.update addr (amount_or_0 (m_accounts m) addr + amount) (m_accounts m) \<rparr>)"

definition sub_cached_checked :: "address \<Rightarrow> int \<Rightarrow> unit relay" where
  "sub_cached_checked addr amount =
    bnd (read_mem (\<lambda>m. amount_or_0 (m_accounts m) addr)) (\<lambda>balance.
    bnd (check (amount \<le> balance) ErrInsufficientRelayAccount) (\<lambda>_.
    add_cached addr (- amount)))"

definition new_event :: "RelayAccountEventType \<Rightarrow> string \<Rightarrow> address \<Rightarrow> int \<Rightarrow> time \<Rightarrow> RelayAccountEvent" where
  "new_event eventType reason addr amount now =
    \<lparr> re_ID = 0, re_CreatedAt = now, re_Address = addr, re_Amount = amount,
      re_Status = RelayAccountEventStatusPending, re_Reason = reason, re_Type = eventType, re_MAC = [] \<rparr>"

text \<open>The reason column has a unique index.\<close>

definition createRelayAccountEventWithID ::
  "RelayAccountEventType \<Rightarrow> string \<Rightarrow> address \<Rightarrow> int \<Rightarrow> time \<Rightarrow> nat relay" where
  "createRelayAccountEventWithID eventType reason addr amount now =
    bnd (read_db d_events) (\<lambda>rows.
    bnd (check (\<forall>e\<in>set rows. re_Reason e \<noteq> reason) ErrDuplicatedKey) (\<lambda>_.
    (let i = next_id re_ID rows in
     bnd (write_db (\<lambda>d. d\<lparr> d_events := d_events d @ [(new_event eventType reason addr amount now)\<lparr> re_ID := i \<rparr>] \<rparr>)) (\<lambda>_.
     ret i))))"

definition createRelayAccountEvent ::
  "RelayAccountEventType \<Rightarrow> string \<Rightarrow> address \<Rightarrow> int \<Rightarrow> time \<Rightarrow> unit relay" where
  "createRelayAccountEvent eventType reason addr amount now =
    bnd (createRelayAccountEventWithID eventType reason addr amount now) (\<lambda>_. ret ())"

text \<open>One \<^verbatim>\<open>INSERT\<close> of several rows: all of them or none.\<close>

definition createRelayAccountEvents :: "RelayAccountEvent list \<Rightarrow> unit relay" where
  "createRelayAccountEvents events =
    bnd (read_db d_events) (\<lambda>rows.
    bnd (check (distinct (map re_Reason (rows @ events))) ErrDuplicatedKey) (\<lambda>_.
    (let i = next_id re_ID rows in
     write_db (\<lambda>d. d\<lparr> d_events := d_events d @
       map (\<lambda>(k, e). e\<lparr> re_ID := i + k \<rparr>) (List.enumerate 0 events) \<rparr>))))"

section \<open>Money movements\<close>

definition deposit_begin :: "string \<Rightarrow> address \<Rightarrow> int \<Rightarrow> string \<Rightarrow> time \<Rightarrow> unit relay" where
  "deposit_begin txHash addr amount network now =
    txn (bnd (createRelayAccountEventWithID RelayAccountEventTypeDeposit
                (reason2 RelayAccountEventTypeDeposit txHash network) addr amount now) (\<lambda>i.
         write_db (\<lambda>d. d\<lparr> d_deposits := d_deposits d @
           [\<lparr> dr_ID = next_id dr_ID (d_deposits d), dr_Address = addr, dr_Amount = amount,
              dr_Network = network, dr_TxHash = txHash, dr_RelayAccountEventID = i,
              dr_LocalStatus = DepositLocalStatusPending \<rparr>] \<rparr>)))"

definition deposit_finish :: "address \<Rightarrow> int \<Rightarrow> unit relay relay" where
  "deposit_finish addr amount =
    bnd (getRelayAccountFromCache addr) (\<lambda>_. ret (add_cached addr amount))"

definition depositRelayAccount :: "string \<Rightarrow> address \<Rightarrow> int \<Rightarrow> string \<Rightarrow> time \<Rightarrow> unit relay relay" where
  "depositRelayAccount txHash addr amount network now =
    bnd (deposit_begin txHash addr amount network now) (\<lambda>_. deposit_finish addr amount)"

definition chargeTaskFromRelayAccount :: "string \<Rightarrow> address \<Rightarrow> int \<Rightarrow> time \<Rightarrow> unit relay relay" where
  "chargeTaskFromRelayAccount taskIDCommitment addr amount now =
    bnd (getRelayAccountFromCache addr) (\<lambda>balance.
    bnd (check (amount \<le> balance) ErrInsufficientRelayAccount) (\<lambda>_.
    bnd (createRelayAccountEvent RelayAccountEventTypeTaskPayment
           (reason1 RelayAccountEventTypeTaskPayment taskIDCommitment) addr amount now) (\<lambda>_.
    ret (sub_cached_checked addr amount))))"

definition refundTaskPaymentToRelayAccount :: "string \<Rightarrow> address \<Rightarrow> int \<Rightarrow> time \<Rightarrow> unit relay relay" where
  "refundTaskPaymentToRelayAccount taskIDCommitment addr amount now =
    bnd (createRelayAccountEvent RelayAccountEventTypeTaskRefund
           (reason1 RelayAccountEventTypeTaskRefund taskIDCommitment) addr amount now) (\<lambda>_.
    bnd (getRelayAccountFromCache addr) (\<lambda>_.
    ret (add_cached addr amount)))"

definition chargeWithdrawFromRelayAccount :: "nat \<Rightarrow> address \<Rightarrow> int \<Rightarrow> time \<Rightarrow> (nat \<times> unit relay) relay" where
  "chargeWithdrawFromRelayAccount withdrawID addr amount now =
    bnd (getRelayAccountFromCache addr) (\<lambda>balance.
    bnd (check (amount \<le> balance) ErrInsufficientRelayAccount) (\<lambda>_.
    bnd (createRelayAccountEventWithID RelayAccountEventTypeWithdraw
           (reason1 RelayAccountEventTypeWithdraw (FormatUint withdrawID)) addr amount now) (\<lambda>i.
    ret (i, sub_cached_checked addr amount))))"

definition fulfillWithdrawFeeIncome :: "nat \<Rightarrow> address \<Rightarrow> int \<Rightarrow> time \<Rightarrow> unit relay relay" where
  "fulfillWithdrawFeeIncome withdrawID feeAddress fee now =
    bnd (createRelayAccountEvent RelayAccountEventTypeWithdrawFeeIncome
           (reason1 RelayAccountEventTypeWithdrawFeeIncome (FormatUint withdrawID)) feeAddress fee now) (\<lambda>_.
    bnd (getRelayAccountFromCache feeAddress) (\<lambda>_.
    ret (add_cached feeAddress fee)))"

definition rejectWithdrawToRelayAccount :: "nat \<Rightarrow> address \<Rightarrow> int \<Rightarrow> time \<Rightarrow> unit relay relay" where
  "rejectWithdrawToRelayAccount withdrawID addr amount now =
    bnd (createRelayAccountEvent RelayAccountEventTypeWithdrawRefund
           (reason1 RelayAccountEventTypeWithdrawRefund (FormatUint withdrawID)) addr amount now) (\<lambda>_.
    bnd (getRelayAccountFromCache addr) (\<lambda>_.
    ret (add_cached addr amount)))"

definition createVestingCreatedRelayAccountEvent :: "VestingRecord \<Rightarrow> time \<Rightarrow> unit relay" where
  "createVestingCreatedRelayAccountEvent record now =
    createRelayAccountEvent RelayAccountEventTypeVestingCreated
      (BuildVestingCreatedReason record) (v_Address record) 0 now"

definition releaseVestingToRelayAccount :: "nat \<Rightarrow> address \<Rightarrow> int \<Rightarrow> int \<Rightarrow> time \<Rightarrow> unit relay relay" where
  "releaseVestingToRelayAccount vestingID addr fromReleased toReleased now =
    bnd (check (fromReleased \<le> toReleased) (errors_New ''invalid release range'')) (\<lambda>_.
    (let releaseAmount = toReleased - fromReleased;
         reason = BuildVestingReleaseReason vestingID fromReleased toReleased in
     bnd (check (0 < releaseAmount) (errors_New ''release amount must be positive'')) (\<lambda>_.
     bnd (read_db (\<lambda>d. length (filter (\<lambda>e. re_Reason e = reason) (d_events d)))) (\<lambda>existingEventCount.
     bnd (check (existingEventCount = 0) ErrVestingReleaseRangeInvalid) (\<lambda>_.
     bnd (createRelayAccountEvent RelayAccountEventTypeVestingRelease reason addr releaseAmount now) (\<lambda>_.
     bnd (getRelayAccountFromCache addr) (\<lambda>_.
     ret (add_cached addr releaseAmount))))))))"

section \<open>Deposits on chain\<close>

datatype 'a rpc = NotFound | RpcError go_error | RpcOk 'a

record ReceiptLog =
  rl_Topics :: "bytes list"
  rl_Address :: address
  rl_Data :: bytes

record Receipt =
  rc_Successful :: bool
  rc_Logs :: "ReceiptLog list"

record TransactionTransfer =
  tt_From :: address
  tt_To :: "address option"
  tt_Value :: "int option"
  tt_Input :: bytes

record BlockchainClient =
  cl_TransactionReceipt :: "string \<Rightarrow> Receipt rpc"
  cl_GetTransactionTransfer :: "string \<Rightarrow> TransactionTransfer rpc"

text \<open>The Ethereum library: the topic of the ERC-20 transfer event, an address as a topic, the
  address in a topic as checksummed text, and the text of the zero address.\<close>

record eth_lib =
  eth_erc20TransferTopic :: bytes
  eth_addressTopic :: "address \<Rightarrow> bytes"
  eth_topicAddress :: "bytes \<Rightarrow> address"
  eth_zeroAddress :: address

record depositTxData =
  dt_FromAddress :: address
  dt_Amount :: int

fun big_endian :: "bytes \<Rightarrow> int" where
  "big_endian [] = 0"
| "big_endian (c # cs) = of_char c * 256 ^ length cs + big_endian cs"

definition isTransferToRelayAccountDepositAddress :: "TransactionTransfer \<Rightarrow> address \<Rightarrow> bool" where
  "isTransferToRelayAccountDepositAddress transfer depositAddress =
    (case tt_To transfer of None \<Rightarrow> False | Some to \<Rightarrow> EqualFold to depositAddress)"

definition isRelayAccountDepositTransfer :: "TransactionTransfer \<Rightarrow> address \<Rightarrow> bool" where
  "isRelayAccountDepositTransfer transfer depositAddress \<longleftrightarrow>
    isTransferToRelayAccountDepositAddress transfer depositAddress
    \<and> (case tt_Value transfer of None \<Rightarrow> False | Some v \<Rightarrow> 0 < v)
    \<and> tt_Input transfer = []"

fun validateERC20RelayAccountDepositReceipt ::
  "eth_lib \<Rightarrow> ReceiptLog list \<Rightarrow> address \<Rightarrow> address \<Rightarrow> depositTxData option" where
  "validateERC20RelayAccountDepositReceipt eth [] tokenAddress depositAddress = None"
| "validateERC20RelayAccountDepositReceipt eth (l # ls) tokenAddress depositAddress =
    (case rl_Topics l of
       [t0, t1, t2] \<Rightarrow>
         if t0 \<noteq> eth_erc20TransferTopic eth \<or> \<not> EqualFold (rl_Address l) tokenAddress
            \<or> t2 \<noteq> eth_addressTopic eth depositAddress \<or> length (rl_Data l) \<noteq> 32
         then validateERC20RelayAccountDepositReceipt eth ls tokenAddress depositAddress
         else if big_endian (rl_Data l) \<le> 0
         then validateERC20RelayAccountDepositReceipt eth ls tokenAddress depositAddress
         else if eth_topicAddress eth t1 = eth_zeroAddress eth
         then validateERC20RelayAccountDepositReceipt eth ls tokenAddress depositAddress
         else Some \<lparr> dt_FromAddress = eth_topicAddress eth t1, dt_Amount = big_endian (rl_Data l) \<rparr>
     | _ \<Rightarrow> validateERC20RelayAccountDepositReceipt eth ls tokenAddress depositAddress)"

definition deposit_tx ::
  "AppConfig \<Rightarrow> eth_lib \<Rightarrow> (string \<Rightarrow> go_error + BlockchainClient) \<Rightarrow> string \<Rightarrow> string
   \<Rightarrow> go_error + depositTxData option" where
  "deposit_tx cfg eth GetBlockchainClient txHash network =
    (case GetBlockchainClient network of
       Inl e \<Rightarrow> Inl e
     | Inr client \<Rightarrow>
         (case cl_TransactionReceipt client txHash of
            NotFound \<Rightarrow> Inr None
          | RpcError e \<Rightarrow> Inl e
          | RpcOk receipt \<Rightarrow>
              if \<not> rc_Successful receipt then Inr None
              else (case GetEffectiveFundingNetwork cfg network of
                 None \<Rightarrow> Inr None
               | Some net \<Rightarrow>
                   (case fn_TokenType net of
                      FundingTokenTypeNative \<Rightarrow>
                        (case cl_GetTransactionTransfer client txHash of
                           NotFound \<Rightarrow> Inr None
                         | RpcError e \<Rightarrow> Inl e
                         | RpcOk transfer \<Rightarrow>
                             if \<not> isRelayAccountDepositTransfer transfer (cfg_DepositAddress cfg) then Inr None
                             else Inr (map_option (\<lambda>v. \<lparr> dt_FromAddress = tt_From transfer, dt_Amount = v \<rparr>)
                                         (tt_Value transfer)))
                    | FundingTokenTypeERC20 \<Rightarrow>
                        Inr (validateERC20RelayAccountDepositReceipt eth (rc_Logs receipt)
                               (fn_TokenAddress net) (cfg_DepositAddress cfg))))))"

fun valid_deposit_txs ::
  "(string \<Rightarrow> string \<Rightarrow> go_error + depositTxData option) \<Rightarrow> (string \<times> string) list
   \<Rightarrow> (string \<times> depositTxData) list \<Rightarrow> go_error + (string \<times> depositTxData) list" where
  "valid_deposit_txs tx [] acc = Inr acc"
| "valid_deposit_txs tx ((txHash, network) # rs) acc =
    (let key = network @ dash # txHash in
     if map_of acc key \<noteq> None then valid_deposit_txs tx rs acc
     else case tx txHash network of
            Inl e \<Rightarrow> Inl e
          | Inr None \<Rightarrow> valid_deposit_txs tx rs acc
          | Inr (Some dt) \<Rightarrow> valid_deposit_txs tx rs (AList.update key dt acc))"

section \<open>Validation of pending events\<close>

text \<open>The first pass keeps the events whose reason can be read.\<close>

definition candidate :: "RelayAccountEvent \<Rightarrow> bool" where
  "candidate e =
    (case splitRelayAccountEventReason (re_Type e) (re_Reason e) of
       None \<Rightarrow> False
     | Some reasons \<Rightarrow>
         (case re_Type e of
            RelayAccountEventTypeWithdraw \<Rightarrow> ParseUint (reasons ! 1) \<noteq> None
          | RelayAccountEventTypeWithdrawRefund \<Rightarrow> ParseUint (reasons ! 1) \<noteq> None
          | RelayAccountEventTypeWithdrawFeeIncome \<Rightarrow> ParseUint (reasons ! 1) \<noteq> None
          | RelayAccountEventTypeVestingCreated \<Rightarrow> ParseVestingCreatedReason (re_Reason e) \<noteq> None
          | RelayAccountEventTypeVestingRelease \<Rightarrow>
              ParseUint (reasons ! 1) \<noteq> None \<and> SetString10 (reasons ! 2) \<noteq> None
              \<and> SetString10 (reasons ! 3) \<noteq> None
          | _ \<Rightarrow> True))"

definition debit :: "RelayAccountEvent \<Rightarrow> bool" where
  "debit e \<longleftrightarrow> re_Type e = RelayAccountEventTypeTaskPayment \<or> re_Type e = RelayAccountEventTypeWithdraw"

definition signed_amount :: "RelayAccountEvent \<Rightarrow> int" where
  "signed_amount e = (if debit e then - re_Amount e else re_Amount e)"

definition balance_map :: "db \<Rightarrow> RelayAccountEvent list \<Rightarrow> address amounts" where
  "balance_map d candidates =
    map (\<lambda>a. (a, account_balance d a)) (remdups (map re_Address (filter debit candidates)))"

definition income_status :: "InferenceTask \<Rightarrow> bool" where
  "income_status task \<longleftrightarrow>
    t_Status task = TaskEndSuccess \<or> t_Status task = TaskEndGroupSuccess
    \<or> t_Status task = TaskEndGroupRefund
    \<or> (t_Status task = TaskEndAborted \<and> t_AbortReason task = TaskAbortCreatorValidationTimeout)"

definition refund_status :: "InferenceTask \<Rightarrow> bool" where
  "refund_status task \<longleftrightarrow>
    t_Status task = TaskEndGroupRefund
    \<or> (t_Status task = TaskEndAborted \<and> t_AbortReason task \<noteq> TaskAbortCreatorValidationTimeout)"

definition covered :: "address amounts \<Rightarrow> RelayAccountEvent \<Rightarrow> bool" where
  "covered balances e =
    (case map_of balances (re_Address e) of None \<Rightarrow> True | Some balance \<Rightarrow> re_Amount e \<le> balance)"

definition task_of :: "db \<Rightarrow> string \<Rightarrow> InferenceTask option" where
  "task_of d taskIDCommitment = find (\<lambda>t. t_TaskIDCommitment t = taskIDCommitment) (d_tasks d)"

definition withdraw_of :: "db \<Rightarrow> nat option \<Rightarrow> WithdrawRecord option" where
  "withdraw_of d i = (case i of None \<Rightarrow> None | Some i \<Rightarrow> find (\<lambda>w. wr_ID w = i) (d_withdraws d))"

definition vesting_of :: "db \<Rightarrow> nat option \<Rightarrow> VestingRecord option" where
  "vesting_of d i = (case i of None \<Rightarrow> None | Some i \<Rightarrow> find (\<lambda>v. v_ID v = i) (d_vestings d))"

definition release_event_valid :: "VestingRecord \<Rightarrow> int \<Rightarrow> int \<Rightarrow> RelayAccountEvent \<Rightarrow> bool" where
  "release_event_valid vesting fromReleased toReleased e \<longleftrightarrow>
    EqualFold (v_Address vesting) (re_Address e)
    \<and> 0 \<le> fromReleased \<and> 0 \<le> toReleased \<and> fromReleased \<le> toReleased
    \<and> 0 < toReleased - fromReleased \<and> toReleased - fromReleased = re_Amount e
    \<and> toReleased \<le> v_TotalAmount vesting \<and> toReleased = v_ReleasedAmount vesting"

definition event_valid ::
  "db \<Rightarrow> (string \<times> depositTxData) list \<Rightarrow> address amounts \<Rightarrow> RelayAccountEvent \<Rightarrow> bool" where
  "event_valid d deposits balances e =
    (case splitRelayAccountEventReason (re_Type e) (re_Reason e) of
       None \<Rightarrow> False
     | Some reasons \<Rightarrow>
         (case re_Type e of
            RelayAccountEventTypeDeposit \<Rightarrow>
              (case map_of deposits (reasons ! 2 @ dash # reasons ! 1) of
                 None \<Rightarrow> False
               | Some dt \<Rightarrow> EqualFold (dt_FromAddress dt) (re_Address e) \<and> dt_Amount dt = re_Amount e)
          | RelayAccountEventTypeTaskPayment \<Rightarrow>
              (case task_of d (reasons ! 1) of
                 None \<Rightarrow> False
               | Some task \<Rightarrow> re_Amount e = t_TaskFee task \<and> covered balances e)
          | RelayAccountEventTypeTaskIncome \<Rightarrow>
              (case task_of d (reasons ! 1) of None \<Rightarrow> False | Some task \<Rightarrow> income_status task)
          | RelayAccountEventTypeDaoTaskShare \<Rightarrow>
              (case task_of d (reasons ! 1) of None \<Rightarrow> False | Some task \<Rightarrow> income_status task)
          | RelayAccountEventTypeUserDelegation \<Rightarrow>
              (case task_of d (reasons ! 1) of None \<Rightarrow> False | Some task \<Rightarrow> income_status task)
          | RelayAccountEventTypeTaskRefund \<Rightarrow>
              (case task_of d (reasons ! 1) of
                 None \<Rightarrow> False
               | Some task \<Rightarrow> re_Amount e = t_TaskFee task \<and> refund_status task)
          | RelayAccountEventTypeWithdraw \<Rightarrow>
              withdraw_of d (ParseUint (reasons ! 1)) \<noteq> None \<and> covered balances e
          | RelayAccountEventTypeWithdrawRefund \<Rightarrow> withdraw_of d (ParseUint (reasons ! 1)) \<noteq> None
          | RelayAccountEventTypeWithdrawFeeIncome \<Rightarrow> withdraw_of d (ParseUint (reasons ! 1)) \<noteq> None
          | RelayAccountEventTypeVestingCreated \<Rightarrow>
              (case vesting_of d (ParseVestingCreatedReason (re_Reason e)) of
                 None \<Rightarrow> False
               | Some vesting \<Rightarrow> EqualFold (v_Address vesting) (re_Address e) \<and> re_Amount e = 0)
          | RelayAccountEventTypeVestingRelease \<Rightarrow>
              (case (vesting_of d (ParseUint (reasons ! 1)), SetString10 (reasons ! 2), SetString10 (reasons ! 3)) of
                 (Some vesting, Some fromReleased, Some toReleased) \<Rightarrow>
                   release_event_valid vesting fromReleased toReleased e
               | _ \<Rightarrow> False)))"

text \<open>An accepted event moves the running balance of its address, when that is being followed.\<close>

definition follow :: "address amounts \<Rightarrow> RelayAccountEvent \<Rightarrow> address amounts" where
  "follow balances e =
    (if re_Type e = RelayAccountEventTypeVestingCreated then balances
     else case map_of balances (re_Address e) of
            None \<Rightarrow> balances
          | Some balance \<Rightarrow> AList.update (re_Address e) (balance + signed_amount e) balances)"

fun validate_candidates ::
  "db \<Rightarrow> (string \<times> depositTxData) list \<Rightarrow> address amounts \<Rightarrow> RelayAccountEvent list
   \<Rightarrow> RelayAccountEvent list \<times> RelayAccountEvent list" where
  "validate_candidates d deposits balances [] = ([], [])"
| "validate_candidates d deposits balances (e # es) =
    (if event_valid d deposits balances e
     then (let (valid, invalid) = validate_candidates d deposits (follow balances e) es in (e # valid, invalid))
     else (let (valid, invalid) = validate_candidates d deposits balances es in (valid, e # invalid)))"

definition validatePendingRelayAccountEvents ::
  "(string \<Rightarrow> string \<Rightarrow> go_error + depositTxData option) \<Rightarrow> db \<Rightarrow> RelayAccountEvent list
   \<Rightarrow> go_error + (RelayAccountEvent list \<times> RelayAccountEvent list)" where
  "validatePendingRelayAccountEvents tx d events =
    (let candidates = filter candidate events;
         unreadable = filter (\<lambda>e. \<not> candidate e) events;
         depositReasons = map (\<lambda>e. case splitRelayAccountEventReason (re_Type e) (re_Reason e) of
                                     Some reasons \<Rightarrow> (reasons ! 1, reasons ! 2) | None \<Rightarrow> ([], []))
                            (filter (\<lambda>e. re_Type e = RelayAccountEventTypeDeposit) candidates)
     in case valid_deposit_txs tx depositReasons [] of
          Inl err \<Rightarrow> Inl err
        | Inr deposits \<Rightarrow>
            (let (valid, invalid) = validate_candidates d deposits (balance_map d candidates) candidates
             in Inr (valid, unreadable @ invalid)))"

section \<open>Settlement\<close>

definition merge_step :: "address amounts \<Rightarrow> RelayAccountEvent \<Rightarrow> address amounts" where
  "merge_step merged e =
    AList.update (re_Address e) (amount_or_0 merged (re_Address e) + signed_amount e) merged"

definition mergeRelayAccountEvents :: "RelayAccountEvent list \<Rightarrow> address amounts" where
  "mergeRelayAccountEvents events = foldl merge_step [] events"

definition getPendingRelayAccountEvents :: "nat \<Rightarrow> RelayAccountEvent list relay" where
  "getPendingRelayAccountEvents limit =
    read_db (\<lambda>d. take limit (filter (\<lambda>e. re_Status e = RelayAccountEventStatusPending) (d_events d)))"

definition mark_invalid :: "RelayAccountEvent list \<Rightarrow> db \<Rightarrow> db" where
  "mark_invalid invalid d =
    (let ids = map re_ID invalid;
         withdrawIDs = map re_ID (filter (\<lambda>e. re_Type e = RelayAccountEventTypeWithdraw) invalid);
         depositIDs = map re_ID (filter (\<lambda>e. re_Type e = RelayAccountEventTypeDeposit) invalid)
     in d\<lparr> d_events := upd_where (\<lambda>e. re_ID e \<in> set ids)
             (\<lambda>e. e\<lparr> re_Status := RelayAccountEventStatusInvalid \<rparr>) (d_events d),
           d_withdraws := upd_where (\<lambda>w. wr_RelayAccountEventID w \<in> set withdrawIDs
               \<and> wr_LocalStatus w = WithdrawLocalStatusPending)
             (\<lambda>w. w\<lparr> wr_LocalStatus := WithdrawLocalStatusInvalid \<rparr>) (d_withdraws d),
           d_deposits := upd_where (\<lambda>r. dr_RelayAccountEventID r \<in> set depositIDs
               \<and> dr_LocalStatus r = DepositLocalStatusPending)
             (\<lambda>r. r\<lparr> dr_LocalStatus := DepositLocalStatusInvalid \<rparr>) (d_deposits d) \<rparr>)"

definition credit_accounts :: "address amounts \<Rightarrow> RelayAccount list \<Rightarrow> RelayAccount list" where
  "credit_accounts merged accounts =
    upd_where (\<lambda>a. map_of merged (ra_Address a) \<noteq> None)
      (\<lambda>a. a\<lparr> ra_Balance := ra_Balance a + amount_or_0 merged (ra_Address a) \<rparr>) accounts
    @ map (\<lambda>(a, x). \<lparr> ra_Address = a, ra_Balance = x \<rparr>)
        (filter (\<lambda>(a, x). a \<notin> ra_Address ` set accounts) merged)"

definition MACString :: "WithdrawRecord \<Rightarrow> string" where
  "MACString r = FormatUint (wr_ID r) @ dash # wr_Address r @ dash # wr_BenefitAddress r @ dash #
     FormatInt (wr_Amount r) @ dash # wr_Network r"

definition settle :: "(string \<Rightarrow> string) \<Rightarrow> RelayAccountEvent list \<Rightarrow> db \<Rightarrow> db" where
  "settle mac valid d =
    (let ids = map re_ID valid;
         withdrawIDs = map re_ID (filter (\<lambda>e. re_Type e = RelayAccountEventTypeWithdraw) valid);
         depositIDs = map re_ID (filter (\<lambda>e. re_Type e = RelayAccountEventTypeDeposit) valid)
     in d\<lparr> d_accounts := credit_accounts (mergeRelayAccountEvents valid) (d_accounts d),
           d_events := upd_where (\<lambda>e. re_ID e \<in> set ids \<and> re_Status e = RelayAccountEventStatusPending)
             (\<lambda>e. e\<lparr> re_MAC := mac (re_Reason e), re_Status := RelayAccountEventStatusProcessed \<rparr>) (d_events d),
           d_withdraws := upd_where (\<lambda>w. wr_RelayAccountEventID w \<in> set withdrawIDs
               \<and> wr_LocalStatus w = WithdrawLocalStatusPending)
             (\<lambda>w. w\<lparr> wr_MAC := mac (MACString w), wr_LocalStatus := WithdrawLocalStatusProcessed \<rparr>) (d_withdraws d),
           d_deposits := upd_where (\<lambda>r. dr_RelayAccountEventID r \<in> set depositIDs
               \<and> dr_LocalStatus r = DepositLocalStatusPending)
             (\<lambda>r. r\<lparr> dr_LocalStatus := DepositLocalStatusProcessed \<rparr>) (d_deposits d) \<rparr>)"

text \<open>
  The statement that seals the processed events is built as \<^verbatim>\<open>CASE\<close> + one \<^verbatim>\<open>WHEN\<close> per valid
  event + \<^verbatim>\<open>END\<close>; without any valid event it is \<^verbatim>\<open>CASE END\<close>, which the database rejects.
\<close>

definition processPendingRelayAccountEvents ::
  "(string \<Rightarrow> string \<Rightarrow> go_error + depositTxData option) \<Rightarrow> (string \<Rightarrow> string)
   \<Rightarrow> RelayAccountEvent list \<Rightarrow> unit relay" where
  "processPendingRelayAccountEvents tx mac events =
    bnd (read_db (\<lambda>d. validatePendingRelayAccountEvents tx d events)) (\<lambda>r.
    bnd (of_sum r) (\<lambda>(valid, invalid).
    bnd (if invalid \<noteq> [] then write_db (mark_invalid invalid) else ret ()) (\<lambda>_.
    txn (bnd (check (valid \<noteq> []) (errors_New ''syntax error: CASE END'')) (\<lambda>_.
         write_db (settle mac valid))))))"

text \<open>The loop of the background sync and of the start-up replay: batches of 50 until none is
  pending.  Every batch that succeeds leaves fewer pending events, so as many rounds as there are
  pending events are enough.\<close>

fun drain_pending ::
  "(string \<Rightarrow> string \<Rightarrow> go_error + depositTxData option) \<Rightarrow> (string \<Rightarrow> string) \<Rightarrow> nat \<Rightarrow> bool relay" where
  "drain_pending tx mac 0 = ret False"
| "drain_pending tx mac (Suc fuel) =
    bnd (getPendingRelayAccountEvents 50) (\<lambda>events.
    if events = [] then ret True
    else bnd (processPendingRelayAccountEvents tx mac events) (\<lambda>_. drain_pending tx mac fuel))"

definition load_accounts :: "RelayAccount list \<Rightarrow> address amounts \<Rightarrow> address amounts" where
  "load_accounts accounts cache =
    foldl (\<lambda>c a. if map_of c (ra_Address a) = None then AList.update (ra_Address a) (ra_Balance a) c else c)
      cache accounts"

definition InitRelayAccountCache ::
  "(string \<Rightarrow> string \<Rightarrow> go_error + depositTxData option) \<Rightarrow> (string \<Rightarrow> string) \<Rightarrow> nat \<Rightarrow> bool relay" where
  "InitRelayAccountCache tx mac fuel =
    bnd (read_db d_accounts) (\<lambda>accounts.
    bnd (write_mem (\<lambda>m. m\<lparr> m_accounts := load_accounts accounts (m_accounts m) \<rparr>)) (\<lambda>_.
    drain_pending tx mac fuel))"

section \<open>Sums of events\<close>

definition sum_for :: "address \<Rightarrow> RelayAccountEvent list \<Rightarrow> int" where
  "sum_for a es = (\<Sum>e\<leftarrow>filter (\<lambda>e. re_Address e = a) es. signed_amount e)"

abbreviation pending :: "RelayAccountEvent \<Rightarrow> bool" where
  "pending e \<equiv> re_Status e = RelayAccountEventStatusPending"

definition pending_sum :: "db \<Rightarrow> address \<Rightarrow> int" where
  "pending_sum d a = sum_for a (filter pending (d_events d))"

lemma sum_for_Nil [simp]: "sum_for a [] = 0"
  and sum_for_Cons [simp]:
    "sum_for a (e # es) = (if re_Address e = a then signed_amount e else 0) + sum_for a es"
  and sum_for_append [simp]: "sum_for a (es @ fs) = sum_for a es + sum_for a fs"
  by (simp_all add: sum_for_def)

lemma merge_amount_aux: "amount_or_0 (foldl merge_step m es) a = amount_or_0 m a + sum_for a es"
  by (induction es arbitrary: m) (simp_all add: merge_step_def)

lemma merge_amount: "amount_or_0 (mergeRelayAccountEvents es) a = sum_for a es"
  by (simp add: mergeRelayAccountEvents_def merge_amount_aux) (simp add: amount_or_0_def)

lemma merge_step_dom: "fst ` set (merge_step m e) = insert (re_Address e) (fst ` set m)"
  unfolding dom_map_of_conv_image_fst[symmetric] merge_step_def by (simp add: AList.update_conv')

lemma merge_keys_aux:
  "distinct (map fst m) \<Longrightarrow> distinct (map fst (foldl merge_step m es))
    \<and> fst ` set (foldl merge_step m es) = fst ` set m \<union> re_Address ` set es"
proof (induction es arbitrary: m)
  case (Cons e es)
  then have "distinct (map fst (merge_step m e))" by (simp add: merge_step_def distinct_update)
  from Cons.IH[OF this] show ?case by (simp add: merge_step_dom)
qed simp

lemma merge_keys: "distinct (map fst (mergeRelayAccountEvents es))"
  and merge_dom: "fst ` set (mergeRelayAccountEvents es) = re_Address ` set es"
  using merge_keys_aux[of "[]" es] by (simp_all add: mergeRelayAccountEvents_def)

section \<open>Crediting accounts\<close>

abbreviation accounts_ok :: "db \<Rightarrow> bool" where
  "accounts_ok d \<equiv> distinct (map ra_Address (d_accounts d))"

definition balance_in :: "RelayAccount list \<Rightarrow> address \<Rightarrow> int" where
  "balance_in accounts a =
    (case find (\<lambda>r. ra_Address r = a) accounts of Some r \<Rightarrow> ra_Balance r | None \<Rightarrow> 0)"

lemma account_balance_in: "account_balance d a = balance_in (d_accounts d) a"
  by (simp add: account_balance_def balance_in_def)

lemma find_append: "find P (xs @ ys) = (case find P xs of None \<Rightarrow> find P ys | Some x \<Rightarrow> Some x)"
  by (induction xs) simp_all

lemma find_new_account:
  "distinct (map fst m) \<Longrightarrow>
   find (\<lambda>r. ra_Address r = a) (map (\<lambda>(a, x). \<lparr> ra_Address = a, ra_Balance = x \<rparr>) (filter (\<lambda>(a, x). Q a) m)) =
   (if Q a then map_option (\<lambda>x. \<lparr> ra_Address = a, ra_Balance = x \<rparr>) (map_of m a) else None)"
  by (induction m) (auto simp: find_None_iff)

lemma credit_balance:
  assumes "distinct (map fst m)"
  shows "balance_in (credit_accounts m accounts) a = balance_in accounts a + amount_or_0 m a"
proof -
  let ?upd = "upd_where (\<lambda>r. map_of m (ra_Address r) \<noteq> None)
      (\<lambda>r. r\<lparr> ra_Balance := ra_Balance r + amount_or_0 m (ra_Address r) \<rparr>) accounts"
  have f: "find (\<lambda>r. ra_Address r = a) ?upd =
    map_option (\<lambda>r. if map_of m (ra_Address r) \<noteq> None
        then r\<lparr> ra_Balance := ra_Balance r + amount_or_0 m (ra_Address r) \<rparr> else r)
      (find (\<lambda>r. ra_Address r = a) accounts)"
    by (rule upd_where_find) simp
  show ?thesis
  proof (cases "find (\<lambda>r. ra_Address r = a) accounts")
    case None
    then have "a \<notin> ra_Address ` set accounts" by (auto simp: find_None_iff)
    then show ?thesis
      using None f find_new_account[OF assms, of a "\<lambda>a. a \<notin> ra_Address ` set accounts"]
      by (simp add: balance_in_def credit_accounts_def find_append amount_or_0_def split: option.splits)
  next
    case (Some r)
    then have "ra_Address r = a" by (auto simp: find_Some_iff)
    with Some f show ?thesis
      by (auto simp: balance_in_def credit_accounts_def find_append amount_or_0_def)
  qed
qed

lemma credit_accounts_distinct:
  assumes "distinct (map fst m)" "distinct (map ra_Address accounts)"
  shows "distinct (map ra_Address (credit_accounts m accounts))"
proof -
  let ?new = "filter (\<lambda>(a, x). a \<notin> ra_Address ` set accounts) m"
  have "map ra_Address (map (\<lambda>(a, x). \<lparr> ra_Address = a, ra_Balance = x \<rparr>) ?new) = map fst ?new"
    by (induction m) auto
  moreover have "distinct (map fst ?new)" using assms(1) by (rule distinct_map_filter)
  moreover have "map ra_Address (upd_where (\<lambda>r. map_of m (ra_Address r) \<noteq> None)
      (\<lambda>r. r\<lparr> ra_Balance := ra_Balance r + amount_or_0 m (ra_Address r) \<rparr>) accounts) = map ra_Address accounts"
    by (rule upd_where_map) simp
  moreover have "set (map ra_Address accounts) \<inter> fst ` set ?new = {}" by auto
  ultimately show ?thesis using assms(2) unfolding credit_accounts_def map_append distinct_append
    by (metis list.set_map)
qed

section \<open>Settled events\<close>

lemma sum_for_filter_upd:
  assumes "\<And>e. signed_amount (f e) = signed_amount e" "\<And>e. re_Address (f e) = re_Address e"
    "\<And>e. \<not> pending (f e)"
  shows "sum_for a (filter pending (upd_where P f es)) = sum_for a (filter (\<lambda>e. pending e \<and> \<not> P e) es)"
  by (induction es) (auto simp: upd_where_def assms)

lemma sum_for_split: "sum_for a (filter P es) = sum_for a (filter (\<lambda>e. P e \<and> Q e) es) + sum_for a (filter (\<lambda>e. P e \<and> \<not> Q e) es)"
  by (induction es) auto

lemma signed_amount_status [simp]:
  "signed_amount (e\<lparr> re_Status := x \<rparr>) = signed_amount e"
  "signed_amount (e\<lparr> re_MAC := c \<rparr>) = signed_amount e"
  "signed_amount (e\<lparr> re_ID := i \<rparr>) = signed_amount e"
  by (simp_all add: signed_amount_def debit_def)

abbreviation events_ok :: "db \<Rightarrow> bool" where
  "events_ok d \<equiv> distinct (map re_ID (d_events d))"

lemma filter_by_ids:
  assumes "distinct (map key rows)" "set xs \<subseteq> set rows" "distinct xs"
  shows "mset (filter (\<lambda>r. key r \<in> key ` set xs) rows) = mset xs"
proof -
  have "set (filter (\<lambda>r. key r \<in> key ` set xs) rows) = set xs"
    using assms(1,2) by (auto simp: distinct_map inj_on_def)
  then show ?thesis
    using assms(1,3) set_eq_iff_mset_eq_distinct[of "filter (\<lambda>r. key r \<in> key ` set xs) rows" xs]
    by (simp add: distinct_map)
qed

lemma sum_for_mset: "mset es = mset fs \<Longrightarrow> sum_for a es = sum_for a fs"
proof -
  assume "mset es = mset fs"
  then have "mset (map signed_amount (filter (\<lambda>e. re_Address e = a) es)) =
    mset (map signed_amount (filter (\<lambda>e. re_Address e = a) fs))" by simp
  then show ?thesis unfolding sum_for_def by (metis sum_mset_sum_list)
qed

lemma pending_sum_settled:
  assumes "events_ok d" "set xs \<subseteq> set (d_events d)" "distinct xs" "\<And>e. e \<in> set xs \<Longrightarrow> pending e"
  shows "sum_for a (filter (\<lambda>e. pending e \<and> re_ID e \<notin> re_ID ` set xs) (d_events d)) =
    pending_sum d a - sum_for a xs"
proof -
  have "filter (\<lambda>e. pending e \<and> re_ID e \<in> re_ID ` set xs) (d_events d) =
    filter (\<lambda>e. re_ID e \<in> re_ID ` set xs) (d_events d)"
    using assms(1,2,4) by (intro filter_cong refl) (auto simp: distinct_map inj_on_def)
  then have "sum_for a (filter (\<lambda>e. pending e \<and> re_ID e \<in> re_ID ` set xs) (d_events d)) = sum_for a xs"
    using sum_for_mset[OF filter_by_ids[OF assms(1-3)], of a] by simp
  then show ?thesis
    using sum_for_split[of a pending "d_events d" "\<lambda>e. re_ID e \<in> re_ID ` set xs"]
    by (simp add: pending_sum_def)
qed

lemma settle_balance: "account_balance (settle mac valid d) a = account_balance d a + sum_for a valid"
  by (simp add: account_balance_in settle_def Let_def credit_balance merge_keys merge_amount)

lemma settle_accounts_ok: "accounts_ok d \<Longrightarrow> accounts_ok (settle mac valid d)"
  by (simp add: settle_def Let_def credit_accounts_distinct merge_keys)

lemma settle_pending:
  assumes "events_ok d" "set valid \<subseteq> set (d_events d)" "distinct valid" "\<And>e. e \<in> set valid \<Longrightarrow> pending e"
  shows "pending_sum (settle mac valid d) a = pending_sum d a - sum_for a valid"
proof -
  have "pending_sum (settle mac valid d) a =
    sum_for a (filter (\<lambda>e. pending e \<and> \<not> (re_ID e \<in> re_ID ` set valid \<and> pending e)) (d_events d))"
    unfolding pending_sum_def settle_def Let_def by (simp, subst sum_for_filter_upd) simp_all
  also have "\<dots> = sum_for a (filter (\<lambda>e. pending e \<and> re_ID e \<notin> re_ID ` set valid) (d_events d))"
    by (intro arg_cong[where f = "sum_for a"] filter_cong refl) auto
  finally show ?thesis using pending_sum_settled[OF assms] by simp
qed

lemma mark_invalid_pending:
  assumes "events_ok d" "set invalid \<subseteq> set (d_events d)" "distinct invalid" "\<And>e. e \<in> set invalid \<Longrightarrow> pending e"
  shows "pending_sum (mark_invalid invalid d) a = pending_sum d a - sum_for a invalid"
proof -
  have "pending_sum (mark_invalid invalid d) a =
    sum_for a (filter (\<lambda>e. pending e \<and> re_ID e \<notin> re_ID ` set invalid) (d_events d))"
    unfolding pending_sum_def mark_invalid_def Let_def by (simp, subst sum_for_filter_upd) simp_all
  then show ?thesis using pending_sum_settled[OF assms] by simp
qed

lemma mark_invalid_balance [simp]: "account_balance (mark_invalid invalid d) a = account_balance d a"
  by (simp add: account_balance_def mark_invalid_def Let_def)

section \<open>Validation splits the batch and covers every debit\<close>

lemma validate_partition:
  "validate_candidates d deposits balances es = (valid, invalid) \<Longrightarrow> mset es = mset valid + mset invalid"
  by (induction d deposits balances es arbitrary: valid invalid rule: validate_candidates.induct)
    (auto split: if_splits prod.splits)

lemma mset_filter_split: "mset es = mset (filter P es) + mset (filter (\<lambda>e. \<not> P e) es)"
  by (induction es) auto

lemma validatePending_partition:
  assumes "validatePendingRelayAccountEvents tx d events = Inr (valid, invalid)"
  shows "mset events = mset valid + mset invalid"
proof -
  obtain deposits i where i: "validate_candidates d deposits (balance_map d (filter candidate events))
      (filter candidate events) = (valid, i)" and inv: "invalid = filter (\<lambda>e. \<not> candidate e) events @ i"
    using assms by (auto simp: validatePendingRelayAccountEvents_def Let_def split: sum.splits prod.splits)
  have "mset events = mset (filter candidate events) + mset (filter (\<lambda>e. \<not> candidate e) events)"
    by (rule mset_filter_split)
  also have "\<dots> = mset valid + mset invalid"
    unfolding validate_partition[OF i] inv by (simp only: mset_append ac_simps)
  finally show ?thesis .
qed

lemma valid_debit_covered: "event_valid d deposits balances e \<Longrightarrow> debit e \<Longrightarrow> covered balances e"
  by (auto simp: event_valid_def debit_def split: option.splits)

lemma valid_created_zero:
  "event_valid d deposits balances e \<Longrightarrow> re_Type e = RelayAccountEventTypeVestingCreated \<Longrightarrow> re_Amount e = 0"
  unfolding event_valid_def by (simp split: option.splits)

lemma follow_lookup:
  assumes "event_valid d deposits balances e"
  shows "map_of (follow balances e) a =
    map_option (\<lambda>b. b + (if re_Address e = a then signed_amount e else 0)) (map_of balances a)"
proof (cases "re_Type e = RelayAccountEventTypeVestingCreated")
  case True
  then have "signed_amount e = 0"
    using valid_created_zero[OF assms] by (simp add: signed_amount_def)
  then show ?thesis using True by (cases "map_of balances a") (simp_all add: follow_def)
next
  case False
  then show ?thesis
    by (cases "map_of balances a"; cases "map_of balances (re_Address e)")
      (auto simp: follow_def AList.update_conv')
qed

lemma validate_covers:
  assumes "validate_candidates d deposits balances es = (valid, invalid)"
    and "\<And>a b. map_of balances a = Some b \<Longrightarrow> 0 \<le> b"
    and "\<And>e. e \<in> set es \<Longrightarrow> debit e \<Longrightarrow> map_of balances (re_Address e) \<noteq> None"
    and "\<And>e. e \<in> set es \<Longrightarrow> 0 \<le> re_Amount e"
  shows "case map_of balances a of Some b \<Rightarrow> 0 \<le> b + sum_for a valid | None \<Rightarrow> 0 \<le> sum_for a valid"
  using assms
proof (induction d deposits balances es arbitrary: valid invalid rule: validate_candidates.induct)
  case (1 d deposits balances)
  then show ?case by (simp split: option.splits)
next
  case (2 d deposits balances e es)
  show ?case
  proof (cases "event_valid d deposits balances e")
    case True
    then obtain v where v: "validate_candidates d deposits (follow balances e) es = (v, invalid)"
      and valid: "valid = e # v"
      using "2.prems"(1) by (auto split: prod.splits)
    have ge: "0 \<le> b + (if re_Address e = a' then signed_amount e else 0)"
      if "map_of balances a' = Some b" for a' b
      using "2.prems"(2)[OF that] "2.prems"(4)[of e] valid_debit_covered[OF True] that
      by (auto simp: signed_amount_def covered_def)
    have "case map_of (follow balances e) a of Some b \<Rightarrow> 0 \<le> b + sum_for a v | None \<Rightarrow> 0 \<le> sum_for a v"
      using "2.prems"(3,4) ge
      by (intro "2.IH"(1)[OF True v]) (auto simp: follow_lookup[OF True])
    moreover have "0 \<le> signed_amount e" if "map_of balances (re_Address e) = None"
      using "2.prems"(3)[of e] "2.prems"(4)[of e] that by (auto simp: signed_amount_def)
    ultimately show ?thesis
      by (auto simp: follow_lookup[OF True] valid split: option.splits)
  next
    case False
    then obtain i where "validate_candidates d deposits balances es = (valid, i)"
      using "2.prems"(1) by (auto split: prod.splits)
    then show ?thesis using "2.IH"(2)[OF False] "2.prems"(2-4) by auto
  qed
qed

lemma validatePending_covers:
  assumes "validatePendingRelayAccountEvents tx d events = Inr (valid, invalid)"
    and "\<And>a. 0 \<le> account_balance d a" and "\<And>e. e \<in> set events \<Longrightarrow> 0 \<le> re_Amount e"
  shows "0 \<le> account_balance d a + sum_for a valid"
proof -
  let ?cs = "filter candidate events"
  obtain deposits i where i: "validate_candidates d deposits (balance_map d ?cs) ?cs = (valid, i)"
    using assms(1) by (auto simp: validatePendingRelayAccountEvents_def Let_def split: sum.splits prod.splits)
  have look: "map_of (balance_map d ?cs) b =
    (if b \<in> re_Address ` set (filter debit ?cs) then Some (account_balance d b) else None)" for b
    by (simp add: balance_map_def map_of_map_restrict restrict_map_def)
  have "case map_of (balance_map d ?cs) a of Some b \<Rightarrow> 0 \<le> b + sum_for a valid | None \<Rightarrow> 0 \<le> sum_for a valid"
    using assms(2,3) by (intro validate_covers[OF i]) (auto simp: look split: if_splits)
  then show ?thesis using assms(2)[of a] by (auto simp: look split: if_splits)
qed

section \<open>What one settlement does\<close>

definition batch_ok :: "db \<Rightarrow> RelayAccountEvent list \<Rightarrow> bool" where
  "batch_ok d events \<longleftrightarrow>
    distinct (map re_ID (d_events d)) \<and> set events \<subseteq> set (d_events d) \<and> distinct events
    \<and> (\<forall>e\<in>set events. pending e)"

lemma batch_parts:
  assumes "batch_ok d events" "mset events = mset valid + mset invalid"
  shows "batch_ok d valid" "batch_ok d invalid" "re_ID ` set valid \<inter> re_ID ` set invalid = {}"
proof -
  have s: "set events = set valid \<union> set invalid" and d: "distinct (valid @ invalid)"
    using assms by (metis mset_append set_append set_mset_mset)
      (metis assms batch_ok_def mset_append mset_eq_imp_distinct_iff)
  show "batch_ok d valid" "batch_ok d invalid" using assms(1) s d by (auto simp: batch_ok_def)
  have "inj_on re_ID (set (d_events d))" using assms(1) by (simp add: batch_ok_def distinct_map)
  then show "re_ID ` set valid \<inter> re_ID ` set invalid = {}"
    using s d assms(1) by (auto simp: batch_ok_def inj_on_def) blast
qed

lemma batch_after_mark:
  assumes "batch_ok d valid" "re_ID ` set valid \<inter> re_ID ` set invalid = {}"
  shows "batch_ok (mark_invalid invalid d) valid"
proof -
  have "map re_ID (d_events (mark_invalid invalid d)) = map re_ID (d_events d)"
    by (simp add: mark_invalid_def Let_def upd_where_map)
  moreover have "e \<in> set (d_events (mark_invalid invalid d))" if "e \<in> set valid" for e
    using that assms by (force simp: mark_invalid_def Let_def upd_where_set batch_ok_def image_iff)
  ultimately show ?thesis using assms(1) by (auto simp: batch_ok_def)
qed

lemma process_returns:
  assumes "returns (processPendingRelayAccountEvents tx mac events) (d, m) u s'"
  obtains valid invalid where
    "validatePendingRelayAccountEvents tx d events = Inr (valid, invalid)" "valid \<noteq> []"
    "s' = (settle mac valid (if invalid \<noteq> [] then mark_invalid invalid d else d), m)"
proof -
  obtain v i where v: "validatePendingRelayAccountEvents tx d events = Inr (v, i)"
    and r: "returns (bnd (if i \<noteq> [] then write_db (mark_invalid i) else ret ()) (\<lambda>_.
      txn (bnd (check (v \<noteq> []) (errors_New ''syntax error: CASE END'')) (\<lambda>_. write_db (settle mac v))))) (d, m) u s'"
    using assms unfolding processPendingRelayAccountEvents_def by (fastforce split: prod.splits)
  from r have "v \<noteq> []" "s' = (settle mac v (if i \<noteq> [] then mark_invalid i d else d), m)"
    by (auto split: if_splits)
  with v show thesis by (rule that)
qed

lemma mark_invalid_Nil [simp]: "mark_invalid [] d = d"
  by (simp add: mark_invalid_def Let_def upd_where_def)

lemma settle_events:
  "d_events (settle mac valid d) =
    upd_where (\<lambda>e. re_ID e \<in> re_ID ` set valid \<and> pending e)
      (\<lambda>e. e\<lparr> re_MAC := mac (re_Reason e), re_Status := RelayAccountEventStatusProcessed \<rparr>) (d_events d)"
  by (simp add: settle_def Let_def)

lemma mark_invalid_events:
  "d_events (mark_invalid invalid d) =
    upd_where (\<lambda>e. re_ID e \<in> re_ID ` set invalid)
      (\<lambda>e. e\<lparr> re_Status := RelayAccountEventStatusInvalid \<rparr>) (d_events d)"
  by (simp add: mark_invalid_def Let_def)

text \<open>What becomes of an event row when a batch is settled.\<close>

definition settled_row ::
  "(string \<Rightarrow> string) \<Rightarrow> RelayAccountEvent list \<Rightarrow> RelayAccountEvent list \<Rightarrow> RelayAccountEvent \<Rightarrow> RelayAccountEvent" where
  "settled_row mac valid invalid e =
    (if e \<in> set valid then e\<lparr> re_MAC := mac (re_Reason e), re_Status := RelayAccountEventStatusProcessed \<rparr>
     else if e \<in> set invalid then e\<lparr> re_Status := RelayAccountEventStatusInvalid \<rparr> else e)"

lemma settled_rows:
  assumes "batch_ok d valid" "batch_ok d invalid" "re_ID ` set valid \<inter> re_ID ` set invalid = {}"
  shows "d_events (settle mac valid (mark_invalid invalid d)) = map (settled_row mac valid invalid) (d_events d)"
proof -
  have by_id: "re_ID e \<in> re_ID ` set xs \<longleftrightarrow> e \<in> set xs"
    if "e \<in> set (d_events d)" "batch_ok d xs" for e xs
    using that by (auto simp: batch_ok_def distinct_map inj_on_def)
  show ?thesis
    unfolding settle_events mark_invalid_events upd_where_def map_map
  proof (rule map_cong[OF refl])
    fix e assume e: "e \<in> set (d_events d)"
    have "pending e" if "e \<in> set valid" using that assms(1) by (simp add: batch_ok_def)
    moreover have "\<not> (e \<in> set valid \<and> e \<in> set invalid)" using assms(3) by blast
    ultimately show "((\<lambda>e. if re_ID e \<in> re_ID ` set valid \<and> pending e
          then e\<lparr> re_MAC := mac (re_Reason e), re_Status := RelayAccountEventStatusProcessed \<rparr> else e) \<circ>
        (\<lambda>r. if re_ID r \<in> re_ID ` set invalid then r\<lparr> re_Status := RelayAccountEventStatusInvalid \<rparr> else r)) e =
      settled_row mac valid invalid e"
      using by_id[OF e assms(1)] by_id[OF e assms(2)] by (auto simp: settled_row_def)
  qed
qed

lemma settlement:
  assumes "returns (processPendingRelayAccountEvents tx mac events) (d, m) u s'" "batch_ok d events"
  obtains valid invalid where
    "validatePendingRelayAccountEvents tx d events = Inr (valid, invalid)" "valid \<noteq> []"
    "mset events = mset valid + mset invalid" "snd s' = m"
    "d_events (fst s') = map (settled_row mac valid invalid) (d_events d)"
    "\<And>a. account_balance (fst s') a = account_balance d a + sum_for a valid"
    "\<And>a. pending_sum (fst s') a = pending_sum d a - sum_for a events"
    "accounts_ok d \<Longrightarrow> accounts_ok (fst s')"
proof -
  obtain valid invalid where v: "validatePendingRelayAccountEvents tx d events = Inr (valid, invalid)" "valid \<noteq> []"
    and "s' = (settle mac valid (if invalid \<noteq> [] then mark_invalid invalid d else d), m)"
    using process_returns[OF assms(1)] .
  then have s': "s' = (settle mac valid (mark_invalid invalid d), m)" by (cases "invalid = []") simp_all
  have p: "mset events = mset valid + mset invalid" by (rule validatePending_partition[OF v(1)])
  note parts = batch_parts[OF assms(2) p]
  have after: "batch_ok (mark_invalid invalid d) valid" by (rule batch_after_mark[OF parts(1,3)])
  have "sum_for a events = sum_for a valid + sum_for a invalid" for a
    using sum_for_mset[of events "valid @ invalid" a] p by simp
  then have "pending_sum (fst s') a = pending_sum d a - sum_for a events" for a
    using settle_pending[of "mark_invalid invalid d" valid mac a] after
      mark_invalid_pending[of d invalid a] parts(2)
    by (simp add: s' batch_ok_def)
  moreover have "accounts_ok d \<Longrightarrow> accounts_ok (fst s')"
    by (simp add: s' settle_accounts_ok) (simp add: mark_invalid_def Let_def settle_accounts_ok)
  ultimately show thesis
    using that[OF v p] settled_rows[OF parts] by (simp add: s' settle_balance)
qed

text \<open>
  C1: a successful settlement splits the batch into valid and invalid events, adds to every stored
  balance exactly the signed sum of the valid events of its address, takes exactly the batch's
  amounts out of the pending sums, and marks each event of the batch once: processed and sealed
  when valid, invalid otherwise; no other event row and no cached balance changes.
\<close>

theorem settlement_posts_each_event_once:
  assumes "returns (processPendingRelayAccountEvents tx mac events) (d, m) () (d', m')"
    and "batch_ok d events"
  shows "\<exists>valid invalid. validatePendingRelayAccountEvents tx d events = Inr (valid, invalid)
    \<and> mset events = mset valid + mset invalid
    \<and> d_events d' = map (settled_row mac valid invalid) (d_events d)
    \<and> (\<forall>a. account_balance d' a = account_balance d a + sum_for a valid)
    \<and> (\<forall>a. pending_sum d' a = pending_sum d a - sum_for a events)
    \<and> m' = m"
  using settlement[OF assms] by (metis fst_conv snd_conv)

text \<open>
  C4: when no event of the batch has a negative amount, a settlement never takes a stored balance
  below zero: a payment or withdrawal that its account cannot cover at its place in the batch is
  declared invalid instead.
\<close>

theorem settlement_keeps_balances_nonnegative:
  assumes "returns (processPendingRelayAccountEvents tx mac events) (d, m) () (d', m')"
    and "batch_ok d events"
    and "\<forall>a. 0 \<le> account_balance d a"
    and "\<forall>e\<in>set events. 0 \<le> re_Amount e"
  shows "0 \<le> account_balance d' a"
proof -
  obtain valid invalid where "validatePendingRelayAccountEvents tx d events = Inr (valid, invalid)"
    "account_balance d' a = account_balance d a + sum_for a valid"
    using settlement[OF assms(1,2)] by (metis fst_conv)
  then show ?thesis using validatePending_covers assms(3,4) by metis
qed

section \<open>The cached balance is the stored balance plus what is pending\<close>

definition cached :: "state \<Rightarrow> address \<Rightarrow> int option" where
  "cached s a = map_of (m_accounts (snd s)) a"

definition cached_or_stored :: "state \<Rightarrow> address \<Rightarrow> int" where
  "cached_or_stored s a = (case cached s a of Some b \<Rightarrow> b | None \<Rightarrow> account_balance (fst s) a)"

text \<open>
  Cache and ledger agree up to a list of events that settlements have rejected: the cached balance
  of an address is its stored balance, plus its pending events, plus the rejected ones, whose
  cached effect is never taken back.  An address the cache does not know has no money pending.
\<close>

definition ledger_ok :: "RelayAccountEvent list \<Rightarrow> state \<Rightarrow> bool" where
  "ledger_ok rejected s \<longleftrightarrow>
    (\<forall>a. case cached s a of
           Some b \<Rightarrow> b = account_balance (fst s) a + pending_sum (fst s) a + sum_for a rejected
         | None \<Rightarrow> sum_for a rejected = 0
             \<and> (\<forall>e\<in>set (d_events (fst s)). pending e \<and> re_Address e = a \<longrightarrow> signed_amount e = 0))"

lemma sum_for_idle: "\<forall>e\<in>set es. re_Address e = a \<longrightarrow> signed_amount e = 0 \<Longrightarrow> sum_for a es = 0"
  by (induction es) (auto simp: sum_for_def)

text \<open>
  A money movement is an operation that writes its events, makes sure the cache knows the
  addresses it touches, and hands back a commit operation that moves the cached balances by the
  same amounts.  Every movement keeps the agreement between cache and ledger.
\<close>

locale movement =
  fixes f :: "unit relay relay" and touched :: "address set" and delta :: "address \<Rightarrow> int"
  assumes write_stored: "returns f s c s1 \<Longrightarrow> account_balance (fst s1) b = account_balance (fst s) b"
    and write_events: "returns f s c s1 \<Longrightarrow>
      \<exists>es. d_events (fst s1) = d_events (fst s) @ es \<and> (\<forall>b. sum_for b es = delta b)
        \<and> (\<forall>e\<in>set es. pending e \<and> re_Address e \<in> touched)"
    and write_ids: "returns f s c s1 \<Longrightarrow> events_ok (fst s) \<Longrightarrow> events_ok (fst s1)"
    and write_cached: "returns f s c s1 \<Longrightarrow>
      cached s1 b = (if b \<in> touched then Some (cached_or_stored s b) else cached s b)"
    and commit_db: "returns f s c s1 \<Longrightarrow> returns c s2 u s3 \<Longrightarrow> fst s3 = fst s2"
    and commit_cached: "returns f s c s1 \<Longrightarrow> returns c s2 u s3 \<Longrightarrow>
      cached s3 b = (if b \<in> touched then Some (amount_or_0 (m_accounts (snd s2)) b + delta b) else cached s2 b)"
begin

lemma movement_agrees:
  assumes ok: "ledger_ok rejected s" and f: "returns f s c s1" and c: "returns c s1 u s2"
  shows "ledger_ok rejected s2"
proof -
  obtain es where es: "d_events (fst s2) = d_events (fst s) @ es" "\<And>b. sum_for b es = delta b"
    "\<And>e. e \<in> set es \<Longrightarrow> pending e \<and> re_Address e \<in> touched"
    using write_events[OF f] commit_db[OF f c] by auto
  have all: "filter pending es = es" using es(3) by (simp add: filter_id_conv)
  have cached: "cached s2 b = (if b \<in> touched then Some (cached_or_stored s b + delta b) else cached s b)" for b
    using commit_cached[OF f c, of b] write_cached[OF f, of b] by (simp add: cached_def amount_or_0_def)
  have stored: "account_balance (fst s2) b = account_balance (fst s) b" for b
    using write_stored[OF f] commit_db[OF f c] by simp
  have pend: "pending_sum (fst s2) b = pending_sum (fst s) b + delta b" for b
    by (simp add: pending_sum_def es all)
  have still: "delta b = 0" if "b \<notin> touched" for b
  proof -
    have "filter (\<lambda>e. re_Address e = b) es = []" using es(3) that by (auto simp: filter_empty_conv)
    then show ?thesis unfolding es(2)[of b, symmetric] sum_for_def by simp
  qed
  have idle: "pending_sum (fst s) b = 0" if "cached s b = None" for b
    unfolding pending_sum_def
    by (rule sum_for_idle) (use spec[OF ok[unfolded ledger_ok_def], of b] that in auto)
  show ?thesis
    unfolding ledger_ok_def
  proof
    fix b
    show "case cached s2 b of
        Some v \<Rightarrow> v = account_balance (fst s2) b + pending_sum (fst s2) b + sum_for b rejected
      | None \<Rightarrow> sum_for b rejected = 0 \<and> (\<forall>e\<in>set (d_events (fst s2)). pending e \<and> re_Address e = b \<longrightarrow> signed_amount e = 0)"
      using spec[OF ok[unfolded ledger_ok_def], of b] idle[of b] es(3) still[of b]
      by (cases "b \<in> touched"; cases "cached s b") (auto simp: cached stored pend es cached_or_stored_def)
  qed
qed

lemma movement_ids:
  assumes "returns f s c s1" "returns c s1 u s2" "events_ok (fst s)"
  shows "events_ok (fst s2)"
  using write_ids[OF assms(1,3)] commit_db[OF assms(1,2)] by simp

end

lemma create_event_effect:
  assumes "returns (createRelayAccountEventWithID t r a x now) s i s1"
  shows "snd s1 = snd s" "account_balance (fst s1) b = account_balance (fst s) b"
    "d_events (fst s1) = d_events (fst s) @ [(new_event t r a x now)\<lparr> re_ID := i \<rparr>]"
    "\<forall>e\<in>set (d_events (fst s)). re_Reason e \<noteq> r \<and> re_ID e < i"
  using assms
  by (auto simp: createRelayAccountEventWithID_def Let_def account_balance_def next_id_fresh)

lemma get_cache_effect:
  assumes "returns (getRelayAccountFromCache a) s v s1"
  shows "fst s1 = fst s" "v = cached_or_stored s a"
    "cached s1 b = (if b = a then Some (cached_or_stored s a) else cached s b)"
  using assms
  by (auto simp: getRelayAccountFromCache_def cached_or_stored_def cached_def AList.update_conv'
      split: option.splits)

lemma add_cached_effect:
  assumes "returns (add_cached a x) s u s1"
  shows "fst s1 = fst s"
    "cached s1 b = (if b = a then Some (amount_or_0 (m_accounts (snd s)) a + x) else cached s b)"
  using assms by (auto simp: add_cached_def cached_def AList.update_conv')

lemma sub_cached_effect:
  assumes "returns (sub_cached_checked a x) s u s1"
  shows "returns (add_cached a (- x)) s u s1" "x \<le> amount_or_0 (m_accounts (snd s)) a"
  using assms by (auto simp: sub_cached_checked_def)

lemma signed_new_event [simp]:
  "signed_amount (new_event t r a x now) =
    (if t = RelayAccountEventTypeTaskPayment \<or> t = RelayAccountEventTypeWithdraw then - x else x)"
  by (simp add: signed_amount_def debit_def new_event_def)

lemma new_event_fields [simp]:
  "re_Address (new_event t r a x now) = a" "re_Status (new_event t r a x now) = RelayAccountEventStatusPending"
  "re_Type (new_event t r a x now) = t" "re_Reason (new_event t r a x now) = r"
  "re_Amount (new_event t r a x now) = x"
  by (simp_all add: new_event_def)

lemma cached_same: "snd s1 = snd s \<Longrightarrow> cached s1 = cached s"
  by (simp add: cached_def fun_eq_iff)

lemma cached_or_stored_same:
  "cached s1 a = cached s a \<Longrightarrow> account_balance (fst s1) a = account_balance (fst s) a \<Longrightarrow>
   cached_or_stored s1 a = cached_or_stored s a"
  by (simp add: cached_or_stored_def split: option.splits)

text \<open>
  The shape all single movements share: a list of checks, one event for one address, one look at
  the cache before or after it, and a commit that adds the signed amount.
\<close>

lemma single_movement:
  assumes ev: "\<And>s c s1. returns f s c s1 \<Longrightarrow>
      \<exists>e. d_events (fst s1) = d_events (fst s) @ [e] \<and> re_Address e = a \<and> pending e
        \<and> signed_amount e = x \<and> (\<forall>e'\<in>set (d_events (fst s)). re_ID e' < re_ID e)"
    and db: "\<And>s c s1. returns f s c s1 \<Longrightarrow> d_accounts (fst s1) = d_accounts (fst s)"
    and cache: "\<And>s c s1 b. returns f s c s1 \<Longrightarrow>
      cached s1 b = (if b = a then Some (cached_or_stored s a) else cached s b)"
    and commit: "\<And>s c s1 s2 u s3. returns f s c s1 \<Longrightarrow> returns c s2 u s3 \<Longrightarrow> returns (add_cached a x) s2 u s3"
  shows "movement f {a} (\<lambda>b. if b = a then x else 0)"
proof
  fix s c s1 b
  assume r: "returns f s c s1"
  show "account_balance (fst s1) b = account_balance (fst s) b"
    using db[OF r] by (simp add: account_balance_def)
  obtain e where e: "d_events (fst s1) = d_events (fst s) @ [e]" "re_Address e = a" "signed_amount e = x"
    "pending e" "\<forall>e'\<in>set (d_events (fst s)). re_ID e' < re_ID e"
    using ev[OF r] by blast
  then show "\<exists>es. d_events (fst s1) = d_events (fst s) @ es \<and> (\<forall>b. sum_for b es = (if b = a then x else 0))
      \<and> (\<forall>e\<in>set es. pending e \<and> re_Address e \<in> {a})"
    by (intro exI[of _ "[e]"]) (simp add: sum_for_def)
  show "events_ok (fst s1)" if "events_ok (fst s)" using e that by auto
  show "cached s1 b = (if b \<in> {a} then Some (cached_or_stored s b) else cached s b)"
    using cache[OF r, of b] by simp
  fix s2 u s3
  assume "returns c s2 u s3"
  then have "returns (add_cached a x) s2 u s3" by (rule commit[OF r])
  then show "fst s3 = fst s2" "cached s3 b =
      (if b \<in> {a} then Some (amount_or_0 (m_accounts (snd s2)) b + (if b = a then x else 0)) else cached s2 b)"
    using add_cached_effect by auto
qed

lemma credit_shape:
  assumes f: "\<And>s c s1. returns f s c s1 \<Longrightarrow> \<exists>r now i w v.
      returns (createRelayAccountEventWithID t r a x now) s i w
      \<and> returns (getRelayAccountFromCache a) w v s1 \<and> c = add_cached a x"
    and t: "t \<noteq> RelayAccountEventTypeTaskPayment" "t \<noteq> RelayAccountEventTypeWithdraw"
  shows "movement f {a} (\<lambda>b. if b = a then x else 0)"
proof (rule single_movement)
  fix s c s1 b
  assume "returns f s c s1"
  then obtain r now i w v where e: "returns (createRelayAccountEventWithID t r a x now) s i w"
    and g: "returns (getRelayAccountFromCache a) w v s1" and c: "c = add_cached a x"
    using f by blast
  note es = create_event_effect(3,4)[OF e] get_cache_effect(1)[OF g]
  show "\<exists>e. d_events (fst s1) = d_events (fst s) @ [e] \<and> re_Address e = a \<and> pending e
      \<and> signed_amount e = x \<and> (\<forall>e'\<in>set (d_events (fst s)). re_ID e' < re_ID e)"
    by (rule exI[of _ "(new_event t r a x now)\<lparr> re_ID := i \<rparr>"]) (use es t in simp)
  show "d_accounts (fst s1) = d_accounts (fst s)"
    using e es(3) by (auto simp: createRelayAccountEventWithID_def Let_def)
  have "cached_or_stored w a = cached_or_stored s a"
    by (rule cached_or_stored_same) (simp_all add: create_event_effect(2)[OF e] cached_same[OF create_event_effect(1)[OF e]])
  then show "cached s1 b = (if b = a then Some (cached_or_stored s a) else cached s b)"
    using get_cache_effect(3)[OF g, of b] cached_same[OF create_event_effect(1)[OF e]] by simp
  show "returns (add_cached a x) s2 u s3" if "returns c s2 u s3" for s2 u s3
    using that by (simp add: c)
qed

lemma debit_shape:
  assumes f: "\<And>s c s1. returns f s c s1 \<Longrightarrow> \<exists>r now i w v.
      returns (getRelayAccountFromCache a) s v w
      \<and> returns (createRelayAccountEventWithID t r a x now) w i s1 \<and> c = sub_cached_checked a x"
    and t: "t = RelayAccountEventTypeTaskPayment \<or> t = RelayAccountEventTypeWithdraw"
  shows "movement f {a} (\<lambda>b. if b = a then - x else 0)"
proof (rule single_movement)
  fix s c s1 b
  assume "returns f s c s1"
  then obtain r now i w v where g: "returns (getRelayAccountFromCache a) s v w"
    and e: "returns (createRelayAccountEventWithID t r a x now) w i s1" and c: "c = sub_cached_checked a x"
    using f by blast
  note es = create_event_effect(3,4)[OF e] get_cache_effect(1)[OF g]
  show "\<exists>e. d_events (fst s1) = d_events (fst s) @ [e] \<and> re_Address e = a \<and> pending e
      \<and> signed_amount e = - x \<and> (\<forall>e'\<in>set (d_events (fst s)). re_ID e' < re_ID e)"
    by (rule exI[of _ "(new_event t r a x now)\<lparr> re_ID := i \<rparr>"]) (use es t in auto)
  show "d_accounts (fst s1) = d_accounts (fst s)"
    using e es(3) by (auto simp: createRelayAccountEventWithID_def Let_def)
  show "cached s1 b = (if b = a then Some (cached_or_stored s a) else cached s b)"
    using get_cache_effect(3)[OF g, of b] cached_same[OF create_event_effect(1)[OF e]] by simp
  show "returns (add_cached a (- x)) s2 u s3" if "returns c s2 u s3" for s2 u s3
    using that sub_cached_effect(1) by (simp add: c)
qed

interpretation charge_task: movement "chargeTaskFromRelayAccount taskIDCommitment addr amount now"
    "{addr}" "\<lambda>b. if b = addr then - amount else 0" for taskIDCommitment addr amount now
  by (rule debit_shape[where t = RelayAccountEventTypeTaskPayment])
    (fastforce simp: chargeTaskFromRelayAccount_def createRelayAccountEvent_def)+

interpretation refund_task: movement "refundTaskPaymentToRelayAccount taskIDCommitment addr amount now"
    "{addr}" "\<lambda>b. if b = addr then amount else 0" for taskIDCommitment addr amount now
  by (rule credit_shape[where t = RelayAccountEventTypeTaskRefund])
    (fastforce simp: refundTaskPaymentToRelayAccount_def createRelayAccountEvent_def)+

interpretation charge_withdraw: movement
    "bnd (chargeWithdrawFromRelayAccount withdrawID addr amount now) (\<lambda>r. ret (snd r))"
    "{addr}" "\<lambda>b. if b = addr then - amount else 0" for withdrawID addr amount now
  by (rule debit_shape[where t = RelayAccountEventTypeWithdraw])
    (fastforce simp: chargeWithdrawFromRelayAccount_def)+

interpretation fee_income: movement "fulfillWithdrawFeeIncome withdrawID addr amount now"
    "{addr}" "\<lambda>b. if b = addr then amount else 0" for withdrawID addr amount now
  by (rule credit_shape[where t = RelayAccountEventTypeWithdrawFeeIncome])
    (fastforce simp: fulfillWithdrawFeeIncome_def createRelayAccountEvent_def)+

interpretation reject_withdraw: movement "rejectWithdrawToRelayAccount withdrawID addr amount now"
    "{addr}" "\<lambda>b. if b = addr then amount else 0" for withdrawID addr amount now
  by (rule credit_shape[where t = RelayAccountEventTypeWithdrawRefund])
    (fastforce simp: rejectWithdrawToRelayAccount_def createRelayAccountEvent_def)+

interpretation release: movement "releaseVestingToRelayAccount vestingID addr fromReleased toReleased now"
    "{addr}" "\<lambda>b. if b = addr then toReleased - fromReleased else 0"
    for vestingID addr fromReleased toReleased now
  by (rule credit_shape[where t = RelayAccountEventTypeVestingRelease])
    (simp_all add: releaseVestingToRelayAccount_def createRelayAccountEvent_def Let_def, blast)

lemma deposit_begin_effect:
  assumes "returns (deposit_begin txHash addr amount network now) s u s1"
  shows "\<exists>i. d_events (fst s1) = d_events (fst s) @
      [(new_event RelayAccountEventTypeDeposit (reason2 RelayAccountEventTypeDeposit txHash network) addr amount now)\<lparr> re_ID := i \<rparr>]
      \<and> (\<forall>e\<in>set (d_events (fst s)). re_ID e < i)"
    and "d_accounts (fst s1) = d_accounts (fst s)" "snd s1 = snd s"
  using assms by (auto simp: deposit_begin_def createRelayAccountEventWithID_def Let_def next_id_fresh)

interpretation deposit: movement "depositRelayAccount txHash addr amount network now"
    "{addr}" "\<lambda>b. if b = addr then amount else 0" for txHash addr amount network now
proof (rule single_movement)
  fix s c s1 b
  assume "returns (depositRelayAccount txHash addr amount network now) s c s1"
  then obtain u w v where e: "returns (deposit_begin txHash addr amount network now) s u w"
    and g: "returns (getRelayAccountFromCache addr) w v s1" and c: "c = add_cached addr amount"
    by (auto simp: depositRelayAccount_def deposit_finish_def)
  note same = get_cache_effect(1)[OF g] deposit_begin_effect[OF e]
  obtain i where "d_events (fst s1) = d_events (fst s) @
      [(new_event RelayAccountEventTypeDeposit (reason2 RelayAccountEventTypeDeposit txHash network) addr amount now)\<lparr> re_ID := i \<rparr>]"
    "\<forall>e\<in>set (d_events (fst s)). re_ID e < i"
    using same by auto
  then show "\<exists>e. d_events (fst s1) = d_events (fst s) @ [e] \<and> re_Address e = addr \<and> pending e
      \<and> signed_amount e = amount \<and> (\<forall>e'\<in>set (d_events (fst s)). re_ID e' < re_ID e)"
    by auto
  show "d_accounts (fst s1) = d_accounts (fst s)" using same by simp
  have "cached_or_stored w addr = cached_or_stored s addr"
    by (rule cached_or_stored_same) (simp_all add: cached_same[OF same(4)] same(3) account_balance_def)
  then show "cached s1 b = (if b = addr then Some (cached_or_stored s addr) else cached s b)"
    using get_cache_effect(3)[OF g, of b] cached_same[OF same(4)] by simp
  show "returns (add_cached addr amount) s2 u s3" if "returns c s2 u s3" for s2 u s3
    using that by (simp add: c)
qed

section \<open>Settlements and the agreement of cache and ledger\<close>

lemma pending_batch_ok: "events_ok d \<Longrightarrow> batch_ok d (take n (filter pending (d_events d)))"
  by (auto simp: batch_ok_def distinct_map dest: in_set_takeD)

lemma settled_row_id [simp]: "re_ID (settled_row mac valid invalid e) = re_ID e"
  by (simp add: settled_row_def)

lemma settled_row_pending:
  "pending (settled_row mac valid invalid e) \<longleftrightarrow> pending e \<and> e \<notin> set valid \<union> set invalid"
  by (auto simp: settled_row_def)

lemma settled_row_untouched: "e \<notin> set valid \<union> set invalid \<Longrightarrow> settled_row mac valid invalid e = e"
  by (simp add: settled_row_def)

lemma filter_not_in_take: "distinct xs \<Longrightarrow> filter (\<lambda>x. x \<notin> set (take n xs)) xs = drop n xs"
proof -
  assume d: "distinct xs"
  have "set (take n xs) \<inter> set (drop n xs) = {}" using d by (metis append_take_drop_id distinct_append)
  then have "filter (\<lambda>x. x \<notin> set (take n xs)) (take n xs @ drop n xs) = drop n xs"
    by (auto simp del: append_take_drop_id simp: filter_empty_conv intro!: filter_True)
  then show ?thesis by simp
qed

lemma settlement_pending_rows:
  assumes "d_events d' = map (settled_row mac valid invalid) (d_events d)" "events_ok d"
    and "mset (take n (filter pending (d_events d))) = mset valid + mset invalid"
  shows "filter pending (d_events d') = drop n (filter pending (d_events d))"
proof -
  let ?ps = "filter pending (d_events d)"
  have s: "set valid \<union> set invalid = set (take n ?ps)"
    using assms(3) by (metis mset_append set_append set_mset_mset)
  have "filter pending (d_events d') = map (settled_row mac valid invalid) (filter (\<lambda>e. pending e \<and> e \<notin> set (take n ?ps)) (d_events d))"
    by (simp add: assms(1) filter_map o_def settled_row_pending s)
  also have "\<dots> = map (\<lambda>e. e) (filter (\<lambda>e. pending e \<and> e \<notin> set (take n ?ps)) (d_events d))"
    by (rule map_cong[OF refl]) (simp add: settled_row_untouched s)
  also have "\<dots> = filter (\<lambda>e. e \<notin> set (take n ?ps)) ?ps"
    by (simp add: conj_commute)
  also have "\<dots> = drop n ?ps"
    by (rule filter_not_in_take) (use assms(2) in \<open>simp add: distinct_map\<close>)
  finally show ?thesis .
qed

lemma settlement_agrees:
  assumes ok: "ledger_ok rejected (d, m)" and ids: "events_ok d"
    and r: "returns (processPendingRelayAccountEvents tx mac (take n (filter pending (d_events d)))) (d, m) u s'"
    and v: "validatePendingRelayAccountEvents tx d (take n (filter pending (d_events d))) = Inr (valid, invalid)"
  shows "ledger_ok (rejected @ invalid) s'" "events_ok (fst s')"
proof -
  let ?es = "take n (filter pending (d_events d))"
  have facts: "mset ?es = mset valid + mset invalid" "snd s' = m"
    "d_events (fst s') = map (settled_row mac valid invalid) (d_events d)"
    "\<And>a. account_balance (fst s') a = account_balance d a + sum_for a valid"
    "\<And>a. pending_sum (fst s') a = pending_sum d a - sum_for a ?es"
    by (rule settlement[OF r pending_batch_ok[OF ids]]; use v in simp)+
  have sums: "sum_for a ?es = sum_for a valid + sum_for a invalid" for a
    using sum_for_mset[of ?es "valid @ invalid" a] facts(1) by simp
  have inv: "set invalid \<subseteq> set ?es" using facts(1) by (metis mset_append set_append set_mset_mset sup.cobounded2)
  have idle: "sum_for a invalid = 0" if "\<forall>e\<in>set (d_events d). pending e \<and> re_Address e = a \<longrightarrow> signed_amount e = 0" for a
    by (rule sum_for_idle) (use that inv in \<open>auto dest!: in_set_takeD subsetD\<close>)
  have rows: "e \<in> set (d_events d)" if "e \<in> set (d_events (fst s'))" "pending e" for e
    using that by (auto simp: facts(3) settled_row_pending settled_row_untouched)
  show "ledger_ok (rejected @ invalid) s'"
    unfolding ledger_ok_def
  proof
    fix a
    have c: "cached s' a = cached (d, m) a" by (simp add: cached_def facts(2))
    show "case cached s' a of
        Some b \<Rightarrow> b = account_balance (fst s') a + pending_sum (fst s') a + sum_for a (rejected @ invalid)
      | None \<Rightarrow> sum_for a (rejected @ invalid) = 0
          \<and> (\<forall>e\<in>set (d_events (fst s')). pending e \<and> re_Address e = a \<longrightarrow> signed_amount e = 0)"
      using spec[OF ok[unfolded ledger_ok_def], of a] sums[of a] idle[of a] rows
      by (cases "cached (d, m) a") (auto simp: c facts(4,5))
  qed
  show "events_ok (fst s')" using ids by (simp add: facts(3) o_def)
qed

text \<open>
  C19: the loop that drains the pending events always ends: with more rounds than there are
  pending events it never runs out of rounds, and when it succeeds no event is left pending.
\<close>

theorem drain_pending_finishes:
  assumes "length (filter pending (d_events d)) < fuel" and "events_ok d"
  shows "\<not> returns (drain_pending tx mac fuel) (d, m) False s'
    \<and> (returns (drain_pending tx mac fuel) (d, m) True s' \<longrightarrow> filter pending (d_events (fst s')) = [])"
  using assms
proof (induction fuel arbitrary: d m)
  case (Suc fuel)
  let ?es = "take 50 (filter pending (d_events d))"
  show ?case
  proof (cases "filter pending (d_events d) = []")
    case True
    then show ?thesis by (simp add: getPendingRelayAccountEvents_def)
  next
    case False
    have step: "\<not> returns (drain_pending tx mac fuel) s1 False s'
        \<and> (returns (drain_pending tx mac fuel) s1 True s' \<longrightarrow> filter pending (d_events (fst s')) = [])"
      if r: "returns (processPendingRelayAccountEvents tx mac ?es) (d, m) u s1" for u s1
    proof -
      obtain valid invalid where e: "d_events (fst s1) = map (settled_row mac valid invalid) (d_events d)"
        and p: "mset ?es = mset valid + mset invalid"
        using settlement[OF r pending_batch_ok[OF Suc.prems(2)]] by metis
      have "filter pending (d_events (fst s1)) = drop 50 (filter pending (d_events d))"
        by (rule settlement_pending_rows[OF e Suc.prems(2) p])
      then have "length (filter pending (d_events (fst s1))) < fuel" using Suc.prems(1) False by (cases fuel) auto
      moreover have "events_ok (fst s1)" using Suc.prems(2) by (simp add: e o_def)
      ultimately show ?thesis using Suc.IH[of "fst s1" "snd s1"] by simp
    qed
    show ?thesis using step False by (simp add: getPendingRelayAccountEvents_def) blast
  qed
qed simp


subsection \<open>Concrete runs\<close>

definition sample_withdraw :: WithdrawRecord where
  "sample_withdraw = \<lparr> wr_ID = 1, wr_CreatedAt = 0, wr_Address = ''a'', wr_BenefitAddress = ''b'',
     wr_Amount = 5, wr_Network = ''n'', wr_Status = WithdrawStatusFailed,
     wr_LocalStatus = WithdrawLocalStatusProcessed, wr_RelayAccountEventID = 0, wr_TxHash = None,
     wr_WithdrawalFee = 0, wr_Timestamp = None, wr_Signature = None, wr_MAC = [] \<rparr>"

definition sample_event :: RelayAccountEvent where
  "sample_event = (new_event RelayAccountEventTypeWithdrawRefund ''7-1'' ''a'' 5 0)\<lparr> re_ID := 1 \<rparr>"

definition sample_db :: db where
  "sample_db = empty_db\<lparr> d_events := [sample_event], d_withdraws := [sample_withdraw] \<rparr>"

lemmas sample_defs = sample_withdraw_def sample_event_def sample_db_def empty_db_def new_event_def

lemma SplitN_2: "SplitN sep 2 s =
    (let p = takeWhile (\<lambda>c. c \<noteq> sep) s; r = dropWhile (\<lambda>c. c \<noteq> sep) s
     in if r = [] then [p] else [p, tl r])"
  by (simp only: numeral_2_eq_2 SplitN.simps)

lemma SplitN_3: "SplitN sep 3 s =
    (let p = takeWhile (\<lambda>c. c \<noteq> sep) s; r = dropWhile (\<lambda>c. c \<noteq> sep) s
     in if r = [] then [p] else p # SplitN sep 2 (tl r))"
  by (simp only: numeral_3_eq_3 numeral_2_eq_2 SplitN.simps)

lemma FormatUint_digit [simp]: "FormatUint 3 = ''3''" "FormatUint 7 = ''7''"
  by (simp_all add: FormatUint.simps)

lemmas reason_eval = splitRelayAccountEventReason_def SplitN_2 SplitN_3 ParseUint_def is_digit_def digit_val_def Let_def

lemma sample_validates:
  "validatePendingRelayAccountEvents (\<lambda>_ _. Inr None) sample_db [sample_event] = Inr ([sample_event], [])"
  by (simp add: validatePendingRelayAccountEvents_def candidate_def event_valid_def withdraw_of_def
      sample_defs reason_eval)


lemma sample_settles:
  "returns (processPendingRelayAccountEvents (\<lambda>_ _. Inr None) (\<lambda>r. r) [sample_event]) (sample_db, empty_mem) ()
    (settle (\<lambda>r. r) [sample_event] sample_db, empty_mem)"
  by (simp add: processPendingRelayAccountEvents_def sample_validates)

lemma sample_batch: "batch_ok sample_db [sample_event]"
  by (simp add: batch_ok_def sample_defs)

theorem settlement_posts_each_event_once_witness:
  "account_balance (settle (\<lambda>r. r) [sample_event] sample_db) ''a'' = 5
    \<and> pending_sum (settle (\<lambda>r. r) [sample_event] sample_db) ''a'' = 0"
proof -
  obtain valid invalid where "validatePendingRelayAccountEvents (\<lambda>_ _. Inr None) sample_db [sample_event] = Inr (valid, invalid)"
    and "\<forall>a. account_balance (settle (\<lambda>r. r) [sample_event] sample_db) a = account_balance sample_db a + sum_for a valid"
    and "\<forall>a. pending_sum (settle (\<lambda>r. r) [sample_event] sample_db) a = pending_sum sample_db a - sum_for a [sample_event]"
    using settlement_posts_each_event_once[OF sample_settles sample_batch] by blast
  moreover have "account_balance sample_db ''a'' = 0" "sum_for ''a'' [sample_event] = 5" "pending_sum sample_db ''a'' = 5"
    by (simp_all add: sample_defs account_balance_def sum_for_def pending_sum_def signed_amount_def debit_def)
  ultimately show ?thesis using sample_validates by simp
qed

theorem settlement_keeps_balances_nonnegative_witness:
  "0 \<le> account_balance (settle (\<lambda>r. r) [sample_event] sample_db) ''a''"
  by (rule settlement_keeps_balances_nonnegative[OF sample_settles sample_batch])
    (simp_all add: sample_defs account_balance_def)

theorem drain_pending_finishes_witness:
  "\<not> returns (drain_pending (\<lambda>_ _. Inr None) (\<lambda>r. r) 2) (sample_db, empty_mem) False (sample_db, empty_mem)"
  using drain_pending_finishes[of sample_db 2 "\<lambda>_ _. Inr None" "\<lambda>r. r" empty_mem "(sample_db, empty_mem)"]
  by (simp add: sample_defs)

text \<open>A deposit of 5 into an empty ledger, settled before the cache is looked up.\<close>

definition race_tx :: "string \<Rightarrow> string \<Rightarrow> go_error + depositTxData option" where
  "race_tx txHash network = Inr (Some \<lparr> dt_FromAddress = ''a'', dt_Amount = 5 \<rparr>)"

definition race_event :: RelayAccountEvent where
  "race_event = (new_event RelayAccountEventTypeDeposit ''3-h-n'' ''a'' 5 0)\<lparr> re_ID := 1 \<rparr>"

definition race_db :: db where
  "race_db = empty_db\<lparr> d_events := [race_event], d_deposits :=
     [\<lparr> dr_ID = 1, dr_Address = ''a'', dr_Amount = 5, dr_Network = ''n'', dr_TxHash = ''h'',
        dr_RelayAccountEventID = 1, dr_LocalStatus = DepositLocalStatusPending \<rparr>] \<rparr>"

lemma race_begin: "returns (deposit_begin ''h'' ''a'' 5 ''n'' 0) (empty_db, empty_mem) () (race_db, empty_mem)"
  by (simp add: deposit_begin_def createRelayAccountEventWithID_def race_db_def race_event_def Let_def
      next_id_def empty_db_def reason2_def)

lemma race_validates: "validatePendingRelayAccountEvents race_tx race_db [race_event] = Inr ([race_event], [])"
  by (simp add: validatePendingRelayAccountEvents_def candidate_def event_valid_def race_tx_def
      race_event_def new_event_def EqualFold_def reason_eval)

lemma race_settles:
  "returns (bnd (getPendingRelayAccountEvents 50) (processPendingRelayAccountEvents race_tx (\<lambda>r. r))) (race_db, empty_mem) ()
    (settle (\<lambda>r. r) [race_event] race_db, empty_mem)"
proof -
  have "filter pending (d_events race_db) = [race_event]" by (simp add: race_db_def race_event_def)
  then show ?thesis
    by (simp add: getPendingRelayAccountEvents_def processPendingRelayAccountEvents_def race_validates)
qed

lemma race_stored: "account_balance (settle (\<lambda>r. r) [race_event] race_db) ''a'' = 5"
  by (simp add: settle_balance) (simp add: race_db_def race_event_def account_balance_def empty_db_def sum_for_def)


end
