(* ===== verification/Float64.thy ===== *)
theory Float64
  imports Prelude "HOL-Library.Log_Nat"
begin

text \<open>
  Binary floating point as the source uses it: a \<^verbatim>\<open>float64\<close> is the rational number it denotes, and
  every arithmetic operation is the exact one followed by rounding to a 53-bit significand, to
  nearest with ties to even (\<^verbatim>\<open>math/big.Float\<close> values carry their own precision).  Overflow to
  infinity and subnormal numbers are not represented; no value the relay computes comes near
  either end of the range.
\<close>

definition round_half_even :: "rat \<Rightarrow> int" where
  "round_half_even x =
    (let f = \<lfloor>x\<rfloor>; r = x - of_int f in
     if r < 1 / 2 then f else if 1 / 2 < r then f + 1 else if even f then f else f + 1)"

text \<open>The exponent of the power of two just below a positive number.\<close>

definition binade :: "rat \<Rightarrow> int" where
  "binade x =
    (let (a, b) = quotient_of x; e = int (floorlog 2 (nat a)) - int (floorlog 2 (nat b)) in
     if 2 powi e \<le> x then e else e - 1)"

definition fl_pos :: "nat \<Rightarrow> rat \<Rightarrow> rat" where
  "fl_pos p x = (let u = 2 powi (binade x - int p + 1) in of_int (round_half_even (x / u)) * u)"

definition fl :: "nat \<Rightarrow> rat \<Rightarrow> rat" where
  "fl p x = (if x = 0 then 0 else if 0 < x then fl_pos p x else - fl_pos p (- x))"

abbreviation fl64 :: "rat \<Rightarrow> rat" where
  "fl64 \<equiv> fl 53"

section \<open>Rounding to an integer\<close>

lemma round_int [simp]: "round_half_even (of_int n) = n"
  by (simp add: round_half_even_def)

lemma round_bounds: "\<lfloor>x\<rfloor> \<le> round_half_even x" "round_half_even x \<le> \<lfloor>x\<rfloor> + 1"
  by (simp_all add: round_half_even_def Let_def)

lemma round_mono: "x \<le> y \<Longrightarrow> round_half_even x \<le> round_half_even y"
proof (cases "\<lfloor>x\<rfloor> = \<lfloor>y\<rfloor>")
  case True
  assume "x \<le> y"
  then show ?thesis using True by (auto simp: round_half_even_def Let_def)
next
  case False
  assume "x \<le> y"
  then have "\<lfloor>x\<rfloor> + 1 \<le> \<lfloor>y\<rfloor>" using False floor_mono[of x y] by linarith
  then show ?thesis using round_bounds(2)[of x] round_bounds(1)[of y] by linarith
qed

lemma round_between: "of_int a \<le> x \<Longrightarrow> x \<le> of_int b \<Longrightarrow> a \<le> round_half_even x \<and> round_half_even x \<le> b"
  using round_mono[of "of_int a" x] round_mono[of x "of_int b"] by simp

section \<open>Binades\<close>

lemma quotient_of_pos:
  assumes "0 < x" "quotient_of x = (a, b)"
  shows "0 < a" "0 < b" "x = of_int a / of_int b"
  using assms quotient_of_div[OF assms(2)] quotient_of_denom_pos[OF assms(2)]
  by (simp_all add: zero_less_divide_iff)

lemma floorlog_rat:
  assumes "0 < a"
  shows "2 powi (int (floorlog 2 (nat a)) - 1) \<le> (of_int a :: rat)" "(of_int a :: rat) < 2 powi int (floorlog 2 (nat a))"
proof -
  have b: "2 ^ (floorlog 2 (nat a) - 1) \<le> nat a" "nat a < 2 ^ floorlog 2 (nat a)"
    using floorlog_bounds[of "nat a" 2] assms by auto
  have pos: "0 < floorlog 2 (nat a)" using assms by (simp add: floorlog_def)
  have "(of_nat (2 ^ (floorlog 2 (nat a) - 1)) :: rat) \<le> of_nat (nat a)"
    "(of_nat (nat a) :: rat) < of_nat (2 ^ floorlog 2 (nat a))"
    using b by (simp_all only: of_nat_le_iff of_nat_less_iff)
  moreover have "(of_nat (nat a) :: rat) = of_int a" using assms by simp
  moreover have "(2 :: rat) powi (int (floorlog 2 (nat a)) - 1) = 2 ^ (floorlog 2 (nat a) - 1)"
    using pos by (simp add: power_int_def nat_diff_distrib)
  ultimately show "2 powi (int (floorlog 2 (nat a)) - 1) \<le> (of_int a :: rat)"
    "(of_int a :: rat) < 2 powi int (floorlog 2 (nat a))"
    by simp_all
qed

lemma binade_bounds:
  assumes "0 < x"
  shows "2 powi (binade x) \<le> x" "x < 2 powi (binade x + 1)"
proof -
  obtain a b where q: "quotient_of x = (a, b)" by (metis surj_pair)
  note ab = quotient_of_pos[OF assms q]
  define la lb where "la = int (floorlog 2 (nat a))" and "lb = int (floorlog 2 (nat b))"
  have a: "2 powi (la - 1) \<le> (of_int a :: rat)" "(of_int a :: rat) < 2 powi la"
    and b: "2 powi (lb - 1) \<le> (of_int b :: rat)" "(of_int b :: rat) < 2 powi lb"
    using floorlog_rat ab(1,2) by (simp_all add: la_def lb_def)
  have "2 powi (la - 1) / 2 powi lb \<le> x"
    unfolding ab(3) by (rule frac_le) (use a b ab in auto)
  moreover have "x < 2 powi la / 2 powi (lb - 1)"
    unfolding ab(3) by (rule frac_less) (use a b ab in auto)
  ultimately have x: "2 powi (la - lb - 1) \<le> x" "x < 2 powi (la - lb + 1)"
    by (simp_all add: power_int_diff power_int_add field_simps)
  show "2 powi (binade x) \<le> x" "x < 2 powi (binade x + 1)"
    using x by (auto simp: binade_def q la_def lb_def Let_def)
qed

lemma powi_mono: "m \<le> n \<Longrightarrow> (2 :: rat) powi m \<le> 2 powi n"
  by (rule power_int_increasing) simp_all

lemma powi_less_exp: "(2 :: rat) powi m < 2 powi n \<Longrightarrow> m < n"
  by (meson linorder_not_less powi_mono)

lemma binade_mono: "0 < x \<Longrightarrow> x \<le> y \<Longrightarrow> binade x \<le> binade y"
  using binade_bounds(1)[of x] binade_bounds(2)[of y]
  by (meson dual_order.strict_trans1 less_le_trans not_le order.strict_trans2 powi_less_exp zless_add1_eq zle_add1_eq_le)

lemma binade_unique: "2 powi e \<le> x \<Longrightarrow> x < 2 powi (e + 1) \<Longrightarrow> binade x = e"
proof -
  assume e: "2 powi e \<le> x" "x < 2 powi (e + 1)"
  then have "0 < x" by (metis less_le_trans zero_less_numeral zero_less_power_int)
  note b = binade_bounds[OF this]
  have "e < binade x + 1" by (rule powi_less_exp) (use e b in order)
  moreover have "binade x < e + 1" by (rule powi_less_exp) (use e b in order)
  ultimately show ?thesis by simp
qed

section \<open>Rounding keeps the order\<close>

lemma powi_split: "(2 :: rat) powi (e + int k) = 2 ^ k * 2 powi e"
  by (simp add: power_int_add)

lemma fl_pos_binade:
  assumes "0 < x" "1 \<le> p"
  shows "2 powi binade x \<le> fl_pos p x" "fl_pos p x \<le> 2 powi (binade x + 1)"
proof -
  define u where "u = (2 :: rat) powi (binade x - int p + 1)"
  have u: "0 < u" by (simp add: u_def)
  have lo: "2 powi binade x = of_int (2 ^ (p - 1)) * u"
    using powi_split[of "binade x - int p + 1" "p - 1"] assms(2) by (simp add: u_def of_nat_diff)
  have hi: "2 powi (binade x + 1) = of_int (2 ^ p) * u"
    using powi_split[of "binade x - int p + 1" p] by (simp add: u_def)
  have "of_int (2 ^ (p - 1)) \<le> x / u" "x / u \<le> of_int (2 ^ p)"
    using binade_bounds[OF assms(1)] u unfolding lo hi by (simp_all add: pos_le_divide_eq pos_divide_le_eq)
  then have r: "2 ^ (p - 1) \<le> round_half_even (x / u)" "round_half_even (x / u) \<le> 2 ^ p"
    using round_between by blast+
  have "(of_int (2 ^ (p - 1)) :: rat) \<le> of_int (round_half_even (x / u))"
    "(of_int (round_half_even (x / u)) :: rat) \<le> of_int (2 ^ p)"
    using r by (simp_all only: of_int_le_iff)
  then show "2 powi binade x \<le> fl_pos p x" "fl_pos p x \<le> 2 powi (binade x + 1)"
    using u unfolding lo hi fl_pos_def Let_def u_def[symmetric] by (simp_all add: mult_right_mono)
qed

lemma fl_pos_mono:
  assumes "0 < x" "x \<le> y" "1 \<le> p"
  shows "fl_pos p x \<le> fl_pos p y"
proof (cases "binade x = binade y")
  case True
  show ?thesis
    unfolding fl_pos_def Let_def True using assms(2)
    by (intro mult_right_mono) (simp_all add: round_mono divide_right_mono)
next
  case False
  then have "binade x + 1 \<le> binade y" using binade_mono[OF assms(1,2)] by linarith
  then have "(2 :: rat) powi (binade x + 1) \<le> 2 powi binade y" by (rule powi_mono)
  then show ?thesis
    using fl_pos_binade(2)[OF assms(1,3)] fl_pos_binade(1)[of y p] assms by linarith
qed

lemma fl_pos_nonneg: "0 < x \<Longrightarrow> 1 \<le> p \<Longrightarrow> 0 < fl_pos p x"
  using fl_pos_binade(1)[of x p] by (metis less_le_trans zero_less_numeral zero_less_power_int)

lemma fl_mono: "1 \<le> p \<Longrightarrow> x \<le> y \<Longrightarrow> fl p x \<le> fl p y"
  using fl_pos_mono[of x y p] fl_pos_mono[of "- y" "- x" p] fl_pos_nonneg[of y p] fl_pos_nonneg[of "- x" p]
  by (auto simp: fl_def)

lemma fl_0 [simp]: "fl p 0 = 0"
  by (simp add: fl_def)

lemma fl_one [simp]: "1 \<le> p \<Longrightarrow> fl p 1 = 1"
proof -
  assume p: "1 \<le> p"
  have b: "binade 1 = 0" by (rule binade_unique) simp_all
  have "(2 :: rat) ^ (p - 1) * 2 powi (1 - int p) = 1"
    using powi_split[of "1 - int p" "p - 1"] p by (simp add: of_nat_diff)
  then have "(1 :: rat) / 2 powi (1 - int p) = of_int (2 ^ (p - 1))"
    by (simp add: field_simps)
  then have r: "round_half_even (1 / 2 powi (1 - int p)) = 2 ^ (p - 1)"
    by (simp only: round_int)
  have "(2 :: rat) ^ (p - 1) * 2 powi (1 - int p) = 1"
    using powi_split[of "1 - int p" "p - 1"] p by (simp add: of_nat_diff)
  then show ?thesis using b r by (simp add: fl_def fl_pos_def Let_def)
qed

text \<open>Numbers with at most \<^verbatim>\<open>p\<close> significant bits are exact, so rounding twice is rounding once.\<close>

lemma fl_pos_exact:
  assumes k: "0 < k" "k < 2 ^ p"
  shows "fl_pos p (of_int k * 2 powi e) = of_int k * 2 powi e"
proof -
  define x :: rat where "x = of_int k * 2 powi e"
  have x: "0 < x" using k by (simp add: x_def)
  have "(of_int k :: rat) < of_int (2 ^ p)" using k(2) by (simp only: of_int_less_iff)
  then have "x < 2 ^ p * 2 powi e" by (simp add: x_def)
  then have "x < 2 powi (e + int p)" by (simp add: powi_split)
  then have b: "binade x < e + int p" using binade_bounds(1)[OF x] powi_less_exp le_less_trans by blast
  define j where "j = nat (e - (binade x - int p + 1))"
  have e: "e = (binade x - int p + 1) + int j" using b by (simp add: j_def)
  have "x = of_int (k * 2 ^ j) * 2 powi (binade x - int p + 1)"
    unfolding x_def by (subst e) (simp add: powi_split flip: x_def)
  then have "x / 2 powi (binade x - int p + 1) = of_int (k * 2 ^ j)"
    by (metis nonzero_mult_div_cancel_right power_int_eq_0_iff zero_neq_numeral)
  then have "fl_pos p x = of_int (k * 2 ^ j) * 2 powi (binade x - int p + 1)"
    by (simp only: fl_pos_def Let_def round_int)
  also have "\<dots> = x"
    using \<open>x = of_int (k * 2 ^ j) * 2 powi (binade x - int p + 1)\<close> by (rule sym)
  finally show ?thesis by (simp only: x_def)
qed

lemma fl_pos_exact_le:
  assumes k: "0 < k" "k \<le> 2 ^ p" "1 \<le> p"
  shows "fl_pos p (of_int k * 2 powi e) = of_int k * 2 powi e"
proof (cases "k = 2 ^ p")
  case True
  have "(2 :: int) ^ p = 2 * 2 ^ (p - 1)" using k(3) by (simp flip: power_Suc)
  then have r: "(of_int k :: rat) * 2 powi e = of_int (2 ^ (p - 1)) * 2 powi (e + 1)"
    using True by (simp add: power_int_add)
  have "(2 :: int) ^ (p - 1) < 2 ^ p" using k(3) by simp
  then show ?thesis unfolding r by (intro fl_pos_exact) simp_all
next
  case False
  then show ?thesis using k by (intro fl_pos_exact) simp_all
qed

lemma fl_exact:
  assumes "\<bar>k\<bar> \<le> 2 ^ p" "1 \<le> p"
  shows "fl p (of_int k * 2 powi e) = of_int k * 2 powi e"
proof -
  consider "k = 0" | "0 < k" | "k < 0" by linarith
  then show ?thesis
  proof cases
    case 2
    then have "0 < (of_int k :: rat) * 2 powi e" by simp
    then show ?thesis using fl_pos_exact_le[of k p e] assms 2 by (simp add: fl_def)
  next
    case 3
    then have n: "(of_int k :: rat) * 2 powi e < 0" by (simp add: mult_neg_pos)
    have "fl_pos p (of_int (- k) * 2 powi e) = of_int (- k) * 2 powi e"
      using 3 assms by (intro fl_pos_exact_le) simp_all
    then show ?thesis using n by (simp add: fl_def)
  qed simp
qed

lemma fl_of_int: "\<bar>k\<bar> \<le> 2 ^ p \<Longrightarrow> 1 \<le> p \<Longrightarrow> fl p (of_int k) = of_int k"
  using fl_exact[of k p 0] by simp

lemma fl_pos_idem:
  assumes "0 < x" "1 \<le> p"
  shows "fl p (fl_pos p x) = fl_pos p x"
proof -
  define e k where "e = binade x - int p + 1" and "k = round_half_even (x / 2 powi e)"
  have f: "fl_pos p x = of_int k * 2 powi e" by (simp add: fl_pos_def k_def e_def Let_def)
  have "0 < fl_pos p x" by (rule fl_pos_nonneg[OF assms])
  moreover have "(0 :: rat) < 2 powi e" by simp
  ultimately have "0 < (of_int k :: rat)" unfolding f by (rule zero_less_mult_pos2)
  then have "0 < k" by simp
  have "of_int k * 2 powi e \<le> (2 :: rat) powi (e + int p)"
    using fl_pos_binade(2)[OF assms] unfolding f by (simp add: e_def)
  then have "(of_int k :: rat) \<le> 2 ^ p" by (simp add: powi_split)
  then have "k \<le> 2 ^ p" by (metis of_int_le_iff of_int_numeral of_int_power)
  then show ?thesis unfolding f using \<open>0 < k\<close> assms(2) by (intro fl_exact) simp_all
qed

lemma fl_neg: "fl p (- x) = - fl p x"
  by (simp add: fl_def)

lemma fl_idem [simp]: "1 \<le> p \<Longrightarrow> fl p (fl p x) = fl p x"
  using fl_pos_idem[of x p] fl_pos_idem[of "- x" p] fl_neg[of p "fl_pos p (- x)"]
  by (simp add: fl_def[of p x])

text \<open>The relative error of one operation on positive numbers.\<close>

lemma round_error: "x - 1 / 2 \<le> of_int (round_half_even x)"
  unfolding round_half_even_def Let_def by (auto, linarith+)

lemma fl_error:
  assumes "0 \<le> x" "1 \<le> p"
  shows "x - x / 2 ^ p \<le> fl p x"
proof (cases "x = 0")
  case False
  then have x: "0 < x" using assms by simp
  define u where "u = (2 :: rat) powi (binade x - int p + 1)"
  have u: "0 < u" by (simp add: u_def)
  have "2 powi (binade x) = 2 ^ (p - 1) * u"
    using powi_split[of "binade x - int p + 1" "p - 1"] assms(2) by (simp add: u_def of_nat_diff)
  then have "2 ^ (p - 1) * u \<le> x" using binade_bounds(1)[OF x] by simp
  moreover have "(2 :: rat) ^ p = 2 * 2 ^ (p - 1)" using assms(2) by (simp flip: power_Suc)
  ultimately have half: "u / 2 \<le> x / 2 ^ p" by (simp add: field_simps)
  have "(x / u - 1 / 2) * u \<le> of_int (round_half_even (x / u)) * u"
    using u by (intro mult_right_mono round_error) simp
  moreover have "(x / u - 1 / 2) * u = x - u / 2" using u by (simp add: left_diff_distrib)
  moreover have "fl_pos p x = of_int (round_half_even (x / u)) * u" by (simp only: fl_pos_def u_def[symmetric] Let_def)
  ultimately have "x - u / 2 \<le> fl_pos p x" by simp
  then show ?thesis using half x by (simp add: fl_def)
qed simp

text \<open>What the scores need of the rounding of the machine: it is monotone and keeps 0 and 1.\<close>

locale rounding =
  fixes rnd :: "rat \<Rightarrow> rat"
  assumes rnd_mono: "x \<le> y \<Longrightarrow> rnd x \<le> rnd y" and rnd_0: "rnd 0 = 0" and rnd_1: "rnd 1 = 1"
begin

lemma rnd_nonneg: "0 \<le> x \<Longrightarrow> 0 \<le> rnd x"
  using rnd_mono[of 0 x] by (simp add: rnd_0)

lemma rnd_le_1: "x \<le> 1 \<Longrightarrow> rnd x \<le> 1"
  using rnd_mono[of x 1] by (simp add: rnd_1)

lemma rnd_product_unit: "0 \<le> x \<Longrightarrow> x \<le> 1 \<Longrightarrow> 0 \<le> y \<Longrightarrow> y \<le> 1 \<Longrightarrow> 0 \<le> rnd (x * y) \<and> rnd (x * y) \<le> 1"
  using rnd_nonneg rnd_le_1 by (simp add: mult_le_one)

end

interpretation machine: rounding fl64
  by unfold_locales (simp_all add: fl_mono)

end
