(* ===== verification/Income.thy ===== *)
theory Income
  imports RelayAccount Float64
begin

text \<open>
  How the fee of a finished task is paid out (\<^verbatim>\<open>sendTaskIncome\<close> of \<^verbatim>\<open>service/relay_account.go\<close>):
  the DAO takes its percentage, the delegators of the node share theirs in proportion to their
  stakes, the operator keeps the rest; and the statistics of \<^verbatim>\<open>service/statistic.go\<close> that record
  it.  Go ranges over the delegations in an unspecified order; the model uses the order of the
  association list, and no theorem depends on which one it is.
\<close>

section \<open>Statistics\<close>

text \<open>\<^verbatim>\<open>First\<close>, change, \<^verbatim>\<open>Save\<close>: the first matching row is rewritten, or a new one is added.\<close>

fun save_first :: "('r \<Rightarrow> bool) \<Rightarrow> 'r \<Rightarrow> ('r \<Rightarrow> 'r) \<Rightarrow> 'r list \<Rightarrow> 'r list" where
  "save_first p new f [] = [f new]"
| "save_first p new f (r # rs) = (if p r then f r # rs else r # save_first p new f rs)"

definition WeiToEther :: "int \<Rightarrow> rat" where
  "WeiToEther wei = fl 236 (fl 236 (of_int wei) / 10 ^ 18)"

definition count_task :: "TaskType \<Rightarrow> NodeIncentive \<Rightarrow> NodeIncentive" where
  "count_task taskType r =
    (case taskType of
       TaskTypeSD \<Rightarrow> r\<lparr> ni_SDTaskCount := ni_SDTaskCount r + 1 \<rparr>
     | TaskTypeLLM \<Rightarrow> r\<lparr> ni_LLMTaskCount := ni_LLMTaskCount r + 1 \<rparr>
     | TaskTypeSDFTLora \<Rightarrow> r\<lparr> ni_SDFTLoraTaskCount := ni_SDFTLoraTaskCount r + 1 \<rparr>)"

definition addNodeIncentive :: "address \<Rightarrow> float64 \<Rightarrow> TaskType \<Rightarrow> time \<Rightarrow> unit relay" where
  "addNodeIncentive nodeAddress incentive taskType now =
    (let t = day_start now in
     write_db (\<lambda>d. d\<lparr> d_incentives := save_first
       (\<lambda>r. (nodeAddress = [] \<or> ni_NodeAddress r = nodeAddress) \<and> ni_Time r = t)
       \<lparr> ni_NodeAddress = nodeAddress, ni_Incentive = 0, ni_Time = t, ni_TaskCount = 0,
         ni_SDTaskCount = 0, ni_LLMTaskCount = 0, ni_SDFTLoraTaskCount = 0 \<rparr>
       (\<lambda>r. count_task taskType (r\<lparr> ni_Incentive := fl64 (ni_Incentive r + incentive),
                                   ni_TaskCount := ni_TaskCount r + 1 \<rparr>)) (d_incentives d) \<rparr>))"

definition add_node_earning_row ::
  "address \<Rightarrow> int \<Rightarrow> int \<Rightarrow> time option \<Rightarrow> NodeEarning list \<Rightarrow> NodeEarning list" where
  "add_node_earning_row nodeAddress operatorEarning delegatorEarning t =
    save_first (\<lambda>r. ne_NodeAddress r = nodeAddress \<and> ne_Time r = t)
      \<lparr> ne_NodeAddress = nodeAddress, ne_OperatorEarning = 0, ne_DelegatorEarning = 0, ne_Time = t \<rparr>
      (\<lambda>r. r\<lparr> ne_OperatorEarning := ne_OperatorEarning r + operatorEarning,
             ne_DelegatorEarning := ne_DelegatorEarning r + delegatorEarning \<rparr>)"

definition addNodeEarning :: "address \<Rightarrow> int \<Rightarrow> int \<Rightarrow> time \<Rightarrow> unit relay" where
  "addNodeEarning nodeAddress operatorEarning delegatorEarning now =
    txn (seq
      (write_db (\<lambda>d. d\<lparr> d_node_earnings :=
         add_node_earning_row nodeAddress operatorEarning delegatorEarning (Some (day_start now)) (d_node_earnings d) \<rparr>))
      (write_db (\<lambda>d. d\<lparr> d_node_earnings :=
         add_node_earning_row nodeAddress operatorEarning delegatorEarning None (d_node_earnings d) \<rparr>)))"

definition add_staking_earning_row ::
  "address \<Rightarrow> address \<Rightarrow> string \<Rightarrow> int \<Rightarrow> time option \<Rightarrow> UserStakingEarning list \<Rightarrow> UserStakingEarning list" where
  "add_staking_earning_row userAddress nodeAddress network earning t =
    save_first (\<lambda>r. us_UserAddress r = userAddress \<and> us_NodeAddress r = nodeAddress
        \<and> us_Network r = network \<and> us_Time r = t)
      \<lparr> us_UserAddress = userAddress, us_NodeAddress = nodeAddress, us_Network = network,
        us_Earning = 0, us_Time = t \<rparr>
      (\<lambda>r. r\<lparr> us_Earning := us_Earning r + earning \<rparr>)"

definition addUserStakingEarning :: "address \<Rightarrow> address \<Rightarrow> string \<Rightarrow> int \<Rightarrow> time \<Rightarrow> unit relay" where
  "addUserStakingEarning userAddress nodeAddress network earning now =
    txn (seq
      (write_db (\<lambda>d. d\<lparr> d_staking_earnings :=
         add_staking_earning_row userAddress nodeAddress network earning (Some (day_start now)) (d_staking_earnings d) \<rparr>))
      (write_db (\<lambda>d. d\<lparr> d_staking_earnings :=
         add_staking_earning_row userAddress nodeAddress network earning None (d_staking_earnings d) \<rparr>)))"

definition add_user_earning_row ::
  "address \<Rightarrow> int \<Rightarrow> time option \<Rightarrow> UserEarning list \<Rightarrow> UserEarning list" where
  "add_user_earning_row userAddress earning t =
    save_first (\<lambda>r. ue_UserAddress r = userAddress \<and> ue_Time r = t)
      \<lparr> ue_UserAddress = userAddress, ue_Earning = 0, ue_Time = t \<rparr>
      (\<lambda>r. r\<lparr> ue_Earning := ue_Earning r + earning \<rparr>)"

definition addUserEarning :: "address \<Rightarrow> int \<Rightarrow> time \<Rightarrow> unit relay" where
  "addUserEarning userAddress earning now =
    txn (seq
      (write_db (\<lambda>d. d\<lparr> d_user_earnings :=
         add_user_earning_row userAddress earning (Some (day_start now)) (d_user_earnings d) \<rparr>))
      (write_db (\<lambda>d. d\<lparr> d_user_earnings :=
         add_user_earning_row userAddress earning None (d_user_earnings d) \<rparr>)))"

section \<open>Splitting a payment\<close>

definition GetDelegatorShare :: "mem \<Rightarrow> address \<Rightarrow> string \<Rightarrow> nat" where
  "GetDelegatorShare m nodeAddress network = share_get (m_shares m) nodeAddress network"

definition GetDelegationsOfNode :: "mem \<Rightarrow> address \<Rightarrow> string \<Rightarrow> go_error + address amounts" where
  "GetDelegationsOfNode m nodeAddress network =
    (case map_of (m_delegations m) network of
       None \<Rightarrow> Inl (Panic ''nil pointer dereference'')
     | Some c \<Rightarrow> Inr (getDelegationsOfNode c nodeAddress))"

text \<open>Every delegator's part is rounded down and the first one gets what that leaves over; a total
  stake of zero divides by zero.\<close>

definition delegator_fees :: "int \<Rightarrow> address amounts \<Rightarrow> go_error + address amounts" where
  "delegator_fees totalDelegatorFee userStakings =
    (let totalUserStakeAmount = total_amount userStakings in
     if totalUserStakeAmount = 0 then Inl (Panic ''division by zero'')
     else let fees = map (\<lambda>(a, x). (a, big_Div (totalDelegatorFee * x) totalUserStakeAmount)) userStakings;
              dispatchedDelegatorFee = total_amount fees
          in Inr (case fees of
                    [] \<Rightarrow> []
                  | (a, fee) # rest \<Rightarrow> (a, fee + (totalDelegatorFee - dispatchedDelegatorFee)) # rest))"

record income_split =
  is_daoTaskShare :: int
  is_totalDelegatorFee :: int
  is_nodeIncome :: int
  is_delegators :: "address amounts"

definition split_income ::
  "AppConfig \<Rightarrow> mem \<Rightarrow> address \<Rightarrow> int \<Rightarrow> string \<Rightarrow> go_error + income_split" where
  "split_income cfg m addr amount network =
    (let daoTaskShare = big_Div (amount * int (cfg_TaskFeeSharePercent cfg)) 100;
         nodeIncomeBeforeDelegation = amount - daoTaskShare;
         delegatorShare = GetDelegatorShare m addr network;
         whole = \<lparr> is_daoTaskShare = daoTaskShare, is_totalDelegatorFee = 0,
                   is_nodeIncome = nodeIncomeBeforeDelegation, is_delegators = [] \<rparr>
     in if delegatorShare = 0 then Inr whole
        else case GetDelegationsOfNode m addr network of
               Inl e \<Rightarrow> Inl e
             | Inr userStakings \<Rightarrow>
                 if userStakings = [] then Inr whole
                 else let totalDelegatorFee = big_Div (nodeIncomeBeforeDelegation * int delegatorShare) 100 in
                      case delegator_fees totalDelegatorFee userStakings of
                        Inl e \<Rightarrow> Inl e
                      | Inr fees \<Rightarrow>
                          Inr \<lparr> is_daoTaskShare = daoTaskShare, is_totalDelegatorFee = totalDelegatorFee,
                                is_nodeIncome = nodeIncomeBeforeDelegation - totalDelegatorFee,
                                is_delegators = fees \<rparr>)"

definition income_events ::
  "AppConfig \<Rightarrow> string \<Rightarrow> address \<Rightarrow> income_split \<Rightarrow> time \<Rightarrow> RelayAccountEvent list" where
  "income_events cfg taskIDCommitment addr sp now =
    map (\<lambda>(a, fee). new_event RelayAccountEventTypeUserDelegation
           (reason2 RelayAccountEventTypeUserDelegation taskIDCommitment a) a fee now) (is_delegators sp)
    @ [new_event RelayAccountEventTypeTaskIncome
         (reason1 RelayAccountEventTypeTaskIncome taskIDCommitment) addr (is_nodeIncome sp) now,
       new_event RelayAccountEventTypeDaoTaskShare
         (reason1 RelayAccountEventTypeDaoTaskShare taskIDCommitment)
         (cfg_TaskFeeShareAddress cfg) (is_daoTaskShare sp) now]"

definition post_income ::
  "AppConfig \<Rightarrow> string \<Rightarrow> address \<Rightarrow> TaskType \<Rightarrow> string \<Rightarrow> income_split \<Rightarrow> time \<Rightarrow> unit relay relay" where
  "post_income cfg taskIDCommitment addr taskType network sp now =
    (let events = income_events cfg taskIDCommitment addr sp now in
     seq (txn (seq (createRelayAccountEvents events)
              (seq (addNodeEarning addr (is_nodeIncome sp) (is_totalDelegatorFee sp) now)
              (seq (for_each (filter (\<lambda>e. re_Type e = RelayAccountEventTypeUserDelegation) events) (\<lambda>e.
                      seq (addUserStakingEarning (re_Address e) addr network (re_Amount e) now)
                          (addUserEarning (re_Address e) (re_Amount e) now)))
                   (addNodeIncentive addr (fl64 (WeiToEther (is_nodeIncome sp))) taskType now)))))
     (seq (for_each events (\<lambda>e. bnd (getRelayAccountFromCache (re_Address e)) (\<lambda>_. ret ())))
          (ret (for_each events (\<lambda>e. add_cached (re_Address e) (re_Amount e))))))"

definition sendTaskIncome ::
  "AppConfig \<Rightarrow> string \<Rightarrow> address \<Rightarrow> int \<Rightarrow> TaskType \<Rightarrow> string \<Rightarrow> time \<Rightarrow> unit relay relay" where
  "sendTaskIncome cfg taskIDCommitment addr amount taskType network now =
    bnd (read_mem (\<lambda>m. split_income cfg m addr amount network)) (\<lambda>r.
    bnd (of_sum r) (\<lambda>sp.
    post_income cfg taskIDCommitment addr taskType network sp now))"

section \<open>The split adds up\<close>

lemma total_map_fees: "total_amount (map (\<lambda>(a, x). (a, f x)) l) = (\<Sum>e\<leftarrow>l. f (snd e))"
  by (induction l) (auto simp: case_prod_beta)

lemma delegator_fees_total:
  "delegator_fees fee stakes = Inr fees \<Longrightarrow> total_amount fees = fee"
  by (cases stakes) (auto simp: delegator_fees_def Let_def split: if_splits)

lemma delegator_fees_addresses:
  "delegator_fees fee stakes = Inr fees \<Longrightarrow> map fst fees = map fst stakes"
  by (cases stakes) (auto simp: delegator_fees_def Let_def split: if_splits)

lemma total_nonneg: "(\<And>e. e \<in> set l \<Longrightarrow> 0 \<le> snd e) \<Longrightarrow> 0 \<le> total_amount l"
  by (induction l) auto

text \<open>Every delegator gets the part rounded down, the first one less than one unit per delegator more.\<close>

lemma delegator_fees_fair:
  assumes "delegator_fees fee stakes = Inr fees" "0 \<le> fee" "\<And>e. e \<in> set stakes \<Longrightarrow> 0 \<le> snd e"
    and "i < length stakes"
  shows "fst (fees ! i) = fst (stakes ! i)
    \<and> fee * snd (stakes ! i) div total_amount stakes \<le> snd (fees ! i)
    \<and> snd (fees ! i) < fee * snd (stakes ! i) div total_amount stakes + int (length stakes)"
proof -
  let ?w = "total_amount stakes"
  obtain s rest where stakes: "stakes = s # rest" using assms(4) by (cases stakes) auto
  have "0 \<le> ?w" by (rule total_nonneg) (rule assms(3))
  moreover have "?w \<noteq> 0" using assms(1) by (auto simp: delegator_fees_def Let_def)
  ultimately have w: "0 < ?w" by simp
  define disp where "disp = (\<Sum>e\<leftarrow>stakes. fee * snd e div ?w)"
  have b: "disp * ?w \<le> fee * ?w" "fee * ?w \<le> disp * ?w + int (length stakes) * (?w - 1)"
    using node_book.shares_bound[OF w assms(2), of stakes] by (simp_all add: disp_def)
  have "disp \<le> fee" using b(1) w by simp
  moreover have "fee < disp + int (length stakes)"
  proof -
    have "int (length stakes) * (?w - 1) < int (length stakes) * ?w" using stakes by simp
    then have "fee * ?w < (disp + int (length stakes)) * ?w" using b(2) by (simp add: distrib_right)
    then show ?thesis using w by simp
  qed
  moreover have "fees = (fst s, fee * snd s div ?w + (fee - disp)) # map (\<lambda>(a, x). (a, fee * x div ?w)) rest"
    using assms(1) w
    by (auto simp: delegator_fees_def Let_def stakes disp_def total_map_fees case_prod_beta split: if_splits)
  ultimately show ?thesis
    using assms(4) by (cases i) (auto simp: stakes case_prod_beta)
qed

definition stakes_ok :: "mem \<Rightarrow> address \<Rightarrow> string \<Rightarrow> bool" where
  "stakes_ok m addr network \<longleftrightarrow>
    (case GetDelegationsOfNode m addr network of
       Inl _ \<Rightarrow> True | Inr stakes \<Rightarrow> (\<forall>e\<in>set stakes. 0 \<le> snd e))"

lemma percent_bounds:
  assumes "(0 :: int) \<le> x" "p \<le> 100"
  shows "0 \<le> x * int p div 100" "x * int p div 100 \<le> x"
proof -
  show "0 \<le> x * int p div 100" using assms by (simp add: pos_imp_zdiv_nonneg_iff)
  have "x * int p \<le> x * 100" using assms by (intro mult_left_mono) auto
  then have "x * int p div 100 \<le> x * 100 div 100" by (rule zdiv_mono1) simp
  then show "x * int p div 100 \<le> x" by simp
qed

lemma split_income_total:
  assumes "split_income cfg m addr amount network = Inr sp"
  shows "is_nodeIncome sp + is_daoTaskShare sp + total_amount (is_delegators sp) = amount"
    "total_amount (is_delegators sp) = is_totalDelegatorFee sp"
    "is_daoTaskShare sp = amount * int (cfg_TaskFeeSharePercent cfg) div 100"
  using assms
  by (auto simp: split_income_def Let_def delegator_fees_total split: if_splits sum.splits)

lemma split_income_nonneg:
  assumes sp: "split_income cfg m addr amount network = Inr sp" and amount: "0 \<le> amount"
    and dao: "cfg_TaskFeeSharePercent cfg \<le> 100" and share: "GetDelegatorShare m addr network \<le> 100"
    and stakes: "stakes_ok m addr network"
  shows "0 \<le> is_daoTaskShare sp" "0 \<le> is_nodeIncome sp" "\<forall>e\<in>set (is_delegators sp). 0 \<le> snd e"
proof -
  let ?dao = "amount * int (cfg_TaskFeeSharePercent cfg) div 100"
  let ?fee = "(amount - ?dao) * int (GetDelegatorShare m addr network) div 100"
  note p = percent_bounds[OF amount dao]
  have f: "0 \<le> ?fee" "?fee \<le> amount - ?dao" using percent_bounds[OF _ share, of "amount - ?dao"] p by auto
  show "0 \<le> is_daoTaskShare sp" using split_income_total(3)[OF sp] p by simp
  consider (whole) "is_delegators sp = []" "is_nodeIncome sp = amount - ?dao"
    | (shared) l fees where "GetDelegationsOfNode m addr network = Inr l" "delegator_fees ?fee l = Inr fees"
        "is_delegators sp = fees" "is_nodeIncome sp = amount - ?dao - ?fee"
    using sp by (auto simp: split_income_def Let_def split: if_splits sum.splits)
  then have "0 \<le> is_nodeIncome sp \<and> (\<forall>e\<in>set (is_delegators sp). 0 \<le> snd e)"
  proof cases
    case whole
    then show ?thesis using p by simp
  next
    case shared
    have l: "\<And>e. e \<in> set l \<Longrightarrow> 0 \<le> snd e" using stakes shared(1) by (simp add: stakes_ok_def)
    have len: "length fees = length l" using delegator_fees_addresses[OF shared(2)] by (metis length_map)
    have "0 \<le> snd (fees ! i)" if "i < length fees" for i
    proof -
      have "0 \<le> ?fee * snd (l ! i) div total_amount l"
        using mult_nonneg_nonneg[OF f(1) l[of "l ! i"]] that len total_nonneg[OF l, of l]
        by (simp add: div_int_pos_iff)
      then show ?thesis using delegator_fees_fair[OF shared(2) f(1) l, of i] that len by linarith
    qed
    then have "\<forall>e\<in>set (is_delegators sp). 0 \<le> snd e"
      using shared(3) by (simp add: all_set_conv_all_nth)
    then show ?thesis using shared(4) f by simp
  qed
  then show "0 \<le> is_nodeIncome sp" "\<forall>e\<in>set (is_delegators sp). 0 \<le> snd e" by simp_all
qed

section \<open>Posting an income is a movement\<close>

definition books_only :: "'a relay \<Rightarrow> bool" where
  "books_only f \<longleftrightarrow> (\<forall>s a s'. returns f s a s' \<longrightarrow>
     d_events (fst s') = d_events (fst s) \<and> d_accounts (fst s') = d_accounts (fst s) \<and> snd s' = snd s)"

lemma books_seq: "books_only f \<Longrightarrow> books_only g \<Longrightarrow> books_only (seq f g)"
  unfolding books_only_def returns_bnd by metis

lemma books_for_each: "(\<And>x. books_only (f x)) \<Longrightarrow> books_only (for_each xs f)"
  by (induction xs) (simp add: books_only_def, simp add: books_seq)

lemma books_statistics:
  "books_only (addNodeEarning n x y now)" "books_only (addUserStakingEarning u n w x now)"
  "books_only (addUserEarning u x now)" "books_only (addNodeIncentive n i t now)"
  by (simp_all add: books_only_def addNodeEarning_def addUserStakingEarning_def addUserEarning_def
      addNodeIncentive_def Let_def)

lemma lookup_each_effect:
  assumes "returns (for_each es (\<lambda>e. bnd (getRelayAccountFromCache (re_Address e)) (\<lambda>_. ret ()))) s u s1"
  shows "fst s1 = fst s \<and> cached s1 b = (if b \<in> re_Address ` set es then Some (cached_or_stored s b) else cached s b)"
  using assms
proof (induction es arbitrary: s)
  case (Cons e es)
  then obtain v w where g: "returns (getRelayAccountFromCache (re_Address e)) s v w"
    and r: "returns (for_each es (\<lambda>e. bnd (getRelayAccountFromCache (re_Address e)) (\<lambda>_. ret ()))) w u s1"
    by auto
  have "cached_or_stored w b = cached_or_stored s b"
    using get_cache_effect(1)[OF g] get_cache_effect(3)[OF g, of b]
    by (auto simp: cached_or_stored_def split: option.splits if_splits)
  then show ?case
    using Cons.IH[OF r] get_cache_effect(1)[OF g] get_cache_effect(3)[OF g, of b] by auto
qed simp

lemma add_each_effect:
  assumes "returns (for_each es (\<lambda>e. add_cached (re_Address e) (re_Amount e))) s u s1" "\<forall>e\<in>set es. \<not> debit e"
  shows "fst s1 = fst s \<and> cached s1 b = (if b \<in> re_Address ` set es
    then Some (amount_or_0 (m_accounts (snd s)) b + sum_for b es) else cached s b)"
  using assms
proof (induction es arbitrary: s)
  case (Cons e es)
  then obtain v w where g: "returns (add_cached (re_Address e) (re_Amount e)) s v w"
    and r: "returns (for_each es (\<lambda>e. add_cached (re_Address e) (re_Amount e))) w u s1"
    by auto
  have "amount_or_0 (m_accounts (snd w)) b =
      (if b = re_Address e then amount_or_0 (m_accounts (snd s)) b + re_Amount e else amount_or_0 (m_accounts (snd s)) b)"
    using add_cached_effect(2)[OF g, of b] by (simp add: cached_def amount_or_0_def)
  moreover have "sum_for b (e # es) = (if re_Address e = b then re_Amount e else 0) + sum_for b es"
    using Cons.prems(2) by (simp add: sum_for_def signed_amount_def)
  moreover have "sum_for b es = 0" if "b \<notin> re_Address ` set es"
    by (rule sum_for_idle) (use that in auto)
  ultimately show ?case
    using Cons.IH[OF r] Cons.prems(2) add_cached_effect(1)[OF g] add_cached_effect(2)[OF g, of b] by auto
qed simp

text \<open>The rows of one insert of several events, and the numbers they get.\<close>

definition numbered :: "nat \<Rightarrow> RelayAccountEvent list \<Rightarrow> RelayAccountEvent list" where
  "numbered i es = map (\<lambda>(k, e). e\<lparr> re_ID := i + k \<rparr>) (List.enumerate 0 es)"

lemma numbered_nth: "k < length es \<Longrightarrow> numbered i es ! k = (es ! k)\<lparr> re_ID := i + k \<rparr>"
  by (simp add: numbered_def nth_enumerate_eq)

lemma numbered_length [simp]: "length (numbered i es) = length es"
  by (simp add: numbered_def)

lemma numbered_map: "(\<And>e k. f (e\<lparr> re_ID := k \<rparr>) = f e) \<Longrightarrow> map f (numbered i es) = map f es"
  by (rule nth_equalityI) (simp_all add: numbered_nth)

lemma numbered_ids: "map re_ID (numbered i es) = [i ..< i + length es]"
  by (rule nth_equalityI) (simp_all add: numbered_nth)

lemma sum_for_map: "sum_for b es = (\<Sum>p\<leftarrow>map (\<lambda>e. (re_Address e, signed_amount e)) es. if fst p = b then snd p else 0)"
  by (induction es) (auto simp: sum_for_def)

lemma sum_for_numbered: "sum_for b (numbered i es) = sum_for b es"
  by (simp add: sum_for_map numbered_map del: map_map)

lemma create_events_effect:
  assumes "returns (createRelayAccountEvents es) s u s1"
  shows "d_events (fst s1) = d_events (fst s) @ numbered (next_id re_ID (d_events (fst s))) es"
    "d_accounts (fst s1) = d_accounts (fst s)" "snd s1 = snd s"
    "distinct (map re_Reason (d_events (fst s) @ es))"
  using assms by (auto simp: createRelayAccountEvents_def numbered_def Let_def)

lemma income_events_kind:
  "e \<in> set (income_events cfg c a sp now) \<Longrightarrow> pending e \<and> \<not> debit e"
  by (auto simp: income_events_def debit_def)

lemma post_income_run:
  assumes "returns (post_income cfg taskIDCommitment addr taskType network sp now) s c s1"
  obtains w where
    "d_events (fst w) = d_events (fst s) @ numbered (next_id re_ID (d_events (fst s))) (income_events cfg taskIDCommitment addr sp now)"
    "d_accounts (fst w) = d_accounts (fst s)" "snd w = snd s"
    "returns (for_each (income_events cfg taskIDCommitment addr sp now)
       (\<lambda>e. bnd (getRelayAccountFromCache (re_Address e)) (\<lambda>_. ret ()))) w () s1"
    "c = for_each (income_events cfg taskIDCommitment addr sp now) (\<lambda>e. add_cached (re_Address e) (re_Amount e))"
proof -
  let ?es = "income_events cfg taskIDCommitment addr sp now"
  define rest where "rest = seq (addNodeEarning addr (is_nodeIncome sp) (is_totalDelegatorFee sp) now)
    (seq (for_each (filter (\<lambda>e. re_Type e = RelayAccountEventTypeUserDelegation) ?es) (\<lambda>e.
       seq (addUserStakingEarning (re_Address e) addr network (re_Amount e) now)
           (addUserEarning (re_Address e) (re_Amount e) now)))
       (addNodeIncentive addr (fl64 (WeiToEther (is_nodeIncome sp))) taskType now))"
  have b: "books_only rest" unfolding rest_def by (intro books_seq books_for_each books_statistics)
  from assms obtain v w where e: "returns (createRelayAccountEvents ?es) s () v"
    and r: "returns rest v () w"
    and l: "returns (for_each ?es (\<lambda>e. bnd (getRelayAccountFromCache (re_Address e)) (\<lambda>_. ret ()))) w () s1"
    and c: "c = for_each ?es (\<lambda>e. add_cached (re_Address e) (re_Amount e))"
    unfolding post_income_def Let_def rest_def[symmetric] by auto
  show thesis
    using that[of w] b[unfolded books_only_def, rule_format, OF r] create_events_effect[OF e] l c by simp
qed

interpretation income: movement "post_income cfg taskIDCommitment addr taskType network sp now"
    "re_Address ` set (income_events cfg taskIDCommitment addr sp now)"
    "\<lambda>b. sum_for b (income_events cfg taskIDCommitment addr sp now)"
  for cfg taskIDCommitment addr taskType network sp now
proof
  let ?es = "income_events cfg taskIDCommitment addr sp now"
  fix s c s1 b
  assume "returns (post_income cfg taskIDCommitment addr taskType network sp now) s c s1"
  then obtain w where w: "d_events (fst w) = d_events (fst s) @ numbered (next_id re_ID (d_events (fst s))) ?es"
    "d_accounts (fst w) = d_accounts (fst s)" "snd w = snd s"
    and l: "returns (for_each ?es (\<lambda>e. bnd (getRelayAccountFromCache (re_Address e)) (\<lambda>_. ret ()))) w () s1"
    and c: "c = for_each ?es (\<lambda>e. add_cached (re_Address e) (re_Amount e))"
    by (rule post_income_run)
  note s1 = conjunct1[OF lookup_each_effect[OF l]]
  show "account_balance (fst s1) b = account_balance (fst s) b" by (simp add: account_balance_def s1 w)
  have rows: "\<forall>e\<in>set (numbered i ?es). pending e \<and> re_Address e \<in> re_Address ` set ?es" for i
    using income_events_kind[OF nth_mem] by (auto simp: in_set_conv_nth[of _ "numbered i ?es"] numbered_nth)
  then show "\<exists>es. d_events (fst s1) = d_events (fst s) @ es \<and> (\<forall>b. sum_for b es = sum_for b ?es)
      \<and> (\<forall>e\<in>set es. pending e \<and> re_Address e \<in> re_Address ` set ?es)"
    by (intro exI[of _ "numbered (next_id re_ID (d_events (fst s))) ?es"] conjI)
      (simp_all add: s1 w sum_for_numbered)
  show "events_ok (fst s1)" if "events_ok (fst s)"
    using that by (auto simp: s1 w numbered_ids dest!: next_id_fresh[of _ "d_events (fst s)" re_ID])
  have cw: "cached w b = cached s b" by (simp add: cached_def w(3))
  have "cached_or_stored w b = cached_or_stored s b"
    by (rule cached_or_stored_same) (simp_all add: cw account_balance_def w(2))
  then show "cached s1 b = (if b \<in> re_Address ` set ?es then Some (cached_or_stored s b) else cached s b)"
    using lookup_each_effect[OF l, of b] cw by simp
  fix s2 u s3
  assume "returns c s2 u s3"
  then have a: "returns (for_each ?es (\<lambda>e. add_cached (re_Address e) (re_Amount e))) s2 u s3" by (simp only: c)
  have k: "\<forall>e\<in>set ?es. \<not> debit e" using income_events_kind by blast
  show "fst s3 = fst s2" "cached s3 b = (if b \<in> re_Address ` set ?es
      then Some (amount_or_0 (m_accounts (snd s2)) b + sum_for b ?es) else cached s2 b)"
    using add_each_effect[OF a k, of b] by simp_all
qed

section \<open>What a payment posts\<close>

lemma send_income_run:
  assumes "returns (sendTaskIncome cfg taskIDCommitment addr amount taskType network now) s c s1"
  obtains sp where "split_income cfg (snd s) addr amount network = Inr sp"
    "returns (post_income cfg taskIDCommitment addr taskType network sp now) s c s1"
  using assms by (auto simp: sendTaskIncome_def)

lemma sum_amounts_numbered: "sum_list (map re_Amount (numbered i es)) = sum_list (map re_Amount es)"
  by (simp add: numbered_map)

lemma sum_income_events:
  "sum_list (map re_Amount (income_events cfg c a sp now)) =
    total_amount (is_delegators sp) + is_nodeIncome sp + is_daoTaskShare sp"
  by (simp add: income_events_def total_amount_def o_def case_prod_beta)

text \<open>
  C5: paying out a task fee appends events whose amounts add up to exactly the fee: nothing is
  lost or created by the roundings of the DAO share and of the delegators' parts.  When the
  percentages are at most 100 and no stake is negative, no event has a negative amount.
\<close>

theorem task_income_conserves:
  assumes "returns (sendTaskIncome cfg taskIDCommitment addr amount taskType network now) (d, m) c (d', m')"
    and "0 \<le> amount" and "cfg_TaskFeeSharePercent cfg \<le> 100"
    and "GetDelegatorShare m addr network \<le> 100" and "stakes_ok m addr network"
  shows "\<exists>es. d_events d' = d_events d @ es
    \<and> sum_list (map re_Amount es) = amount
    \<and> (\<forall>e\<in>set es. pending e \<and> 0 \<le> re_Amount e)"
proof -
  obtain sp where sp: "split_income cfg m addr amount network = Inr sp"
    and r: "returns (post_income cfg taskIDCommitment addr taskType network sp now) (d, m) c (d', m')"
    using send_income_run[OF assms(1)] by auto
  let ?es = "income_events cfg taskIDCommitment addr sp now"
  obtain w where w: "d_events (fst w) = d_events (fst (d, m)) @ numbered (next_id re_ID (d_events (fst (d, m)))) ?es"
    and l: "returns (for_each ?es (\<lambda>e. bnd (getRelayAccountFromCache (re_Address e)) (\<lambda>_. ret ()))) w () (d', m')"
    by (rule post_income_run[OF r])
  have "\<forall>e\<in>set ?es. pending e \<and> 0 \<le> re_Amount e"
    using split_income_nonneg[OF sp assms(2-5)] by (auto simp: income_events_def)
  then have "\<forall>e\<in>set (numbered i ?es). pending e \<and> 0 \<le> re_Amount e" for i
    by (simp add: all_set_conv_all_nth numbered_nth)
  moreover have "sum_list (map re_Amount ?es) = amount"
    using split_income_total(1)[OF sp] by (simp add: sum_income_events)
  moreover have "d_events d' = d_events d @ numbered (next_id re_ID (d_events d)) ?es"
    using w lookup_each_effect[OF l] by simp
  ultimately show ?thesis
    by (intro exI[of _ "numbered (next_id re_ID (d_events d)) ?es"]) (simp add: sum_amounts_numbered)
qed

section \<open>Runs of the ledger\<close>

text \<open>The operations that move money, and runs of them interleaved with settlements; a run keeps
  the list of the events its settlements rejected.\<close>

inductive ledger_movement :: "unit relay relay \<Rightarrow> bool" where
  m_deposit: "ledger_movement (depositRelayAccount txHash addr amount network now)"
| m_charge: "ledger_movement (chargeTaskFromRelayAccount taskIDCommitment addr amount now)"
| m_refund: "ledger_movement (refundTaskPaymentToRelayAccount taskIDCommitment addr amount now)"
| m_income: "ledger_movement (sendTaskIncome cfg taskIDCommitment addr amount taskType network now)"
| m_withdraw: "ledger_movement (bnd (chargeWithdrawFromRelayAccount withdrawID addr amount now) (\<lambda>r. ret (snd r)))"
| m_fee: "ledger_movement (fulfillWithdrawFeeIncome withdrawID addr amount now)"
| m_reject: "ledger_movement (rejectWithdrawToRelayAccount withdrawID addr amount now)"
| m_release: "ledger_movement (releaseVestingToRelayAccount vestingID addr fromReleased toReleased now)"

inductive ledger_run ::
  "(string \<Rightarrow> string \<Rightarrow> go_error + depositTxData option) \<Rightarrow> (string \<Rightarrow> string)
   \<Rightarrow> state \<Rightarrow> RelayAccountEvent list \<Rightarrow> state \<Rightarrow> bool" for tx mac s where
  r_start: "ledger_run tx mac s [] s"
| r_move: "ledger_run tx mac s rejected s1 \<Longrightarrow> ledger_movement f \<Longrightarrow> returns f s1 c s2 \<Longrightarrow>
    returns c s2 () s3 \<Longrightarrow> ledger_run tx mac s rejected s3"
| r_vesting: "ledger_run tx mac s rejected s1 \<Longrightarrow>
    returns (createVestingCreatedRelayAccountEvent record now) s1 () s2 \<Longrightarrow> ledger_run tx mac s rejected s2"
| r_settle: "ledger_run tx mac s rejected s1 \<Longrightarrow> returns (getPendingRelayAccountEvents limit) s1 events s1 \<Longrightarrow>
    returns (processPendingRelayAccountEvents tx mac events) s1 () s2 \<Longrightarrow>
    validatePendingRelayAccountEvents tx (fst s1) events = Inr (valid, invalid) \<Longrightarrow>
    ledger_run tx mac s (rejected @ invalid) s2"

lemma movement_step:
  assumes "ledger_movement f" "returns f s c s1" "returns c s1 () s2"
  shows "ledger_ok rejected s \<Longrightarrow> ledger_ok rejected s2" "events_ok (fst s) \<Longrightarrow> events_ok (fst s2)"
proof -
  have "(ledger_ok rejected s \<longrightarrow> ledger_ok rejected s2) \<and> (events_ok (fst s) \<longrightarrow> events_ok (fst s2))"
    using assms
  proof (induction rule: ledger_movement.induct)
    case (m_deposit txHash addr amount network now)
    show ?case using deposit.movement_agrees[OF _ m_deposit(1,2)] deposit.movement_ids[OF m_deposit(1,2)] by blast
  next
    case (m_charge taskIDCommitment addr amount now)
    show ?case using charge_task.movement_agrees[OF _ m_charge(1,2)] charge_task.movement_ids[OF m_charge(1,2)] by blast
  next
    case (m_refund taskIDCommitment addr amount now)
    show ?case using refund_task.movement_agrees[OF _ m_refund(1,2)] refund_task.movement_ids[OF m_refund(1,2)] by blast
  next
    case (m_income cfg taskIDCommitment addr amount taskType network now)
    obtain sp where r: "returns (post_income cfg taskIDCommitment addr taskType network sp now) s c s1"
      using send_income_run[OF m_income(1)] by blast
    show ?case using income.movement_agrees[OF _ r m_income(2)] income.movement_ids[OF r m_income(2)] by blast
  next
    case (m_withdraw withdrawID addr amount now)
    show ?case using charge_withdraw.movement_agrees[OF _ m_withdraw(1,2)] charge_withdraw.movement_ids[OF m_withdraw(1,2)] by blast
  next
    case (m_fee withdrawID addr amount now)
    show ?case using fee_income.movement_agrees[OF _ m_fee(1,2)] fee_income.movement_ids[OF m_fee(1,2)] by blast
  next
    case (m_reject withdrawID addr amount now)
    show ?case using reject_withdraw.movement_agrees[OF _ m_reject(1,2)] reject_withdraw.movement_ids[OF m_reject(1,2)] by blast
  next
    case (m_release vestingID addr fromReleased toReleased now)
    show ?case using release.movement_agrees[OF _ m_release(1,2)] release.movement_ids[OF m_release(1,2)] by blast
  qed
  then show "ledger_ok rejected s \<Longrightarrow> ledger_ok rejected s2" "events_ok (fst s) \<Longrightarrow> events_ok (fst s2)" by blast+
qed

lemma vesting_created_step:
  assumes "returns (createVestingCreatedRelayAccountEvent record now) s () s1"
  shows "ledger_ok rejected s \<Longrightarrow> ledger_ok rejected s1" "events_ok (fst s) \<Longrightarrow> events_ok (fst s1)"
proof -
  obtain i where e: "returns (createRelayAccountEventWithID RelayAccountEventTypeVestingCreated
      (BuildVestingCreatedReason record) (v_Address record) 0 now) s i s1"
    using assms by (auto simp: createVestingCreatedRelayAccountEvent_def createRelayAccountEvent_def)
  note effect = create_event_effect[OF e]
  have c: "cached s1 = cached s" by (rule cached_same[OF effect(1)])
  have p: "pending_sum (fst s1) b = pending_sum (fst s) b" for b
    by (simp add: pending_sum_def effect(3) sum_for_def)
  show "ledger_ok rejected s1" if "ledger_ok rejected s"
    unfolding ledger_ok_def
  proof
    fix b
    show "case cached s1 b of
        Some v \<Rightarrow> v = account_balance (fst s1) b + pending_sum (fst s1) b + sum_for b rejected
      | None \<Rightarrow> sum_for b rejected = 0 \<and> (\<forall>e\<in>set (d_events (fst s1)). pending e \<and> re_Address e = b \<longrightarrow> signed_amount e = 0)"
      using spec[OF that[unfolded ledger_ok_def], of b]
      by (cases "cached s b") (auto simp: c p effect(2,3))
  qed
  show "events_ok (fst s1)" if "events_ok (fst s)" using that effect(3,4) by auto
qed

lemma ledger_run_ok:
  assumes "ledger_run tx mac s rejected s'" "ledger_ok [] s" "events_ok (fst s)"
  shows "ledger_ok rejected s' \<and> events_ok (fst s')"
  using assms
proof (induction rule: ledger_run.induct)
  case (r_move rejected s1 f c s2 s3)
  then show ?case using movement_step[OF r_move(2-4)] by blast
next
  case (r_vesting rejected s1 vr now s2)
  then show ?case using vesting_created_step[OF r_vesting(2)] by blast
next
  case (r_settle rejected s1 limit events s2 valid invalid)
  have ev: "events = take limit (filter pending (d_events (fst s1)))"
    using r_settle(2) by (simp add: getPendingRelayAccountEvents_def)
  have s1: "ledger_ok rejected (fst s1, snd s1)" "events_ok (fst s1)" using r_settle by simp_all
  show ?case
    using settlement_agrees[OF s1, of tx mac limit "()" s2 valid invalid] r_settle(3,4) by (simp add: ev)
qed simp

text \<open>
  C2: along every run of deposits, charges, refunds, payouts, withdrawals, vesting releases and
  settlements, the cached balance of an address is its stored balance plus its pending events plus
  the events that settlements have rejected; so without rejected events the balance the relay
  checks payments against is the balance the ledger will have once all events are settled.
\<close>

theorem cache_agrees_with_ledger:
  assumes "ledger_run tx mac s rejected s'" and "ledger_ok [] s" and "events_ok (fst s)"
    and "cached s' a = Some b"
  shows "b = account_balance (fst s') a + pending_sum (fst s') a + sum_for a rejected"
proof -
  have ok: "ledger_ok rejected s'" using ledger_run_ok[OF assms(1-3)] by blast
  show ?thesis using spec[OF ok[unfolded ledger_ok_def], of a] assms(4) by simp
qed

theorem cache_agrees_with_ledger_witness:
  "\<exists>s'. cached s' ''a'' = Some 5 \<and> account_balance (fst s') ''a'' + pending_sum (fst s') ''a'' = 5"
proof -
  let ?m1 = "empty_mem\<lparr> m_accounts := [(''a'', 0)] \<rparr>" and ?m2 = "empty_mem\<lparr> m_accounts := [(''a'', 5)] \<rparr>"
  have b: "account_balance race_db ''a'' = 0" by (simp add: account_balance_def race_db_def empty_db_def)
  have "returns (deposit_finish ''a'' 5) (race_db, empty_mem) (add_cached ''a'' 5) (race_db, ?m1)"
    by (simp add: deposit_finish_def getRelayAccountFromCache_def b empty_mem_def)
  then have f: "returns (depositRelayAccount ''h'' ''a'' 5 ''n'' 0) (empty_db, empty_mem) (add_cached ''a'' 5) (race_db, ?m1)"
    unfolding depositRelayAccount_def returns_bnd using race_begin by blast
  have c: "returns (add_cached ''a'' 5) (race_db, ?m1) () (race_db, ?m2)"
    by (simp add: add_cached_def amount_or_0_def)
  have run: "ledger_run race_tx (\<lambda>r. r) (empty_db, empty_mem) [] (race_db, ?m2)"
    by (rule r_move[OF r_start m_deposit f c])
  have "5 = account_balance (fst (race_db, ?m2)) ''a'' + pending_sum (fst (race_db, ?m2)) ''a'' + sum_for ''a'' []"
    by (rule cache_agrees_with_ledger[OF run])
      (simp_all add: ledger_ok_def cached_def empty_mem_def empty_db_def)
  then show ?thesis by (intro exI[of _ "(race_db, ?m2)"]) (simp add: cached_def)
qed

definition income_mem :: mem where
  "income_mem = empty_mem\<lparr> m_shares := [(''node:n'', 33)],
     m_delegations := [(''n'', delegation_update ''bob'' ''node'' 2 (delegation_update ''alice'' ''node'' 1 newDelegationCache))] \<rparr>"

lemma income_share: "GetDelegatorShare income_mem ''node'' ''n'' = 33"
  by (simp add: GetDelegatorShare_def income_mem_def share_get_def makeDelegatorShareKey_def)

lemma income_stakes: "GetDelegationsOfNode income_mem ''node'' ''n'' = Inr [(''alice'', 1), (''bob'', 2)]"
  by (simp add: GetDelegationsOfNode_def income_mem_def getDelegationsOfNode_def delegation_update_def
      newDelegationCache_def nested_put_def inner_def Let_def)

lemma income_sample_split:
  "split_income sample_cfg income_mem ''node'' 100 ''n'' = Inr \<lparr> is_daoTaskShare = 10, is_totalDelegatorFee = 29,
     is_nodeIncome = 61, is_delegators = [(''alice'', 10), (''bob'', 19)] \<rparr>"
  by (simp add: split_income_def income_share income_stakes delegator_fees_def sample_cfg_def Let_def)

lemma income_never_fails:
  "never_fails (addNodeEarning n x y now)" "never_fails (addUserStakingEarning u n w x now)"
  "never_fails (addUserEarning u x now)" "never_fails (addNodeIncentive n i t now)"
  "never_fails (getRelayAccountFromCache a)"
  by (auto simp: addNodeEarning_def addUserStakingEarning_def addUserEarning_def addNodeIncentive_def
      getRelayAccountFromCache_def Let_def intro!: never_fails_intros split: option.split)

lemma post_income_runs:
  assumes "returns (createRelayAccountEvents (income_events cfg taskIDCommitment addr sp now)) s () s1"
  shows "\<exists>c s'. returns (post_income cfg taskIDCommitment addr taskType network sp now) s c s'"
proof -
  let ?es = "income_events cfg taskIDCommitment addr sp now"
  define rest where "rest = seq (addNodeEarning addr (is_nodeIncome sp) (is_totalDelegatorFee sp) now)
    (seq (for_each (filter (\<lambda>e. re_Type e = RelayAccountEventTypeUserDelegation) ?es) (\<lambda>e.
       seq (addUserStakingEarning (re_Address e) addr network (re_Amount e) now)
           (addUserEarning (re_Address e) (re_Amount e) now)))
       (addNodeIncentive addr (fl64 (WeiToEther (is_nodeIncome sp))) taskType now))"
  define look where "look = for_each ?es (\<lambda>e. bnd (getRelayAccountFromCache (re_Address e)) (\<lambda>_. ret ()))"
  have "never_fails rest" "never_fails look"
    unfolding rest_def look_def by (intro never_fails_intros income_never_fails never_fails_simps)+
  then obtain s2 s3 where "returns rest s1 () s2" "returns look s2 () s3" by (metis never_fails_def old.unit.exhaust)
  then show ?thesis
    using assms unfolding post_income_def Let_def rest_def[symmetric] look_def[symmetric]
      returns_bnd returns_txn returns_ret by blast
qed

lemma income_sample_runs:
  "\<exists>c d' m'. returns (sendTaskIncome sample_cfg ''c'' ''node'' 100 TaskTypeSD ''n'' 0) (empty_db, income_mem) c (d', m')"
proof -
  have f: "FormatUint 8 = ''8''" "FormatUint 0 = ''0''" "FormatUint (Suc 0) = ''1''"
    by (simp_all add: FormatUint.simps)
  let ?sp = "\<lparr> is_daoTaskShare = 10, is_totalDelegatorFee = 29, is_nodeIncome = 61,
    is_delegators = [(''alice'', 10), (''bob'', 19)] \<rparr>"
  have "\<exists>s1. returns (createRelayAccountEvents (income_events sample_cfg ''c'' ''node'' ?sp 0)) (empty_db, income_mem) () s1"
    by (simp add: createRelayAccountEvents_def income_events_def Let_def reason1_def reason2_def f empty_db_def)
  then obtain c s' where "returns (post_income sample_cfg ''c'' ''node'' TaskTypeSD ''n'' ?sp 0) (empty_db, income_mem) c s'"
    using post_income_runs by blast
  then show ?thesis
    by (cases s') (auto simp: sendTaskIncome_def income_sample_split)
qed

theorem task_income_conserves_witness:
  "\<exists>c d' m' es. returns (sendTaskIncome sample_cfg ''c'' ''node'' 100 TaskTypeSD ''n'' 0) (empty_db, income_mem) c (d', m')
    \<and> d_events d' = es \<and> sum_list (map re_Amount es) = 100"
proof -
  obtain c d' m' where r: "returns (sendTaskIncome sample_cfg ''c'' ''node'' 100 TaskTypeSD ''n'' 0) (empty_db, income_mem) c (d', m')"
    using income_sample_runs by blast
  have "\<exists>es. d_events d' = d_events empty_db @ es \<and> sum_list (map re_Amount es) = 100
      \<and> (\<forall>e\<in>set es. pending e \<and> 0 \<le> re_Amount e)"
    by (rule task_income_conserves[OF r])
      (simp_all add: income_share stakes_ok_def income_stakes sample_cfg_def)
  then show ?thesis using r by (auto simp: empty_db_def)
qed

end
