(* ===== verification/Withdraw.thy ===== *)
theory Withdraw
  imports Income Emission
begin

text \<open>
  Withdrawals (\<^verbatim>\<open>service/withdraw.go\<close>): the fee, the request that charges amount and fee, and the
  two ways a request ends.  The invariant follows every withdrawal through the ledger: it is
  charged once, and refunded once exactly when it failed; the fee is earned once exactly when it
  succeeded.
\<close>

section \<open>The fee\<close>

fun tier_ratio :: "int \<Rightarrow> WithdrawalFeeTierConfig list \<Rightarrow> float64 \<Rightarrow> float64" where
  "tier_ratio amount [] ratio = ratio"
| "tier_ratio amount (tier # tiers) ratio =
    (if amount < EtherToWei (int (wt_MinAmount tier)) then ratio
     else tier_ratio amount tiers (wt_FeeRatio tier))"

definition CalculateWithdrawalFee :: "EffectiveFundingNetworkConfig \<Rightarrow> int \<Rightarrow> int" where
  "CalculateWithdrawalFee networkConfig amount =
    (let fee = EtherToWei (int (fn_WithdrawalFee networkConfig));
         ratio = tier_ratio amount (fn_WithdrawalFeeTiers networkConfig) 0
     in if 0 < ratio
        then let (num, denom) = quotient_of ratio in fee + go_quo (amount * num) denom
        else fee)"

section \<open>Requests\<close>

definition today_count :: "(WithdrawRecord \<Rightarrow> bool) \<Rightarrow> string \<Rightarrow> time \<Rightarrow> db \<Rightarrow> int" where
  "today_count p network dayStart d =
    int (length (filter (\<lambda>w. p w \<and> wr_Network w = network \<and> dayStart \<le> wr_CreatedAt w
      \<and> wr_Status w \<noteq> WithdrawStatusFailed) (d_withdraws d)))"

definition withdraw_fee :: "AppConfig \<Rightarrow> EffectiveFundingNetworkConfig \<Rightarrow> address \<Rightarrow> int \<Rightarrow> int" where
  "withdraw_fee cfg networkConfig addr amount =
    (if addr = cfg_WithdrawalFeeAddress cfg \<or> addr = cfg_TaskFeeShareAddress cfg then 0
     else CalculateWithdrawalFee networkConfig amount)"

definition new_withdraw ::
  "nat \<Rightarrow> address \<Rightarrow> address \<Rightarrow> int \<Rightarrow> string \<Rightarrow> int \<Rightarrow> int \<Rightarrow> string \<Rightarrow> time \<Rightarrow> WithdrawRecord" where
  "new_withdraw i addr benefitAddress amount network fee timestamp signature now =
    \<lparr> wr_ID = i, wr_CreatedAt = now, wr_Address = addr, wr_BenefitAddress = benefitAddress,
      wr_Amount = amount, wr_Network = network, wr_Status = WithdrawStatusPending,
      wr_LocalStatus = WithdrawLocalStatusPending, wr_RelayAccountEventID = 0, wr_TxHash = None,
      wr_WithdrawalFee = fee, wr_Timestamp = Some timestamp, wr_Signature = Some signature, wr_MAC = [] \<rparr>"

text \<open>\<^verbatim>\<open>MaxWithdrawalsPerDay\<close> is converted from \<^verbatim>\<open>uint64\<close> to \<^verbatim>\<open>int64\<close>.\<close>

definition Withdraw ::
  "AppConfig \<Rightarrow> address \<Rightarrow> address \<Rightarrow> int \<Rightarrow> string \<Rightarrow> int \<Rightarrow> string \<Rightarrow> time \<Rightarrow> WithdrawRecord relay" where
  "Withdraw cfg addr benefitAddress amount network timestamp signature now =
    (case GetEffectiveFundingNetwork cfg network of
       None \<Rightarrow> raise (errors_New ''unsupported withdraw network'')
     | Some networkConfig \<Rightarrow>
         (let fee = withdraw_fee cfg networkConfig addr amount;
              totalAmount = amount + fee;
              dayStart = day_start now;
              maxPerDay = wrap64 (int (fn_MaxWithdrawalsPerDay networkConfig))
          in txn (
            bnd (read_db (today_count (\<lambda>w. wr_Address w = addr) network dayStart)) (\<lambda>todayAddressCount.
            bnd (check (todayAddressCount < maxPerDay) ErrWithdrawDailyLimitExceeded) (\<lambda>_.
            bnd (read_db (today_count (\<lambda>w. wr_BenefitAddress w = benefitAddress) network dayStart)) (\<lambda>todayBenefitCount.
            bnd (check (todayBenefitCount < maxPerDay) ErrWithdrawDailyLimitExceeded) (\<lambda>_.
            bnd (read_db (\<lambda>d. next_id wr_ID (d_withdraws d))) (\<lambda>i.
            (let row = new_withdraw i addr benefitAddress amount network fee timestamp signature now in
            bnd (write_db (\<lambda>d. d\<lparr> d_withdraws := d_withdraws d @ [row] \<rparr>)) (\<lambda>_.
            bnd (chargeWithdrawFromRelayAccount i addr totalAmount now) (\<lambda>(eventID, commitFunc).
            bnd (write_db (\<lambda>d. d\<lparr> d_withdraws := upd_where (\<lambda>w. wr_ID w = i)
                   (\<lambda>w. w\<lparr> wr_RelayAccountEventID := eventID \<rparr>) (d_withdraws d) \<rparr>)) (\<lambda>_.
            bnd commitFunc (\<lambda>_.
            ret (row\<lparr> wr_RelayAccountEventID := eventID \<rparr>))))))))))))))"

definition find_withdraw :: "nat \<Rightarrow> WithdrawRecord relay" where
  "find_withdraw withdrawID =
    bnd (read_db (\<lambda>d. find (\<lambda>w. wr_ID w = withdrawID) (d_withdraws d))) (of_option ErrRecordNotFound)"

definition set_withdraw :: "nat \<Rightarrow> (WithdrawRecord \<Rightarrow> WithdrawRecord) \<Rightarrow> unit relay" where
  "set_withdraw withdrawID upd =
    write_db (\<lambda>d. d\<lparr> d_withdraws := upd_where (\<lambda>w. wr_ID w = withdrawID) upd (d_withdraws d) \<rparr>)"

definition FulfillWithdraw :: "AppConfig \<Rightarrow> nat \<Rightarrow> string \<Rightarrow> time \<Rightarrow> unit relay" where
  "FulfillWithdraw cfg withdrawID txHash now =
    txn (bnd (find_withdraw withdrawID) (\<lambda>row.
      if wr_Status row = WithdrawStatusSuccess then ret ()
      else bnd (check (wr_LocalStatus row = WithdrawLocalStatusProcessed) ErrWithdrawRequestNotProcessedLocally) (\<lambda>_.
           bnd (check (wr_Status row = WithdrawStatusPending) ErrWithdrawRequestNotPending) (\<lambda>_.
           bnd (set_withdraw withdrawID (\<lambda>w. w\<lparr> wr_Status := WithdrawStatusSuccess, wr_TxHash := Some txHash \<rparr>)) (\<lambda>_.
           if 0 < wr_WithdrawalFee row
           then bnd (fulfillWithdrawFeeIncome (wr_ID row) (cfg_WithdrawalFeeAddress cfg) (wr_WithdrawalFee row) now)
                  (\<lambda>commitFunc. commitFunc)
           else ret ())))))"

definition RejectWithdraw :: "nat \<Rightarrow> time \<Rightarrow> unit relay" where
  "RejectWithdraw withdrawID now =
    txn (bnd (find_withdraw withdrawID) (\<lambda>row.
      if wr_Status row = WithdrawStatusFailed then ret ()
      else bnd (check (wr_LocalStatus row = WithdrawLocalStatusProcessed) ErrWithdrawRequestNotProcessedLocally) (\<lambda>_.
           bnd (check (wr_Status row = WithdrawStatusPending) ErrWithdrawRequestNotPending) (\<lambda>_.
           bnd (set_withdraw withdrawID (\<lambda>w. w\<lparr> wr_Status := WithdrawStatusFailed \<rparr>)) (\<lambda>_.
           bnd (rejectWithdrawToRelayAccount (wr_ID row) (wr_Address row)
                  (wr_Amount row + wr_WithdrawalFee row) now) (\<lambda>commitFunc. commitFunc))))))"

section \<open>The fee is the documented one\<close>

text \<open>The ratio of the highest tier the amount reaches.\<close>

definition reached_ratio :: "WithdrawalFeeTierConfig list \<Rightarrow> int \<Rightarrow> rat" where
  "reached_ratio tiers amount =
    (case filter (\<lambda>t. EtherToWei (int (wt_MinAmount t)) \<le> amount) tiers of
       [] \<Rightarrow> 0 | ts \<Rightarrow> wt_FeeRatio (last ts))"

lemma tier_ratio_reached:
  assumes "sorted (map wt_MinAmount tiers)"
  shows "tier_ratio amount tiers r =
    (case filter (\<lambda>t. EtherToWei (int (wt_MinAmount t)) \<le> amount) tiers of
       [] \<Rightarrow> r | ts \<Rightarrow> wt_FeeRatio (last ts))"
  using assms
proof (induction tiers arbitrary: r)
  case (Cons t ts)
  show ?case
  proof (cases "amount < EtherToWei (int (wt_MinAmount t))")
    case True
    then have "filter (\<lambda>t. EtherToWei (int (wt_MinAmount t)) \<le> amount) ts = []"
      using Cons.prems by (auto simp: filter_empty_conv EtherToWei_def not_le)
    then show ?thesis using True by simp
  next
    case False
    then show ?thesis using Cons by (auto split: list.splits)
  qed
qed simp

lemma floor_ratio:
  assumes "quotient_of r = (n, k)" "0 \<le> amount" "0 < r"
  shows "go_quo (amount * n) k = \<lfloor>of_int amount * r\<rfloor>"
proof -
  note q = quotient_of_pos[OF assms(3,1)]
  have "of_int amount * r = (of_int (amount * n) :: rat) / of_int k" by (simp add: q(3))
  then have "\<lfloor>of_int amount * r\<rfloor> = amount * n div k" by (simp only: floor_divide_of_int_eq)
  then show ?thesis using q assms(2) by simp
qed

text \<open>
  C17: with the tiers in ascending order, the withdrawal fee is the fixed fee of the network plus
  the ratio of the highest tier the amount reaches, applied to the whole amount and rounded down;
  in particular it is never less than the fixed fee and is exact integer arithmetic.
\<close>

theorem withdrawal_fee_is_tiered:
  assumes "sorted (map wt_MinAmount (fn_WithdrawalFeeTiers net))" and "0 \<le> amount"
    and "\<forall>t\<in>set (fn_WithdrawalFeeTiers net). 0 \<le> wt_FeeRatio t"
  shows "CalculateWithdrawalFee net amount =
    EtherToWei (int (fn_WithdrawalFee net)) + \<lfloor>of_int amount * reached_ratio (fn_WithdrawalFeeTiers net) amount\<rfloor>"
proof -
  let ?r = "reached_ratio (fn_WithdrawalFeeTiers net) amount"
  have r: "tier_ratio amount (fn_WithdrawalFeeTiers net) 0 = ?r"
    using tier_ratio_reached[OF assms(1)] by (simp add: reached_ratio_def)
  have "0 \<le> ?r"
    using assms(3) last_in_set[of "filter (\<lambda>t. EtherToWei (int (wt_MinAmount t)) \<le> amount) (fn_WithdrawalFeeTiers net)"]
    by (auto simp: reached_ratio_def split: list.splits)
  then show ?thesis
    using floor_ratio[OF _ assms(2), of ?r]
    by (cases "?r = 0") (auto simp: CalculateWithdrawalFee_def r Let_def split: prod.split)
qed

definition sample_tiers :: EffectiveFundingNetworkConfig where
  "sample_tiers = \<lparr> fn_Network = ''n'', fn_TokenType = FundingTokenTypeNative, fn_BenefitAddress = ''b'',
     fn_TokenAddress = [], fn_WithdrawalFee = 1, fn_WithdrawalMin = 1,
     fn_WithdrawalFeeTiers = [\<lparr> wt_MinAmount = 10, wt_FeeRatio = 1 / 4 \<rparr>, \<lparr> wt_MinAmount = 100, wt_FeeRatio = 1 / 8 \<rparr>],
     fn_MaxWithdrawalsPerDay = 2 \<rparr>"

theorem withdrawal_fee_is_tiered_witness:
  "CalculateWithdrawalFee sample_tiers (20 * 10 ^ 18) = 10 ^ 18 + 5 * 10 ^ 18"
  using withdrawal_fee_is_tiered[of sample_tiers "20 * 10 ^ 18"]
  by (simp add: sample_tiers_def reached_ratio_def EtherToWei_def)

section \<open>What a request does\<close>

lemma withdraw_run:
  assumes "returns (Withdraw cfg addr benefitAddress amount network timestamp signature now) s row s'"
  obtains net i eventID c w1 w2 where "GetEffectiveFundingNetwork cfg network = Some net"
    "today_count (\<lambda>w. wr_Address w = addr) network (day_start now) (fst s) < wrap64 (int (fn_MaxWithdrawalsPerDay net))"
    "today_count (\<lambda>w. wr_BenefitAddress w = benefitAddress) network (day_start now) (fst s) < wrap64 (int (fn_MaxWithdrawalsPerDay net))"
    "i = next_id wr_ID (d_withdraws (fst s))"
    "w1 = ((fst s)\<lparr> d_withdraws := d_withdraws (fst s) @
       [new_withdraw i addr benefitAddress amount network (withdraw_fee cfg net addr amount) timestamp signature now] \<rparr>, snd s)"
    "returns (chargeWithdrawFromRelayAccount i addr (amount + withdraw_fee cfg net addr amount) now) w1 (eventID, c) w2"
    "returns c ((fst w2)\<lparr> d_withdraws := upd_where (\<lambda>w. wr_ID w = i)
       (\<lambda>w. w\<lparr> wr_RelayAccountEventID := eventID \<rparr>) (d_withdraws (fst w2)) \<rparr>, snd w2) () s'"
    "row = (new_withdraw i addr benefitAddress amount network (withdraw_fee cfg net addr amount) timestamp signature now)
       \<lparr> wr_RelayAccountEventID := eventID \<rparr>"
  using assms unfolding Withdraw_def
  by (auto simp: Let_def split: option.splits prod.splits)

lemma upd_where_fresh:
  assumes "\<forall>r\<in>set rows. \<not> p r" "p new"
  shows "upd_where p f (rows @ [new]) = rows @ [f new]"
  using assms by (simp add: upd_where_def map_idI)

lemma charge_withdraw_run:
  assumes "returns (chargeWithdrawFromRelayAccount i addr amt now) s (eventID, c) s1"
  shows "amt \<le> cached_or_stored s addr" "c = sub_cached_checked addr amt"
    "fst s1 = (fst s)\<lparr> d_events := d_events (fst s) @
       [(new_event RelayAccountEventTypeWithdraw (reason1 RelayAccountEventTypeWithdraw (FormatUint i)) addr amt now)\<lparr> re_ID := eventID \<rparr>] \<rparr>"
    "cached s1 addr = Some (cached_or_stored s addr)"
    "\<forall>e\<in>set (d_events (fst s)). re_Reason e \<noteq> reason1 RelayAccountEventTypeWithdraw (FormatUint i)"
proof -
  obtain v w where g: "returns (getRelayAccountFromCache addr) s v w" and le: "amt \<le> v"
    and e: "returns (createRelayAccountEventWithID RelayAccountEventTypeWithdraw
      (reason1 RelayAccountEventTypeWithdraw (FormatUint i)) addr amt now) w eventID s1"
    and c: "c = sub_cached_checked addr amt"
    using assms by (auto simp: chargeWithdrawFromRelayAccount_def)
  show "amt \<le> cached_or_stored s addr" "c = sub_cached_checked addr amt"
    using le c get_cache_effect(2)[OF g] by simp_all
  show "fst s1 = (fst s)\<lparr> d_events := d_events (fst s) @
       [(new_event RelayAccountEventTypeWithdraw (reason1 RelayAccountEventTypeWithdraw (FormatUint i)) addr amt now)\<lparr> re_ID := eventID \<rparr>] \<rparr>"
    using e get_cache_effect(1)[OF g] by (auto simp: createRelayAccountEventWithID_def Let_def)
  show "cached s1 addr = Some (cached_or_stored s addr)"
    using get_cache_effect(3)[OF g, of addr] create_event_effect(1)[OF e] by (simp add: cached_def)
  show "\<forall>e\<in>set (d_events (fst s)). re_Reason e \<noteq> reason1 RelayAccountEventTypeWithdraw (FormatUint i)"
    using create_event_effect(4)[OF e] get_cache_effect(1)[OF g] by simp
qed

lemma cached_or_stored_withdraws [simp]:
  "cached_or_stored (d\<lparr> d_withdraws := ws \<rparr>, m) a = cached_or_stored (d, m) a"
  by (simp add: cached_or_stored_def cached_def account_balance_def split: option.split)

lemma withdraw_effect:
  assumes "returns (Withdraw cfg addr benefitAddress amount network timestamp signature now) (d, m) row (d', m')"
  obtains net where "GetEffectiveFundingNetwork cfg network = Some net"
    "row = (new_withdraw (next_id wr_ID (d_withdraws d)) addr benefitAddress amount network
       (withdraw_fee cfg net addr amount) timestamp signature now)\<lparr> wr_RelayAccountEventID := wr_RelayAccountEventID row \<rparr>"
    "today_count (\<lambda>w. wr_Address w = addr) network (day_start now) d < wrap64 (int (fn_MaxWithdrawalsPerDay net))"
    "today_count (\<lambda>w. wr_BenefitAddress w = benefitAddress) network (day_start now) d < wrap64 (int (fn_MaxWithdrawalsPerDay net))"
    "d' = d\<lparr> d_withdraws := d_withdraws d @ [row], d_events := d_events d @
       [(new_event RelayAccountEventTypeWithdraw (reason1 RelayAccountEventTypeWithdraw (FormatUint (wr_ID row))) addr
          (amount + wr_WithdrawalFee row) now)\<lparr> re_ID := wr_RelayAccountEventID row \<rparr>] \<rparr>"
    "amount + wr_WithdrawalFee row \<le> cached_or_stored (d, m) addr"
    "cached (d', m') addr = Some (cached_or_stored (d, m) addr - (amount + wr_WithdrawalFee row))"
proof -
  obtain net i eventID c w1 w2 where net: "GetEffectiveFundingNetwork cfg network = Some net"
    "today_count (\<lambda>w. wr_Address w = addr) network (day_start now) d < wrap64 (int (fn_MaxWithdrawalsPerDay net))"
    "today_count (\<lambda>w. wr_BenefitAddress w = benefitAddress) network (day_start now) d < wrap64 (int (fn_MaxWithdrawalsPerDay net))"
    and i: "i = next_id wr_ID (d_withdraws d)"
    and w1: "w1 = (d\<lparr> d_withdraws := d_withdraws d @
       [new_withdraw i addr benefitAddress amount network (withdraw_fee cfg net addr amount) timestamp signature now] \<rparr>, m)"
    and ch: "returns (chargeWithdrawFromRelayAccount i addr (amount + withdraw_fee cfg net addr amount) now) w1 (eventID, c) w2"
    and co: "returns c ((fst w2)\<lparr> d_withdraws := upd_where (\<lambda>w. wr_ID w = i)
       (\<lambda>w. w\<lparr> wr_RelayAccountEventID := eventID \<rparr>) (d_withdraws (fst w2)) \<rparr>, snd w2) () (d', m')"
    and row: "row = (new_withdraw i addr benefitAddress amount network (withdraw_fee cfg net addr amount) timestamp signature now)
       \<lparr> wr_RelayAccountEventID := eventID \<rparr>"
    by (rule withdraw_run[OF assms]) auto
  let ?fee = "withdraw_fee cfg net addr amount"
  note charge = charge_withdraw_run[OF ch]
  have fresh: "\<forall>w\<in>set (d_withdraws d). wr_ID w \<noteq> i" by (auto simp: i dest!: next_id_fresh[of _ "d_withdraws d" wr_ID])
  have "fst w2 = d\<lparr> d_withdraws := d_withdraws d @
       [new_withdraw i addr benefitAddress amount network ?fee timestamp signature now],
       d_events := d_events d @ [(new_event RelayAccountEventTypeWithdraw (reason1 RelayAccountEventTypeWithdraw (FormatUint i)) addr
          (amount + ?fee) now)\<lparr> re_ID := eventID \<rparr>] \<rparr>"
    by (simp add: charge(3) w1)
  moreover have "upd_where (\<lambda>w. wr_ID w = i) (\<lambda>w. w\<lparr> wr_RelayAccountEventID := eventID \<rparr>) (d_withdraws d @
       [new_withdraw i addr benefitAddress amount network ?fee timestamp signature now]) = d_withdraws d @ [row]"
    by (subst upd_where_fresh) (use fresh in \<open>simp_all add: row new_withdraw_def\<close>)
  ultimately have d': "d' = d\<lparr> d_withdraws := d_withdraws d @ [row], d_events := d_events d @
       [(new_event RelayAccountEventTypeWithdraw (reason1 RelayAccountEventTypeWithdraw (FormatUint i)) addr
          (amount + ?fee) now)\<lparr> re_ID := eventID \<rparr>] \<rparr>"
    and a: "returns (add_cached addr (- (amount + ?fee))) ((fst w2)\<lparr> d_withdraws := d_withdraws d @ [row] \<rparr>, snd w2) () (d', m')"
    using co add_cached_effect(1)[OF sub_cached_effect(1)[OF co[unfolded charge(2)]]]
      sub_cached_effect(1)[OF co[unfolded charge(2)]] by simp_all
  have "cached (d', m') addr = Some (cached_or_stored (d, m) addr - (amount + ?fee))"
    using add_cached_effect(2)[OF a, of addr] charge(4) w1 by (simp add: cached_def amount_or_0_def)
  then show thesis
    using that[OF net(1) _ net(2,3)] d' charge(1) w1 i by (simp add: row new_withdraw_def)
qed

text \<open>
  C7: an accepted withdrawal request is covered by the balance it is charged against; it takes
  exactly amount plus fee from the cached balance, appends one withdrawal event of that amount
  and one pending request that refers to it, and keeps the number of requests of the day of the
  address and of the beneficiary within the limit of the network.
\<close>

theorem withdraw_charges_amount_and_fee:
  assumes "returns (Withdraw cfg addr benefitAddress amount network timestamp signature now) (d, m) row (d', m')"
  shows "\<exists>net e. GetEffectiveFundingNetwork cfg network = Some net
    \<and> wr_WithdrawalFee row = withdraw_fee cfg net addr amount
    \<and> 0 \<le> cached_or_stored (d, m) addr - (amount + wr_WithdrawalFee row)
    \<and> cached (d', m') addr = Some (cached_or_stored (d, m) addr - (amount + wr_WithdrawalFee row))
    \<and> d_withdraws d' = d_withdraws d @ [row] \<and> wr_Status row = WithdrawStatusPending
    \<and> d_events d' = d_events d @ [e] \<and> re_ID e = wr_RelayAccountEventID row
    \<and> signed_amount e = - (amount + wr_WithdrawalFee row)
    \<and> today_count (\<lambda>w. wr_Address w = addr) network (day_start now) d' \<le> wrap64 (int (fn_MaxWithdrawalsPerDay net))
    \<and> today_count (\<lambda>w. wr_BenefitAddress w = benefitAddress) network (day_start now) d' \<le> wrap64 (int (fn_MaxWithdrawalsPerDay net))"
proof -
  obtain net where net: "GetEffectiveFundingNetwork cfg network = Some net"
    "row = (new_withdraw (next_id wr_ID (d_withdraws d)) addr benefitAddress amount network
       (withdraw_fee cfg net addr amount) timestamp signature now)\<lparr> wr_RelayAccountEventID := wr_RelayAccountEventID row \<rparr>"
    and lim: "today_count (\<lambda>w. wr_Address w = addr) network (day_start now) d < wrap64 (int (fn_MaxWithdrawalsPerDay net))"
    "today_count (\<lambda>w. wr_BenefitAddress w = benefitAddress) network (day_start now) d < wrap64 (int (fn_MaxWithdrawalsPerDay net))"
    and d': "d' = d\<lparr> d_withdraws := d_withdraws d @ [row], d_events := d_events d @
       [(new_event RelayAccountEventTypeWithdraw (reason1 RelayAccountEventTypeWithdraw (FormatUint (wr_ID row))) addr
          (amount + wr_WithdrawalFee row) now)\<lparr> re_ID := wr_RelayAccountEventID row \<rparr>] \<rparr>"
    and le: "amount + wr_WithdrawalFee row \<le> cached_or_stored (d, m) addr"
    and ca: "cached (d', m') addr = Some (cached_or_stored (d, m) addr - (amount + wr_WithdrawalFee row))"
    by (rule withdraw_effect[OF assms])
  have row: "wr_WithdrawalFee row = withdraw_fee cfg net addr amount" "wr_Status row = WithdrawStatusPending"
    "wr_CreatedAt row = now"
    by (subst net(2), simp add: new_withdraw_def)+
  have "today_count p network (day_start now) d' \<le> today_count p network (day_start now) d + 1" for p
    by (simp add: today_count_def d')
  then have "today_count (\<lambda>w. wr_Address w = addr) network (day_start now) d' \<le> wrap64 (int (fn_MaxWithdrawalsPerDay net))"
    "today_count (\<lambda>w. wr_BenefitAddress w = benefitAddress) network (day_start now) d' \<le> wrap64 (int (fn_MaxWithdrawalsPerDay net))"
    using lim by (meson add1_zle_eq order_trans)+
  then show ?thesis
    using net(1) row le ca by (intro exI[of _ net] exI[of _ "last (d_events d')"]) (simp add: d')
qed

section \<open>One charge, and one refund or one fee\<close>

definition booked :: "db \<Rightarrow> RelayAccountEventType \<Rightarrow> nat \<Rightarrow> (address \<times> int) list" where
  "booked d t i = map (\<lambda>e. (re_Address e, re_Amount e))
    (filter (\<lambda>e. re_Type e = t \<and> re_Reason e = reason1 t (FormatUint i)) (d_events d))"

definition withdraw_type :: "RelayAccountEventType \<Rightarrow> bool" where
  "withdraw_type t \<longleftrightarrow> t \<in> {RelayAccountEventTypeWithdraw, RelayAccountEventTypeWithdrawRefund,
     RelayAccountEventTypeWithdrawFeeIncome}"

definition withdraw_books :: "AppConfig \<Rightarrow> db \<Rightarrow> WithdrawRecord \<Rightarrow> bool" where
  "withdraw_books cfg d w \<longleftrightarrow>
    booked d RelayAccountEventTypeWithdraw (wr_ID w) = [(wr_Address w, wr_Amount w + wr_WithdrawalFee w)]
    \<and> booked d RelayAccountEventTypeWithdrawRefund (wr_ID w) =
        (if wr_Status w = WithdrawStatusFailed then [(wr_Address w, wr_Amount w + wr_WithdrawalFee w)] else [])
    \<and> booked d RelayAccountEventTypeWithdrawFeeIncome (wr_ID w) =
        (if wr_Status w = WithdrawStatusSuccess \<and> 0 < wr_WithdrawalFee w
         then [(cfg_WithdrawalFeeAddress cfg, wr_WithdrawalFee w)] else [])
    \<and> (wr_Status w \<noteq> WithdrawStatusPending \<longrightarrow> wr_LocalStatus w = WithdrawLocalStatusProcessed)"

definition withdraw_inv :: "AppConfig \<Rightarrow> db \<Rightarrow> bool" where
  "withdraw_inv cfg d \<longleftrightarrow> distinct (map wr_ID (d_withdraws d))
    \<and> (\<forall>w\<in>set (d_withdraws d). withdraw_books cfg d w)
    \<and> (\<forall>e\<in>set (d_events d). withdraw_type (re_Type e) \<longrightarrow>
         re_Reason e \<in> (\<lambda>i. reason1 (re_Type e) (FormatUint i)) ` set (map wr_ID (d_withdraws d)))"

interpretation wd: step_relation "\<lambda>d d'. withdraw_inv cfg d \<longrightarrow> withdraw_inv cfg d'" for cfg
  by unfold_locales auto

lemma reason1_inject [simp]: "reason1 t (FormatUint i) = reason1 t (FormatUint j) \<longleftrightarrow> i = j"
  by (simp add: reason1_def)

lemma booked_append: "d_events d' = d_events d @ es \<Longrightarrow>
    booked d' t i = booked d t i @ map (\<lambda>e. (re_Address e, re_Amount e))
      (filter (\<lambda>e. re_Type e = t \<and> re_Reason e = reason1 t (FormatUint i)) es)"
  by (simp add: booked_def)

lemma booked_unknown:
  assumes "withdraw_inv cfg d" "withdraw_type t" "i \<notin> wr_ID ` set (d_withdraws d)"
  shows "booked d t i = []"
  using assms by (force simp: booked_def withdraw_inv_def filter_empty_conv)

lemma booked_upd:
  assumes "\<And>e. re_Type (f e) = re_Type e \<and> re_Reason (f e) = re_Reason e \<and> re_Address (f e) = re_Address e \<and> re_Amount (f e) = re_Amount e"
  shows "map (\<lambda>e. (re_Address e, re_Amount e)) (filter (\<lambda>e. re_Type e = t \<and> re_Reason e = r) (upd_where p f es)) =
    map (\<lambda>e. (re_Address e, re_Amount e)) (filter (\<lambda>e. re_Type e = t \<and> re_Reason e = r) es)"
  by (induction es) (simp_all add: upd_where_def assms)

text \<open>What a settlement may do to the rows: the identity of events and requests stays.\<close>

lemma rows_only:
  assumes ev: "\<exists>p f. d_events d' = upd_where p f (d_events d) \<and>
      (\<forall>e. re_Type (f e) = re_Type e \<and> re_Reason (f e) = re_Reason e \<and> re_Address (f e) = re_Address e \<and> re_Amount (f e) = re_Amount e)"
    and wr: "\<exists>p f. d_withdraws d' = upd_where p f (d_withdraws d) \<and>
      (\<forall>w. p w \<longrightarrow> wr_ID (f w) = wr_ID w \<and> wr_Address (f w) = wr_Address w \<and> wr_Amount (f w) = wr_Amount w
         \<and> wr_WithdrawalFee (f w) = wr_WithdrawalFee w \<and> wr_Status (f w) = wr_Status w
         \<and> wr_LocalStatus w = WithdrawLocalStatusPending)"
  shows "withdraw_inv cfg d \<longrightarrow> withdraw_inv cfg d'"
proof
  assume inv: "withdraw_inv cfg d"
  obtain p f where e: "d_events d' = upd_where p f (d_events d)"
    "\<And>e. re_Type (f e) = re_Type e \<and> re_Reason (f e) = re_Reason e \<and> re_Address (f e) = re_Address e \<and> re_Amount (f e) = re_Amount e"
    using ev by blast
  obtain q g where w: "d_withdraws d' = upd_where q g (d_withdraws d)"
    "\<And>w. q w \<Longrightarrow> wr_ID (g w) = wr_ID w \<and> wr_Address (g w) = wr_Address w \<and> wr_Amount (g w) = wr_Amount w
         \<and> wr_WithdrawalFee (g w) = wr_WithdrawalFee w \<and> wr_Status (g w) = wr_Status w
         \<and> wr_LocalStatus w = WithdrawLocalStatusPending"
    using wr by blast
  have b: "booked d' t i = booked d t i" for t i
    unfolding booked_def e(1) by (rule booked_upd) (rule e(2))
  have ids: "map wr_ID (d_withdraws d') = map wr_ID (d_withdraws d)"
    unfolding w(1) by (rule upd_where_map) (simp add: w(2))
  have "q x \<Longrightarrow> withdraw_books cfg d' (g x)" "\<not> q x \<Longrightarrow> withdraw_books cfg d' x" if "x \<in> set (d_withdraws d)" for x
    using inv that w(2)[of x] by (auto simp: withdraw_inv_def withdraw_books_def b)
  then show "withdraw_inv cfg d'"
    using inv unfolding withdraw_inv_def ids by (auto simp: w(1) e upd_where_set)
qed


lemma settlement_keeps_books:
  "withdraw_inv cfg d \<longrightarrow> withdraw_inv cfg (mark_invalid invalid d)"
  "withdraw_inv cfg d \<longrightarrow> withdraw_inv cfg (settle mac valid d)"
proof -
  have m: "d_events (mark_invalid invalid d) = upd_where (\<lambda>e. re_ID e \<in> re_ID ` set invalid)
      (\<lambda>e. e\<lparr> re_Status := RelayAccountEventStatusInvalid \<rparr>) (d_events d)"
    and "\<exists>p. d_withdraws (mark_invalid invalid d) = upd_where (\<lambda>w. p w \<and> wr_LocalStatus w = WithdrawLocalStatusPending)
      (\<lambda>w. w\<lparr> wr_LocalStatus := WithdrawLocalStatusInvalid \<rparr>) (d_withdraws d)"
    by (rule mark_invalid_events) (auto simp: mark_invalid_def Let_def)
  then obtain p where p: "d_withdraws (mark_invalid invalid d) = upd_where (\<lambda>w. p w \<and> wr_LocalStatus w = WithdrawLocalStatusPending)
      (\<lambda>w. w\<lparr> wr_LocalStatus := WithdrawLocalStatusInvalid \<rparr>) (d_withdraws d)" by blast
  show "withdraw_inv cfg d \<longrightarrow> withdraw_inv cfg (mark_invalid invalid d)"
    by (rule rows_only; (unfold m p)?; rule exI, rule exI, rule conjI[OF refl]; simp)
  obtain q where q: "d_withdraws (settle mac valid d) = upd_where (\<lambda>w. q w \<and> wr_LocalStatus w = WithdrawLocalStatusPending)
      (\<lambda>w. w\<lparr> wr_MAC := mac (MACString w), wr_LocalStatus := WithdrawLocalStatusProcessed \<rparr>) (d_withdraws d)"
    by (auto simp: settle_def Let_def)
  show "withdraw_inv cfg d \<longrightarrow> withdraw_inv cfg (settle mac valid d)"
    by (rule rows_only; (unfold settle_events q)?; rule exI, rule exI, rule conjI[OF refl]; simp)
qed

lemma process_keeps_books:
  "db_steps (\<lambda>d d'. withdraw_inv cfg d \<longrightarrow> withdraw_inv cfg d') (processPendingRelayAccountEvents tx mac events)"
  unfolding processPendingRelayAccountEvents_def
  by (intro wd.steps_intros write_db_steps wd.steps_frame frame_read_db settlement_keeps_books)

text \<open>A new request with its charge.\<close>

lemma withdraw_keeps_books:
  "db_steps (\<lambda>d d'. withdraw_inv cfg d \<longrightarrow> withdraw_inv cfg d')
     (Withdraw cfg addr benefitAddress amount network timestamp signature now)"
proof -
  have "withdraw_inv cfg d'" if inv: "withdraw_inv cfg d"
    and r: "returns (Withdraw cfg addr benefitAddress amount network timestamp signature now) (d, m) row (d', m')"
    for d m d' m' row
  proof -
    obtain fee eid where row: "row = (new_withdraw (next_id wr_ID (d_withdraws d)) addr benefitAddress amount network
         fee timestamp signature now)\<lparr> wr_RelayAccountEventID := eid \<rparr>"
      and d': "d' = d\<lparr> d_withdraws := d_withdraws d @ [row], d_events := d_events d @
         [(new_event RelayAccountEventTypeWithdraw (reason1 RelayAccountEventTypeWithdraw (FormatUint (wr_ID row))) addr
            (amount + wr_WithdrawalFee row) now)\<lparr> re_ID := wr_RelayAccountEventID row \<rparr>] \<rparr>"
      using withdraw_effect[OF r] by metis
    have fresh: "wr_ID row \<notin> wr_ID ` set (d_withdraws d)"
      by (auto simp: row new_withdraw_def dest!: next_id_fresh[of _ "d_withdraws d" wr_ID])
    have new: "wr_Address row = addr" "wr_Amount row = amount" "wr_Status row = WithdrawStatusPending"
      by (simp_all add: row new_withdraw_def)
    have b: "booked d' t i = booked d t i @ (if t = RelayAccountEventTypeWithdraw \<and> i = wr_ID row
        then [(addr, amount + wr_WithdrawalFee row)] else [])" for t i
      by (subst booked_append[of d' d]) (auto simp: d')
    have "withdraw_books cfg d' row"
      using booked_unknown[OF inv _ fresh] by (simp add: withdraw_books_def b new withdraw_type_def)
    moreover have "withdraw_books cfg d' w" if "w \<in> set (d_withdraws d)" for w
    proof -
      have "wr_ID w \<noteq> wr_ID row" using fresh that by (metis imageI)
      then show ?thesis using inv that by (simp add: withdraw_inv_def withdraw_books_def b)
    qed
    ultimately show ?thesis using inv fresh by (auto simp: withdraw_inv_def d')
  qed
  then have "withdraw_inv cfg (fst s) \<longrightarrow> withdraw_inv cfg (fst s')"
    if "returns (Withdraw cfg addr benefitAddress amount network timestamp signature now) s row s'" for s row s'
    using that by (metis prod.collapse)
  then show ?thesis
    unfolding Withdraw_def Let_def
    by (cases "GetEffectiveFundingNetwork cfg network")
      (auto intro!: wd.steps_raise wd.steps_txn_returns simp: Withdraw_def Let_def)
qed

text \<open>A pending, locally processed request that ends with status \<^verbatim>\<open>st\<close> and the events \<^verbatim>\<open>es\<close>.\<close>

lemma finalise_keeps_books:
  assumes inv: "withdraw_inv cfg d" and w: "find (\<lambda>w. wr_ID w = i) (d_withdraws d) = Some w"
    and st: "wr_Status w = WithdrawStatusPending" "wr_LocalStatus w = WithdrawLocalStatusProcessed"
    and d': "d_withdraws d' = upd_where (\<lambda>w. wr_ID w = i) f (d_withdraws d)" "d_events d' = d_events d @ es"
    and f: "wr_ID (f w) = i" "wr_Address (f w) = wr_Address w" "wr_Amount (f w) = wr_Amount w"
      "wr_WithdrawalFee (f w) = wr_WithdrawalFee w" "wr_LocalStatus (f w) = WithdrawLocalStatusProcessed"
      "wr_Status (f w) \<noteq> WithdrawStatusPending"
    and es: "es = (if wr_Status (f w) = WithdrawStatusFailed
        then [(new_event RelayAccountEventTypeWithdrawRefund (reason1 RelayAccountEventTypeWithdrawRefund (FormatUint i))
                (wr_Address w) (wr_Amount w + wr_WithdrawalFee w) now)\<lparr> re_ID := k \<rparr>]
        else if 0 < wr_WithdrawalFee w
        then [(new_event RelayAccountEventTypeWithdrawFeeIncome (reason1 RelayAccountEventTypeWithdrawFeeIncome (FormatUint i))
                (cfg_WithdrawalFeeAddress cfg) (wr_WithdrawalFee w) now)\<lparr> re_ID := k \<rparr>]
        else [])"
  shows "withdraw_inv cfg d'"
proof -
  have in_set: "w \<in> set (d_withdraws d)" and id: "wr_ID w = i" using w by (auto simp: find_Some_iff)
  have same: "x = w" if "x \<in> set (d_withdraws d)" "wr_ID x = i" for x
    using that in_set id inv by (auto simp: withdraw_inv_def distinct_map inj_on_def)
  have b: "booked d' t j = booked d t j @ map (\<lambda>e. (re_Address e, re_Amount e))
      (filter (\<lambda>e. re_Type e = t \<and> re_Reason e = reason1 t (FormatUint j)) es)" for t j
    by (rule booked_append[OF d'(2)])
  have old: "withdraw_books cfg d x" if "x \<in> set (d_withdraws d)" for x using inv that by (simp add: withdraw_inv_def)
  have "withdraw_books cfg d' (f w)"
    using old[OF in_set] st f id
    by (cases "wr_Status (f w)") (simp_all add: withdraw_books_def b es)
  moreover have "withdraw_books cfg d' x" if "x \<in> set (d_withdraws d)" "wr_ID x \<noteq> i" for x
    using old[OF that(1)] that(2) by (simp add: withdraw_books_def b es)
  ultimately have books: "\<forall>x\<in>set (d_withdraws d'). withdraw_books cfg d' x"
    using same by (auto simp: d'(1) upd_where_set)
  have ids: "map wr_ID (d_withdraws d') = map wr_ID (d_withdraws d)"
    unfolding d'(1) upd_where_def using same f(1) by (auto simp: id)
  have known: "i \<in> set (map wr_ID (d_withdraws d))" using in_set id by auto
  show ?thesis
    using inv books known unfolding withdraw_inv_def ids d'(2)
    by (auto simp: es)
qed

lemma reject_run:
  assumes "returns (RejectWithdraw i now) (d, m) () (d', m')"
  obtains w where "find (\<lambda>w. wr_ID w = i) (d_withdraws d) = Some w" "wr_Status w = WithdrawStatusFailed" "d' = d"
  | w k where "find (\<lambda>w. wr_ID w = i) (d_withdraws d) = Some w" "wr_Status w = WithdrawStatusPending"
      "wr_LocalStatus w = WithdrawLocalStatusProcessed" "d' = d\<lparr>
        d_withdraws := upd_where (\<lambda>w. wr_ID w = i) (\<lambda>w. w\<lparr> wr_Status := WithdrawStatusFailed \<rparr>) (d_withdraws d),
        d_events := d_events d @ [(new_event RelayAccountEventTypeWithdrawRefund
          (reason1 RelayAccountEventTypeWithdrawRefund (FormatUint i)) (wr_Address w) (wr_Amount w + wr_WithdrawalFee w) now)\<lparr> re_ID := k \<rparr>] \<rparr>"
proof -
  obtain w where w: "find (\<lambda>w. wr_ID w = i) (d_withdraws d) = Some w"
    using assms by (auto simp: RejectWithdraw_def find_withdraw_def)
  have id: "wr_ID w = i" using w by (auto simp: find_Some_iff)
  show thesis
  proof (cases "wr_Status w = WithdrawStatusFailed")
    case True
    then show ?thesis using that(1)[OF w] assms w by (simp add: RejectWithdraw_def find_withdraw_def)
  next
    case False
    let ?d1 = "d\<lparr> d_withdraws := upd_where (\<lambda>w. wr_ID w = i) (\<lambda>w. w\<lparr> wr_Status := WithdrawStatusFailed \<rparr>) (d_withdraws d) \<rparr>"
    obtain c s2 where st: "wr_Status w = WithdrawStatusPending" "wr_LocalStatus w = WithdrawLocalStatusProcessed"
      and r: "returns (rejectWithdrawToRelayAccount i (wr_Address w) (wr_Amount w + wr_WithdrawalFee w) now) (?d1, m) c s2"
      and c: "returns c s2 () (d', m')"
      using assms False w id by (auto simp: RejectWithdraw_def find_withdraw_def set_withdraw_def)
    have "d' = fst s2" using reject_withdraw.commit_db[OF r c] by simp
    then obtain k where "d' = ?d1\<lparr> d_events := d_events d @ [(new_event RelayAccountEventTypeWithdrawRefund
          (reason1 RelayAccountEventTypeWithdrawRefund (FormatUint i)) (wr_Address w) (wr_Amount w + wr_WithdrawalFee w) now)\<lparr> re_ID := k \<rparr>] \<rparr>"
      using r by (auto simp: rejectWithdrawToRelayAccount_def createRelayAccountEvent_def
          createRelayAccountEventWithID_def Let_def dest!: get_cache_effect(1))
    then show ?thesis using that(2)[OF w st] by simp
  qed
qed

lemma fulfill_run:
  assumes "returns (FulfillWithdraw cfg i txHash now) (d, m) () (d', m')"
  obtains w where "find (\<lambda>w. wr_ID w = i) (d_withdraws d) = Some w" "wr_Status w = WithdrawStatusSuccess" "d' = d"
  | w k where "find (\<lambda>w. wr_ID w = i) (d_withdraws d) = Some w" "wr_Status w = WithdrawStatusPending"
      "wr_LocalStatus w = WithdrawLocalStatusProcessed" "d' = d\<lparr>
        d_withdraws := upd_where (\<lambda>w. wr_ID w = i)
          (\<lambda>w. w\<lparr> wr_Status := WithdrawStatusSuccess, wr_TxHash := Some txHash \<rparr>) (d_withdraws d),
        d_events := d_events d @ (if 0 < wr_WithdrawalFee w
          then [(new_event RelayAccountEventTypeWithdrawFeeIncome (reason1 RelayAccountEventTypeWithdrawFeeIncome (FormatUint i))
                  (cfg_WithdrawalFeeAddress cfg) (wr_WithdrawalFee w) now)\<lparr> re_ID := k \<rparr>] else []) \<rparr>"
proof -
  obtain w where w: "find (\<lambda>w. wr_ID w = i) (d_withdraws d) = Some w"
    using assms by (auto simp: FulfillWithdraw_def find_withdraw_def)
  have id: "wr_ID w = i" using w by (auto simp: find_Some_iff)
  let ?d1 = "d\<lparr> d_withdraws := upd_where (\<lambda>w. wr_ID w = i)
    (\<lambda>w. w\<lparr> wr_Status := WithdrawStatusSuccess, wr_TxHash := Some txHash \<rparr>) (d_withdraws d) \<rparr>"
  consider "wr_Status w = WithdrawStatusSuccess" | "wr_Status w \<noteq> WithdrawStatusSuccess" "0 < wr_WithdrawalFee w"
    | "wr_Status w \<noteq> WithdrawStatusSuccess" "\<not> 0 < wr_WithdrawalFee w" by blast
  then show thesis
  proof cases
    case 1
    then show ?thesis using that(1)[OF w] assms w by (simp add: FulfillWithdraw_def find_withdraw_def)
  next
    case 2
    obtain c s2 where st: "wr_Status w = WithdrawStatusPending" "wr_LocalStatus w = WithdrawLocalStatusProcessed"
      and r: "returns (fulfillWithdrawFeeIncome i (cfg_WithdrawalFeeAddress cfg) (wr_WithdrawalFee w) now) (?d1, m) c s2"
      and c: "returns c s2 () (d', m')"
      using assms 2 w id by (auto simp: FulfillWithdraw_def find_withdraw_def set_withdraw_def)
    have "d' = fst s2" using fee_income.commit_db[OF r c] by simp
    then obtain k where "d' = ?d1\<lparr> d_events := d_events d @ [(new_event RelayAccountEventTypeWithdrawFeeIncome
        (reason1 RelayAccountEventTypeWithdrawFeeIncome (FormatUint i)) (cfg_WithdrawalFeeAddress cfg) (wr_WithdrawalFee w) now)\<lparr> re_ID := k \<rparr>] \<rparr>"
      using r by (auto simp: fulfillWithdrawFeeIncome_def createRelayAccountEvent_def
          createRelayAccountEventWithID_def Let_def dest!: get_cache_effect(1))
    then show ?thesis using that(2)[OF w st] 2 by simp
  next
    case 3
    then show ?thesis using that(2)[OF w] assms w id by (auto simp: FulfillWithdraw_def find_withdraw_def set_withdraw_def)
  qed
qed

lemma fulfill_keeps_books:
  "db_steps (\<lambda>d d'. withdraw_inv cfg d \<longrightarrow> withdraw_inv cfg d') (FulfillWithdraw cfg i txHash now)"
proof -
  have "withdraw_inv cfg d'" if inv: "withdraw_inv cfg d" and r: "returns (FulfillWithdraw cfg i txHash now) (d, m) () (d', m')"
    for d m d' m'
    using r
  proof (cases rule: fulfill_run)
    case (1 w)
    then show ?thesis using inv by simp
  next
    case (2 w k)
    have id: "wr_ID w = i" using 2(1) by (auto simp: find_Some_iff)
    show ?thesis
      by (rule finalise_keeps_books[OF inv 2(1-3), where f = "\<lambda>w. w\<lparr> wr_Status := WithdrawStatusSuccess, wr_TxHash := Some txHash \<rparr>" and now = now and k = k])
        (simp_all add: 2(3,4) id)
  qed
  then have "returns (FulfillWithdraw cfg i txHash now) s u s' \<Longrightarrow> withdraw_inv cfg (fst s) \<longrightarrow> withdraw_inv cfg (fst s')" for s u s'
    by (cases s; cases s') simp
  then show ?thesis unfolding FulfillWithdraw_def returns_txn by (rule wd.steps_txn_returns)
qed

lemma reject_keeps_books:
  "db_steps (\<lambda>d d'. withdraw_inv cfg d \<longrightarrow> withdraw_inv cfg d') (RejectWithdraw i now)"
proof -
  have "withdraw_inv cfg d'" if inv: "withdraw_inv cfg d" and r: "returns (RejectWithdraw i now) (d, m) () (d', m')"
    for d m d' m'
    using r
  proof (cases rule: reject_run)
    case (1 w)
    then show ?thesis using inv by simp
  next
    case (2 w k)
    have id: "wr_ID w = i" using 2(1) by (auto simp: find_Some_iff)
    show ?thesis
      by (rule finalise_keeps_books[OF inv 2(1-3), where f = "\<lambda>w. w\<lparr> wr_Status := WithdrawStatusFailed \<rparr>" and now = now and k = k])
        (simp_all add: 2(3,4) id)
  qed
  then have "returns (RejectWithdraw i now) s u s' \<Longrightarrow> withdraw_inv cfg (fst s) \<longrightarrow> withdraw_inv cfg (fst s')" for s u s'
    by (cases s; cases s') simp
  then show ?thesis unfolding RejectWithdraw_def returns_txn by (rule wd.steps_txn_returns)
qed

text \<open>The databases the relay can reach: requests, fulfilments and rejections, each of which may
  fail, settlements, and anything else that neither touches the requests nor writes an event of a
  withdrawal.\<close>

inductive withdraw_reach :: "AppConfig \<Rightarrow> db \<Rightarrow> bool" for cfg where
  wr_start: "d_withdraws d = [] \<Longrightarrow> \<forall>e\<in>set (d_events d). \<not> withdraw_type (re_Type e) \<Longrightarrow> withdraw_reach cfg d"
| wr_request: "withdraw_reach cfg d \<Longrightarrow>
    withdraw_reach cfg (fst (snd (Withdraw cfg addr benefitAddress amount network timestamp signature now (d, m))))"
| wr_fulfill: "withdraw_reach cfg d \<Longrightarrow> withdraw_reach cfg (fst (snd (FulfillWithdraw cfg i txHash now (d, m))))"
| wr_reject: "withdraw_reach cfg d \<Longrightarrow> withdraw_reach cfg (fst (snd (RejectWithdraw i now (d, m))))"
| wr_settle: "withdraw_reach cfg d \<Longrightarrow>
    withdraw_reach cfg (fst (snd (processPendingRelayAccountEvents tx mac events (d, m))))"
| wr_other: "withdraw_reach cfg d \<Longrightarrow> d_withdraws d' = d_withdraws d \<Longrightarrow> d_events d' = d_events d @ es \<Longrightarrow>
    \<forall>e\<in>set es. \<not> withdraw_type (re_Type e) \<Longrightarrow> withdraw_reach cfg d'"

lemma db_stepsD: "db_steps R f \<Longrightarrow> R d (fst (snd (f (d, m))))"
  unfolding db_steps_def by (metis fst_conv)

lemma withdraw_reach_inv: "withdraw_reach cfg d \<Longrightarrow> withdraw_inv cfg d"
proof (induction rule: withdraw_reach.induct)
  case (wr_start d)
  then show ?case by (simp add: withdraw_inv_def)
next
  case (wr_request d addr benefitAddress amount network timestamp signature now m)
  then show ?case using db_stepsD[OF withdraw_keeps_books] by blast
next
  case (wr_fulfill d i txHash now m)
  then show ?case using db_stepsD[OF fulfill_keeps_books] by blast
next
  case (wr_reject d i now m)
  then show ?case using db_stepsD[OF reject_keeps_books] by blast
next
  case (wr_settle d tx mac events m)
  then show ?case using db_stepsD[OF process_keeps_books] by blast
next
  case (wr_other d d' es)
  have "filter (\<lambda>e. re_Type e = t \<and> re_Reason e = r) es = []" if "withdraw_type t" for t r
    using wr_other(4) that by (auto simp: filter_empty_conv)
  then have b: "booked d' t j = booked d t j" if "withdraw_type t" for t j
    using that by (subst booked_append[OF wr_other(3)]) simp
  have "withdraw_books cfg d' w = withdraw_books cfg d w" for w
    by (simp add: withdraw_books_def b withdraw_type_def)
  then show ?case using wr_other by (auto simp: withdraw_inv_def)
qed

text \<open>
  C3: whatever the order in which requests, fulfilments, rejections, settlements and failures of
  them interleave, every withdrawal is charged exactly once, with amount plus fee; it is refunded
  exactly once, with the same sum, when it failed, and never otherwise; its fee is credited exactly
  once when it succeeded, and never otherwise; and no request ends that was not settled locally.
\<close>

theorem withdrawal_settled_once:
  assumes "withdraw_reach cfg d" and "w \<in> set (d_withdraws d)"
  shows "booked d RelayAccountEventTypeWithdraw (wr_ID w) = [(wr_Address w, wr_Amount w + wr_WithdrawalFee w)]
    \<and> booked d RelayAccountEventTypeWithdrawRefund (wr_ID w) =
        (if wr_Status w = WithdrawStatusFailed then [(wr_Address w, wr_Amount w + wr_WithdrawalFee w)] else [])
    \<and> booked d RelayAccountEventTypeWithdrawFeeIncome (wr_ID w) =
        (if wr_Status w = WithdrawStatusSuccess \<and> 0 < wr_WithdrawalFee w
         then [(cfg_WithdrawalFeeAddress cfg, wr_WithdrawalFee w)] else [])
    \<and> (wr_Status w \<noteq> WithdrawStatusPending \<longrightarrow> wr_LocalStatus w = WithdrawLocalStatusProcessed)"
  using withdraw_reach_inv[OF assms(1)] assms(2) by (simp add: withdraw_inv_def withdraw_books_def)

subsection \<open>A concrete request\<close>

definition rich_mem :: mem where
  "rich_mem = empty_mem\<lparr> m_accounts := [(''a'', 5 * 10 ^ 18)] \<rparr>"

lemma sample_fee: "withdraw_fee sample_cfg net ''a'' x = CalculateWithdrawalFee net x"
  by (simp add: withdraw_fee_def sample_cfg_def)

lemma sample_network: "GetEffectiveFundingNetwork sample_cfg ''n'' = Some \<lparr> fn_Network = ''n'',
    fn_TokenType = FundingTokenTypeNative, fn_BenefitAddress = ''benefit'', fn_TokenAddress = [],
    fn_WithdrawalFee = 1, fn_WithdrawalMin = 1, fn_WithdrawalFeeTiers = [], fn_MaxWithdrawalsPerDay = 2 \<rparr>"
  by (simp add: GetEffectiveFundingNetwork_def sample_cfg_def sample_chain_def)

lemma sample_request:
  "\<exists>row d' m'. returns (Withdraw sample_cfg ''a'' ''b'' (10 ^ 18) ''n'' 0 ''s'' 0) (empty_db, rich_mem) row (d', m')"
proof -
  have two: "wrap64 2 = 2" by (simp add: wrap64_def)
  show ?thesis
    by (simp add: Withdraw_def sample_network sample_fee CalculateWithdrawalFee_def EtherToWei_def Let_def
        today_count_def chargeWithdrawFromRelayAccount_def getRelayAccountFromCache_def rich_mem_def
        createRelayAccountEventWithID_def sub_cached_checked_def add_cached_def amount_or_0_def two empty_db_def)
qed

theorem withdraw_charges_amount_and_fee_witness:
  "\<exists>row d' m'. returns (Withdraw sample_cfg ''a'' ''b'' (10 ^ 18) ''n'' 0 ''s'' 0) (empty_db, rich_mem) row (d', m')
    \<and> cached (d', m') ''a'' = Some (5 * 10 ^ 18 - 2 * 10 ^ 18)"
proof -
  obtain row d' m' where r: "returns (Withdraw sample_cfg ''a'' ''b'' (10 ^ 18) ''n'' 0 ''s'' 0) (empty_db, rich_mem) row (d', m')"
    using sample_request by blast
  have "cached_or_stored (empty_db, rich_mem) ''a'' = 5 * 10 ^ 18"
    by (simp add: cached_or_stored_def cached_def rich_mem_def)
  then have "cached (d', m') ''a'' = Some (5 * 10 ^ 18 - 2 * 10 ^ 18)"
    using withdraw_charges_amount_and_fee[OF r]
    by (auto simp: sample_network sample_fee CalculateWithdrawalFee_def EtherToWei_def)
  then show ?thesis using r by blast
qed

theorem withdrawal_settled_once_witness:
  "\<exists>d w. withdraw_reach sample_cfg d \<and> w \<in> set (d_withdraws d)
    \<and> booked d RelayAccountEventTypeWithdraw (wr_ID w) = [(wr_Address w, wr_Amount w + wr_WithdrawalFee w)]"
proof -
  obtain row d' m' where r: "returns (Withdraw sample_cfg ''a'' ''b'' (10 ^ 18) ''n'' 0 ''s'' 0) (empty_db, rich_mem) row (d', m')"
    using sample_request by blast
  have "withdraw_reach sample_cfg empty_db" by (rule wr_start) (simp_all add: empty_db_def)
  from wr_request[OF this, of "''a''" "''b''" "10 ^ 18" "''n''" 0 "''s''" 0 rich_mem]
  have reach: "withdraw_reach sample_cfg d'" using r by (simp add: returns_def)
  have w: "row \<in> set (d_withdraws d')" by (rule withdraw_effect[OF r]) simp
  show ?thesis using withdrawal_settled_once[OF reach w] reach w by blast
qed

end
