(* ===== verification/VestingService.thy ===== *)
theory VestingService
  imports Income
begin

text \<open>
  Vestings as the service handles them (\<^verbatim>\<open>service/vesting.go\<close>), the cache of locked stakes
  (\<^verbatim>\<open>service/vesting_stake.go\<close>), signature checks (\<^verbatim>\<open>blockchain/signature.go\<close>) and the circulating
  supply.  The Ethereum library is a parameter: address syntax, hex decoding and public key
  recovery.  The lemmas follow every released unit from the schedule to the ledger.
\<close>

section \<open>Signatures\<close>

record crypto_lib =
  cl_IsHexAddress :: "string \<Rightarrow> bool"
  cl_HexDecode :: "string \<Rightarrow> bytes option"
  cl_Keccak256 :: "bytes \<Rightarrow> bytes"
  cl_SigToAddress :: "bytes \<Rightarrow> bytes \<Rightarrow> address option"

definition newline :: char where "newline = char_of (10 :: nat)"

definition hashPersonalMessage :: "crypto_lib \<Rightarrow> string \<Rightarrow> bytes" where
  "hashPersonalMessage lib message =
    cl_Keccak256 lib (char_of (25 :: nat) # ''Ethereum Signed Message:'' @ newline # FormatUint (length message) @ message)"

definition RecoverAddress :: "crypto_lib \<Rightarrow> string \<Rightarrow> string \<Rightarrow> address option" where
  "RecoverAddress lib message signature0 =
    (let signature = TrimPrefix signature0 ''0x'' in
     case cl_HexDecode lib (''0x'' @ signature) of
       None \<Rightarrow> None
     | Some sigBytes \<Rightarrow>
         if length sigBytes \<noteq> 65 then None
         else let v = (of_char (sigBytes ! 64) :: nat);
                  normalized = (if v = 27 \<or> v = 28 then sigBytes[64 := char_of (v - 27)] else sigBytes)
              in cl_SigToAddress lib (hashPersonalMessage lib message) normalized)"

definition ValidateSignatureFormat :: "crypto_lib \<Rightarrow> string \<Rightarrow> bool" where
  "ValidateSignatureFormat lib signature0 =
    (let signature = TrimPrefix signature0 ''0x'' in
     length signature = 130 \<and> cl_HexDecode lib (''0x'' @ signature) \<noteq> None)"

section \<open>Creation\<close>

record CreateVestingDelegationDetailInput =
  di_NodeAddress :: string
  di_Network :: string
  di_TaskFee :: string
  di_EmissionAmount :: string
  di_StartTime :: int

record CreateVestingRecordInput =
  vi_Address :: string
  vi_TotalAmount :: string
  vi_StartTime :: int
  vi_DurationDays :: nat
  vi_Type :: string
  vi_AdminSignature :: string
  vi_DelegationDetails :: "CreateVestingDelegationDetailInput list"

record vestingSignPayload =
  sp_Address :: string
  sp_TotalAmount :: string
  sp_StartTime :: int
  sp_DurationDays :: nat
  sp_Type :: string

definition isValidUint256Amount :: "int \<Rightarrow> bool" where
  "isValidUint256Amount amount \<longleftrightarrow> 0 < amount \<and> amount < 2 ^ 256"

definition buildVestingSignMessage :: "vestingSignPayload \<Rightarrow> string" where
  "buildVestingSignMessage payload =
    ''Crynux Relay Vesting'' @ newline # ''Address: '' @ sp_Address payload
    @ newline # ''TotalAmount: '' @ sp_TotalAmount payload
    @ newline # ''StartTime: '' @ FormatInt (sp_StartTime payload)
    @ newline # ''DurationDays: '' @ FormatUint (sp_DurationDays payload)
    @ newline # ''Type: '' @ sp_Type payload"

definition isValidVestingType :: "string \<Rightarrow> bool" where
  "isValidVestingType vestingType \<longleftrightarrow> vestingType \<in> {''node'', ''delegation'', ''other''}"

definition normalizeVestingInput ::
  "crypto_lib \<Rightarrow> CreateVestingRecordInput \<Rightarrow> go_error + (vestingSignPayload \<times> int)" where
  "normalizeVestingInput lib input =
    (if \<not> cl_IsHexAddress lib (vi_Address input) then Inl ErrInvalidVestingAddress
     else if vi_DurationDays input = 0 then Inl ErrInvalidVestingDuration
     else let normalizedType = TrimSpace (vi_Type input) in
       if \<not> isValidVestingType normalizedType then Inl ErrInvalidVestingType
       else case SetString10 (TrimSpace (vi_TotalAmount input)) of
              None \<Rightarrow> Inl ErrInvalidVestingAmount
            | Some amount \<Rightarrow>
                if \<not> isValidUint256Amount amount then Inl ErrInvalidVestingAmount
                else Inr (\<lparr> sp_Address = vi_Address input, sp_TotalAmount = FormatInt amount,
                            sp_StartTime = vi_StartTime input, sp_DurationDays = vi_DurationDays input,
                            sp_Type = normalizedType \<rparr>, amount))"

definition verifyVestingCreationSignature ::
  "AppConfig \<Rightarrow> crypto_lib \<Rightarrow> CreateVestingRecordInput \<Rightarrow> vestingSignPayload \<Rightarrow> go_error + unit" where
  "verifyVestingCreationSignature cfg lib input payload =
    (if TrimSpace (vi_AdminSignature input) = [] then Inl ErrInvalidVestingSignature
     else if TrimSpace (cfg_VestingSignerAddress cfg) = [] then Inl ErrVestingSignerAddressNotSet
     else if \<not> ValidateSignatureFormat lib (vi_AdminSignature input) then Inl ErrInvalidVestingSignature
     else case RecoverAddress lib (buildVestingSignMessage payload) (vi_AdminSignature input) of
            None \<Rightarrow> Inl ErrInvalidVestingSignature
          | Some recoveredSigner \<Rightarrow>
              if \<not> EqualFold recoveredSigner (cfg_VestingSignerAddress cfg) then Inl ErrInvalidVestingSigner
              else Inr ())"

definition detail_key :: "string \<Rightarrow> string \<Rightarrow> string \<Rightarrow> int \<Rightarrow> string" where
  "detail_key user node network startTime =
    ToLower user @ CHR ''|'' # ToLower node @ CHR ''|'' # network @ CHR ''|'' # FormatInt startTime"

fun normalize_details ::
  "crypto_lib \<Rightarrow> vestingSignPayload \<Rightarrow> CreateVestingDelegationDetailInput list \<Rightarrow> string list
   \<Rightarrow> go_error + VestingDelegationEmissionDetail list" where
  "normalize_details lib payload [] seen = Inr []"
| "normalize_details lib payload (detail # rest) seen =
    (let network = TrimSpace (di_Network detail);
         key = detail_key (sp_Address payload) (di_NodeAddress detail) network (di_StartTime detail)
     in if \<not> cl_IsHexAddress lib (di_NodeAddress detail) \<or> network = []
           \<or> di_StartTime detail \<noteq> sp_StartTime payload \<or> key \<in> set seen
        then Inl ErrInvalidVestingDelegationDetail
        else case (SetString10 (TrimSpace (di_TaskFee detail)), SetString10 (TrimSpace (di_EmissionAmount detail))) of
               (Some taskFee, Some emissionAmount) \<Rightarrow>
                 if \<not> isValidUint256Amount taskFee \<or> \<not> isValidUint256Amount emissionAmount
                 then Inl ErrInvalidVestingDelegationDetail
                 else (case normalize_details lib payload rest (key # seen) of
                         Inl e \<Rightarrow> Inl e
                       | Inr details \<Rightarrow>
                           Inr (\<lparr> vd_VestingRecordID = 0, vd_UserAddress = sp_Address payload,
                                  vd_NodeAddress = di_NodeAddress detail, vd_Network = network,
                                  vd_TaskFee = taskFee, vd_EmissionAmount = emissionAmount,
                                  vd_StartTime = di_StartTime detail * time_Second \<rparr> # details))
             | _ \<Rightarrow> Inl ErrInvalidVestingDelegationDetail)"

definition normalizeVestingDelegationDetails ::
  "crypto_lib \<Rightarrow> CreateVestingRecordInput \<Rightarrow> vestingSignPayload \<Rightarrow> int
   \<Rightarrow> go_error + VestingDelegationEmissionDetail list" where
  "normalizeVestingDelegationDetails lib input payload totalAmount =
    (if sp_Type payload \<noteq> ''delegation''
     then (if vi_DelegationDetails input \<noteq> [] then Inl ErrInvalidVestingDelegationDetail else Inr [])
     else if vi_DelegationDetails input = [] then Inl ErrInvalidVestingDelegationDetail
     else case normalize_details lib payload (vi_DelegationDetails input) [] of
            Inl e \<Rightarrow> Inl e
          | Inr details \<Rightarrow>
              if sum_list (map vd_EmissionAmount details) \<noteq> totalAmount
              then Inl ErrInvalidVestingDelegationDetail else Inr details)"

section \<open>Locked stakes\<close>

definition vesting_locked_row :: "VestingRecord \<Rightarrow> bool" where
  "vesting_locked_row v \<longleftrightarrow> v_Status v = VestingStatusActive \<and> \<not> v_Slashed v"

definition vestingCache_set ::
  "address \<Rightarrow> VestingRecord list \<Rightarrow> (address \<times> VestingRecord list) list \<Rightarrow> (address \<times> VestingRecord list) list" where
  "vestingCache_set addr records c = (if records = [] then AList.delete addr c else AList.update addr records c)"

definition vestingCache_lockedAmount :: "(address \<times> VestingRecord list) list \<Rightarrow> address \<Rightarrow> time \<Rightarrow> int" where
  "vestingCache_lockedAmount c addr now =
    sum_list (map (\<lambda>v. LockedAmountAt v now) (case map_of c addr of None \<Rightarrow> [] | Some vs \<Rightarrow> vs))"

definition vestingCache_load :: "VestingRecord list \<Rightarrow> (address \<times> VestingRecord list) list" where
  "vestingCache_load records =
    foldl (\<lambda>c v. AList.update (v_Address v)
             ((case map_of c (v_Address v) of None \<Rightarrow> [] | Some vs \<Rightarrow> vs) @ [v]) c) [] records"

definition InitNodeVestingStakeCache :: "unit relay" where
  "InitNodeVestingStakeCache =
    bnd (read_db (\<lambda>d. filter vesting_locked_row (d_vestings d))) (\<lambda>records.
    write_mem (\<lambda>m. m\<lparr> m_vestings := Some (vestingCache_load records) \<rparr>))"

definition RefreshNodeVestingStake :: "address \<Rightarrow> unit relay" where
  "RefreshNodeVestingStake addr =
    bnd (read_db (\<lambda>d. filter (\<lambda>v. v_Address v = addr \<and> vesting_locked_row v) (d_vestings d))) (\<lambda>records.
    write_mem (\<lambda>m. m\<lparr> m_vestings :=
      Some (vestingCache_set addr records (case m_vestings m of None \<Rightarrow> [] | Some c \<Rightarrow> c)) \<rparr>))"

definition GetNodeLockedVestingAmount :: "mem \<Rightarrow> address \<Rightarrow> time \<Rightarrow> int" where
  "GetNodeLockedVestingAmount m addr now =
    (case m_vestings m of None \<Rightarrow> 0 | Some c \<Rightarrow> vestingCache_lockedAmount c addr now)"

definition GetNodeScoreLockedEmissionAmount :: "AppConfig \<Rightarrow> mem \<Rightarrow> address \<Rightarrow> time \<Rightarrow> int" where
  "GetNodeScoreLockedEmissionAmount cfg m addr now =
    (let lockedEmission = GetNodeLockedVestingAmount m addr now;
         coefficient = cfg_LockedEmissionCoefficient cfg
     in if coefficient = 1 then lockedEmission
        else let (num, denom) = quotient_of coefficient in go_quo (lockedEmission * num) denom)"

definition GetNodeTotalStakeAmount :: "mem \<Rightarrow> address \<Rightarrow> string \<Rightarrow> go_error + int" where
  "GetNodeTotalStakeAmount m nodeAddress network =
    (case map_of (m_delegations m) network of
       None \<Rightarrow> Inl (Panic ''nil pointer dereference'')
     | Some c \<Rightarrow> Inr (getNodeTotalStakeAmount c nodeAddress))"

definition GetNodeScoreStakeAmount :: "AppConfig \<Rightarrow> mem \<Rightarrow> Node \<Rightarrow> time \<Rightarrow> go_error + int" where
  "GetNodeScoreStakeAmount cfg m node now =
    (if n_Status node = NodeStatusQuit then Inr 0
     else case GetNodeTotalStakeAmount m (n_Address node) (n_Network node) of
            Inl e \<Rightarrow> Inl e
          | Inr delegated \<Rightarrow>
              Inr (n_StakeAmount node + delegated
                   + GetNodeScoreLockedEmissionAmount cfg m (n_Address node) now
                   + GetCachedRelayAccountBalance m (n_Address node)))"

definition UpdateMaxStaking :: "address \<Rightarrow> int \<Rightarrow> unit relay" where
  "UpdateMaxStaking addr staking =
    write_mem (\<lambda>m. m\<lparr> m_maxStaking := maxStaking_update addr staking (m_maxStaking m) \<rparr>)"

definition RefreshNodeScoreStake :: "AppConfig \<Rightarrow> address \<Rightarrow> time \<Rightarrow> unit relay" where
  "RefreshNodeScoreStake cfg addr now =
    bnd (RefreshNodeVestingStake addr) (\<lambda>_.
    bnd (read_db (\<lambda>d. find (\<lambda>n. addr = [] \<or> n_Address n = addr) (d_nodes d))) (\<lambda>r.
    case r of
      None \<Rightarrow> ret ()
    | Some node \<Rightarrow>
        bnd (read_mem (\<lambda>m. GetNodeScoreStakeAmount cfg m node now)) (\<lambda>x.
        bnd (of_sum x) (\<lambda>amount. UpdateMaxStaking addr amount))))"

definition RefreshNodeVestingScoreStakes :: "AppConfig \<Rightarrow> time \<Rightarrow> unit relay" where
  "RefreshNodeVestingScoreStakes cfg now =
    bnd (read_mem (\<lambda>m. case m_vestings m of None \<Rightarrow> [] | Some c \<Rightarrow> map fst c)) (\<lambda>cachedAddresses.
    bnd (read_db (\<lambda>d. map v_Address (filter vesting_locked_row (d_vestings d)))) (\<lambda>activeAddresses.
    bnd (read_db (\<lambda>d. map n_Address (filter (\<lambda>n. n_Status n \<noteq> NodeStatusQuit) (d_nodes d)))) (\<lambda>nodeAddresses.
    for_each (remdups (cachedAddresses @ activeAddresses @ nodeAddresses)) (\<lambda>addr.
      RefreshNodeScoreStake cfg addr now))))"

section \<open>Creating vestings\<close>

type_synonym weekly_totals = "(string \<times> (address \<times> time \<times> int)) list"

definition accumulateDelegationEmissionWeeklyTotals ::
  "weekly_totals \<Rightarrow> VestingDelegationEmissionDetail list \<Rightarrow> weekly_totals" where
  "accumulateDelegationEmissionWeeklyTotals totals details =
    foldl (\<lambda>t detail.
      let key = ToLower (vd_NodeAddress detail) @ CHR ''|'' # FormatInt (vd_StartTime detail div time_Second);
          (node, start, amount) = (case map_of t key of
             None \<Rightarrow> (vd_NodeAddress detail, vd_StartTime detail, 0) | Some inc \<Rightarrow> inc)
      in AList.update key (node, start, amount + vd_EmissionAmount detail) t) totals details"

text \<open>An insert that adds to the row with the same node and week when there is one.\<close>

definition upsert_week :: "address \<times> time \<times> int \<Rightarrow> ((address \<times> time) \<times> int) list \<Rightarrow> ((address \<times> time) \<times> int) list" where
  "upsert_week inc rows =
    (let (node, start, amount) = inc in
     if amount = 0 then rows
     else case map_of rows (node, start) of
            None \<Rightarrow> rows @ [((node, start), amount)]
          | Some x \<Rightarrow> AList.update (node, start) (x + amount) rows)"

definition UpsertNodeDelegationEmissionWeeklyTotalIncrements :: "(address \<times> time \<times> int) list \<Rightarrow> unit relay" where
  "UpsertNodeDelegationEmissionWeeklyTotalIncrements increments =
    write_db (\<lambda>d. d\<lparr> d_weekly_emissions := foldl (\<lambda>rows inc. upsert_week inc rows) (d_weekly_emissions d) increments \<rparr>)"

definition create_vesting_row :: "VestingRecord \<Rightarrow> VestingRecord relay" where
  "create_vesting_row v =
    bnd (read_db d_vestings) (\<lambda>rows.
    bnd (check (\<forall>r\<in>set rows. (v_Type r, v_Address r, v_StartTime r) \<noteq> (v_Type v, v_Address v, v_StartTime v)) ErrDuplicatedKey) (\<lambda>_.
    (let row = v\<lparr> v_ID := next_id v_ID rows \<rparr> in
     bnd (write_db (\<lambda>d. d\<lparr> d_vestings := d_vestings d @ [row] \<rparr>)) (\<lambda>_. ret row))))"

definition detail_index :: "VestingDelegationEmissionDetail \<Rightarrow> address \<times> address \<times> string \<times> time" where
  "detail_index r = (vd_UserAddress r, vd_NodeAddress r, vd_Network r, vd_StartTime r)"

definition create_detail_rows :: "VestingDelegationEmissionDetail list \<Rightarrow> unit relay" where
  "create_detail_rows details =
    bnd (read_db d_vesting_details) (\<lambda>rows.
    bnd (check (distinct (map detail_index (rows @ details))) ErrDuplicatedKey) (\<lambda>_.
    write_db (\<lambda>d. d\<lparr> d_vesting_details := d_vesting_details d @ details \<rparr>)))"

definition create_one_vesting ::
  "AppConfig \<Rightarrow> crypto_lib \<Rightarrow> CreateVestingRecordInput \<Rightarrow> weekly_totals \<Rightarrow> time
   \<Rightarrow> (VestingRecord \<times> weekly_totals) relay" where
  "create_one_vesting cfg lib input totals now =
    bnd (of_sum (normalizeVestingInput lib input)) (\<lambda>(payload, amount).
    bnd (of_sum (verifyVestingCreationSignature cfg lib input payload)) (\<lambda>_.
    bnd (of_sum (normalizeVestingDelegationDetails lib input payload amount)) (\<lambda>details0.
    bnd (create_vesting_row \<lparr> v_ID = 0, v_Address = sp_Address payload, v_TotalAmount = amount,
           v_ReleasedAmount = 0, v_StartTime = sp_StartTime payload * time_Second,
           v_DurationDays = sp_DurationDays payload, v_Type = sp_Type payload,
           v_AdminSignature = vi_AdminSignature input, v_Status = VestingStatusActive, v_Slashed = False \<rparr>) (\<lambda>row.
    (let details = map (\<lambda>r. r\<lparr> vd_VestingRecordID := v_ID row \<rparr>) details0 in
     bnd (if details \<noteq> [] then create_detail_rows details else ret ()) (\<lambda>_.
     bnd (createVestingCreatedRelayAccountEvent row now) (\<lambda>_.
     ret (row, if details \<noteq> [] then accumulateDelegationEmissionWeeklyTotals totals details else totals))))))))"

fun create_vestings ::
  "AppConfig \<Rightarrow> crypto_lib \<Rightarrow> CreateVestingRecordInput list \<Rightarrow> weekly_totals \<Rightarrow> time
   \<Rightarrow> (VestingRecord list \<times> weekly_totals) relay" where
  "create_vestings cfg lib [] totals now = ret ([], totals)"
| "create_vestings cfg lib (input # inputs) totals now =
    bnd (create_one_vesting cfg lib input totals now) (\<lambda>(row, totals1).
    bnd (create_vestings cfg lib inputs totals1 now) (\<lambda>(rows, totals2).
    ret (row # rows, totals2)))"

definition CreateVestingRecords ::
  "AppConfig \<Rightarrow> crypto_lib \<Rightarrow> CreateVestingRecordInput list \<Rightarrow> time \<Rightarrow> VestingRecord list relay" where
  "CreateVestingRecords cfg lib inputs now =
    (if inputs = [] then ret []
     else bnd (txn (bnd (create_vestings cfg lib inputs [] now) (\<lambda>(created, totals).
                    bnd (UpsertNodeDelegationEmissionWeeklyTotalIncrements (map snd totals)) (\<lambda>_. ret created)))) (\<lambda>created.
          bnd (for_each (remdups (map v_Address created)) (\<lambda>addr. RefreshNodeScoreStake cfg addr now)) (\<lambda>_.
          ret created)))"

section \<open>Releasing\<close>

definition hasPendingVestingReleaseEvent :: "bool relay" where
  "hasPendingVestingReleaseEvent =
    read_db (\<lambda>d. \<exists>e\<in>set (d_events d). re_Type e = RelayAccountEventTypeVestingRelease
      \<and> re_Status e = RelayAccountEventStatusPending)"

definition set_vesting :: "nat \<Rightarrow> (VestingRecord \<Rightarrow> VestingRecord) \<Rightarrow> unit relay" where
  "set_vesting i upd = write_db (\<lambda>d. d\<lparr> d_vestings := upd_where (\<lambda>v. v_ID v = i) upd (d_vestings d) \<rparr>)"

definition processSingleVestingRelease :: "nat \<Rightarrow> time \<Rightarrow> unit relay" where
  "processSingleVestingRelease vestingID now =
    txn (bnd (read_db (\<lambda>d. find (\<lambda>v. v_ID v = vestingID) (d_vestings d))) (\<lambda>found.
      bnd (of_option ErrVestingRecordNotFound found) (\<lambda>row.
      if v_Status row \<noteq> VestingStatusActive then ret ()
      else if v_Slashed row then ret ()
      else let shouldReleased = ComputeVestingShouldReleased (v_TotalAmount row) (v_StartTime row) (v_DurationDays row) now in
        if shouldReleased \<le> v_ReleasedAmount row
        then (if v_TotalAmount row \<le> v_ReleasedAmount row
              then set_vesting (v_ID row) (\<lambda>v. v\<lparr> v_Status := VestingStatusCompleted \<rparr>)
              else ret ())
        else if v_TotalAmount row < shouldReleased then raise ErrVestingReleaseExceedsSchedule
        else bnd (releaseVestingToRelayAccount (v_ID row) (v_Address row) (v_ReleasedAmount row) shouldReleased now) (\<lambda>commitFunc.
             bnd (set_vesting (v_ID row) (\<lambda>v. v\<lparr> v_ReleasedAmount := shouldReleased,
                    v_Status := (if shouldReleased = v_TotalAmount row then VestingStatusCompleted else VestingStatusActive) \<rparr>)) (\<lambda>_.
             commitFunc)))))"

text \<open>
  The loop reads batches of active records, in the order of their ids, with ids above the last one
  handled.  Every round starts above the ids of the rounds before it, so one round more than there
  are records is enough.
\<close>

fun release_batches :: "nat \<Rightarrow> nat \<Rightarrow> nat \<Rightarrow> time \<Rightarrow> bool relay" where
  "release_batches 0 batchSize startID now = ret False"
| "release_batches (Suc fuel) batchSize startID now =
    bnd (read_db (\<lambda>d. take batchSize (filter (\<lambda>v. vesting_locked_row v \<and> startID < v_ID v) (d_vestings d)))) (\<lambda>records.
    if records = [] then ret True
    else bnd (for_each records (\<lambda>v. processSingleVestingRelease (v_ID v) now)) (\<lambda>_.
         release_batches fuel batchSize (v_ID (last records)) now))"

definition ProcessDueVestingReleases :: "nat \<Rightarrow> time \<Rightarrow> int \<Rightarrow> bool relay" where
  "ProcessDueVestingReleases fuel now batchSize0 =
    (let batchSize = (if batchSize0 \<le> 0 then 100 else batchSize0) in
     bnd hasPendingVestingReleaseEvent (\<lambda>pending.
     if pending then ret True else release_batches fuel (nat batchSize) 0 now))"

definition GetAddressLockedVestingAmount :: "db \<Rightarrow> address \<Rightarrow> time \<Rightarrow> int" where
  "GetAddressLockedVestingAmount d addr now =
    sum_list (map (\<lambda>v. LockedAmountAt v now)
      (filter (\<lambda>v. v_Address v = addr \<and> vesting_locked_row v) (d_vestings d)))"

section \<open>Slashing and restoring\<close>

definition SlashNodeVestingsTx :: "address \<Rightarrow> bool relay" where
  "SlashNodeVestingsTx nodeAddress =
    bnd (read_db (\<lambda>d. filter (\<lambda>v. v_Address v = nodeAddress \<and> vesting_locked_row v) (d_vestings d))) (\<lambda>hits.
    bnd (write_db (\<lambda>d. d\<lparr> d_vestings := upd_where (\<lambda>v. v_Address v = nodeAddress \<and> vesting_locked_row v)
           (\<lambda>v. v\<lparr> v_Slashed := True \<rparr>) (d_vestings d) \<rparr>)) (\<lambda>_.
    ret (hits \<noteq> [])))"

definition SlashNodeVestings :: "AppConfig \<Rightarrow> address \<Rightarrow> time \<Rightarrow> unit relay" where
  "SlashNodeVestings cfg nodeAddress now =
    bnd (txn (SlashNodeVestingsTx nodeAddress)) (\<lambda>refresh.
    if refresh then RefreshNodeScoreStake cfg nodeAddress now else ret ())"

definition RestoreNodeVestings :: "AppConfig \<Rightarrow> crypto_lib \<Rightarrow> address \<Rightarrow> time \<Rightarrow> unit relay" where
  "RestoreNodeVestings cfg lib nodeAddress now =
    (if \<not> cl_IsHexAddress lib nodeAddress then raise ErrInvalidVestingAddress
     else bnd (txn (
            bnd (read_db (\<lambda>d. filter (\<lambda>v. v_Address v = nodeAddress \<and> v_Slashed v) (d_vestings d))) (\<lambda>hits.
            bnd (write_db (\<lambda>d. d\<lparr> d_vestings := upd_where (\<lambda>v. v_Address v = nodeAddress \<and> v_Slashed v)
                   (\<lambda>v. v\<lparr> v_Slashed := False \<rparr>) (d_vestings d) \<rparr>)) (\<lambda>_.
            ret (hits \<noteq> []))))) (\<lambda>refresh.
          if refresh then RefreshNodeScoreStake cfg nodeAddress now else ret ()))"

section \<open>Circulating supply\<close>

definition GetCNXCirculatingSupply :: "db \<Rightarrow> time \<Rightarrow> string \<Rightarrow> go_error + int" where
  "GetCNXCirculatingSupply d now mainnetStartTime =
    (case parseMainnetStartDate mainnetStartTime of
       Inl e \<Rightarrow> Inl e
     | Inr startDate \<Rightarrow>
         if now < startDate then Inr 0
         else let totalSupply = GetCNXTotalSupply;
                  year0Unlocked = supplyPercent totalSupply year0TreasuryAllocationPercent;
                  completedWeeks = min (go_quo (time_Sub now startDate) emissionWeekDuration)
                                       (maxEmissionYear * emissionWeeksPerYear);
                  released = sum_list (map v_ReleasedAmount (d_vestings d));
                  treasury = sum_list (map (\<lambda>weekIndex. cnxToWei
                      (go_quo (weeklyBootstrapEmissionCNX (int weekIndex) * bootstrapTreasuryAllocationPercent) 100))
                    [0..<nat completedWeeks]);
                  circulating = year0Unlocked + released + treasury
              in Inr (if totalSupply < circulating then totalSupply else circulating))"

section \<open>Every released unit is on schedule and in the ledger\<close>

definition release_of :: "nat \<Rightarrow> RelayAccountEvent \<Rightarrow> bool" where
  "release_of i e \<longleftrightarrow> re_Type e = RelayAccountEventTypeVestingRelease
    \<and> (case SplitN dash 4 (re_Reason e) of _ # q # _ \<Rightarrow> q = FormatUint i | _ \<Rightarrow> False)"

definition release_sum :: "db \<Rightarrow> nat \<Rightarrow> int" where
  "release_sum d i = sum_list (map re_Amount (filter (release_of i) (d_events d)))"

definition due :: "VestingRecord \<Rightarrow> time \<Rightarrow> int" where
  "due v now = ComputeVestingShouldReleased (v_TotalAmount v) (v_StartTime v) (v_DurationDays v) now"

definition vesting_ok :: "time \<Rightarrow> db \<Rightarrow> VestingRecord \<Rightarrow> bool" where
  "vesting_ok now d v \<longleftrightarrow> 0 \<le> v_ReleasedAmount v \<and> v_ReleasedAmount v \<le> due v now
    \<and> 0 < v_TotalAmount v \<and> release_sum d (v_ID v) = v_ReleasedAmount v
    \<and> (v_Status v = VestingStatusCompleted \<longrightarrow> v_ReleasedAmount v = v_TotalAmount v)"

definition vest_inv :: "time \<Rightarrow> db \<Rightarrow> bool" where
  "vest_inv now d \<longleftrightarrow> distinct (map v_ID (d_vestings d)) \<and> (\<forall>v\<in>set (d_vestings d). vesting_ok now d v)
    \<and> (\<forall>e\<in>set (d_events d). re_Type e = RelayAccountEventTypeVestingRelease \<longrightarrow>
         (\<exists>i\<in>set (map v_ID (d_vestings d)). release_of i e))"

interpretation vs: step_relation "\<lambda>d d'. vest_inv now d \<longrightarrow> vest_inv now d'" for now
  by unfold_locales auto

lemma release_of_unique: "release_of i e \<Longrightarrow> release_of j e \<Longrightarrow> i = j"
  by (auto simp: release_of_def split: list.splits)

lemma release_sum_unknown:
  assumes "vest_inv now d" "i \<notin> v_ID ` set (d_vestings d)"
  shows "release_sum d i = 0"
proof -
  have "\<not> release_of i e" if e: "e \<in> set (d_events d)" for e
  proof
    assume r: "release_of i e"
    then have "re_Type e = RelayAccountEventTypeVestingRelease" by (simp add: release_of_def)
    then obtain j where "j \<in> set (map v_ID (d_vestings d))" "release_of j e"
      using assms(1) e unfolding vest_inv_def by blast
    then show False using release_of_unique[OF r] assms(2) by auto
  qed
  then have "filter (release_of i) (d_events d) = []" by (simp add: filter_empty_conv)
  then show ?thesis unfolding release_sum_def by simp
qed

lemma due_mono: "T \<le> now \<Longrightarrow> due v T \<le> due v now"
  by (simp add: due_def should_released_mono)

lemma vest_inv_later: "vest_inv T d \<Longrightarrow> T \<le> now \<Longrightarrow> vest_inv now d"
  unfolding vest_inv_def vesting_ok_def using due_mono by (meson order_trans)

text \<open>Operations that touch neither the vestings nor the release events.\<close>

lemma vest_inv_cong:
  assumes "d_vestings d' = d_vestings d" "d_events d' = d_events d @ es"
    "\<forall>e\<in>set es. re_Type e \<noteq> RelayAccountEventTypeVestingRelease"
  shows "vest_inv now d \<longrightarrow> vest_inv now d'"
proof -
  have "filter (release_of i) es = []" for i using assms(3) by (auto simp: filter_empty_conv release_of_def)
  then have "release_sum d' i = release_sum d i" for i by (simp add: release_sum_def assms(2))
  then show ?thesis using assms(2,3) by (auto simp: vest_inv_def vesting_ok_def assms(1))
qed

lemma vest_inv_rows:
  assumes ids: "map v_ID (d_vestings d') = map v_ID (d_vestings d)" and ev: "d_events d' = d_events d"
    and rows: "\<And>v'. v' \<in> set (d_vestings d') \<Longrightarrow> \<exists>v\<in>set (d_vestings d). v_ID v' = v_ID v \<and> due v' = due v
        \<and> v_ReleasedAmount v' = v_ReleasedAmount v \<and> v_TotalAmount v' = v_TotalAmount v
        \<and> (v_Status v' = VestingStatusCompleted \<longrightarrow> v_Status v = VestingStatusCompleted \<or> v_ReleasedAmount v = v_TotalAmount v)"
  shows "vest_inv now d \<longrightarrow> vest_inv now d'"
proof
  assume inv: "vest_inv now d"
  have rs: "release_sum d' i = release_sum d i" for i by (simp add: release_sum_def ev)
  have "vesting_ok now d' v'" if "v' \<in> set (d_vestings d')" for v'
    using rows[OF that] inv by (auto simp: vest_inv_def vesting_ok_def rs)
  then show "vest_inv now d'" using inv ev by (simp add: vest_inv_def ids)
qed

lemma refresh_frame: "db_steps (\<lambda>d d'. vest_inv now d \<longrightarrow> vest_inv now d') (RefreshNodeScoreStake cfg addr t)"
  unfolding RefreshNodeScoreStake_def RefreshNodeVestingStake_def UpdateMaxStaking_def
  by (intro vs.steps_intros) (auto intro!: vs.steps_frame)

lemma create_row_keeps:
  assumes "v_ReleasedAmount v = 0" "0 < v_TotalAmount v" "v_Status v = VestingStatusActive"
  shows "db_steps (\<lambda>d d'. vest_inv now d \<longrightarrow> vest_inv now d') (create_vesting_row v)"
proof -
  have "vest_inv now d \<longrightarrow> vest_inv now (d\<lparr> d_vestings := d_vestings d @ [v\<lparr> v_ID := next_id v_ID (d_vestings d) \<rparr>] \<rparr>)" for d
  proof
    assume inv: "vest_inv now d"
    let ?d = "d\<lparr> d_vestings := d_vestings d @ [v\<lparr> v_ID := next_id v_ID (d_vestings d) \<rparr>] \<rparr>"
    have fresh: "next_id v_ID (d_vestings d) \<notin> v_ID ` set (d_vestings d)"
      by (auto dest!: next_id_fresh[of _ "d_vestings d" v_ID])
    have rs: "release_sum ?d i = release_sum d i" for i by (simp add: release_sum_def)
    have ok: "vesting_ok now ?d w" if "w \<in> set (d_vestings d)" for w
      using inv that by (simp add: vest_inv_def vesting_ok_def rs)
    have "vesting_ok now ?d (v\<lparr> v_ID := next_id v_ID (d_vestings d) \<rparr>)"
      using release_sum_unknown[OF inv fresh] assms
      by (simp add: vesting_ok_def rs due_def should_released_nonneg)
    then show "vest_inv now ?d" using inv ok fresh by (auto simp: vest_inv_def)
  qed
  then show ?thesis
    unfolding db_steps_def create_vesting_row_def Let_def by (simp add: op_simps)
qed

lemma created_event_keeps:
  "db_steps (\<lambda>d d'. vest_inv now d \<longrightarrow> vest_inv now d') (createVestingCreatedRelayAccountEvent v t)"
proof -
  have "vest_inv now d \<longrightarrow> vest_inv now (d\<lparr> d_events := d_events d @ [e] \<rparr>)"
    if "re_Type e \<noteq> RelayAccountEventTypeVestingRelease" for d e
    by (rule vest_inv_cong[where es = "[e]"]) (use that in auto)
  then show ?thesis
    unfolding db_steps_def createVestingCreatedRelayAccountEvent_def createRelayAccountEvent_def
      createRelayAccountEventWithID_def Let_def by (simp add: op_simps)
qed

lemma create_details_keeps:
  "db_steps (\<lambda>d d'. vest_inv now d \<longrightarrow> vest_inv now d') (create_detail_rows details)"
  unfolding create_detail_rows_def
  by (intro vs.steps_intros write_db_steps vs.steps_frame frame_read_db) (rule vest_inv_cong[where es = "[]"]; simp)

lemma upsert_keeps:
  "db_steps (\<lambda>d d'. vest_inv now d \<longrightarrow> vest_inv now d') (UpsertNodeDelegationEmissionWeeklyTotalIncrements incs)"
  unfolding UpsertNodeDelegationEmissionWeeklyTotalIncrements_def
  by (intro write_db_steps) (rule vest_inv_cong[where es = "[]"]; simp)

lemma normalized_amount: "normalizeVestingInput lib input = Inr (payload, amount) \<Longrightarrow> 0 < amount"
  by (auto simp: normalizeVestingInput_def isValidUint256Amount_def Let_def split: if_splits option.splits)

lemma create_one_keeps:
  "db_steps (\<lambda>d d'. vest_inv now d \<longrightarrow> vest_inv now d') (create_one_vesting cfg lib input totals t)"
  unfolding create_one_vesting_def Let_def
  by (rule vs.steps_of_sum_bnd, simp only: case_prod_beta,
      intro vs.steps_intros create_row_keeps create_details_keeps created_event_keeps)
    (auto dest: normalized_amount)

lemma create_vestings_keeps:
  "db_steps (\<lambda>d d'. vest_inv now d \<longrightarrow> vest_inv now d') (create_vestings cfg lib inputs totals t)"
proof (induction cfg lib inputs totals t rule: create_vestings.induct)
  case (2 cfg lib input inputs totals t)
  then show ?case
    by (simp only: create_vestings.simps case_prod_beta) (intro vs.steps_intros create_one_keeps 2)
qed (simp add: vs.steps_ret)

lemma create_records_keeps:
  "db_steps (\<lambda>d d'. vest_inv now d \<longrightarrow> vest_inv now d') (CreateVestingRecords cfg lib inputs t)"
  unfolding CreateVestingRecords_def case_prod_beta
  by (intro vs.steps_intros create_vestings_keeps upsert_keeps refresh_frame)

lemma set_slashed_keeps:
  "db_steps (\<lambda>d d'. vest_inv now d \<longrightarrow> vest_inv now d')
    (write_db (\<lambda>d. d\<lparr> d_vestings := upd_where p (\<lambda>v. v\<lparr> v_Slashed := b \<rparr>) (d_vestings d) \<rparr>))"
proof (rule write_db_steps, rule vest_inv_rows)
  fix d v'
  assume "v' \<in> set (d_vestings (d\<lparr> d_vestings := upd_where p (\<lambda>v. v\<lparr> v_Slashed := b \<rparr>) (d_vestings d) \<rparr>))"
  then obtain v where "v \<in> set (d_vestings d)" "v' = (if p v then v\<lparr> v_Slashed := b \<rparr> else v)"
    by (auto simp: upd_where_set)
  then show "\<exists>v\<in>set (d_vestings d). v_ID v' = v_ID v \<and> due v' = due v
        \<and> v_ReleasedAmount v' = v_ReleasedAmount v \<and> v_TotalAmount v' = v_TotalAmount v
        \<and> (v_Status v' = VestingStatusCompleted \<longrightarrow> v_Status v = VestingStatusCompleted \<or> v_ReleasedAmount v = v_TotalAmount v)"
    by (intro bexI[of _ v]) (simp_all add: due_def fun_eq_iff)
qed (simp_all add: upd_where_map)

lemma slash_keeps:
  "db_steps (\<lambda>d d'. vest_inv now d \<longrightarrow> vest_inv now d') (SlashNodeVestings cfg addr t)"
  unfolding SlashNodeVestings_def SlashNodeVestingsTx_def
  by (intro vs.steps_intros refresh_frame set_slashed_keeps vs.steps_frame frame_read_db)

lemma restore_keeps:
  "db_steps (\<lambda>d d'. vest_inv now d \<longrightarrow> vest_inv now d') (RestoreNodeVestings cfg lib addr t)"
  unfolding RestoreNodeVestings_def
  by (intro vs.steps_intros refresh_frame set_slashed_keeps vs.steps_frame frame_read_db)

lemma release_sum_upd:
  assumes "\<And>e. re_Type (f e) = re_Type e \<and> re_Reason (f e) = re_Reason e \<and> re_Amount (f e) = re_Amount e"
  shows "sum_list (map re_Amount (filter (release_of i) (upd_where p f es))) = sum_list (map re_Amount (filter (release_of i) es))"
proof -
  have "release_of i (f e) \<longleftrightarrow> release_of i e" for e by (simp add: release_of_def assms)
  then show ?thesis by (induction es) (simp_all add: upd_where_def assms)
qed

lemma vest_inv_settled:
  assumes "d_vestings d' = d_vestings d" "d_events d' = upd_where p f (d_events d)"
    and f: "\<And>e. re_Type (f e) = re_Type e \<and> re_Reason (f e) = re_Reason e \<and> re_Amount (f e) = re_Amount e"
  shows "vest_inv now d \<longrightarrow> vest_inv now d'"
proof -
  have "release_sum d' i = release_sum d i" for i
    by (simp add: release_sum_def assms(2) release_sum_upd[OF f])
  then show ?thesis
    by (auto simp: vest_inv_def vesting_ok_def assms(1,2) upd_where_set release_of_def f)
qed

lemma vest_settle_keeps:
  "db_steps (\<lambda>d d'. vest_inv now d \<longrightarrow> vest_inv now d') (processPendingRelayAccountEvents tx mac events)"
proof -
  have "vest_inv now d \<longrightarrow> vest_inv now (mark_invalid invalid d)" for d invalid
    by (rule vest_inv_settled[OF _ mark_invalid_events]) (simp_all add: mark_invalid_def Let_def)
  moreover have "vest_inv now d \<longrightarrow> vest_inv now (settle mac valid d)" for d valid
    by (rule vest_inv_settled[OF _ settle_events]) (simp_all add: settle_def Let_def)
  ultimately show ?thesis
    unfolding processPendingRelayAccountEvents_def
    by (intro vs.steps_intros write_db_steps vs.steps_frame frame_read_db)
qed

text \<open>One release: the event and the released amount move together.\<close>

lemma release_run:
  assumes "returns (releaseVestingToRelayAccount i addr f t now) s c s1"
  shows "f < t" "\<exists>k. fst s1 = (fst s)\<lparr> d_events := d_events (fst s) @
      [(new_event RelayAccountEventTypeVestingRelease (BuildVestingReleaseReason i f t) addr (t - f) now)\<lparr> re_ID := k \<rparr>] \<rparr>"
    "\<And>s2 u s3. returns c s2 u s3 \<Longrightarrow> fst s3 = fst s2"
proof -
  from assms show "f < t" by (auto simp: releaseVestingToRelayAccount_def Let_def)
  from assms obtain w v where e: "returns (createRelayAccountEvent RelayAccountEventTypeVestingRelease (BuildVestingReleaseReason i f t) addr (t - f) now) s () w"
    and g: "returns (getRelayAccountFromCache addr) w v s1"
    by (auto simp: releaseVestingToRelayAccount_def Let_def)
  show "\<exists>k. fst s1 = (fst s)\<lparr> d_events := d_events (fst s) @
      [(new_event RelayAccountEventTypeVestingRelease (BuildVestingReleaseReason i f t) addr (t - f) now)\<lparr> re_ID := k \<rparr>] \<rparr>"
    using e get_cache_effect(1)[OF g]
    by (auto simp: createRelayAccountEvent_def createRelayAccountEventWithID_def Let_def)
  show "\<And>s2 u s3. returns c s2 u s3 \<Longrightarrow> fst s3 = fst s2" by (rule release.commit_db[OF assms])
qed

lemma release_event_of:
  assumes "0 \<le> f"
  shows "release_of j ((new_event RelayAccountEventTypeVestingRelease (BuildVestingReleaseReason i f t) addr x now)\<lparr> re_ID := k \<rparr>) \<longleftrightarrow> j = i"
proof -
  have "SplitN dash 4 (BuildVestingReleaseReason i f t) = [FormatUint (event_type_num RelayAccountEventTypeVestingRelease), FormatUint i, FormatInt f, FormatInt t]"
    unfolding BuildVestingReleaseReason_def
    by (rule SplitN_release) (use assms in \<open>simp_all add: dash_not_in_FormatUint FormatInt_def\<close>)
  then show ?thesis by (auto simp: release_of_def)
qed

lemma single_release_effect:
  assumes inv: "vest_inv now d" and v: "find (\<lambda>v. v_ID v = i) (d_vestings d) = Some v"
    and le: "v_ReleasedAmount v < due v now"
    and d': "d' = d\<lparr> d_events := d_events d @ [(new_event RelayAccountEventTypeVestingRelease
        (BuildVestingReleaseReason i (v_ReleasedAmount v) (due v now)) (v_Address v) (due v now - v_ReleasedAmount v) now)\<lparr> re_ID := k \<rparr>],
      d_vestings := upd_where (\<lambda>w. v_ID w = i) (\<lambda>w. w\<lparr> v_ReleasedAmount := due v now,
        v_Status := (if due v now = v_TotalAmount v then VestingStatusCompleted else VestingStatusActive) \<rparr>) (d_vestings d) \<rparr>"
  shows "vest_inv now d'"
proof -
  have in_set: "v \<in> set (d_vestings d)" and id: "v_ID v = i" using v by (auto simp: find_Some_iff)
  have ok: "vesting_ok now d v" using inv in_set by (simp add: vest_inv_def)
  have nonneg: "0 \<le> v_ReleasedAmount v" using ok by (simp add: vesting_ok_def)
  have same: "w = v" if "w \<in> set (d_vestings d)" "v_ID w = i" for w
    using that in_set id inv by (auto simp: vest_inv_def distinct_map inj_on_def)
  have rs: "release_sum d' j = release_sum d j + (if j = i then due v now - v_ReleasedAmount v else 0)" for j
    by (simp add: release_sum_def d' release_event_of[OF nonneg])
  have ids: "map v_ID (d_vestings d') = map v_ID (d_vestings d)" by (simp add: d' upd_where_map)
  have "vesting_ok now d' w'" if "w' \<in> set (d_vestings d')" for w'
  proof -
    obtain w where w: "w \<in> set (d_vestings d)" "w' = (if v_ID w = i then w\<lparr> v_ReleasedAmount := due v now,
        v_Status := (if due v now = v_TotalAmount v then VestingStatusCompleted else VestingStatusActive) \<rparr> else w)"
      using \<open>w' \<in> set (d_vestings d')\<close> by (auto simp: d' upd_where_set)
    show ?thesis
    proof (cases "v_ID w = i")
      case True
      then show ?thesis using ok same[OF w(1)] le nonneg id by (simp add: w(2) vesting_ok_def rs due_def)
    next
      case False
      then show ?thesis using inv w(1) by (simp add: w(2) vest_inv_def vesting_ok_def rs)
    qed
  qed
  moreover have "\<exists>j\<in>set (map v_ID (d_vestings d')). release_of j e"
    if "e \<in> set (d_events d')" "re_Type e = RelayAccountEventTypeVestingRelease" for e
    using that inv in_set id unfolding ids by (auto simp: d' vest_inv_def release_event_of[OF nonneg])
  ultimately show ?thesis using inv by (simp add: vest_inv_def ids)
qed

lemma single_release_keeps:
  "db_steps (\<lambda>d d'. vest_inv now d \<longrightarrow> vest_inv now d') (processSingleVestingRelease i now)"
  unfolding processSingleVestingRelease_def
proof (rule vs.steps_txn_returns, rule impI)
  fix s u s'
  assume inv: "vest_inv now (fst s)"
    and r: "returns (bnd (read_db (\<lambda>d. find (\<lambda>v. v_ID v = i) (d_vestings d))) (\<lambda>found.
      bnd (of_option ErrVestingRecordNotFound found) (\<lambda>row.
      if v_Status row \<noteq> VestingStatusActive then ret ()
      else if v_Slashed row then ret ()
      else let shouldReleased = ComputeVestingShouldReleased (v_TotalAmount row) (v_StartTime row) (v_DurationDays row) now in
        if shouldReleased \<le> v_ReleasedAmount row
        then (if v_TotalAmount row \<le> v_ReleasedAmount row
              then set_vesting (v_ID row) (\<lambda>v. v\<lparr> v_Status := VestingStatusCompleted \<rparr>)
              else ret ())
        else if v_TotalAmount row < shouldReleased then raise ErrVestingReleaseExceedsSchedule
        else bnd (releaseVestingToRelayAccount (v_ID row) (v_Address row) (v_ReleasedAmount row) shouldReleased now) (\<lambda>commitFunc.
             bnd (set_vesting (v_ID row) (\<lambda>v. v\<lparr> v_ReleasedAmount := shouldReleased,
                    v_Status := (if shouldReleased = v_TotalAmount row then VestingStatusCompleted else VestingStatusActive) \<rparr>)) (\<lambda>_.
             commitFunc))))) s u s'"
  obtain v where v: "find (\<lambda>v. v_ID v = i) (d_vestings (fst s)) = Some v" using r by auto
  have in_set: "v \<in> set (d_vestings (fst s))" and id: "v_ID v = i" using v by (auto simp: find_Some_iff)
  have ok: "vesting_ok now (fst s) v" using inv in_set by (simp add: vest_inv_def)
  consider (same) "fst s' = fst s"
    | (finished) "v_TotalAmount v \<le> v_ReleasedAmount v" "fst s' = (fst s)\<lparr> d_vestings :=
        upd_where (\<lambda>w. v_ID w = i) (\<lambda>w. w\<lparr> v_Status := VestingStatusCompleted \<rparr>) (d_vestings (fst s)) \<rparr>"
    | (release) c s1 where "v_ReleasedAmount v < due v now"
        "returns (releaseVestingToRelayAccount i (v_Address v) (v_ReleasedAmount v) (due v now) now) s c s1"
        "returns c ((fst s1)\<lparr> d_vestings := upd_where (\<lambda>w. v_ID w = i) (\<lambda>w. w\<lparr> v_ReleasedAmount := due v now,
          v_Status := (if due v now = v_TotalAmount v then VestingStatusCompleted else VestingStatusActive) \<rparr>) (d_vestings (fst s1)) \<rparr>, snd s1) u s'"
    using r v id by (auto simp: set_vesting_def due_def Let_def split: if_splits)
  then show "vest_inv now (fst s')"
  proof cases
    case same
    then show ?thesis using inv by simp
  next
    case finished
    have t: "v_ReleasedAmount v = v_TotalAmount v"
      using finished(1) ok should_released_le[of "v_TotalAmount v" "v_StartTime v" "v_DurationDays v" now]
      by (simp add: vesting_ok_def due_def)
    have uniq: "w = v" if "w \<in> set (d_vestings (fst s))" "v_ID w = i" for w
      using that in_set id inv by (auto simp: vest_inv_def distinct_map inj_on_def)
    show ?thesis
      by (rule vest_inv_rows[rule_format, OF _ _ _ inv])
        (use finished(2) uniq t in \<open>auto simp: upd_where_map upd_where_set due_def fun_eq_iff\<close>)
  next
    case release
    obtain k where k: "fst s1 = (fst s)\<lparr> d_events := d_events (fst s) @ [(new_event RelayAccountEventTypeVestingRelease
        (BuildVestingReleaseReason i (v_ReleasedAmount v) (due v now)) (v_Address v) (due v now - v_ReleasedAmount v) now)\<lparr> re_ID := k \<rparr>] \<rparr>"
      using release_run(2)[OF release(2)] by blast
    show ?thesis
      by (rule single_release_effect[OF inv v release(1)])
        (use release_run(3)[OF release(2,3)] k in simp)
  qed
qed

lemma release_batches_keeps:
  "db_steps (\<lambda>d d'. vest_inv now d \<longrightarrow> vest_inv now d') (release_batches fuel batchSize startID now)"
proof (induction fuel batchSize startID now rule: release_batches.induct)
  case (2 fuel batchSize startID now)
  show ?case
    unfolding release_batches.simps
    by (intro vs.steps_intros vs.steps_frame frame_read_db single_release_keeps 2) simp
qed (simp add: vs.steps_ret)

lemma process_due_keeps:
  "db_steps (\<lambda>d d'. vest_inv now d \<longrightarrow> vest_inv now d') (ProcessDueVestingReleases fuel now batchSize)"
  unfolding ProcessDueVestingReleases_def hasPendingVestingReleaseEvent_def Let_def
  by (intro vs.steps_intros vs.steps_frame frame_read_db release_batches_keeps)

text \<open>The databases vestings can reach, with a clock that does not run backwards.\<close>

inductive vest_reach :: "time \<Rightarrow> db \<Rightarrow> bool" where
  vr_start: "d_vestings d = [] \<Longrightarrow> \<forall>e\<in>set (d_events d). re_Type e \<noteq> RelayAccountEventTypeVestingRelease \<Longrightarrow>
    vest_reach now d"
| vr_clock: "vest_reach T d \<Longrightarrow> T \<le> now \<Longrightarrow> vest_reach now d"
| vr_create: "vest_reach now d \<Longrightarrow> vest_reach now (fst (snd (CreateVestingRecords cfg lib inputs now (d, m))))"
| vr_release: "vest_reach now d \<Longrightarrow> vest_reach now (fst (snd (ProcessDueVestingReleases fuel now batchSize (d, m))))"
| vr_slash: "vest_reach now d \<Longrightarrow> vest_reach now (fst (snd (SlashNodeVestings cfg addr now (d, m))))"
| vr_restore: "vest_reach now d \<Longrightarrow> vest_reach now (fst (snd (RestoreNodeVestings cfg lib addr now (d, m))))"
| vr_settle: "vest_reach now d \<Longrightarrow> vest_reach now (fst (snd (processPendingRelayAccountEvents tx mac events (d, m))))"
| vr_other: "vest_reach now d \<Longrightarrow> d_vestings d' = d_vestings d \<Longrightarrow> d_events d' = d_events d @ es \<Longrightarrow>
    \<forall>e\<in>set es. re_Type e \<noteq> RelayAccountEventTypeVestingRelease \<Longrightarrow> vest_reach now d'"

lemma steps_run: "db_steps R f \<Longrightarrow> R d (fst (snd (f (d, m))))"
  unfolding db_steps_def by (metis fst_conv)

lemma vest_reach_inv: "vest_reach now d \<Longrightarrow> vest_inv now d"
proof (induction rule: vest_reach.induct)
  case (vr_start d now)
  then show ?case by (simp add: vest_inv_def)
next
  case (vr_clock T d now)
  then show ?case by (blast intro: vest_inv_later)
next
  case (vr_create now d cfg lib inputs m)
  then show ?case using steps_run[OF create_records_keeps] by blast
next
  case (vr_release now d fuel batchSize m)
  then show ?case using steps_run[OF process_due_keeps] by blast
next
  case (vr_slash now d cfg addr m)
  then show ?case using steps_run[OF slash_keeps] by blast
next
  case (vr_restore now d cfg lib addr m)
  then show ?case using steps_run[OF restore_keeps] by blast
next
  case (vr_settle now d tx mac events m)
  then show ?case using steps_run[OF vest_settle_keeps] by blast
next
  case (vr_other now d d' es)
  then show ?case using vest_inv_cong by blast
qed

text \<open>
  C6: however creations, releases, slashes, restorations and settlements interleave, and whether
  they succeed or fail, the released amount of a vesting is exactly the sum of its release events
  in the ledger, never more than what the schedule allows at the current time, never more than
  the total, and equal to the total once the vesting is completed.
\<close>

theorem vesting_releases_on_schedule:
  assumes "vest_reach now d" and "v \<in> set (d_vestings d)"
  shows "release_sum d (v_ID v) = v_ReleasedAmount v
    \<and> 0 \<le> v_ReleasedAmount v
    \<and> v_ReleasedAmount v \<le> ComputeVestingShouldReleased (v_TotalAmount v) (v_StartTime v) (v_DurationDays v) now
    \<and> v_ReleasedAmount v \<le> v_TotalAmount v
    \<and> (v_Status v = VestingStatusCompleted \<longrightarrow> v_ReleasedAmount v = v_TotalAmount v)"
proof -
  have "vesting_ok now d v" using vest_reach_inv[OF assms(1)] assms(2) by (simp add: vest_inv_def)
  then show ?thesis
    using should_released_le[of "v_TotalAmount v" "v_StartTime v" "v_DurationDays v" now]
    by (simp add: vesting_ok_def due_def)
qed

section \<open>The release loop ends\<close>

lemma single_release_ids:
  assumes "returns (processSingleVestingRelease i now) s u s'"
  shows "map v_ID (d_vestings (fst s')) = map v_ID (d_vestings (fst s))"
proof -
  obtain v where v: "find (\<lambda>v. v_ID v = i) (d_vestings (fst s)) = Some v"
    using assms by (auto simp: processSingleVestingRelease_def)
  have id: "v_ID v = i" using v by (auto simp: find_Some_iff)
  consider (same) "s' = s"
    | (upd) "d_vestings (fst s') =
        upd_where (\<lambda>w. v_ID w = i) (\<lambda>w. w\<lparr> v_Status := VestingStatusCompleted \<rparr>) (d_vestings (fst s))"
    | (release) c s1 t st where
        "returns (releaseVestingToRelayAccount i (v_Address v) (v_ReleasedAmount v) t now) s c s1"
        "returns c ((fst s1)\<lparr> d_vestings := upd_where (\<lambda>w. v_ID w = i) (\<lambda>w. w\<lparr> v_ReleasedAmount := t,
          v_Status := st \<rparr>) (d_vestings (fst s1)) \<rparr>, snd s1) u s'"
    using assms v id
    by (auto simp: processSingleVestingRelease_def set_vesting_def Let_def split: if_splits)
  then show ?thesis
  proof cases
    case release
    have "d_vestings (fst s1) = d_vestings (fst s)" using release_run(2)[OF release(1)] by auto
    then show ?thesis using release_run(3)[OF release] by (simp add: upd_where_map)
  qed (simp_all add: upd_where_map)
qed

lemma releases_ids:
  "returns (for_each vs (\<lambda>v. processSingleVestingRelease (v_ID v) now)) s u s' \<Longrightarrow>
   map v_ID (d_vestings (fst s')) = map v_ID (d_vestings (fst s))"
proof (induction vs arbitrary: s)
  case (Cons v vs)
  then obtain w where "returns (processSingleVestingRelease (v_ID v) now) s () w"
    "returns (for_each vs (\<lambda>v. processSingleVestingRelease (v_ID v) now)) w u s'" by auto
  then show ?case using Cons.IH single_release_ids by metis
qed simp

lemma filter_ids: "length (filter (\<lambda>v. k < v_ID v) vs) = length (filter (\<lambda>i. k < i) (map v_ID vs))"
  by (simp add: filter_map o_def)

lemma length_filter_less_strict:
  "x \<in> set xs \<Longrightarrow> k < x \<Longrightarrow> length (filter (\<lambda>i. x < i) xs) < length (filter (\<lambda>i. k < i) (xs :: nat list))"
proof -
  assume x: "x \<in> set xs" "k < x"
  have "filter (\<lambda>i. x < i) xs = filter (\<lambda>i. x < i) (filter (\<lambda>i. k < i) xs)" using x(2) by (auto intro!: filter_cong)
  moreover have "x \<in> set (filter (\<lambda>i. k < i) xs)" using x by simp
  ultimately show ?thesis by (metis length_filter_less less_irrefl)
qed

lemma release_batches_end:
  assumes "length (filter (\<lambda>v. startID < v_ID v) (d_vestings (fst s))) < fuel" "0 < batchSize"
  shows "\<not> returns (release_batches fuel batchSize startID now) s False s'"
  using assms
proof (induction fuel batchSize startID now arbitrary: s rule: release_batches.induct)
  case (2 fuel batchSize startID now)
  let ?rs = "take batchSize (filter (\<lambda>v. vesting_locked_row v \<and> startID < v_ID v) (d_vestings (fst s)))"
  show ?case
  proof (cases "?rs = []")
    case True
    then show ?thesis by simp
  next
    case False
    have "last ?rs \<in> set (d_vestings (fst s)) \<and> startID < v_ID (last ?rs)"
      using last_in_set[OF False] by (auto dest!: in_set_takeD)
    then have less: "length (filter (\<lambda>v. v_ID (last ?rs) < v_ID v) (d_vestings (fst s)))
        < length (filter (\<lambda>v. startID < v_ID v) (d_vestings (fst s)))"
      unfolding filter_ids by (intro length_filter_less_strict) auto
    have "\<not> returns (release_batches fuel batchSize (v_ID (last ?rs)) now) w False s'"
      if "returns (for_each ?rs (\<lambda>v. processSingleVestingRelease (v_ID v) now)) s u w" for u w
    proof (rule "2.IH"[OF False])
      show "length (filter (\<lambda>v. v_ID (last ?rs) < v_ID v) (d_vestings (fst w))) < fuel"
        using less "2.prems"(1) releases_ids[OF that] unfolding filter_ids by simp
    qed (rule "2.prems"(2))
    then show ?thesis using False by auto
  qed
qed simp

text \<open>
  C20: a pass over the due vestings ends: with more rounds than there are vestings it never runs
  out of rounds, whatever the batch size, so it either finishes or reports an error.
\<close>

theorem due_releases_terminate:
  assumes "length (d_vestings d) < fuel"
  shows "\<not> returns (ProcessDueVestingReleases fuel now batchSize) (d, m) False s'"
proof -
  have "length (filter (\<lambda>v. 0 < v_ID v) (d_vestings (fst (d, m)))) < fuel"
    using assms by (simp add: le_less_trans[OF length_filter_le])
  then show ?thesis
    using release_batches_end[of 0 "(d, m)" fuel "nat (if batchSize \<le> 0 then 100 else batchSize)"]
    by (simp add: ProcessDueVestingReleases_def hasPendingVestingReleaseEvent_def Let_def split: if_splits)
qed

section \<open>Slashing is undone by restoring\<close>

lemma refresh_db: "returns (RefreshNodeScoreStake cfg addr now) s u s' \<Longrightarrow> fst s' = fst s"
  by (auto simp: RefreshNodeScoreStake_def RefreshNodeVestingStake_def UpdateMaxStaking_def split: option.splits)

lemma filter_upd_where_other:
  "(\<And>r. p r \<Longrightarrow> \<not> Q r \<and> \<not> Q (f r)) \<Longrightarrow> filter Q (upd_where p f rows) = filter Q rows"
  by (induction rows) (auto simp: upd_where_def)

lemma filter_upd_where_none:
  "(\<And>r. p r \<Longrightarrow> \<not> p (f r)) \<Longrightarrow> filter p (upd_where p f rows) = []"
  by (induction rows) (auto simp: upd_where_def)

lemma slash_rows:
  assumes "returns (SlashNodeVestings cfg addr now) (d, m) u s'"
  shows "d_vestings (fst s') = upd_where (\<lambda>v. v_Address v = addr \<and> vesting_locked_row v)
    (\<lambda>v. v\<lparr> v_Slashed := True \<rparr>) (d_vestings d)"
  using assms by (auto simp: SlashNodeVestings_def SlashNodeVestingsTx_def dest!: refresh_db split: if_splits)

lemma restore_rows:
  assumes "returns (RestoreNodeVestings cfg lib addr now) (d, m) u s'"
  shows "d_vestings (fst s') = upd_where (\<lambda>v. v_Address v = addr \<and> v_Slashed v)
    (\<lambda>v. v\<lparr> v_Slashed := False \<rparr>) (d_vestings d)"
  using assms by (auto simp: RestoreNodeVestings_def dest!: refresh_db split: if_splits)


section \<open>The cache of locked stakes agrees with the table\<close>

lemma cache_set_locked:
  "vestingCache_lockedAmount (vestingCache_set addr vs c) addr now = sum_list (map (\<lambda>v. LockedAmountAt v now) vs)"
  by (simp add: vestingCache_lockedAmount_def vestingCache_set_def AList.delete_conv' AList.update_conv')

lemma cache_set_other:
  "b \<noteq> addr \<Longrightarrow> vestingCache_lockedAmount (vestingCache_set addr vs c) b now = vestingCache_lockedAmount c b now"
  by (simp add: vestingCache_lockedAmount_def vestingCache_set_def AList.delete_conv' AList.update_conv')

lemma score_stake_maxStaking [simp]:
  "GetNodeScoreStakeAmount cfg (m\<lparr> m_maxStaking := y \<rparr>) node now = GetNodeScoreStakeAmount cfg m node now"
proof -
  let ?m = "m\<lparr> m_maxStaking := y \<rparr>"
  have "GetNodeTotalStakeAmount ?m a n = GetNodeTotalStakeAmount m a n" for a n
    by (simp add: GetNodeTotalStakeAmount_def)
  moreover have "GetNodeScoreLockedEmissionAmount cfg ?m a now = GetNodeScoreLockedEmissionAmount cfg m a now" for a
    by (simp add: GetNodeScoreLockedEmissionAmount_def GetNodeLockedVestingAmount_def)
  moreover have "GetCachedRelayAccountBalance ?m a = GetCachedRelayAccountBalance m a" for a
    by (simp add: GetCachedRelayAccountBalance_def)
  ultimately show ?thesis unfolding GetNodeScoreStakeAmount_def by (simp only:)
qed

text \<open>
  C9: refreshing an address makes the cached locked amount, at any later time as well, the one
  computed from the table, leaves the cached amounts of all other addresses, and records in the
  stake maximum the score stake computed from the refreshed cache.
\<close>

theorem refresh_makes_locked_stake_current:
  assumes "returns (RefreshNodeScoreStake cfg addr now) (d, m) () (d', m')"
  shows "d' = d
    \<and> GetNodeLockedVestingAmount m' addr t = GetAddressLockedVestingAmount d addr t
    \<and> (\<forall>b. b \<noteq> addr \<longrightarrow> GetNodeLockedVestingAmount m' b t = GetNodeLockedVestingAmount m b t)
    \<and> (\<forall>node. find (\<lambda>n. addr = [] \<or> n_Address n = addr) (d_nodes d) = Some node \<longrightarrow>
         (\<exists>x. GetNodeScoreStakeAmount cfg m' node now = Inr x \<and> map_of (ms_stakingMap (m_maxStaking m')) addr = Some x))"
proof -
  let ?m1 = "m\<lparr> m_vestings := Some (vestingCache_set addr
    (filter (\<lambda>v. v_Address v = addr \<and> vesting_locked_row v) (d_vestings d))
    (case m_vestings m of None \<Rightarrow> [] | Some c \<Rightarrow> c)) \<rparr>"
  have locked: "GetNodeLockedVestingAmount ?m1 addr t = GetAddressLockedVestingAmount d addr t"
    "\<forall>b. b \<noteq> addr \<longrightarrow> GetNodeLockedVestingAmount ?m1 b t = GetNodeLockedVestingAmount m b t"
    by (auto simp: GetNodeLockedVestingAmount_def GetAddressLockedVestingAmount_def cache_set_locked cache_set_other
        vestingCache_lockedAmount_def[of "[]"] split: option.splits)
  show ?thesis
  proof (cases "find (\<lambda>n. addr = [] \<or> n_Address n = addr) (d_nodes d)")
    case None
    then have "d' = d" "m' = ?m1" using assms by (auto simp: RefreshNodeScoreStake_def RefreshNodeVestingStake_def)
    then show ?thesis using locked None by simp
  next
    case (Some node)
    then obtain x where x: "GetNodeScoreStakeAmount cfg ?m1 node now = Inr x"
      and m': "d' = d" "m' = ?m1\<lparr> m_maxStaking := maxStaking_update addr x (m_maxStaking ?m1) \<rparr>"
      using assms by (auto simp: RefreshNodeScoreStake_def RefreshNodeVestingStake_def UpdateMaxStaking_def)
    have same: "GetNodeLockedVestingAmount m' b u = GetNodeLockedVestingAmount ?m1 b u" for b u
      by (simp add: m'(2) GetNodeLockedVestingAmount_def)
    have "GetNodeScoreStakeAmount cfg m' node now = Inr x"
      using x unfolding m'(2) by (simp only: score_stake_maxStaking)
    moreover have "map_of (ms_stakingMap (m_maxStaking m')) addr = Some x"
      by (simp add: m'(2) maxStaking_update_def Let_def AList.update_conv' split: prod.split)
    ultimately show ?thesis using locked Some m'(1) same by simp
  qed
qed

subsection \<open>Concrete runs\<close>

definition trusting_lib :: crypto_lib where
  "trusting_lib = \<lparr> cl_IsHexAddress = (\<lambda>_. True), cl_HexDecode = (\<lambda>_. Some (replicate 65 (CHR ''x''))),
     cl_Keccak256 = (\<lambda>b. b), cl_SigToAddress = (\<lambda>_ _. Some ''signer'') \<rparr>"

definition sample_input :: CreateVestingRecordInput where
  "sample_input = \<lparr> vi_Address = ''a'', vi_TotalAmount = ''100'', vi_StartTime = 0, vi_DurationDays = 10,
     vi_Type = ''node'', vi_AdminSignature = replicate 130 (CHR ''f''), vi_DelegationDetails = [] \<rparr>"

definition sample_vesting :: VestingRecord where
  "sample_vesting = \<lparr> v_ID = 1, v_Address = ''a'', v_TotalAmount = 100, v_ReleasedAmount = 0, v_StartTime = 0,
     v_DurationDays = 10, v_Type = ''node'', v_AdminSignature = replicate 130 (CHR ''f''),
     v_Status = VestingStatusActive, v_Slashed = False \<rparr>"

lemma sample_normalized:
  "normalizeVestingInput trusting_lib sample_input = Inr (\<lparr> sp_Address = ''a'', sp_TotalAmount = FormatInt 100,
     sp_StartTime = 0, sp_DurationDays = 10, sp_Type = ''node'' \<rparr>, 100)"
  by (simp add: normalizeVestingInput_def trusting_lib_def sample_input_def TrimSpace_def is_space_def
      isValidVestingType_def SetString10_def is_digit_def digit_val_def isValidUint256Amount_def)

lemma sample_verified:
  "verifyVestingCreationSignature sample_cfg trusting_lib sample_input payload = Inr ()"
proof -
  have "TrimPrefix (replicate 130 (CHR ''f'')) ''0x'' = replicate 130 (CHR ''f'')"
    by (simp add: TrimPrefix_def take_replicate)
  then show ?thesis
    by (simp add: verifyVestingCreationSignature_def trusting_lib_def sample_input_def sample_cfg_def TrimSpace_def
        is_space_def ValidateSignatureFormat_def RecoverAddress_def EqualFold_def Let_def)
qed

lemma sample_input_fields: "vi_DelegationDetails sample_input = []"
    "vi_AdminSignature sample_input = replicate 130 (CHR ''f'')"
  by (simp_all add: sample_input_def)

lemma sample_creation:
  "fst (snd (CreateVestingRecords sample_cfg trusting_lib [sample_input] 0 (empty_db, empty_mem))) =
    empty_db\<lparr> d_vestings := [sample_vesting], d_events :=
      [(new_event RelayAccountEventTypeVestingCreated (BuildVestingCreatedReason sample_vesting) ''a'' 0 0)\<lparr> re_ID := 1 \<rparr>] \<rparr>"
  by (simp add: CreateVestingRecords_def create_one_vesting_def sample_normalized sample_verified op_simps
      normalizeVestingDelegationDetails_def create_vesting_row_def createVestingCreatedRelayAccountEvent_def
      createRelayAccountEvent_def createRelayAccountEventWithID_def UpsertNodeDelegationEmissionWeeklyTotalIncrements_def
      RefreshNodeScoreStake_def RefreshNodeVestingStake_def empty_db_def sample_input_fields sample_vesting_def
      next_id_def Let_def)

theorem vesting_releases_on_schedule_witness:
  "\<exists>d v. vest_reach 0 d \<and> v \<in> set (d_vestings d) \<and> v_TotalAmount v = 100
    \<and> release_sum d (v_ID v) = v_ReleasedAmount v"
proof -
  have "vest_reach 0 empty_db" by (rule vr_start) (simp_all add: empty_db_def)
  from vr_create[OF this, of sample_cfg trusting_lib "[sample_input]" empty_mem]
  obtain d where d: "vest_reach 0 d" "d_vestings d = [sample_vesting]" by (simp add: sample_creation)
  then have "sample_vesting \<in> set (d_vestings d)" by simp
  from vesting_releases_on_schedule[OF d(1) this] this d(1)
  show ?thesis by (intro exI[of _ d] exI[of _ sample_vesting]) (simp add: sample_vesting_def)
qed

theorem due_releases_terminate_witness:
  "\<not> returns (ProcessDueVestingReleases 2 0 100) (empty_db\<lparr> d_vestings := [sample_vesting] \<rparr>, empty_mem) False (empty_db, empty_mem)"
  by (rule due_releases_terminate) simp

definition slashed_db :: db where
  "slashed_db = empty_db\<lparr> d_vestings := [sample_vesting\<lparr> v_Slashed := True \<rparr>] \<rparr>"

definition vested_db :: db where
  "vested_db = empty_db\<lparr> d_vestings := [sample_vesting] \<rparr>"

lemma slash_restore_runs:
  "\<exists>m1. returns (SlashNodeVestings sample_cfg ''a'' 0) (vested_db, m) () (slashed_db, m1)"
  "\<exists>m2. returns (RestoreNodeVestings sample_cfg trusting_lib ''a'' 0) (slashed_db, m) () (vested_db, m2)"
  by (auto simp: SlashNodeVestings_def SlashNodeVestingsTx_def RestoreNodeVestings_def RefreshNodeScoreStake_def
      RefreshNodeVestingStake_def vested_db_def slashed_db_def sample_vesting_def trusting_lib_def
      vesting_locked_row_def upd_where_def empty_db_def)


lemma refresh_runs: "\<exists>m'. returns (RefreshNodeScoreStake sample_cfg ''a'' 0) (vested_db, empty_mem) () (vested_db, m')"
  by (simp add: RefreshNodeScoreStake_def RefreshNodeVestingStake_def vested_db_def empty_db_def)

theorem refresh_makes_locked_stake_current_witness:
  "\<exists>m'. returns (RefreshNodeScoreStake sample_cfg ''a'' 0) (vested_db, empty_mem) () (vested_db, m')
    \<and> GetNodeLockedVestingAmount m' ''a'' 0 = GetAddressLockedVestingAmount vested_db ''a'' 0"
  using refresh_runs refresh_makes_locked_stake_current by blast

end
