(* ===== verification/NodeNames.thy ===== *)
theory NodeNames
  imports State "HOL-Library.Product_Lexorder"
begin

text \<open>
  Node names (\<^verbatim>\<open>service/node_name_policy.go\<close>): the triple of graphics card, its memory and the node
  version.  A table counts the active nodes of every name, a whitelist restricts the names that get
  tasks, and both are cached under a textual key.  Database errors and collations are not modelled;
  a listing from the cache is sorted by bytes, as the code does it.
\<close>

section \<open>Names and keys\<close>

abbreviation dot :: char where "dot \<equiv> CHR ''.''"

abbreviation bar :: char where "bar \<equiv> CHR ''|''"

definition BuildNodeVersion :: "nat \<Rightarrow> nat \<Rightarrow> nat \<Rightarrow> string" where
  "BuildNodeVersion major minor patch = FormatUint major @ dot # FormatUint minor @ dot # FormatUint patch"

definition ParseNodeVersion :: "string \<Rightarrow> go_error + (nat \<times> nat \<times> nat)" where
  "ParseNodeVersion version =
    (case Split dot version of
       [a, b, c] \<Rightarrow>
         (case (ParseUint a, ParseUint b, ParseUint c) of
            (Some major, Some minor, Some patch) \<Rightarrow> Inr (major, minor, patch)
          | _ \<Rightarrow> Inl ErrInvalidNodeNameVersion)
     | _ \<Rightarrow> Inl ErrInvalidNodeNameVersion)"

definition NormalizeGPUName :: "string \<Rightarrow> string" where
  "NormalizeGPUName name = Join CHR '' '' (Fields name)"

definition NormalizeNodeNameEntry :: "string \<Rightarrow> nat \<Rightarrow> string \<Rightarrow> go_error + NodeNameWhitelist" where
  "NormalizeNodeNameEntry gpuName gpuVram nodeVersion =
    (let normalizedGPUName = NormalizeGPUName gpuName in
     if normalizedGPUName = [] then Inl ErrInvalidNodeNameGPUName
     else case ParseNodeVersion (TrimSpace nodeVersion) of
            Inl e \<Rightarrow> Inl e
          | Inr (major, minor, patch) \<Rightarrow>
              Inr \<lparr> nw_GPUName = normalizedGPUName, nw_GPUVram = gpuVram,
                    nw_NodeVersion = BuildNodeVersion major minor patch \<rparr>)"

definition BuildNodeNameKey :: "string \<Rightarrow> nat \<Rightarrow> string \<Rightarrow> string" where
  "BuildNodeNameKey gpuName gpuVram nodeVersion = gpuName @ bar # FormatUint gpuVram @ bar # nodeVersion"

definition node_version :: "Node \<Rightarrow> string" where
  "node_version node = BuildNodeVersion (n_MajorVersion node) (n_MinorVersion node) (n_PatchVersion node)"

definition BuildNodeNameKeyFromNode :: "Node \<Rightarrow> string" where
  "BuildNodeNameKeyFromNode node = BuildNodeNameKey (n_GPUName node) (n_GPUVram node) (node_version node)"

definition parseNodeNameKey :: "string \<Rightarrow> (string \<times> nat \<times> string) option" where
  "parseNodeNameKey key =
    (case Split bar key of
       [gpuName, vram, nodeVersion] \<Rightarrow> map_option (\<lambda>v. (gpuName, v, nodeVersion)) (ParseUint vram)
     | _ \<Rightarrow> None)"

definition IsNodeStatusActiveForNodeNameCount :: "NodeStatus \<Rightarrow> bool" where
  "IsNodeStatusActiveForNodeNameCount status \<longleftrightarrow> status \<noteq> NodeStatusQuit \<and> status \<noteq> NodeStatusPaused"

section \<open>The whitelist\<close>

definition whitelist_key :: "NodeNameWhitelist \<Rightarrow> string" where
  "whitelist_key e = BuildNodeNameKey (nw_GPUName e) (nw_GPUVram e) (nw_NodeVersion e)"

definition RefreshNodeNameWhitelistCache :: "unit relay" where
  "RefreshNodeNameWhitelistCache =
    bnd (read_db d_name_whitelist) (\<lambda>entries.
    write_mem (\<lambda>m. m\<lparr> m_nameWhitelist := Some (remdups (map whitelist_key entries)) \<rparr>))"

definition ensureNodeNameWhitelistCacheLoaded :: "unit relay" where
  "ensureNodeNameWhitelistCacheLoaded =
    bnd (read_mem m_nameWhitelist) (\<lambda>cache.
    case cache of Some _ \<Rightarrow> ret () | None \<Rightarrow> RefreshNodeNameWhitelistCache)"

definition AddNodeNameWhitelist :: "string \<Rightarrow> nat \<Rightarrow> string \<Rightarrow> unit relay" where
  "AddNodeNameWhitelist gpuName gpuVram nodeVersion =
    bnd (of_sum (NormalizeNodeNameEntry gpuName gpuVram nodeVersion)) (\<lambda>entry.
    bnd (read_db d_name_whitelist) (\<lambda>rows.
    bnd (check (entry \<notin> set rows) ErrNodeNameWhitelistExists) (\<lambda>_.
    seq (write_db (\<lambda>d. d\<lparr> d_name_whitelist := d_name_whitelist d @ [entry] \<rparr>))
        RefreshNodeNameWhitelistCache)))"

definition DeleteNodeNameWhitelist :: "string \<Rightarrow> nat \<Rightarrow> string \<Rightarrow> unit relay" where
  "DeleteNodeNameWhitelist gpuName gpuVram nodeVersion =
    bnd (of_sum (NormalizeNodeNameEntry gpuName gpuVram nodeVersion)) (\<lambda>entry.
    bnd (read_db d_name_whitelist) (\<lambda>rows.
    bnd (check (entry \<in> set rows) ErrNodeNameWhitelistMissing) (\<lambda>_.
    seq (write_db (\<lambda>d. d\<lparr> d_name_whitelist := filter (\<lambda>r. r \<noteq> entry) (d_name_whitelist d) \<rparr>))
        RefreshNodeNameWhitelistCache)))"

definition IsNodeNameWhitelisted :: "string \<Rightarrow> nat \<Rightarrow> string \<Rightarrow> bool relay" where
  "IsNodeNameWhitelisted gpuName gpuVram nodeVersion =
    bnd (of_sum (NormalizeNodeNameEntry gpuName gpuVram nodeVersion)) (\<lambda>entry.
    seq ensureNodeNameWhitelistCacheLoaded
        (read_mem (\<lambda>m. case m_nameWhitelist m of None \<Rightarrow> False | Some keys \<Rightarrow> whitelist_key entry \<in> set keys)))"

definition ListNodeNameWhitelistFromCache :: "NodeNameWhitelist list relay" where
  "ListNodeNameWhitelistFromCache =
    seq ensureNodeNameWhitelistCacheLoaded
      (read_mem (\<lambda>m.
        sort_key (\<lambda>e. (nw_GPUName e, nw_GPUVram e, nw_NodeVersion e))
          (List.map_filter (\<lambda>key. map_option (\<lambda>(g, v, ver). \<lparr> nw_GPUName = g, nw_GPUVram = v, nw_NodeVersion = ver \<rparr>)
             (parseNodeNameKey key))
           (case m_nameWhitelist m of None \<Rightarrow> [] | Some keys \<Rightarrow> keys))))"

section \<open>The counts\<close>

definition count_key :: "NodeNameCount \<Rightarrow> string" where
  "count_key e = BuildNodeNameKey (nc_GPUName e) (nc_GPUVram e) (nc_NodeVersion e)"

definition RefreshNodeNameCountCache :: "unit relay" where
  "RefreshNodeNameCountCache =
    bnd (read_db d_name_counts) (\<lambda>entries.
    write_mem (\<lambda>m. m\<lparr> m_nameCounts :=
      Some (foldl (\<lambda>cache e. AList.update (count_key e) (nc_ActiveCount e) cache) [] entries) \<rparr>))"

definition ensureNodeNameCountCacheLoaded :: "unit relay" where
  "ensureNodeNameCountCacheLoaded =
    bnd (read_mem m_nameCounts) (\<lambda>cache.
    case cache of Some _ \<Rightarrow> ret () | None \<Rightarrow> RefreshNodeNameCountCache)"

definition GetNodeNameActiveCount :: "string \<Rightarrow> nat \<Rightarrow> string \<Rightarrow> nat relay" where
  "GetNodeNameActiveCount gpuName gpuVram nodeVersion =
    bnd (of_sum (NormalizeNodeNameEntry gpuName gpuVram nodeVersion)) (\<lambda>entry.
    seq ensureNodeNameCountCacheLoaded
        (read_mem (\<lambda>m. case m_nameCounts m of None \<Rightarrow> 0
           | Some counts \<Rightarrow> (case map_of counts (whitelist_key entry) of None \<Rightarrow> 0 | Some c \<Rightarrow> c))))"

definition ListNodeNameCountsFromCache :: "NodeNameCount list relay" where
  "ListNodeNameCountsFromCache =
    seq ensureNodeNameCountCacheLoaded
      (read_mem (\<lambda>m.
        sort_key (\<lambda>e. (nc_GPUName e, nc_GPUVram e, nc_NodeVersion e))
          (List.map_filter (\<lambda>(key, c). map_option (\<lambda>(g, v, ver).
               \<lparr> nc_GPUName = g, nc_GPUVram = v, nc_NodeVersion = ver, nc_ActiveCount = c \<rparr>) (parseNodeNameKey key))
           (case m_nameCounts m of None \<Rightarrow> [] | Some counts \<Rightarrow> counts))))"

definition named :: "Node \<Rightarrow> NodeNameCount \<Rightarrow> bool" where
  "named node e \<longleftrightarrow> nc_GPUName e = n_GPUName node \<and> nc_GPUVram e = n_GPUVram node \<and> nc_NodeVersion e = node_version node"

text \<open>The insert adds one to the row that already has the name, the unique index of the table.\<close>

definition IncrementNodeNameCountTx :: "Node \<Rightarrow> unit relay" where
  "IncrementNodeNameCountTx node =
    write_db (\<lambda>d. d\<lparr> d_name_counts :=
      (if \<exists>e\<in>set (d_name_counts d). named node e
       then upd_where (named node) (\<lambda>e. e\<lparr> nc_ActiveCount := nc_ActiveCount e + 1 \<rparr>) (d_name_counts d)
       else d_name_counts d @ [\<lparr> nc_GPUName = n_GPUName node, nc_GPUVram = n_GPUVram node,
              nc_NodeVersion = node_version node, nc_ActiveCount = 1 \<rparr>]) \<rparr>)"

definition DecrementNodeNameCountTx :: "Node \<Rightarrow> unit relay" where
  "DecrementNodeNameCountTx node =
    bnd (read_db (\<lambda>d. filter (named node) (d_name_counts d))) (\<lambda>rows.
    if filter (\<lambda>e. 0 < nc_ActiveCount e) rows = []
    then (if rows = [] then raise ErrNodeNameCountEntryMissing else raise ErrNodeNameCountAlreadyZero)
    else write_db (\<lambda>d. d\<lparr> d_name_counts :=
           filter (\<lambda>e. \<not> (named node e \<and> nc_ActiveCount e = 0))
             (upd_where (\<lambda>e. named node e \<and> 0 < nc_ActiveCount e)
                (\<lambda>e. e\<lparr> nc_ActiveCount := nc_ActiveCount e - 1 \<rparr>) (d_name_counts d)) \<rparr>))"

definition ApplyNodeNameCountDeltaToCache :: "string \<Rightarrow> nat \<Rightarrow> string \<Rightarrow> int \<Rightarrow> unit relay" where
  "ApplyNodeNameCountDeltaToCache gpuName gpuVram nodeVersion delta =
    write_mem (\<lambda>m. case m_nameCounts m of
        None \<Rightarrow> m
      | Some counts \<Rightarrow>
          let key = BuildNodeNameKey gpuName gpuVram nodeVersion;
              current = (case map_of counts key of None \<Rightarrow> 0 | Some c \<Rightarrow> int c);
              next = current + delta
          in m\<lparr> m_nameCounts := Some (if next \<le> 0 then AList.delete key counts
                                    else AList.update key (nat next) counts) \<rparr>)"

section \<open>Names read back\<close>

lemma BuildNodeVersion_Join: "BuildNodeVersion a b c = Join dot [FormatUint a, FormatUint b, FormatUint c]"
  by (simp add: BuildNodeVersion_def)

lemma not_in_digits: "\<not> is_digit c \<Longrightarrow> c \<notin> set (FormatUint n)"
  using FormatUint_digits by blast

lemma separators_no_digits [simp]: "\<not> is_digit dot" "\<not> is_digit bar" "\<not> is_digit CHR '' ''"
  by (simp_all add: is_digit_def)

lemma ParseNodeVersion_Build:
  assumes "a < 2 ^ 64" "b < 2 ^ 64" "c < 2 ^ 64"
  shows "ParseNodeVersion (BuildNodeVersion a b c) = Inr (a, b, c)"
proof -
  have "Split dot (BuildNodeVersion a b c) = [FormatUint a, FormatUint b, FormatUint c]"
    unfolding BuildNodeVersion_Join by (rule Split_Join) (auto simp: not_in_digits)
  with assms show ?thesis by (simp add: ParseNodeVersion_def del: Join.simps)
qed

lemma version_chars: "ch \<in> set (BuildNodeVersion a b c) \<Longrightarrow> is_digit ch \<or> ch = dot"
  by (auto simp: BuildNodeVersion_def dest: FormatUint_digits)

lemma version_no_bar: "bar \<notin> set (BuildNodeVersion a b c)"
  using version_chars[of bar a b c] by auto

lemma digits_no_space: "is_digit c \<or> c = dot \<Longrightarrow> \<not> is_space c"
  by (auto simp: is_digit_def is_space_def Let_def)

lemma TrimSpace_id: "(\<And>c. c \<in> set s \<Longrightarrow> \<not> is_space c) \<Longrightarrow> TrimSpace s = s"
proof -
  assume a: "\<And>c. c \<in> set s \<Longrightarrow> \<not> is_space c"
  then have "dropWhile is_space s = s" by (cases s) auto
  moreover from a have "dropWhile is_space (rev s) = rev s" by (cases "rev s") (auto simp: rev_eq_Cons_iff)
  ultimately show ?thesis by (simp add: TrimSpace_def)
qed

lemma TrimSpace_version: "TrimSpace (BuildNodeVersion a b c) = BuildNodeVersion a b c"
  using version_chars[of _ a b c] digits_no_space by (intro TrimSpace_id) blast

lemma Fields_words: "w \<in> set (Fields s) \<Longrightarrow> w \<noteq> [] \<and> (\<forall>c\<in>set w. \<not> is_space c)"
proof (induction s rule: Fields.induct)
  case (1 s)
  define t where "t = dropWhile is_space s"
  show ?case
  proof (cases "t = []")
    case True
    then show ?thesis using 1(2) by (simp add: Fields.simps[of s] t_def)
  next
    case False
    then have "\<not> is_space (hd t)" unfolding t_def by (rule hd_dropWhile)
    with False have first: "takeWhile (\<lambda>c. \<not> is_space c) t \<noteq> []" by (cases t) auto
    from 1(2) False have "w = takeWhile (\<lambda>c. \<not> is_space c) t \<or> w \<in> set (Fields (dropWhile (\<lambda>c. \<not> is_space c) t))"
      by (simp add: Fields.simps[of s] t_def[symmetric] Let_def)
    then show ?thesis
    proof
      assume "w = takeWhile (\<lambda>c. \<not> is_space c) t"
      with first show ?thesis using set_takeWhileD by fastforce
    qed (use 1(1)[OF t_def False] in blast)
  qed
qed

lemma is_space_blank [simp]: "is_space CHR '' ''" by (simp add: is_space_def)

lemma word_prefix:
  assumes "\<forall>c\<in>set w. \<not> is_space c" "r = [] \<or> is_space (hd r)"
  shows "takeWhile (\<lambda>c. \<not> is_space c) (w @ r) = w" "dropWhile (\<lambda>c. \<not> is_space c) (w @ r) = r"
  using assms by (auto simp: takeWhile_append2 dropWhile_append2) (cases r; simp)+

lemma Fields_word:
  assumes "w \<noteq> []" "\<forall>c\<in>set w. \<not> is_space c" "r = [] \<or> is_space (hd r)"
  shows "Fields (w @ r) = w # Fields r"
proof -
  have "dropWhile is_space (w @ r) = w @ r" using assms(1,2) by (cases w) auto
  with word_prefix[OF assms(2,3)] assms(1) show ?thesis by (simp add: Fields.simps[of "w @ r"])
qed

lemma Fields_blank: "Fields (CHR '' '' # r) = Fields r"
  by (simp add: Fields.simps[of "CHR '' '' # r"] Fields.simps[of r])

lemma Fields_Join:
  "(\<And>w. w \<in> set ws \<Longrightarrow> w \<noteq> [] \<and> (\<forall>c\<in>set w. \<not> is_space c)) \<Longrightarrow> Fields (Join CHR '' '' ws) = ws"
proof (induction "CHR '' ''" ws rule: Join.induct)
  case (3 p q ps)
  then have "Fields (p @ CHR '' '' # Join CHR '' '' (q # ps)) = p # Fields (CHR '' '' # Join CHR '' '' (q # ps))"
    by (intro Fields_word) auto
  moreover have "Fields (Join CHR '' '' (q # ps)) = q # ps" using 3(2) by (intro 3(1)) auto
  ultimately show ?case by (simp add: Fields_blank)
qed (use Fields_word[of _ "[]"] in \<open>auto simp: Fields.simps[of "[]"]\<close>)

lemma NormalizeGPUName_idem [simp]: "NormalizeGPUName (NormalizeGPUName s) = NormalizeGPUName s"
  unfolding NormalizeGPUName_def by (subst Fields_Join) (auto dest: Fields_words)

lemma ParseUint_bound: "ParseUint s = Some n \<Longrightarrow> n < 2 ^ 64"
  by (auto simp: ParseUint_def split: if_splits option.splits)

lemma ParseNodeVersion_bounds:
  "ParseNodeVersion s = Inr (a, b, c) \<Longrightarrow> a < 2 ^ 64 \<and> b < 2 ^ 64 \<and> c < 2 ^ 64"
  by (auto simp: ParseNodeVersion_def dest: ParseUint_bound split: list.splits option.splits prod.splits)

lemma normalized_entry:
  assumes "NormalizeNodeNameEntry g v ver = Inr e"
  shows "NormalizeNodeNameEntry (nw_GPUName e) (nw_GPUVram e) (nw_NodeVersion e) = Inr e" "nw_GPUVram e = v"
    "bar \<notin> set (nw_NodeVersion e)"
  using assms ParseNodeVersion_bounds[of "TrimSpace ver"]
  by (auto simp: NormalizeNodeNameEntry_def Let_def TrimSpace_version ParseNodeVersion_Build version_no_bar
      split: if_splits sum.splits prod.splits)

lemma last_piece:
  assumes "x @ bar # s = y @ bar # t" "bar \<notin> set s" "bar \<notin> set t"
  shows "x = y \<and> s = t"
proof -
  from assms(1) have "rev s @ bar # rev x = rev t @ bar # rev y" by (metis append.assoc append_Cons append_Nil rev_append rev.simps(2))
  with takeWhile_sep[of bar "rev s" "rev x"] takeWhile_sep[of bar "rev t" "rev y"] assms(2,3)
  have "rev s = rev t" by simp
  with assms(1) show ?thesis by simp
qed

lemma BuildNodeNameKey_inject:
  assumes "BuildNodeNameKey g v ver = BuildNodeNameKey g' v' ver'" "bar \<notin> set ver" "bar \<notin> set ver'"
  shows "g = g' \<and> v = v' \<and> ver = ver'"
  using last_piece[of "g @ bar # FormatUint v" ver "g' @ bar # FormatUint v'" ver']
    last_piece[of g "FormatUint v" g' "FormatUint v'"] assms
  by (simp add: BuildNodeNameKey_def not_in_digits)

lemma parseNodeNameKey_Build:
  assumes "bar \<notin> set g" "bar \<notin> set ver" "v < 2 ^ 64"
  shows "parseNodeNameKey (BuildNodeNameKey g v ver) = Some (g, v, ver)"
proof -
  have "Split bar (Join bar [g, FormatUint v, ver]) = [g, FormatUint v, ver]"
    using assms by (intro Split_Join) (auto simp: not_in_digits)
  with assms(3) show ?thesis by (simp add: parseNodeNameKey_def BuildNodeNameKey_def)
qed

text \<open>
  C29: a node name survives its trips through text: a version and a whitelist entry read back as
  what they were written from, normalising twice changes nothing, keys of entries with a proper
  version are equal only for equal entries, and a key reads back as its entry unless the name of
  the card contains the separator.
\<close>

theorem node_names_roundtrip:
  assumes "NormalizeNodeNameEntry g v ver = Inr e" and "NormalizeNodeNameEntry g' v' ver' = Inr e'"
    and "a < 2 ^ 64" "b < 2 ^ 64" "c < 2 ^ 64"
  shows "ParseNodeVersion (BuildNodeVersion a b c) = Inr (a, b, c)
    \<and> NormalizeNodeNameEntry (nw_GPUName e) (nw_GPUVram e) (nw_NodeVersion e) = Inr e
    \<and> (whitelist_key e = whitelist_key e' \<longrightarrow> e = e')
    \<and> (bar \<notin> set (nw_GPUName e) \<and> v < 2 ^ 64 \<longrightarrow>
         parseNodeNameKey (whitelist_key e) = Some (nw_GPUName e, nw_GPUVram e, nw_NodeVersion e))"
proof -
  have "e = e'" if "whitelist_key e = whitelist_key e'"
    using BuildNodeNameKey_inject[OF that[unfolded whitelist_key_def] normalized_entry(3)[OF assms(1)] normalized_entry(3)[OF assms(2)]]
    by (cases e; cases e') simp
  then show ?thesis
    using normalized_entry[OF assms(1)] ParseNodeVersion_Build[OF assms(3-5)]
    by (simp add: whitelist_key_def parseNodeNameKey_Build)
qed

definition sample_entry :: NodeNameWhitelist where
  "sample_entry = \<lparr> nw_GPUName = ''RTX 4090'', nw_GPUVram = 24, nw_NodeVersion = ''3.6.1'' \<rparr>"

lemma sample_entry_normalizes:
  "NormalizeNodeNameEntry ''  RTX  4090 '' 24 '' 3.6.1'' = Inr sample_entry"
  by (simp add: NormalizeNodeNameEntry_def NormalizeGPUName_def Fields.simps is_space_def TrimSpace_def Let_def
      ParseNodeVersion_def ParseUint_def is_digit_def digit_val_def BuildNodeVersion_def FormatUint.simps sample_entry_def)

theorem node_names_roundtrip_witness:
  "NormalizeNodeNameEntry ''  RTX  4090 '' 24 '' 3.6.1'' = Inr sample_entry
   \<and> parseNodeNameKey (whitelist_key sample_entry) = Some (''RTX 4090'', 24, ''3.6.1'')"
  using node_names_roundtrip[OF sample_entry_normalizes sample_entry_normalizes, of 3 6 1] sample_entry_normalizes
  by (simp add: sample_entry_def)

section \<open>The whitelist cache decides like the table\<close>

definition proper :: "NodeNameWhitelist \<Rightarrow> bool" where
  "proper e \<longleftrightarrow> NormalizeNodeNameEntry (nw_GPUName e) (nw_GPUVram e) (nw_NodeVersion e) = Inr e"

definition whitelist_inv :: "state \<Rightarrow> bool" where
  "whitelist_inv s \<longleftrightarrow> (\<forall>e\<in>set (d_name_whitelist (fst s)). proper e)
     \<and> (case m_nameWhitelist (snd s) of None \<Rightarrow> True
        | Some keys \<Rightarrow> set keys = whitelist_key ` set (d_name_whitelist (fst s)))"

inductive whitelist_run :: "state \<Rightarrow> bool" where
  whitelist_start: "whitelist_run (d, m)"
    if "\<forall>e\<in>set (d_name_whitelist d). proper e" and "m_nameWhitelist m = None"
| whitelist_add: "whitelist_run (snd (AddNodeNameWhitelist g v ver s))" if "whitelist_run s"
| whitelist_delete: "whitelist_run (snd (DeleteNodeNameWhitelist g v ver s))" if "whitelist_run s"
| whitelist_ask: "whitelist_run (snd (IsNodeNameWhitelisted g v ver s))" if "whitelist_run s"
| whitelist_list: "whitelist_run (snd (ListNodeNameWhitelistFromCache s))" if "whitelist_run s"

lemma normalized_proper: "NormalizeNodeNameEntry g v ver = Inr e \<Longrightarrow> proper e"
  by (simp add: proper_def normalized_entry(1))

lemma proper_key: "proper e \<Longrightarrow> proper e' \<Longrightarrow> whitelist_key e = whitelist_key e' \<longleftrightarrow> e = e'"
  unfolding proper_def whitelist_key_def
  using BuildNodeNameKey_inject[OF _ normalized_entry(3) normalized_entry(3)] by (metis sum.inject(2))

lemma whitelist_load:
  assumes "whitelist_inv s"
  shows "\<exists>keys. ensureNodeNameWhitelistCacheLoaded s = (Inr (), (fst s, (snd s)\<lparr> m_nameWhitelist := Some keys \<rparr>))
    \<and> set keys = whitelist_key ` set (d_name_whitelist (fst s))"
proof (cases "m_nameWhitelist (snd s)")
  case None
  then show ?thesis
    by (intro exI[of _ "remdups (map whitelist_key (d_name_whitelist (fst s)))"])
      (simp add: ensureNodeNameWhitelistCacheLoaded_def RefreshNodeNameWhitelistCache_def op_simps)
next
  case (Some keys)
  then have "snd s = (snd s)\<lparr> m_nameWhitelist := Some keys \<rparr>" by simp
  with Some assms show ?thesis
    by (intro exI[of _ keys]) (simp add: ensureNodeNameWhitelistCacheLoaded_def op_simps whitelist_inv_def prod_eq_iff)
qed

lemma whitelist_run_inv: "whitelist_run s \<Longrightarrow> whitelist_inv s"
proof (induction rule: whitelist_run.induct)
  case (whitelist_add s g v ver)
  show ?case
  proof (cases "NormalizeNodeNameEntry g v ver")
    case (Inr e)
    with whitelist_add(2) show ?thesis
      by (cases "e \<in> set (d_name_whitelist (fst s))")
        (auto simp: AddNodeNameWhitelist_def RefreshNodeNameWhitelistCache_def op_simps whitelist_inv_def
          intro: normalized_proper)
  qed (use whitelist_add(2) in \<open>simp add: AddNodeNameWhitelist_def op_simps\<close>)
next
  case (whitelist_delete s g v ver)
  show ?case
  proof (cases "NormalizeNodeNameEntry g v ver")
    case (Inr e)
    with whitelist_delete(2) show ?thesis
      by (cases "e \<in> set (d_name_whitelist (fst s))")
        (auto simp: DeleteNodeNameWhitelist_def RefreshNodeNameWhitelistCache_def op_simps whitelist_inv_def)
  qed (use whitelist_delete(2) in \<open>simp add: DeleteNodeNameWhitelist_def op_simps\<close>)
next
  case (whitelist_ask s g v ver)
  obtain keys where "ensureNodeNameWhitelistCacheLoaded s = (Inr (), (fst s, (snd s)\<lparr> m_nameWhitelist := Some keys \<rparr>))"
    "set keys = whitelist_key ` set (d_name_whitelist (fst s))"
    using whitelist_load[OF whitelist_ask(2)] by blast
  then show ?case using whitelist_ask(2)
    by (cases "NormalizeNodeNameEntry g v ver") (auto simp: IsNodeNameWhitelisted_def op_simps whitelist_inv_def)
next
  case (whitelist_list s)
  obtain keys where "ensureNodeNameWhitelistCacheLoaded s = (Inr (), (fst s, (snd s)\<lparr> m_nameWhitelist := Some keys \<rparr>))"
    "set keys = whitelist_key ` set (d_name_whitelist (fst s))"
    using whitelist_load[OF whitelist_list(2)] by blast
  then show ?case using whitelist_list(2)
    by (auto simp: ListNodeNameWhitelistFromCache_def op_simps whitelist_inv_def)
qed (simp add: whitelist_inv_def)

text \<open>
  C28: after any sequence of additions, deletions, questions and listings, the cached whitelist
  answers whether a name is allowed exactly as the table would, for every spelling of the name
  that normalises to the same entry; an entry just added is allowed and one just deleted is not.
\<close>

theorem whitelist_cache_decides:
  assumes "whitelist_run s" and "NormalizeNodeNameEntry g v ver = Inr e"
  shows "fst (IsNodeNameWhitelisted g v ver s) = Inr (e \<in> set (d_name_whitelist (fst s)))
    \<and> (e \<notin> set (d_name_whitelist (fst s)) \<longrightarrow>
         fst (IsNodeNameWhitelisted g v ver (snd (AddNodeNameWhitelist g v ver s))) = Inr True)
    \<and> (e \<in> set (d_name_whitelist (fst s)) \<longrightarrow>
         fst (IsNodeNameWhitelisted g v ver (snd (DeleteNodeNameWhitelist g v ver s))) = Inr False)"
proof -
  have decide: "fst (IsNodeNameWhitelisted g v ver t) = Inr (e \<in> set (d_name_whitelist (fst t)))"
    if "whitelist_run t" for t
  proof -
    have inv: "whitelist_inv t" by (rule whitelist_run_inv[OF that])
    obtain keys where "ensureNodeNameWhitelistCacheLoaded t = (Inr (), (fst t, (snd t)\<lparr> m_nameWhitelist := Some keys \<rparr>))"
      and keys: "set keys = whitelist_key ` set (d_name_whitelist (fst t))"
      using whitelist_load[OF inv] by blast
    then have "fst (IsNodeNameWhitelisted g v ver t) = Inr (whitelist_key e \<in> set keys)"
      by (simp add: IsNodeNameWhitelisted_def assms(2) op_simps)
    moreover have "whitelist_key e \<in> set keys \<longleftrightarrow> e \<in> set (d_name_whitelist (fst t))"
      unfolding keys using proper_key[OF normalized_proper[OF assms(2)]] inv by (auto simp: whitelist_inv_def image_iff)
    ultimately show ?thesis by simp
  qed
  have "e \<in> set (d_name_whitelist (fst (snd (AddNodeNameWhitelist g v ver s))))" if "e \<notin> set (d_name_whitelist (fst s))"
    using that by (simp add: AddNodeNameWhitelist_def RefreshNodeNameWhitelistCache_def assms(2) op_simps)
  moreover have "e \<notin> set (d_name_whitelist (fst (snd (DeleteNodeNameWhitelist g v ver s))))" if "e \<in> set (d_name_whitelist (fst s))"
    using that by (simp add: DeleteNodeNameWhitelist_def RefreshNodeNameWhitelistCache_def assms(2) op_simps)
  ultimately show ?thesis
    using decide[OF assms(1)] decide[OF whitelist_add[OF assms(1)]] decide[OF whitelist_delete[OF assms(1)]] by simp
qed

theorem whitelist_cache_decides_witness:
  "whitelist_run (empty_db, empty_mem)
   \<and> fst (IsNodeNameWhitelisted ''  RTX  4090 '' 24 '' 3.6.1''
        (snd (AddNodeNameWhitelist ''  RTX  4090 '' 24 '' 3.6.1'' (empty_db, empty_mem)))) = Inr True"
proof -
  have run: "whitelist_run (empty_db, empty_mem)"
    by (rule whitelist_start) (simp_all add: empty_db_def empty_mem_def)
  show ?thesis
    using whitelist_cache_decides[OF run sample_entry_normalizes] run by (simp add: empty_db_def)
qed

section \<open>What the counts hold\<close>

type_synonym node_name = "string \<times> nat \<times> string"

definition row_name :: "NodeNameCount \<Rightarrow> node_name" where
  "row_name e = (nc_GPUName e, nc_GPUVram e, nc_NodeVersion e)"

definition name_of :: "Node \<Rightarrow> node_name" where
  "name_of n = (n_GPUName n, n_GPUVram n, node_version n)"

lemma named_iff: "named n e \<longleftrightarrow> row_name e = name_of n"
  by (auto simp: named_def row_name_def name_of_def)

text \<open>The number the table holds for a name, zero when it has no row for it.\<close>

definition counted :: "NodeNameCount list \<Rightarrow> node_name \<Rightarrow> nat" where
  "counted rows nm = sum_list (map nc_ActiveCount (filter (\<lambda>e. row_name e = nm) rows))"

definition counts_ok :: "NodeNameCount list \<Rightarrow> bool" where
  "counts_ok rows \<longleftrightarrow> distinct (map row_name rows) \<and> (\<forall>e\<in>set rows. 0 < nc_ActiveCount e)"

lemma counted_Nil [simp]: "counted [] nm = 0"
  and counted_Cons [simp]: "counted (e # rows) nm = (if row_name e = nm then nc_ActiveCount e else 0) + counted rows nm"
  by (simp_all add: counted_def)

lemma counted_append [simp]: "counted (rows @ rows') nm = counted rows nm + counted rows' nm"
  by (simp add: counted_def)

lemma counted_absent: "nm \<notin> row_name ` set rows \<Longrightarrow> counted rows nm = 0"
  by (induction rows) auto

lemma counted_pos: "counts_ok rows \<Longrightarrow> 0 < counted rows nm \<longleftrightarrow> nm \<in> row_name ` set rows"
  by (induction rows) (auto simp: counts_ok_def)

lemma row_name_update [simp]: "row_name (e\<lparr> nc_ActiveCount := c \<rparr>) = row_name e"
  by (simp add: row_name_def)

definition inc_rows :: "Node \<Rightarrow> NodeNameCount list \<Rightarrow> NodeNameCount list" where
  "inc_rows node rows =
    (if \<exists>e\<in>set rows. named node e
     then upd_where (named node) (\<lambda>e. e\<lparr> nc_ActiveCount := nc_ActiveCount e + 1 \<rparr>) rows
     else rows @ [\<lparr> nc_GPUName = n_GPUName node, nc_GPUVram = n_GPUVram node,
            nc_NodeVersion = node_version node, nc_ActiveCount = 1 \<rparr>])"

definition dec_rows :: "Node \<Rightarrow> NodeNameCount list \<Rightarrow> NodeNameCount list" where
  "dec_rows node rows =
    filter (\<lambda>e. \<not> (named node e \<and> nc_ActiveCount e = 0))
      (upd_where (\<lambda>e. named node e \<and> 0 < nc_ActiveCount e) (\<lambda>e. e\<lparr> nc_ActiveCount := nc_ActiveCount e - 1 \<rparr>) rows)"

lemma Increment_rows: "IncrementNodeNameCountTx node = write_db (\<lambda>d. d\<lparr> d_name_counts := inc_rows node (d_name_counts d) \<rparr>)"
  by (simp add: IncrementNodeNameCountTx_def inc_rows_def)

lemma upd_where_Cons [simp]: "upd_where p f (r # rs) = (if p r then f r else r) # upd_where p f rs"
  by (simp add: upd_where_def)

lemma counted_inc_present:
  "distinct (map row_name rows) \<Longrightarrow> \<exists>e\<in>set rows. named node e \<Longrightarrow>
   counted (upd_where (named node) (\<lambda>e. e\<lparr> nc_ActiveCount := nc_ActiveCount e + 1 \<rparr>) rows) nm
     = counted rows nm + (if nm = name_of node then 1 else 0)"
proof (induction rows)
  case (Cons e rows)
  show ?case
  proof (cases "named node e")
    case True
    then have "\<not> named node e'" if "e' \<in> set rows" for e'
      using Cons.prems(1) that by (auto simp: named_iff) (metis image_eqI)
    then have "upd_where (named node) (\<lambda>e. e\<lparr> nc_ActiveCount := nc_ActiveCount e + 1 \<rparr>) rows = rows"
      by (simp add: upd_where_def map_idI)
    with True show ?thesis using True[unfolded named_iff] by auto
  next
    case False
    with Cons show ?thesis using False[unfolded named_iff] by auto
  qed
qed simp

lemma inc_rows_counted:
  assumes "counts_ok rows"
  shows "counted (inc_rows node rows) nm = counted rows nm + (if nm = name_of node then 1 else 0)"
    "counts_ok (inc_rows node rows)"
proof -
  show "counted (inc_rows node rows) nm = counted rows nm + (if nm = name_of node then 1 else 0)"
    using counted_inc_present[of rows node nm] assms
    by (cases "\<exists>e\<in>set rows. named node e") (auto simp: inc_rows_def counts_ok_def row_name_def name_of_def)
  have "map row_name (upd_where (named node) (\<lambda>e. e\<lparr> nc_ActiveCount := nc_ActiveCount e + 1 \<rparr>) rows) = map row_name rows"
    by (rule upd_where_map) simp
  with assms show "counts_ok (inc_rows node rows)"
    by (auto simp: inc_rows_def counts_ok_def upd_where_set named_iff) (auto simp: row_name_def name_of_def image_iff)
qed

lemma dec_rows_other: "(\<And>e. e \<in> set rows \<Longrightarrow> \<not> named node e) \<Longrightarrow> dec_rows node rows = rows"
  unfolding dec_rows_def by (induction rows) auto

lemma dec_rows_Cons:
  "dec_rows node (e # rows) =
    (if named node e \<and> nc_ActiveCount e \<le> 1 then dec_rows node rows
     else (if named node e then e\<lparr> nc_ActiveCount := nc_ActiveCount e - 1 \<rparr> else e) # dec_rows node rows)"
  by (auto simp: dec_rows_def named_iff)

lemma dec_rows_names: "set (map row_name (dec_rows node rows)) \<subseteq> set (map row_name rows)"
  by (induction rows) (auto simp: dec_rows_Cons, simp add: dec_rows_def)

lemma dec_rows_counted:
  assumes "counts_ok rows"
  shows "counted (dec_rows node rows) nm = counted rows nm - (if nm = name_of node then 1 else 0)"
    "counts_ok (dec_rows node rows)"
proof -
  show "counted (dec_rows node rows) nm = counted rows nm - (if nm = name_of node then 1 else 0)"
    using assms
  proof (induction rows)
    case (Cons e rows)
    then have ok: "counts_ok rows" by (simp add: counts_ok_def)
    show ?case
    proof (cases "named node e")
      case True
      then have other: "\<not> named node e'" if "e' \<in> set rows" for e'
        using Cons.prems that by (auto simp: named_iff counts_ok_def) (metis image_eqI)
      then have "counted rows (name_of node) = 0" by (intro counted_absent) (simp add: named_iff image_iff, metis)
      with True Cons.prems show ?thesis
        by (auto simp: dec_rows_Cons dec_rows_other[OF other] named_iff counts_ok_def)
    next
      case False
      with Cons.IH[OF ok] show ?thesis by (auto simp: dec_rows_Cons named_iff)
    qed
  qed (simp add: dec_rows_def)
  show "counts_ok (dec_rows node rows)"
    using assms
  proof (induction rows)
    case (Cons e rows)
    then have ok: "counts_ok (dec_rows node rows)" by (simp add: counts_ok_def)
    have "row_name e \<notin> set (map row_name (dec_rows node rows))"
      using dec_rows_names[of node rows] Cons.prems by (auto simp: counts_ok_def)
    with ok Cons.prems show ?case by (auto simp: dec_rows_Cons counts_ok_def)
  qed (simp add: dec_rows_def)
qed

text \<open>Under the table's invariant a decrement succeeds exactly when the name is counted.\<close>

lemma Decrement_run:
  assumes "counts_ok (d_name_counts (fst s))"
  shows "DecrementNodeNameCountTx node s =
    (if 0 < counted (d_name_counts (fst s)) (name_of node)
     then (Inr (), ((fst s)\<lparr> d_name_counts := dec_rows node (d_name_counts (fst s)) \<rparr>, snd s))
     else (Inl ErrNodeNameCountEntryMissing, s))"
proof -
  have "filter (named node) (d_name_counts (fst s)) = [] \<longleftrightarrow> \<not> 0 < counted (d_name_counts (fst s)) (name_of node)"
    unfolding counted_pos[OF assms] by (simp add: filter_empty_conv named_iff image_iff) metis
  moreover have "filter (\<lambda>e. 0 < nc_ActiveCount e) (filter (named node) (d_name_counts (fst s))) = filter (named node) (d_name_counts (fst s))"
    using assms unfolding filter_filter by (intro filter_cong) (auto simp: counts_ok_def)
  ultimately show ?thesis
    by (simp add: DecrementNodeNameCountTx_def op_simps dec_rows_def)
qed

text \<open>The cache, when loaded, answers with the table's numbers.\<close>

definition counts_cached :: "state \<Rightarrow> bool" where
  "counts_cached s \<longleftrightarrow> (case m_nameCounts (snd s) of None \<Rightarrow> True
     | Some counts \<Rightarrow> \<forall>g v a b c. (case map_of counts (BuildNodeNameKey g v (BuildNodeVersion a b c)) of None \<Rightarrow> 0 | Some n \<Rightarrow> n)
         = counted (d_name_counts (fst s)) (g, v, BuildNodeVersion a b c))"

lemma version_inject [simp]:
  "BuildNodeNameKey g v (BuildNodeVersion a b c) = BuildNodeNameKey g' v' (BuildNodeVersion a' b' c')
   \<longleftrightarrow> (g, v, BuildNodeVersion a b c) = (g', v', BuildNodeVersion a' b' c')"
  using BuildNodeNameKey_inject[OF _ version_no_bar version_no_bar] by auto

lemma apply_delta_cached:
  assumes "counts_cached (d, m)"
    and "\<And>nm. int (counted (d_name_counts d') nm) = int (counted (d_name_counts d) nm) + (if nm = name_of node then delta else 0)"
  shows "counts_cached (d', snd (snd (ApplyNodeNameCountDeltaToCache (n_GPUName node) (n_GPUVram node) (node_version node) delta (d', m))))"
proof (cases "m_nameCounts m")
  case (Some counts)
  define key where "key = BuildNodeNameKey (n_GPUName node) (n_GPUVram node) (node_version node)"
  have look: "(case map_of counts (BuildNodeNameKey g v (BuildNodeVersion a b c)) of None \<Rightarrow> 0 | Some n \<Rightarrow> n)
      = counted (d_name_counts d) (g, v, BuildNodeVersion a b c)" for g v a b c
    using assms(1) Some by (auto simp: counts_cached_def)
  have key_eq: "BuildNodeNameKey g v (BuildNodeVersion a b c) = key \<longleftrightarrow> (g, v, BuildNodeVersion a b c) = name_of node" for g v a b c
    unfolding key_def name_of_def node_version_def by simp
  have cur: "(case map_of counts key of None \<Rightarrow> 0 | Some c \<Rightarrow> int c) = int (counted (d_name_counts d) (name_of node))"
    using look[of "n_GPUName node" "n_GPUVram node" "n_MajorVersion node" "n_MinorVersion node" "n_PatchVersion node"]
    by (simp add: key_def name_of_def node_version_def split: option.splits)
  have here: "nat (int (counted (d_name_counts d) (name_of node)) + delta) = counted (d_name_counts d') (name_of node)"
    and there: "nm \<noteq> name_of node \<Longrightarrow> counted (d_name_counts d') nm = counted (d_name_counts d) nm" for nm
    using assms(2)[of "name_of node"] assms(2)[of nm] by auto
  show ?thesis
    unfolding counts_cached_def ApplyNodeNameCountDeltaToCache_def
    using look here
    by (auto simp add: op_simps Some key_def[symmetric] Let_def cur key_eq AList.update_conv' AList.delete_conv' there)
qed (simp add: counts_cached_def ApplyNodeNameCountDeltaToCache_def op_simps)

end
