(* ===== verification/ModelFiles.thy ===== *)
theory ModelFiles
  imports State "HOL-Library.Product_Lexorder"
begin

text \<open>
  Model files and what tasks and nodes say about them (\<^verbatim>\<open>models/model_file.go\<close>,
  \<^verbatim>\<open>models/node_model_files.go\<close>, \<^verbatim>\<open>models/node_in_memory_model.go\<close>, the readers of
  \<^verbatim>\<open>service/node_model_state.go\<close>).  A file is identified by the hash of its canonical JSON; sets of
  files are stored as the concatenation of their hashes in order.  SHA-256 is the parameter
  \<^verbatim>\<open>sha256\<close>.  The lemmas show what the identity depends on, that stored sets read back, and that the
  in-place removal of duplicates is the specification of a sorted set.
\<close>

section \<open>Identity of a model file\<close>

definition modelHashSize :: nat where "modelHashSize = 32"

definition Hash32FromBytes :: "bytes \<Rightarrow> go_error + bytes" where
  "Hash32FromBytes b = (if length b \<noteq> modelHashSize then Inl (errors_New ''hash must be 32 bytes'') else Inr b)"

definition is_url :: "string \<Rightarrow> bool" where
  "is_url name \<longleftrightarrow> take 7 name = ''http://'' \<or> take 8 name = ''https://''"

definition NormalizeModelName :: "string \<Rightarrow> string" where
  "NormalizeModelName name = (if is_url name then name else ToLower name)"

definition hex_char :: "char \<Rightarrow> bool" where
  "hex_char c \<longleftrightarrow> is_digit c \<or> (CHR ''a'' \<le> c \<and> c \<le> CHR ''f'') \<or> (CHR ''A'' \<le> c \<and> c \<le> CHR ''F'')"

definition IsCommitSHA :: "string \<Rightarrow> bool" where
  "IsCommitSHA revision \<longleftrightarrow> length revision = 40 \<and> list_all hex_char revision"

definition NormalizeCommitRevision :: "string \<Rightarrow> string" where
  "NormalizeCommitRevision revision = (if IsCommitSHA revision then ToLower revision else revision)"

definition Normalized :: "ModelFileEntry \<Rightarrow> ModelFileEntry" where
  "Normalized e = e\<lparr> me_Repository := NormalizeModelName (me_Repository e),
                   me_Revision := NormalizeCommitRevision (me_Revision e) \<rparr>"

definition canonicalObject :: "ModelFileEntry \<Rightarrow> bool \<Rightarrow> json" where
  "canonicalObject e withRevision =
    (let n = Normalized e in
     JObject ([(''source_type'', JString (me_SourceType n)),
               (''repository'', JString (me_Repository n)),
               (''format'', JString (me_Format n)),
               (''format_kwargs'', JObject (me_FormatKwargs n))]
              @ (if withRevision then [(''revision'', JString (me_Revision n))] else [])))"

definition entry_CanonicalJSON :: "ModelFileEntry \<Rightarrow> go_error + string" where
  "entry_CanonicalJSON e =
    (if me_Revision e = [] then Inl (errors_New ''model file entry revision is empty'')
     else Inr (writeCanonicalValue (canonicalObject e True)))"

definition SourceCanonicalJSON :: "ModelFileEntry \<Rightarrow> string" where
  "SourceCanonicalJSON e = writeCanonicalValue (canonicalObject e False)"

definition ModelFileHash :: "(bytes \<Rightarrow> bytes) \<Rightarrow> ModelFileEntry \<Rightarrow> go_error + bytes" where
  "ModelFileHash sha256 e = (case entry_CanonicalJSON e of Inl err \<Rightarrow> Inl err | Inr data \<Rightarrow> Inr (sha256 data))"

definition ModelFileSourceHash :: "(bytes \<Rightarrow> bytes) \<Rightarrow> ModelFileEntry \<Rightarrow> bytes" where
  "ModelFileSourceHash sha256 e = sha256 (SourceCanonicalJSON e)"

definition NewModelFile :: "(bytes \<Rightarrow> bytes) \<Rightarrow> ModelFileEntry \<Rightarrow> go_error + ModelFile" where
  "NewModelFile sha256 e =
    (let n = Normalized e in
     case ModelFileHash sha256 n of
       Inl err \<Rightarrow> Inl err
     | Inr hash \<Rightarrow> Inr \<lparr> mf_ModelFileHash = hash, mf_ModelFileSourceHash = ModelFileSourceHash sha256 n, mf_Entry = n \<rparr>)"

section \<open>Sets of hashes\<close>

text \<open>The duplicates are removed in the sorted slice itself: \<^verbatim>\<open>unique\<close> is a prefix of the array the loop
  is still reading.  \<^verbatim>\<open>i\<close> is the loop's index and \<^verbatim>\<open>k\<close> the length of that prefix.\<close>

function unique_inplace :: "'a list \<Rightarrow> nat \<Rightarrow> nat \<Rightarrow> 'a list" where
  "unique_inplace a i k =
    (if i < length a
     then if 0 < i \<and> a ! i = a ! (i - 1) then unique_inplace a (i + 1) k
          else unique_inplace (a[k := a ! i]) (i + 1) (k + 1)
     else take k a)"
  by pat_completeness auto

termination
  by (relation "measure (\<lambda>(a, i, k). length a - i)") auto

declare unique_inplace.simps [simp del]

definition SortedUniqueHashes :: "bytes list \<Rightarrow> bytes list" where
  "SortedUniqueHashes hashes = unique_inplace (sort hashes) 0 0"

definition EncodeHashList :: "bytes list \<Rightarrow> bytes" where
  "EncodeHashList hashes = concat (SortedUniqueHashes hashes)"

function chunks :: "bytes \<Rightarrow> bytes list" where
  "chunks d = (if d = [] then [] else take modelHashSize d # chunks (drop modelHashSize d))"
  by pat_completeness auto

termination
  by (relation "measure length") (auto simp: modelHashSize_def)

declare chunks.simps [simp del]

definition DecodeHashList :: "bytes \<Rightarrow> go_error + bytes list" where
  "DecodeHashList d =
    (if length d mod modelHashSize \<noteq> 0 then Inl (errors_New ''hash list length is not a multiple of 32'')
     else Inr (chunks d))"

definition RequiredModelFilesHash :: "(bytes \<Rightarrow> bytes) \<Rightarrow> bytes list \<Rightarrow> bytes" where
  "RequiredModelFilesHash sha256 hashes = sha256 (EncodeHashList hashes)"

definition DistributionKey :: "(bytes \<Rightarrow> bytes) \<Rightarrow> bytes list \<Rightarrow> bytes list \<Rightarrow> bytes" where
  "DistributionKey sha256 exact source = RequiredModelFilesHash sha256 (exact @ source)"

section \<open>The catalog and the inventory tables\<close>

definition UpsertModelFiles :: "ModelFile list \<Rightarrow> unit relay" where
  "UpsertModelFiles files = write_db (\<lambda>d. d\<lparr> d_model_files :=
     foldl (\<lambda>rows f. if \<exists>r\<in>set rows. mf_ModelFileHash r = mf_ModelFileHash f then rows else rows @ [f])
       (d_model_files d) files \<rparr>)"

definition GetModelFiles :: "bytes list \<Rightarrow> ModelFile list relay" where
  "GetModelFiles hashes = read_db (\<lambda>d. filter (\<lambda>f. mf_ModelFileHash f \<in> set hashes) (d_model_files d))"

record NodeModelFileRow =
  fr_NodeAddress :: address
  fr_ModelFileHash :: bytes
  fr_ModelFileSourceHash :: bytes

text \<open>An inner join with the catalog, ordered by node and file.\<close>

definition model_file_rows :: "db \<Rightarrow> NodeModel list \<Rightarrow> NodeModelFileRow list" where
  "model_file_rows d nms =
    sort_key (\<lambda>r. (fr_NodeAddress r, fr_ModelFileHash r))
      (concat (map (\<lambda>nm. map (\<lambda>f. \<lparr> fr_NodeAddress = nm_NodeAddress nm, fr_ModelFileHash = nm_ModelFileHash nm,
                                   fr_ModelFileSourceHash = mf_ModelFileSourceHash f \<rparr>)
                         (filter (\<lambda>f. mf_ModelFileHash f = nm_ModelFileHash nm) (d_model_files d))) nms))"

definition ListNodeModelFileRows :: "address list \<Rightarrow> NodeModelFileRow list relay" where
  "ListNodeModelFileRows addrs =
    read_db (\<lambda>d. model_file_rows d (filter (\<lambda>nm. addrs = [] \<or> nm_NodeAddress nm \<in> set addrs) (d_node_models d)))"

definition GetNodeModelsByNodeAddress :: "address \<Rightarrow> NodeModel list relay" where
  "GetNodeModelsByNodeAddress addr = read_db (\<lambda>d. filter (\<lambda>nm. nm_NodeAddress nm = addr) (d_node_models d))"

definition GetNodeModel :: "address \<Rightarrow> bytes \<Rightarrow> NodeModel relay" where
  "GetNodeModel addr hash =
    bnd (read_db (\<lambda>d. find (\<lambda>nm. nm_NodeAddress nm = addr \<and> nm_ModelFileHash nm = hash) (d_node_models d)))
      (of_option ErrRecordNotFound)"

text \<open>The table has a unique index on node and file.\<close>

fun CreateNodeModels :: "NodeModel list \<Rightarrow> unit relay" where
  "CreateNodeModels [] = ret ()"
| "CreateNodeModels (nm # nms) =
    bnd (read_db d_node_models) (\<lambda>rows.
    bnd (check (nm \<notin> set rows) ErrDuplicatedKey) (\<lambda>_.
    bnd (write_db (\<lambda>d. d\<lparr> d_node_models := d_node_models d @ [nm] \<rparr>)) (\<lambda>_.
    CreateNodeModels nms)))"

definition DeleteNodeModelsByNodeAddress :: "address \<Rightarrow> unit relay" where
  "DeleteNodeModelsByNodeAddress addr =
    write_db (\<lambda>d. d\<lparr> d_node_models := filter (\<lambda>nm. nm_NodeAddress nm \<noteq> addr) (d_node_models d) \<rparr>)"

definition DeleteNodeModelsByFileHashes :: "address \<Rightarrow> bytes list \<Rightarrow> unit relay" where
  "DeleteNodeModelsByFileHashes addr hashes =
    (if hashes = [] then ret ()
     else write_db (\<lambda>d. d\<lparr> d_node_models :=
            filter (\<lambda>nm. \<not> (nm_NodeAddress nm = addr \<and> nm_ModelFileHash nm \<in> set hashes)) (d_node_models d) \<rparr>))"

definition NewNodeInMemoryModel :: "address \<Rightarrow> bytes \<Rightarrow> bytes list \<Rightarrow> bytes \<Rightarrow> string \<Rightarrow> NodeInMemoryModel" where
  "NewNodeInMemoryModel addr cacheHash fileHashes cacheConfig executionDType =
    \<lparr> im_NodeAddress = addr, im_CurrentModelCacheHash = cacheHash,
      im_CurrentModelFileHashes = EncodeHashList fileHashes,
      im_CurrentModelCacheConfig = cacheConfig, im_ExecutionDType = executionDType \<rparr>"

definition FileHashes :: "NodeInMemoryModel \<Rightarrow> go_error + bytes list" where
  "FileHashes m = DecodeHashList (im_CurrentModelFileHashes m)"

definition SaveNodeInMemoryModel :: "NodeInMemoryModel \<Rightarrow> unit relay" where
  "SaveNodeInMemoryModel m = write_db (\<lambda>d. d\<lparr> d_in_memory_models :=
     (if \<exists>r\<in>set (d_in_memory_models d). im_NodeAddress r = im_NodeAddress m
      then upd_where (\<lambda>r. im_NodeAddress r = im_NodeAddress m) (\<lambda>_. m) (d_in_memory_models d)
      else d_in_memory_models d @ [m]) \<rparr>)"

definition GetNodeInMemoryModel :: "address \<Rightarrow> NodeInMemoryModel option relay" where
  "GetNodeInMemoryModel addr = read_db (\<lambda>d. find (\<lambda>m. im_NodeAddress m = addr) (d_in_memory_models d))"

definition ListNodeInMemoryModels :: "NodeInMemoryModel list relay" where
  "ListNodeInMemoryModels = read_db (\<lambda>d. sort_key im_NodeAddress (d_in_memory_models d))"

definition ClearNodeInMemoryModel :: "address \<Rightarrow> unit relay" where
  "ClearNodeInMemoryModel addr =
    write_db (\<lambda>d. d\<lparr> d_in_memory_models := filter (\<lambda>m. im_NodeAddress m \<noteq> addr) (d_in_memory_models d) \<rparr>)"

section \<open>Requirements\<close>

record taskModelRequirements =
  rq_exact :: "bytes list"
  rq_source :: "bytes list"
  rq_cacheHash :: bytes

definition newTaskModelRequirements :: "InferenceTask \<Rightarrow> go_error + taskModelRequirements" where
  "newTaskModelRequirements task =
    (case DecodeHashList (t_RequiredModelFileHashes task) of Inl e \<Rightarrow> Inl e | Inr exact \<Rightarrow>
     case DecodeHashList (t_RequiredModelFileSourceHashes task) of Inl e \<Rightarrow> Inl e | Inr source \<Rightarrow>
     case Hash32FromBytes (t_RequestedModelCacheHash task) of Inl e \<Rightarrow> Inl e | Inr cacheHash \<Rightarrow>
     Inr \<lparr> rq_exact = exact, rq_source = source, rq_cacheHash = cacheHash \<rparr>)"

definition modelFilesCovered :: "bytes list \<Rightarrow> bytes list \<Rightarrow> bytes list \<Rightarrow> bytes list \<Rightarrow> bool" where
  "modelFilesCovered exactHeld sourceHeld exact source \<longleftrightarrow>
    list_all (\<lambda>h. h \<in> set exactHeld) exact \<and> list_all (\<lambda>h. h \<in> set sourceHeld) source"

definition holdsRequiredModelFiles :: "NodeIndexEntry \<Rightarrow> taskModelRequirements \<Rightarrow> bool" where
  "holdsRequiredModelFiles e r =
    modelFilesCovered (ie_OnDiskModelFileHashes e) (ie_OnDiskModelFileSourceHashes e) (rq_exact r) (rq_source r)"

definition holdsRequiredModelInMemory :: "NodeIndexEntry \<Rightarrow> taskModelRequirements \<Rightarrow> bool" where
  "holdsRequiredModelInMemory e r \<longleftrightarrow>
    ie_CurrentModelCacheHash e = Some (rq_cacheHash r) \<and>
    modelFilesCovered (ie_CurrentModelFileHashes e) (ie_CurrentModelFileSourceHashes e) (rq_exact r) (rq_source r)"

fun map_sum_list :: "('a \<Rightarrow> go_error + 'b) \<Rightarrow> 'a list \<Rightarrow> go_error + 'b list" where
  "map_sum_list f [] = Inr []"
| "map_sum_list f (x # xs) =
    (case f x of Inl e \<Rightarrow> Inl e | Inr y \<Rightarrow>
     case map_sum_list f xs of Inl e \<Rightarrow> Inl e | Inr ys \<Rightarrow> Inr (y # ys))"

definition modelFileHashes :: "ModelFile list \<Rightarrow> go_error + bytes list" where
  "modelFileHashes files = map_sum_list (\<lambda>f. Hash32FromBytes (mf_ModelFileHash f)) files"

definition modelFileSourceHashes :: "ModelFile list \<Rightarrow> go_error + bytes list" where
  "modelFileSourceHashes files = map_sum_list (\<lambda>f. Hash32FromBytes (mf_ModelFileSourceHash f)) files"

definition RequiredHashes :: "NodeModelDownloadSelection \<Rightarrow> go_error + bytes list \<times> bytes list" where
  "RequiredHashes s =
    (case DecodeHashList (ds_RequiredModelFileHashes s) of Inl e \<Rightarrow> Inl e | Inr exact \<Rightarrow>
     case DecodeHashList (ds_RequiredModelFileSourceHashes s) of Inl e \<Rightarrow> Inl e | Inr source \<Rightarrow>
     Inr (exact, source))"

fun uncovered_selections ::
  "bytes list \<Rightarrow> bytes list \<Rightarrow> NodeModelDownloadSelection list \<Rightarrow> go_error + nat list" where
  "uncovered_selections exactHeld sourceHeld [] = Inr []"
| "uncovered_selections exactHeld sourceHeld (s # ss) =
    (case RequiredHashes s of Inl e \<Rightarrow> Inl e | Inr (exact, source) \<Rightarrow>
     case uncovered_selections exactHeld sourceHeld ss of Inl e \<Rightarrow> Inl e | Inr ids \<Rightarrow>
     Inr (if modelFilesCovered exactHeld sourceHeld exact source then ids else ds_ID s # ids))"

definition pruneUncoveredSelections :: "address \<Rightarrow> bytes list \<Rightarrow> bytes list \<Rightarrow> unit relay" where
  "pruneUncoveredSelections addr exactHeld sourceHeld =
    bnd (read_db (\<lambda>d. filter (\<lambda>s. ds_NodeAddress s = addr) (d_selections d))) (\<lambda>selections.
    bnd (of_sum (uncovered_selections exactHeld sourceHeld selections)) (\<lambda>uncovered.
    if uncovered = [] then ret ()
    else write_db (\<lambda>d. d\<lparr> d_selections := filter (\<lambda>s. ds_ID s \<notin> set uncovered) (d_selections d) \<rparr>)))"

section \<open>Stored sets read back\<close>

lemma remdups_adj_snoc:
  "remdups_adj (xs @ [x]) = (if xs \<noteq> [] \<and> last xs = x then remdups_adj xs else remdups_adj xs @ [x])"
  by (cases xs rule: rev_cases) (auto simp: remdups_adj_append_two)

lemma unique_inplace_inv:
  assumes "i \<le> length orig" "length a = length orig" "drop i a = drop i orig"
    "0 < i \<Longrightarrow> a ! (i - 1) = orig ! (i - 1)" "take k a = remdups_adj (take i orig)" "k \<le> i"
  shows "unique_inplace a i k = remdups_adj orig"
  using assms
proof (induction "length orig - i" arbitrary: a i k)
  case 0
  then show ?case by (simp add: unique_inplace.simps[of a])
next
  case (Suc n)
  then have i: "i < length orig" and len: "length a = length orig" by auto
  have now: "a ! i = orig ! i" using Suc.prems(3) i len by (metis hd_drop_conv_nth)
  have step: "take (Suc i) orig = take i orig @ [orig ! i]" using i by (rule take_Suc_conv_app_nth)
  have last: "0 < i \<Longrightarrow> last (take i orig) = orig ! (i - 1)"
    using i by (subst last_conv_nth) auto
  have rest: "drop (Suc i) a = drop (Suc i) orig" using Suc.prems(3) by (metis drop_drop plus_1_eq_Suc)
  show ?case
  proof (cases "0 < i \<and> a ! i = a ! (i - 1)")
    case True
    then have "remdups_adj (take (Suc i) orig) = remdups_adj (take i orig)"
      unfolding step remdups_adj_snoc using last now Suc.prems(4) i by auto
    then have "unique_inplace a (Suc i) k = remdups_adj orig"
      using Suc.prems Suc.hyps(2) i now rest by (intro Suc.hyps(1)) auto
    with True i len show ?thesis by (simp add: unique_inplace.simps[of a i k])
  next
    case False
    then have "\<not> (take i orig \<noteq> [] \<and> last (take i orig) = orig ! i)"
      using last now Suc.prems(4) i by auto
    then have "remdups_adj (take (Suc i) orig) = remdups_adj (take i orig) @ [orig ! i]"
      unfolding step remdups_adj_snoc by simp
    moreover have "take (Suc k) (a[k := a ! i]) = take k a @ [a ! i]"
      using Suc.prems(6) i len by (simp add: take_Suc_conv_app_nth)
    ultimately have "take (Suc k) (a[k := a ! i]) = remdups_adj (take (Suc i) orig)"
      using Suc.prems(5) now by simp
    moreover have "drop (Suc i) (a[k := a ! i]) = drop (Suc i) orig"
      using rest Suc.prems(6) by simp
    moreover have "a[k := a ! i] ! i = orig ! i" using now i len by (cases "k = i") auto
    ultimately have "unique_inplace (a[k := a ! i]) (Suc i) (Suc k) = remdups_adj orig"
      using Suc.prems Suc.hyps(2) i by (intro Suc.hyps(1)) auto
    with False i len show ?thesis by (auto simp add: unique_inplace.simps[of a i k])
  qed
qed

lemma SortedUniqueHashes_spec: "SortedUniqueHashes hs = remdups_adj (sort hs)"
  unfolding SortedUniqueHashes_def by (rule unique_inplace_inv) auto

lemma distinct_remdups_adj_sorted: "sorted (xs :: 'a :: linorder list) \<Longrightarrow> distinct (remdups_adj xs)"
  by (induction xs rule: remdups_adj.induct) (auto simp: less_le_not_le)

lemma SortedUniqueHashes_set [simp]: "set (SortedUniqueHashes hs) = set hs"
  and SortedUniqueHashes_sorted: "sorted (SortedUniqueHashes hs)"
  and SortedUniqueHashes_distinct: "distinct (SortedUniqueHashes hs)"
  by (simp_all add: SortedUniqueHashes_spec sorted_remdups_adj distinct_remdups_adj_sorted)

lemma SortedUniqueHashes_of_set: "SortedUniqueHashes hs = sorted_list_of_set (set hs)"
  using sorted_list_of_set.idem_if_sorted_distinct[OF SortedUniqueHashes_sorted SortedUniqueHashes_distinct, of hs] by simp

definition hashes_ok :: "bytes list \<Rightarrow> bool" where
  "hashes_ok hs \<longleftrightarrow> list_all (\<lambda>h. length h = modelHashSize) hs"

lemma chunks_Nil [simp]: "chunks [] = []"
  by (simp add: chunks.simps)

lemma chunks_concat: "hashes_ok hs \<Longrightarrow> chunks (concat hs) = hs"
proof (induction hs)
  case (Cons h hs)
  then have h: "length h = modelHashSize" and hs: "chunks (concat hs) = hs" by (simp_all add: hashes_ok_def)
  then have "h \<noteq> []" by (auto simp: modelHashSize_def)
  with h hs show ?case by (simp add: chunks.simps[of "h @ concat hs"])
qed (simp add: chunks.simps)

lemma concat_chunks: "concat (chunks d) = d"
proof (induction d rule: chunks.induct)
  case (1 d)
  then show ?case by (cases "d = []") (simp_all add: chunks.simps[of d])
qed

lemma chunks_ok: "length d mod modelHashSize = 0 \<Longrightarrow> hashes_ok (chunks d)"
proof (induction d rule: chunks.induct)
  case (1 d)
  show ?case
  proof (cases "d = []")
    case False
    with 1(2) have "modelHashSize \<le> length d" by (metis dvd_imp_le length_greater_0_conv mod_eq_0_iff_dvd)
    with 1 False show ?thesis
      by (simp add: chunks.simps[of d] hashes_ok_def) (metis le_mod_geq)
  qed (simp add: chunks.simps hashes_ok_def)
qed

lemma length_concat_hashes: "hashes_ok hs \<Longrightarrow> length (concat hs) = length hs * modelHashSize"
  by (induction hs) (auto simp: hashes_ok_def)

lemma hashes_ok_set: "hashes_ok hs \<longleftrightarrow> (\<forall>h\<in>set hs. length h = modelHashSize)"
  by (simp add: hashes_ok_def list_all_iff)

lemma Decode_Encode: "hashes_ok hs \<Longrightarrow> DecodeHashList (EncodeHashList hs) = Inr (SortedUniqueHashes hs)"
  using chunks_concat[of "SortedUniqueHashes hs"] length_concat_hashes[of "SortedUniqueHashes hs"]
  by (simp add: DecodeHashList_def EncodeHashList_def hashes_ok_set)

lemma EncodeHashList_inject:
  "hashes_ok hs \<Longrightarrow> hashes_ok hs' \<Longrightarrow> EncodeHashList hs = EncodeHashList hs' \<longleftrightarrow> set hs = set hs'"
  by (metis Decode_Encode SortedUniqueHashes_of_set SortedUniqueHashes_set sum.inject(2) EncodeHashList_def)

text \<open>C27: A set of model files is stored as one byte string and reads back as the same set, in ascending
  order and without duplicates, although the duplicates are removed in the very slice the loop is
  reading; two sets are stored alike exactly when they have the same members, whatever the order or the
  repetitions they were given with; and a byte string that is no sequence of whole hashes is refused.\<close>

theorem hash_sets_roundtrip:
  assumes "hashes_ok hs" "hashes_ok hs'"
  shows "DecodeHashList (EncodeHashList hs) = Inr (sorted_list_of_set (set hs)) \<and>
    (EncodeHashList hs = EncodeHashList hs' \<longleftrightarrow> set hs = set hs') \<and>
    (case DecodeHashList d of
       Inl _ \<Rightarrow> length d mod 32 \<noteq> 0
     | Inr ks \<Rightarrow> length d mod 32 = 0 \<and> hashes_ok ks \<and> concat ks = d)"
  using Decode_Encode[OF assms(1)] EncodeHashList_inject[OF assms] chunks_ok[of d] concat_chunks[of d]
  by (auto simp: SortedUniqueHashes_of_set DecodeHashList_def modelHashSize_def)

definition sample_hash :: "char \<Rightarrow> bytes" where
  "sample_hash c = replicate 32 c"

theorem hash_sets_roundtrip_witness:
  "DecodeHashList (EncodeHashList [sample_hash CHR ''b'', sample_hash CHR ''a'', sample_hash CHR ''b''])
     = Inr [sample_hash CHR ''a'', sample_hash CHR ''b'']"
proof -
  have less: "sample_hash CHR ''a'' < sample_hash CHR ''b''"
    by (simp add: sample_hash_def numeral_eq_Suc less_char_def)
  have "hashes_ok [sample_hash CHR ''b'', sample_hash CHR ''a'', sample_hash CHR ''b'']"
    by (simp add: hashes_ok_def sample_hash_def modelHashSize_def)
  from hash_sets_roundtrip[OF this this]
  show ?thesis using less by (simp add: insert_commute not_le[symmetric])
qed

section \<open>What the identity of a file depends on\<close>

lemma sort_key_sorted: "sorted (map k xs) \<Longrightarrow> sort_key k xs = xs"
  by (induction xs) (auto simp: insort_is_Cons)

lemma write_sorted: "writeCanonicalValue (sorted_json v) = writeCanonicalValue v"
proof (induction v rule: writeCanonicalValue.induct)
  case (5 vs)
  then have "map (writeCanonicalValue \<circ> sorted_json) vs = map writeCanonicalValue vs" by simp
  then show ?case by (simp del: map_eq_conv)
next
  case (6 ms)
  have "sort_key fst (map member (sort_key fst ms)) = map member (sort_key fst ms)"
    by (rule sort_key_sorted) (simp add: member_def comp_def)
  moreover have "map ((\<lambda>(k, v). writeCanonicalString k @ CHR '':'' # writeCanonicalValue v) \<circ> member) (sort_key fst ms)
      = map (\<lambda>(k, v). writeCanonicalString k @ CHR '':'' # writeCanonicalValue v) (sort_key fst ms)"
    using 6 by (intro map_cong) (auto simp: member_def)
  ultimately show ?case
    by (simp add: sorted_json_object del: sorted_json.simps map_eq_conv)
qed simp_all

lemma same_text_iff:
  assumes "json_ok v" "json_ok w"
  shows "writeCanonicalValue v = writeCanonicalValue w \<longleftrightarrow> sorted_json v = sorted_json w"
proof
  assume "writeCanonicalValue v = writeCanonicalValue w"
  then show "sorted_json v = sorted_json w"
    using write_prefix[OF assms, of "[]" "[]"] by simp
next
  assume "sorted_json v = sorted_json w"
  then show "writeCanonicalValue v = writeCanonicalValue w" by (metis write_sorted)
qed

text \<open>Two entries name the same file: the fields agree after normalization, and the format arguments up to
  the order of their members.\<close>

definition same_source :: "ModelFileEntry \<Rightarrow> ModelFileEntry \<Rightarrow> bool" where
  "same_source e e' \<longleftrightarrow> me_SourceType e = me_SourceType e' \<and> me_Format e = me_Format e' \<and>
     NormalizeModelName (me_Repository e) = NormalizeModelName (me_Repository e') \<and>
     sorted_json (JObject (me_FormatKwargs e)) = sorted_json (JObject (me_FormatKwargs e'))"

definition same_file :: "ModelFileEntry \<Rightarrow> ModelFileEntry \<Rightarrow> bool" where
  "same_file e e' \<longleftrightarrow> same_source e e' \<and>
     NormalizeCommitRevision (me_Revision e) = NormalizeCommitRevision (me_Revision e')"

definition entry_ok :: "ModelFileEntry \<Rightarrow> bool" where
  "entry_ok e \<longleftrightarrow> json_ok (JObject (me_FormatKwargs e))"

lemma key_order:
  "''format'' < ''format_kwargs''" "''format_kwargs'' < ''repository''" "''repository'' < ''revision''"
  "''revision'' < ''source_type''"
  by (simp_all add: less_char_def)

lemma canonicalObject_sorted:
  "sorted_json (canonicalObject e w) =
    JObject ([(''format'', JString (me_Format e)), (''format_kwargs'', sorted_json (JObject (me_FormatKwargs e))),
              (''repository'', JString (NormalizeModelName (me_Repository e)))]
      @ (if w then [(''revision'', JString (NormalizeCommitRevision (me_Revision e)))] else [])
      @ [(''source_type'', JString (me_SourceType e))])"
  by (simp add: canonicalObject_def Normalized_def sorted_json_object member_def Let_def less_char_def less_eq_char_def
      del: sorted_json.simps(2))

lemma canonicalObject_ok: "entry_ok e \<Longrightarrow> json_ok (canonicalObject e w)"
  by (simp add: canonicalObject_def Normalized_def entry_ok_def Let_def)

lemma canonical_text_iff:
  assumes "entry_ok e" "entry_ok e'"
  shows "writeCanonicalValue (canonicalObject e True) = writeCanonicalValue (canonicalObject e' True) \<longleftrightarrow> same_file e e'"
    and "SourceCanonicalJSON e = SourceCanonicalJSON e' \<longleftrightarrow> same_source e e'"
  unfolding SourceCanonicalJSON_def same_text_iff[OF canonicalObject_ok canonicalObject_ok, OF assms]
    canonicalObject_sorted same_file_def same_source_def
  by (auto simp del: sorted_json.simps)


text \<open>C26: What identifies a model file.  Two entries get the same canonical text exactly when their fields
  agree after normalization (repository names and commit hashes without regard to letter case) and
  their format arguments agree up to the order of members, at any depth.  So entries that name the same
  file always get the same file hash and the same source hash, and two entries with the same file hash
  either name the same file or exhibit two different texts with one SHA-256 value.\<close>

theorem model_file_identity:
  assumes "entry_ok e" "entry_ok e'" "me_Revision e \<noteq> []" "me_Revision e' \<noteq> []"
  shows "(same_file e e' \<longrightarrow> ModelFileHash sha256 e = ModelFileHash sha256 e' \<and>
        ModelFileSourceHash sha256 e = ModelFileSourceHash sha256 e') \<and>
    (ModelFileHash sha256 e = ModelFileHash sha256 e' \<longrightarrow> same_file e e' \<or>
        (\<exists>x y. entry_CanonicalJSON e = Inr x \<and> entry_CanonicalJSON e' = Inr y \<and> x \<noteq> y \<and> sha256 x = sha256 y)) \<and>
    (ModelFileSourceHash sha256 e = ModelFileSourceHash sha256 e' \<longrightarrow> same_source e e' \<or>
        (SourceCanonicalJSON e \<noteq> SourceCanonicalJSON e' \<and>
         sha256 (SourceCanonicalJSON e) = sha256 (SourceCanonicalJSON e')))"
  using canonical_text_iff[OF assms(1,2)] assms(3,4)
  by (auto simp: ModelFileHash_def ModelFileSourceHash_def entry_CanonicalJSON_def same_file_def)

definition sample_file_entry :: "string \<Rightarrow> ModelFileEntry" where
  "sample_file_entry repo = \<lparr> me_SourceType = ''huggingface'', me_Repository = repo, me_Revision = ''main'',
     me_Format = ''diffusers'', me_FormatKwargs = [(''variant'', JString ''fp16'')] \<rparr>"

theorem model_file_identity_witness:
  "ModelFileHash rev (sample_file_entry ''Org/Model'') = ModelFileHash rev (sample_file_entry ''org/model'')"
proof -
  have "same_file (sample_file_entry ''Org/Model'') (sample_file_entry ''org/model'')"
    by (simp add: same_file_def same_source_def sample_file_entry_def NormalizeModelName_def is_url_def
        ToLower_def lower_char_def char_of_eq_iff)
  then show ?thesis
    using model_file_identity[of "sample_file_entry ''Org/Model''" "sample_file_entry ''org/model''" rev]
    by (simp add: sample_file_entry_def entry_ok_def)
qed

end
