(* ===== verification/NodeIndex.thy ===== *)
theory NodeIndex
  imports ModelFiles
begin

text \<open>
  The in-memory scheduling index (\<^verbatim>\<open>service/node_index.go\<close>): one entry per node that has not quit,
  rebuilt from the database when the process starts and refreshed for every node a state update names,
  after the update and whether or not it failed.  The per-node locks order the updates of one node; an
  update is one step of the model.  The lemmas show that the index stays what a rebuild would give.
\<close>

section \<open>Entries\<close>

definition scoreNode :: "NodeIndexEntry \<Rightarrow> Node" where
  "scoreNode e = \<lparr> n_ID = 0, n_Network = ie_Network e, n_Address = ie_Address e, n_Status = ie_Status e,
     n_GPUName = [], n_GPUVram = 0, n_QOSScore = ie_QOSScore e, n_MajorVersion = 0, n_MinorVersion = 0,
     n_PatchVersion = 0, n_JoinTime = 0, n_StakeAmount = ie_StakeAmount e, n_HealthBase = ie_HealthBase e,
     n_HealthUpdatedAt = ie_HealthUpdatedAt e, n_HealthExcluded = ie_HealthExcluded e, n_DelegatorShare = 0,
     n_CurrentTaskIDCommitment = None, n_LastSeenTime = None \<rparr>"

definition row_hashes :: "NodeModelFileRow \<Rightarrow> go_error + bytes \<times> bytes" where
  "row_hashes file =
    (case Hash32FromBytes (fr_ModelFileHash file) of Inl e \<Rightarrow> Inl e | Inr hash \<Rightarrow>
     case Hash32FromBytes (fr_ModelFileSourceHash file) of Inl e \<Rightarrow> Inl e | Inr sourceHash \<Rightarrow> Inr (hash, sourceHash))"

definition disk_entry :: "Node \<Rightarrow> (bytes \<times> bytes) list \<Rightarrow> NodeIndexEntry" where
  "disk_entry node hashes = \<lparr> ie_Address = n_Address node, ie_Network = n_Network node, ie_Status = n_Status node,
     ie_HasCurrentTask = (n_CurrentTaskIDCommitment node \<noteq> None), ie_GPUName = n_GPUName node,
     ie_GPUVram = n_GPUVram node, ie_MajorVersion = n_MajorVersion node, ie_MinorVersion = n_MinorVersion node,
     ie_PatchVersion = n_PatchVersion node, ie_QOSScore = n_QOSScore node, ie_HealthBase = n_HealthBase node,
     ie_HealthUpdatedAt = n_HealthUpdatedAt node, ie_HealthExcluded = n_HealthExcluded node,
     ie_StakeAmount = n_StakeAmount node, ie_OnDiskModelFileHashes = remdups (map fst hashes),
     ie_OnDiskModelFileSourceHashes = remdups (map snd hashes), ie_CurrentModelCacheHash = None,
     ie_CurrentModelFileHashes = [], ie_CurrentModelFileSourceHashes = [] \<rparr>"

definition buildNodeIndexEntry ::
  "Node \<Rightarrow> NodeModelFileRow list \<Rightarrow> NodeInMemoryModel option \<Rightarrow> go_error + NodeIndexEntry" where
  "buildNodeIndexEntry node files inMemory =
    (case map_sum_list row_hashes files of Inl e \<Rightarrow> Inl e | Inr hashes \<Rightarrow>
     let ie = disk_entry node hashes; sourceOf = map_of (rev hashes) in
     case inMemory of
       None \<Rightarrow> Inr ie
     | Some m \<Rightarrow>
         (case Hash32FromBytes (im_CurrentModelCacheHash m) of Inl e \<Rightarrow> Inl e | Inr cacheHash \<Rightarrow>
          case FileHashes m of Inl e \<Rightarrow> Inl e | Inr currentFiles \<Rightarrow>
          Inr (ie\<lparr> ie_CurrentModelCacheHash := Some cacheHash,
                  ie_CurrentModelFileHashes := remdups currentFiles,
                  ie_CurrentModelFileSourceHashes := remdups (List.map_filter sourceOf currentFiles) \<rparr>)))"

record nodeModelState =
  ms_files :: "NodeModelFileRow list"
  ms_inMemory :: "NodeInMemoryModel list"

definition files_of :: "nodeModelState \<Rightarrow> address \<Rightarrow> NodeModelFileRow list" where
  "files_of st addr = filter (\<lambda>r. fr_NodeAddress r = addr) (ms_files st)"

definition inMemory_of :: "nodeModelState \<Rightarrow> address \<Rightarrow> NodeInMemoryModel option" where
  "inMemory_of st addr = find (\<lambda>m. im_NodeAddress m = addr) (ms_inMemory st)"

definition loadNodeModelState :: "address list \<Rightarrow> nodeModelState relay" where
  "loadNodeModelState addrs =
    bnd (ListNodeModelFileRows addrs) (\<lambda>rows.
    if addrs = [] then bnd ListNodeInMemoryModels (\<lambda>memoryRows. ret \<lparr> ms_files = rows, ms_inMemory = memoryRows \<rparr>)
    else bnd (map_each GetNodeInMemoryModel addrs) (\<lambda>memories.
         ret \<lparr> ms_files = rows, ms_inMemory = List.map_filter id memories \<rparr>))"

section \<open>Keeping the index\<close>

definition InitNodeIndex :: "unit relay" where
  "InitNodeIndex =
    bnd (read_db (\<lambda>d. filter (\<lambda>n. n_Status n \<noteq> NodeStatusQuit) (d_nodes d))) (\<lambda>nodes.
    bnd (loadNodeModelState []) (\<lambda>st.
    bnd (of_sum (map_sum_list (\<lambda>n. buildNodeIndexEntry n (files_of st (n_Address n)) (inMemory_of st (n_Address n))) nodes)) (\<lambda>entries.
    write_mem (\<lambda>m. m\<lparr> m_nodeIndex := foldl (\<lambda>idx ie. AList.update (ie_Address ie) ie idx) [] entries \<rparr>))))"

definition removeSlot :: "address \<Rightarrow> unit relay" where
  "removeSlot addr = write_mem (\<lambda>m. m\<lparr> m_nodeIndex := AList.delete addr (m_nodeIndex m) \<rparr>)"

definition refreshNodeIndexLocked :: "address \<Rightarrow> unit relay" where
  "refreshNodeIndexLocked addr =
    bnd (read_db (\<lambda>d. find (\<lambda>n. n_Address n = addr) (d_nodes d))) (\<lambda>r.
    case r of
      None \<Rightarrow> removeSlot addr
    | Some node \<Rightarrow>
        if n_Status node = NodeStatusQuit then removeSlot addr
        else bnd (loadNodeModelState [addr]) (\<lambda>st.
             bnd (of_sum (buildNodeIndexEntry node (files_of st addr) (inMemory_of st addr))) (\<lambda>ie.
             write_mem (\<lambda>m. m\<lparr> m_nodeIndex := AList.update addr ie (m_nodeIndex m) \<rparr>))))"

text \<open>A refresh that fails is logged.\<close>

definition refresh_all :: "address list \<Rightarrow> unit relay" where
  "refresh_all addrs = for_each addrs (\<lambda>addr. try_catch (refreshNodeIndexLocked addr) (\<lambda>_. ret ()))"

definition ExecuteNodeStateUpdate :: "address list \<Rightarrow> 'a relay \<Rightarrow> 'a relay" where
  "ExecuteNodeStateUpdate addrs fn = (\<lambda>s.
    let unique = sort (remdups (filter (\<lambda>a. a \<noteq> []) addrs)); (r, s') = fn s
    in (r, snd (refresh_all unique s')))"

definition SnapshotNodeIndex :: "NodeIndexEntry list relay" where
  "SnapshotNodeIndex = read_mem (\<lambda>m. map snd (m_nodeIndex m))"

section \<open>The index is a view of the database\<close>

definition stored_files :: "db \<Rightarrow> address \<Rightarrow> NodeModelFileRow list" where
  "stored_files d addr = model_file_rows d (filter (\<lambda>nm. nm_NodeAddress nm = addr) (d_node_models d))"

definition stored_node :: "db \<Rightarrow> address \<Rightarrow> Node option" where
  "stored_node d addr = find (\<lambda>n. n_Address n = addr) (d_nodes d)"

definition stored_memory :: "db \<Rightarrow> address \<Rightarrow> NodeInMemoryModel option" where
  "stored_memory d addr = find (\<lambda>m. im_NodeAddress m = addr) (d_in_memory_models d)"

text \<open>What the index should hold for an address: nothing for a node that has quit or does not exist, an
  error when the rows of the node do not decode.\<close>

definition index_entry :: "db \<Rightarrow> address \<Rightarrow> go_error + NodeIndexEntry option" where
  "index_entry d addr =
    (case stored_node d addr of
       None \<Rightarrow> Inr None
     | Some node \<Rightarrow>
         if n_Status node = NodeStatusQuit then Inr None
         else map_sum id Some (buildNodeIndexEntry node (stored_files d addr) (stored_memory d addr)))"

definition index_current :: "state \<Rightarrow> bool" where
  "index_current s \<longleftrightarrow> (\<forall>addr e. index_entry (fst s) addr = Inr e \<longrightarrow> map_of (m_nodeIndex (snd s)) addr = e)"

lemma model_file_rows_filter:
  "filter (\<lambda>r. fr_NodeAddress r = addr) (model_file_rows d nms)
     = model_file_rows d (filter (\<lambda>nm. nm_NodeAddress nm = addr) nms)"
  unfolding model_file_rows_def filter_sort
  by (rule arg_cong[where f = "sort_key _"], induction nms) (auto simp: filter_map comp_def)

lemma find_map_filter_id: "find p (List.map_filter id [r]) = (case r of None \<Rightarrow> None | Some x \<Rightarrow> if p x then Some x else None)"
  by (cases r) (simp_all add: List.map_filter_def)

lemma load_one:
  "loadNodeModelState [addr] s = (Inr \<lparr> ms_files = stored_files (fst s) addr,
     ms_inMemory = List.map_filter id [stored_memory (fst s) addr] \<rparr>, s)"
  by (simp add: loadNodeModelState_def ListNodeModelFileRows_def GetNodeInMemoryModel_def op_simps
      stored_files_def stored_memory_def)

lemma stored_memory_address: "stored_memory d addr = Some m \<Longrightarrow> im_NodeAddress m = addr"
  by (auto simp: stored_memory_def find_Some_iff)

lemma load_one_files:
  "files_of \<lparr> ms_files = stored_files d addr, ms_inMemory = ms \<rparr> addr = stored_files d addr"
  by (simp add: files_of_def stored_files_def model_file_rows_filter)

lemma load_one_memory:
  "inMemory_of \<lparr> ms_files = rs, ms_inMemory = List.map_filter id [stored_memory d addr] \<rparr> addr = stored_memory d addr"
  using stored_memory_address[of d addr]
  by (auto simp: inMemory_of_def find_map_filter_id split: option.splits)

lemma load_one_state:
  obtains st where "loadNodeModelState [addr] s = (Inr st, s)" "files_of st addr = stored_files (fst s) addr"
    "inMemory_of st addr = stored_memory (fst s) addr"
  using load_one load_one_files load_one_memory that by metis

lemma refresh_run:
  "refreshNodeIndexLocked addr s =
    (case index_entry (fst s) addr of
       Inl e \<Rightarrow> (Inl e, s)
     | Inr None \<Rightarrow> (Inr (), (fst s, (snd s)\<lparr> m_nodeIndex := AList.delete addr (m_nodeIndex (snd s)) \<rparr>))
     | Inr (Some ie) \<Rightarrow> (Inr (), (fst s, (snd s)\<lparr> m_nodeIndex := AList.update addr ie (m_nodeIndex (snd s)) \<rparr>)))"
proof -
  obtain st where st: "loadNodeModelState [addr] s = (Inr st, s)" "files_of st addr = stored_files (fst s) addr"
    "inMemory_of st addr = stored_memory (fst s) addr" by (rule load_one_state)
  show ?thesis
  proof (cases "stored_node (fst s) addr")
    case (Some node)
    then show ?thesis
      by (cases "buildNodeIndexEntry node (stored_files (fst s) addr) (stored_memory (fst s) addr)")
        (simp_all add: refreshNodeIndexLocked_def index_entry_def stored_node_def op_simps removeSlot_def st)
  qed (simp add: refreshNodeIndexLocked_def index_entry_def stored_node_def op_simps removeSlot_def)
qed

lemma refresh_all_run:
  "fst (snd (refresh_all addrs s)) = fst s \<and>
   (\<forall>addr. map_of (m_nodeIndex (snd (snd (refresh_all addrs s)))) addr =
     (if addr \<in> set addrs then (case index_entry (fst s) addr of Inl _ \<Rightarrow> map_of (m_nodeIndex (snd s)) addr | Inr e \<Rightarrow> e)
      else map_of (m_nodeIndex (snd s)) addr))"
proof (induction addrs arbitrary: s)
  case (Cons a addrs)
  define t where "t = snd (try_catch (refreshNodeIndexLocked a) (\<lambda>_. ret ()) s)"
  have head: "refresh_all (a # addrs) s = refresh_all addrs t"
    by (simp add: refresh_all_def t_def op_simps refresh_run split: sum.splits option.splits)
  have t: "fst t = fst s" "map_of (m_nodeIndex (snd t)) addr = (if addr = a
      then (case index_entry (fst s) a of Inl _ \<Rightarrow> map_of (m_nodeIndex (snd s)) a | Inr e \<Rightarrow> e)
      else map_of (m_nodeIndex (snd s)) addr)" for addr
    by (auto simp: t_def op_simps refresh_run AList.update_conv' AList.delete_conv' split: sum.splits option.splits)
  show ?case unfolding head using Cons.IH[of t] by (auto simp: t split: sum.splits)
qed (simp add: refresh_all_def op_simps)

lemma map_sum_list_Inr: "map_sum_list f xs = Inr ys \<Longrightarrow> list_all2 (\<lambda>x y. f x = Inr y) xs ys"
  by (induction xs arbitrary: ys) (auto split: sum.splits)

lemma list_all2_set:
  "list_all2 P xs ys \<Longrightarrow> (\<forall>y\<in>set ys. \<exists>x\<in>set xs. P x y) \<and> (\<forall>x\<in>set xs. \<exists>y\<in>set ys. P x y)"
  by (induction rule: list_all2_induct) auto

lemma find_filter: "find p xs = (case filter p xs of [] \<Rightarrow> None | x # _ \<Rightarrow> Some x)"
  by (induction xs) auto

lemma load_all_state:
  obtains st where "loadNodeModelState [] s = (Inr st, s)" "\<And>addr. files_of st addr = stored_files (fst s) addr"
    "\<And>addr. inMemory_of st addr = stored_memory (fst s) addr"
proof
  let ?st = "\<lparr> ms_files = model_file_rows (fst s) (d_node_models (fst s)),
     ms_inMemory = sort_key im_NodeAddress (d_in_memory_models (fst s)) \<rparr>"
  show "loadNodeModelState [] s = (Inr ?st, s)"
    by (simp add: loadNodeModelState_def ListNodeModelFileRows_def ListNodeInMemoryModels_def op_simps)
  show "files_of ?st addr = stored_files (fst s) addr" for addr
    by (simp add: files_of_def stored_files_def model_file_rows_filter)
  show "inMemory_of ?st addr = stored_memory (fst s) addr" for addr
    by (simp add: inMemory_of_def stored_memory_def find_filter sort_key_stable)
qed

lemma map_of_updates:
  "map_of (foldl (\<lambda>idx ie. AList.update (ie_Address ie) ie idx) idx es) =
     map_of idx ++ map_of (rev (map (\<lambda>ie. (ie_Address ie, ie)) es))"
  by (induction es arbitrary: idx) (auto simp: AList.update_conv')

lemma build_address: "buildNodeIndexEntry node files mm = Inr ie \<Longrightarrow> ie_Address ie = n_Address node"
  by (auto simp: buildNodeIndexEntry_def disk_entry_def Let_def split: sum.splits option.splits)

definition nodes_distinct :: "db \<Rightarrow> bool" where
  "nodes_distinct d \<longleftrightarrow> distinct (map n_Address (d_nodes d))"

lemma stored_node_iff:
  "nodes_distinct d \<Longrightarrow> stored_node d addr = Some n \<longleftrightarrow> n \<in> set (d_nodes d) \<and> n_Address n = addr"
proof -
  have "distinct (map n_Address ns) \<Longrightarrow> find (\<lambda>n. n_Address n = addr) ns = Some n \<longleftrightarrow> n \<in> set ns \<and> n_Address n = addr" for ns
    by (induction ns) auto
  then show "nodes_distinct d \<Longrightarrow> ?thesis" by (simp add: nodes_distinct_def stored_node_def)
qed

lemma init_index_current:
  assumes run: "returns InitNodeIndex s () s'" and distinct: "nodes_distinct (fst s)"
  shows "index_current s' \<and> fst s' = fst s"
proof -
  obtain st where st: "loadNodeModelState [] s = (Inr st, s)" "\<And>addr. files_of st addr = stored_files (fst s) addr"
    "\<And>addr. inMemory_of st addr = stored_memory (fst s) addr" by (rule load_all_state) blast
  let ?nodes = "filter (\<lambda>n. n_Status n \<noteq> NodeStatusQuit) (d_nodes (fst s))"
  let ?build = "\<lambda>n. buildNodeIndexEntry n (stored_files (fst s) (n_Address n)) (stored_memory (fst s) (n_Address n))"
  from run obtain es where es: "map_sum_list ?build ?nodes = Inr es"
    and s': "s' = (fst s, (snd s)\<lparr> m_nodeIndex := foldl (\<lambda>idx ie. AList.update (ie_Address ie) ie idx) [] es \<rparr>)"
    by (auto simp: InitNodeIndex_def returns_def op_simps st split: sum.splits)
  have all: "list_all2 (\<lambda>n ie. ?build n = Inr ie) ?nodes es" using es by (rule map_sum_list_Inr)
  then have addrs: "map ie_Address es = map n_Address ?nodes"
    by (induction rule: list_all2_induct) (auto dest: build_address)
  have "distinct (map n_Address ?nodes)" using distinct by (simp add: nodes_distinct_def distinct_map_filter)
  moreover have "map fst (rev (map (\<lambda>ie. (ie_Address ie, ie)) es)) = rev (map ie_Address es)"
    by (simp add: rev_map comp_def)
  ultimately have keys: "distinct (map fst (rev (map (\<lambda>ie. (ie_Address ie, ie)) es)))"
    unfolding addrs by simp
  have look: "map_of (m_nodeIndex (snd s')) addr = Some ie \<longleftrightarrow> ie \<in> set es \<and> ie_Address ie = addr" for addr ie
    using map_of_eq_Some_iff[OF keys] by (auto simp: s' map_of_updates)
  have mem: "ie \<in> set es \<longleftrightarrow> (\<exists>n\<in>set ?nodes. ?build n = Inr ie)" for ie
  proof
    assume "ie \<in> set es"
    then show "\<exists>n\<in>set ?nodes. ?build n = Inr ie" using list_all2_set[OF all] by blast
  next
    assume "\<exists>n\<in>set ?nodes. ?build n = Inr ie"
    then obtain n where n: "n \<in> set ?nodes" "?build n = Inr ie" by blast
    then obtain ie' where "ie' \<in> set es" "?build n = Inr ie'" using list_all2_set[OF all] by blast
    then show "ie \<in> set es" using n by simp
  qed
  have "map_of (m_nodeIndex (snd s')) addr = e" if e: "index_entry (fst s) addr = Inr e" for addr e
  proof (cases "stored_node (fst s) addr")
    case None
    then have "map_of (m_nodeIndex (snd s')) addr \<noteq> Some ie" for ie
      using stored_node_iff[OF distinct, of addr] build_address unfolding look mem by (metis (lifting) mem_Collect_eq option.distinct(1) set_filter)
    with None e show ?thesis by (auto simp: index_entry_def)
  next
    case (Some n)
    then have n: "n \<in> set (d_nodes (fst s))" "n_Address n = addr"
      using stored_node_iff[OF distinct, of addr] by auto
    have only: "n' = n" if "n' \<in> set (d_nodes (fst s))" "n_Address n' = addr" for n'
      using stored_node_iff[OF distinct, of addr n'] that Some by simp
    have iff: "map_of (m_nodeIndex (snd s')) addr = Some ie \<longleftrightarrow> n_Status n \<noteq> NodeStatusQuit \<and> ?build n = Inr ie" for ie
    proof
      assume "map_of (m_nodeIndex (snd s')) addr = Some ie"
      then obtain n' where "n' \<in> set ?nodes" "?build n' = Inr ie" "ie_Address ie = addr" by (auto simp: look mem)
      then show "n_Status n \<noteq> NodeStatusQuit \<and> ?build n = Inr ie" using only[of n'] build_address[of n'] by auto
    next
      assume "n_Status n \<noteq> NodeStatusQuit \<and> ?build n = Inr ie"
      then show "map_of (m_nodeIndex (snd s')) addr = Some ie"
        unfolding look mem using n build_address[of n] by auto
    qed
    show ?thesis
    proof (cases "n_Status n = NodeStatusQuit")
      case True
      then have "map_of (m_nodeIndex (snd s')) addr \<noteq> Some ie" for ie by (simp add: iff)
      with True Some e show ?thesis by (auto simp: index_entry_def)
    next
      case False
      with Some e n show ?thesis using iff by (cases "?build n") (auto simp: index_entry_def)
    qed
  qed
  then show ?thesis by (simp add: index_current_def s')
qed

text \<open>What an update may do: change rows of the nodes it names, and leave the index to the refresh.\<close>

definition same_node :: "db \<Rightarrow> db \<Rightarrow> address \<Rightarrow> bool" where
  "same_node d d' addr \<longleftrightarrow> stored_node d' addr = stored_node d addr \<and> stored_files d' addr = stored_files d addr \<and>
     stored_memory d' addr = stored_memory d addr"

definition touches_only :: "address list \<Rightarrow> 'a relay \<Rightarrow> state \<Rightarrow> bool" where
  "touches_only addrs fn s \<longleftrightarrow> m_nodeIndex (snd (snd (fn s))) = m_nodeIndex (snd s) \<and>
     (\<forall>addr. addr \<notin> set addrs - {[]} \<longrightarrow> same_node (fst s) (fst (snd (fn s))) addr)"

lemma execute_keeps_index:
  assumes "index_current s" "touches_only addrs fn s"
  shows "index_current (snd (ExecuteNodeStateUpdate addrs fn s))"
proof -
  let ?t = "snd (fn s)"
  have same: "index_entry (fst ?t) addr = index_entry (fst s) addr" if addr: "addr \<notin> set addrs - {[]}" for addr
  proof -
    have "same_node (fst s) (fst ?t) addr" using assms(2) addr by (simp add: touches_only_def)
    then show ?thesis by (cases "stored_node (fst s) addr") (auto simp: same_node_def index_entry_def)
  qed
  let ?u = "sort (remdups (filter (\<lambda>a. a \<noteq> []) addrs))"
  have out: "snd (ExecuteNodeStateUpdate addrs fn s) = snd (refresh_all ?u ?t)"
    by (simp add: ExecuteNodeStateUpdate_def Let_def case_prod_beta)
  have "map_of (m_nodeIndex (snd (snd (refresh_all ?u ?t)))) addr = e" if e: "index_entry (fst ?t) addr = Inr e" for addr e
  proof (cases "addr \<in> set addrs - {[]}")
    case True
    then show ?thesis using refresh_all_run[of ?u ?t] e by simp
  next
    case False
    then have "map_of (m_nodeIndex (snd s)) addr = e" using assms(1) same e by (simp add: index_current_def)
    then show ?thesis using refresh_all_run[of ?u ?t] assms(2) False by (auto simp: touches_only_def)
  qed
  then show ?thesis using refresh_all_run[of ?u ?t] by (simp add: index_current_def out)
qed

text \<open>C23: The scheduling index is always what the database says.  A rebuild at start-up makes it so, and
  any state update, successful or failed, that changes rows of the nodes it names leaves it so: for
  every address the index holds the entry built from the node's row, its files on disk and its model in
  memory, and holds nothing for a node that has quit or never joined.  The update's own result and
  database are passed on unchanged.\<close>

theorem node_index_follows_database:
  assumes "nodes_distinct (fst s)" "returns InitNodeIndex s () s1"
    and "fst s2 = fst s1" "m_nodeIndex (snd s2) = m_nodeIndex (snd s1)" "touches_only addrs fn s2"
  shows "index_current s1 \<and> index_current (snd (ExecuteNodeStateUpdate addrs fn s2)) \<and>
    fst (ExecuteNodeStateUpdate addrs fn s2) = fst (fn s2) \<and>
    fst (snd (ExecuteNodeStateUpdate addrs fn s2)) = fst (snd (fn s2))"
proof -
  have s1: "index_current s1" using init_index_current[OF assms(2,1)] ..
  then have "index_current s2" using assms(3,4) by (simp add: index_current_def)
  from execute_keeps_index[OF this assms(5)] s1 show ?thesis
    using conjunct1[OF refresh_all_run] by (simp add: ExecuteNodeStateUpdate_def Let_def case_prod_beta)
qed

definition sample_node :: Node where
  "sample_node = \<lparr> n_ID = 1, n_Network = ''n'', n_Address = ''a'', n_Status = NodeStatusAvailable,
     n_GPUName = ''gpu'', n_GPUVram = 8, n_QOSScore = 5, n_MajorVersion = 3, n_MinorVersion = 6,
     n_PatchVersion = 1, n_JoinTime = 0, n_StakeAmount = 400, n_HealthBase = 1, n_HealthUpdatedAt = None,
     n_HealthExcluded = False, n_DelegatorShare = 0, n_CurrentTaskIDCommitment = None, n_LastSeenTime = None \<rparr>"

definition one_node_db :: db where
  "one_node_db = empty_db\<lparr> d_nodes := [sample_node] \<rparr>"

theorem node_index_follows_database_witness:
  "\<exists>s1. returns InitNodeIndex (one_node_db, empty_mem) () s1 \<and>
     index_current (snd (ExecuteNodeStateUpdate [''a''] (node_Update sample_node (\<lambda>n. n\<lparr> n_Status := NodeStatusBusy \<rparr>)) s1))"
proof -
  define s1 where "s1 = (one_node_db, empty_mem\<lparr> m_nodeIndex := [(''a'', disk_entry sample_node [])] \<rparr>)"
  have init: "returns InitNodeIndex (one_node_db, empty_mem) () s1"
    by (simp add: InitNodeIndex_def loadNodeModelState_def ListNodeModelFileRows_def ListNodeInMemoryModels_def
        model_file_rows_def returns_def op_simps one_node_db_def empty_db_def empty_mem_def sample_node_def
        buildNodeIndexEntry_def disk_entry_def s1_def files_of_def inMemory_of_def)
  have touch: "touches_only [''a''] (node_Update sample_node (\<lambda>n. n\<lparr> n_Status := NodeStatusBusy \<rparr>)) s1"
    by (auto simp: touches_only_def same_node_def s1_def node_Update_def op_simps one_node_db_def empty_db_def
        sample_node_def stored_node_def stored_files_def stored_memory_def model_file_rows_def upd_where_def)
  have "nodes_distinct (fst (one_node_db, empty_mem))" by (simp add: nodes_distinct_def one_node_db_def)
  from node_index_follows_database[OF this init refl refl touch] init show ?thesis by blast
qed

lemma refresh_all_mem: "\<exists>idx. snd (snd (refresh_all addrs s)) = (snd s)\<lparr> m_nodeIndex := idx \<rparr>"
proof (induction addrs arbitrary: s)
  case (Cons a addrs)
  define t where "t = snd (try_catch (refreshNodeIndexLocked a) (\<lambda>_. ret ()) s)"
  have head: "refresh_all (a # addrs) s = refresh_all addrs t"
    by (simp add: refresh_all_def t_def op_simps refresh_run split: sum.splits option.splits)
  have "\<exists>idx. snd t = (snd s)\<lparr> m_nodeIndex := idx \<rparr>"
    by (auto simp: t_def op_simps refresh_run split: sum.splits option.splits intro: exI[of _ "m_nodeIndex (snd s)"])
  then show ?case unfolding head using Cons.IH[of t] by auto
next
  case Nil
  show ?case by (rule exI[of _ "m_nodeIndex (snd s)"]) (simp add: refresh_all_def op_simps)
qed

lemma execute_run:
  assumes "fn s = (r, t)"
  obtains idx where "ExecuteNodeStateUpdate addrs fn s = (r, (fst t, (snd t)\<lparr> m_nodeIndex := idx \<rparr>))"
proof -
  let ?u = "sort (remdups (filter (\<lambda>a. a \<noteq> []) addrs))"
  obtain idx where "snd (snd (refresh_all ?u t)) = (snd t)\<lparr> m_nodeIndex := idx \<rparr>" using refresh_all_mem by blast
  moreover have "fst (snd (refresh_all ?u t)) = fst t" using refresh_all_run by blast
  ultimately have "snd (refresh_all ?u t) = (fst t, (snd t)\<lparr> m_nodeIndex := idx \<rparr>)" by (simp add: prod_eq_iff)
  then show ?thesis using that assms by (simp add: ExecuteNodeStateUpdate_def)
qed

lemma execute_returns:
  "returns (ExecuteNodeStateUpdate addrs fn) s a s' \<Longrightarrow>
   \<exists>t idx. returns fn s a t \<and> s' = (fst t, (snd t)\<lparr> m_nodeIndex := idx \<rparr>)"
proof -
  assume run: "returns (ExecuteNodeStateUpdate addrs fn) s a s'"
  obtain r t where fn: "fn s = (r, t)" by (cases "fn s")
  obtain idx where "ExecuteNodeStateUpdate addrs fn s = (r, (fst t, (snd t)\<lparr> m_nodeIndex := idx \<rparr>))"
    using execute_run[of fn s r t, OF fn] by blast
  with run fn show ?thesis by (auto simp: returns_def)
qed

end
