(* ===== verification/ModelWhitelist.thy ===== *)
theory ModelWhitelist
  imports NodeIndex
begin

text \<open>
  The model whitelist (\<^verbatim>\<open>service/model_whitelist.go\<close>): entries name a repository or, as \<^verbatim>\<open>owner/*\<close>, all
  repositories of an organization.  Decisions read only the cache, which every change of the table
  reloads; when the whitelist is enforced, a reload also removes the files, memory models, download
  selections and loaded-model rows the new list forbids.  The lemmas show that decisions agree with the
  table and that nothing forbidden survives a reload.
\<close>

section \<open>Names\<close>

definition star :: char where "star = CHR ''*''"

definition slash :: char where "slash = CHR 0x2F"

text \<open>\<^verbatim>\<open>strings.Cut\<close> at the first separator.\<close>

definition Cut :: "char \<Rightarrow> string \<Rightarrow> string \<times> string \<times> bool" where
  "Cut sep s = (if sep \<in> set s then (takeWhile (\<lambda>c. c \<noteq> sep) s, tl (dropWhile (\<lambda>c. c \<noteq> sep) s), True) else (s, [], False))"

definition normalizeModelWhitelistCandidate :: "string \<Rightarrow> go_error + string" where
  "normalizeModelWhitelistCandidate name =
    (let normalized = NormalizeModelName (TrimSpace name) in
     if normalized = [] then Inl ErrInvalidModelWhitelistName else Inr normalized)"

definition isOrganizationWhitelistEntry :: "string \<Rightarrow> bool" where
  "isOrganizationWhitelistEntry normalized \<longleftrightarrow>
    \<not> is_url normalized \<and>
    (case Cut slash normalized of (owner, suffix, ok) \<Rightarrow> ok \<and> owner \<noteq> [] \<and> suffix = [star] \<and> star \<notin> set owner)"

definition valid_whitelist_entry :: "string \<Rightarrow> bool" where
  "valid_whitelist_entry normalized \<longleftrightarrow>
    (if is_url normalized then star \<notin> set normalized
     else star \<notin> set normalized \<or>
       (case Cut slash normalized of (owner, suffix, ok) \<Rightarrow> \<not> (\<not> ok \<or> owner = [] \<or> suffix \<noteq> [star] \<or> star \<in> set owner)))"

definition NormalizeModelWhitelistName :: "string \<Rightarrow> go_error + string" where
  "NormalizeModelWhitelistName name =
    (case normalizeModelWhitelistCandidate name of Inl e \<Rightarrow> Inl e | Inr normalized \<Rightarrow>
     if valid_whitelist_entry normalized then Inr normalized else Inl ErrInvalidModelWhitelistName)"

definition organizationOwnerFromWildcard :: "string \<Rightarrow> string option" where
  "organizationOwnerFromWildcard normalized =
    (if isOrganizationWhitelistEntry normalized then Some (fst (Cut slash normalized)) else None)"

section \<open>The cache\<close>

definition ListModelWhitelistNames :: "string list relay" where
  "ListModelWhitelistNames = read_db (\<lambda>d. sort (d_model_whitelist d))"

definition insert_key :: "'a \<Rightarrow> 'a list \<Rightarrow> 'a list" where
  "insert_key x xs = (if x \<in> set xs then xs else xs @ [x])"

fun split_entries :: "string list \<Rightarrow> string list \<times> string list \<Rightarrow> go_error + string list \<times> string list" where
  "split_entries [] acc = Inr acc"
| "split_entries (name # names) (exact, orgs) =
    (case NormalizeModelWhitelistName name of Inl e \<Rightarrow> Inl e | Inr normalized \<Rightarrow>
     case organizationOwnerFromWildcard normalized of
       Some owner \<Rightarrow> split_entries names (exact, insert_key owner orgs)
     | None \<Rightarrow> split_entries names (insert_key normalized exact, orgs))"

definition loadModelWhitelistCacheLocked :: "unit relay" where
  "loadModelWhitelistCacheLocked =
    bnd ListModelWhitelistNames (\<lambda>names.
    bnd (of_sum (split_entries names ([], []))) (\<lambda>cache.
    write_mem (\<lambda>m. m\<lparr> m_modelWhitelist := Some cache \<rparr>)))"

definition IsModelWhitelisted :: "mem \<Rightarrow> string \<Rightarrow> go_error + bool" where
  "IsModelWhitelisted m modelName =
    (case normalizeModelWhitelistCandidate modelName of Inl e \<Rightarrow> Inl e | Inr normalizedName \<Rightarrow>
     case m_modelWhitelist m of
       None \<Rightarrow> Inl ErrModelWhitelistNotInitialized
     | Some (exact, orgs) \<Rightarrow>
         if normalizedName \<in> set exact then Inr True
         else if is_url normalizedName then Inr False
         else (case Cut slash normalizedName of (owner, _, ok) \<Rightarrow>
               if \<not> ok \<or> owner = [] then Inr False else Inr (owner \<in> set orgs)))"

section \<open>Filters\<close>

fun filterWhitelisted :: "mem \<Rightarrow> ModelFile list \<Rightarrow> go_error + ModelFile list" where
  "filterWhitelisted m [] = Inr []"
| "filterWhitelisted m (file # files) =
    (case IsModelWhitelisted m (me_Repository (mf_Entry file)) of Inl e \<Rightarrow> Inl e | Inr ok \<Rightarrow>
     case filterWhitelisted m files of Inl e \<Rightarrow> Inl e | Inr kept \<Rightarrow> Inr (if ok then file # kept else kept))"

definition filterWhitelistedModelFiles :: "AppConfig \<Rightarrow> ModelFile list \<Rightarrow> ModelFile list relay" where
  "filterWhitelistedModelFiles cfg files =
    (if \<not> cfg_ModelWhitelistEnabled cfg then ret files
     else bnd (read_mem (\<lambda>m. filterWhitelisted m files)) of_sum)"

fun assertWhitelisted :: "mem \<Rightarrow> ModelFile list \<Rightarrow> go_error + unit" where
  "assertWhitelisted m [] = Inr ()"
| "assertWhitelisted m (file # files) =
    (case IsModelWhitelisted m (me_Repository (mf_Entry file)) of Inl e \<Rightarrow> Inl e | Inr ok \<Rightarrow>
     if \<not> ok then Inl ErrModelNotWhitelisted else assertWhitelisted m files)"

definition assertWhitelistedModelFiles :: "AppConfig \<Rightarrow> ModelFile list \<Rightarrow> unit relay" where
  "assertWhitelistedModelFiles cfg files =
    (if \<not> cfg_ModelWhitelistEnabled cfg then ret ()
     else bnd (read_mem (\<lambda>m. assertWhitelisted m files)) of_sum)"

definition modelFileRejectedByWhitelist :: "AppConfig \<Rightarrow> ModelFile \<Rightarrow> bool relay" where
  "modelFileRejectedByWhitelist cfg file =
    (if \<not> cfg_ModelWhitelistEnabled cfg then ret False
     else bnd (read_mem (\<lambda>m. IsModelWhitelisted m (me_Repository (mf_Entry file)))) (\<lambda>r.
          bnd (of_sum r) (\<lambda>ok. ret (\<not> ok))))"

section \<open>Removing what the list forbids\<close>

fun banned_files :: "mem \<Rightarrow> ModelFile list \<Rightarrow> bytes list \<Rightarrow> go_error + bytes list" where
  "banned_files m [] banned = Inr banned"
| "banned_files m (file # files) banned =
    (case IsModelWhitelisted m (me_Repository (mf_Entry file)) of Inl e \<Rightarrow> Inl e | Inr ok \<Rightarrow>
     if ok then banned_files m files banned
     else (case Hash32FromBytes (mf_ModelFileHash file) of Inl e \<Rightarrow> Inl e | Inr hash \<Rightarrow>
           banned_files m files (insert_key hash banned)))"

fun any_not_whitelisted :: "mem \<Rightarrow> ModelFile list \<Rightarrow> go_error + bool" where
  "any_not_whitelisted m [] = Inr False"
| "any_not_whitelisted m (file # files) =
    (case IsModelWhitelisted m (me_Repository (mf_Entry file)) of Inl e \<Rightarrow> Inl e | Inr ok \<Rightarrow>
     if \<not> ok then Inr True else any_not_whitelisted m files)"

definition inMemoryModelHasNonWhitelistedFile :: "NodeInMemoryModel \<Rightarrow> bytes list \<Rightarrow> bool relay" where
  "inMemoryModelHasNonWhitelistedFile row banned =
    bnd (of_sum (FileHashes row)) (\<lambda>hashes.
    if hashes = [] then ret False
    else if \<exists>h\<in>set hashes. h \<in> set banned then ret True
    else bnd (GetModelFiles hashes) (\<lambda>files.
         if length files \<noteq> length hashes then ret True
         else bnd (read_mem (\<lambda>m. any_not_whitelisted m files)) of_sum))"

definition pruneSelectionsForCurrentInventory :: "address \<Rightarrow> unit relay" where
  "pruneSelectionsForCurrentInventory addr =
    bnd (GetNodeModelsByNodeAddress addr) (\<lambda>existing.
    bnd (of_sum (map_sum_list (\<lambda>nm. Hash32FromBytes (nm_ModelFileHash nm)) existing)) (\<lambda>hashes.
    bnd (if hashes = [] then ret [] else GetModelFiles hashes) (\<lambda>files.
    bnd (of_sum (modelFileSourceHashes files)) (\<lambda>sourceHashes.
    pruneUncoveredSelections addr hashes sourceHashes))))"

fun forbidden_loaded :: "mem \<Rightarrow> (nat \<times> string) list \<Rightarrow> go_error + nat list" where
  "forbidden_loaded m [] = Inr []"
| "forbidden_loaded m ((i, modelID) # rows) =
    (case IsModelWhitelisted m modelID of Inl e \<Rightarrow> Inl e | Inr ok \<Rightarrow>
     case forbidden_loaded m rows of Inl e \<Rightarrow> Inl e | Inr ids \<Rightarrow> Inr (if ok then ids else i # ids))"

definition prune_apply :: "bytes list \<Rightarrow> address list \<Rightarrow> address list \<Rightarrow> nat list \<Rightarrow> unit relay" where
  "prune_apply banned clearMemory addresses loadedIDs = txn (
    bnd (if banned = [] then ret ()
         else write_db (\<lambda>d. d\<lparr> d_node_models := filter (\<lambda>nm. nm_ModelFileHash nm \<notin> set banned) (d_node_models d) \<rparr>)) (\<lambda>_.
    bnd (for_each clearMemory ClearNodeInMemoryModel) (\<lambda>_.
    bnd (for_each addresses pruneSelectionsForCurrentInventory) (\<lambda>_.
    if loadedIDs = [] then ret ()
    else write_db (\<lambda>d. d\<lparr> d_loaded_models := filter (\<lambda>(i, _). i \<notin> set loadedIDs) (d_loaded_models d) \<rparr>)))))"

definition prune_update :: "bytes list \<Rightarrow> address list \<Rightarrow> address list \<Rightarrow> nat list \<Rightarrow> unit relay" where
  "prune_update banned clearMemory addresses loadedIDs =
    (if addresses \<noteq> [] then ExecuteNodeStateUpdate addresses (prune_apply banned clearMemory addresses loadedIDs)
     else prune_apply banned clearMemory addresses loadedIDs)"

text \<open>The rows of \<^verbatim>\<open>loaded_models\<close> come ordered by model id, then dtype and id; the order does not matter
  here.\<close>

definition pruneNonWhitelistedModelInventory :: "unit relay" where
  "pruneNonWhitelistedModelInventory =
    bnd (read_db d_model_files) (\<lambda>catalog.
    bnd (read_mem (\<lambda>m. banned_files m catalog [])) (\<lambda>r.
    bnd (of_sum r) (\<lambda>banned.
    bnd (read_db (\<lambda>d. map nm_NodeAddress (filter (\<lambda>nm. nm_ModelFileHash nm \<in> set banned) (d_node_models d)))) (\<lambda>affected.
    bnd ListNodeInMemoryModels (\<lambda>inMemoryRows.
    bnd (map_each (\<lambda>row. inMemoryModelHasNonWhitelistedFile row banned) inMemoryRows) (\<lambda>flags.
    (let clearMemory = map (im_NodeAddress \<circ> fst) (filter snd (zip inMemoryRows flags));
         addresses = sort (remdups (affected @ clearMemory)) in
     bnd (read_db d_loaded_models) (\<lambda>loadedModels.
     bnd (read_mem (\<lambda>m. forbidden_loaded m loadedModels)) (\<lambda>r'.
     bnd (of_sum r') (\<lambda>loadedIDs.
     bnd (prune_update banned clearMemory addresses loadedIDs) (\<lambda>_.
     call invalidateLoadedModelViewCache)))))))))))"

section \<open>Changing the list\<close>

definition afterModelWhitelistCacheUpdated :: "AppConfig \<Rightarrow> unit relay" where
  "afterModelWhitelistCacheUpdated cfg =
    (if \<not> cfg_ModelWhitelistEnabled cfg then ret () else pruneNonWhitelistedModelInventory)"

definition RefreshModelWhitelistCache :: "AppConfig \<Rightarrow> unit relay" where
  "RefreshModelWhitelistCache cfg =
    bnd loadModelWhitelistCacheLocked (\<lambda>_. afterModelWhitelistCacheUpdated cfg)"

definition AddModelWhitelistName :: "AppConfig \<Rightarrow> string \<Rightarrow> unit relay" where
  "AddModelWhitelistName cfg modelName =
    bnd (of_sum (NormalizeModelWhitelistName modelName)) (\<lambda>normalizedName.
    bnd (read_db (\<lambda>d. normalizedName \<in> set (d_model_whitelist d))) (\<lambda>present.
    bnd (check (\<not> present) ErrModelWhitelistNameExists) (\<lambda>_.
    bnd (write_db (\<lambda>d. d\<lparr> d_model_whitelist := d_model_whitelist d @ [normalizedName] \<rparr>)) (\<lambda>_.
    RefreshModelWhitelistCache cfg))))"

definition DeleteModelWhitelistName :: "AppConfig \<Rightarrow> string \<Rightarrow> unit relay" where
  "DeleteModelWhitelistName cfg modelName =
    bnd (of_sum (NormalizeModelWhitelistName modelName)) (\<lambda>normalizedName.
    bnd (read_db (\<lambda>d. normalizedName \<in> set (d_model_whitelist d))) (\<lambda>present.
    bnd (check present ErrModelWhitelistNameMissing) (\<lambda>_.
    bnd (write_db (\<lambda>d. d\<lparr> d_model_whitelist := removeAll normalizedName (d_model_whitelist d) \<rparr>)) (\<lambda>_.
    RefreshModelWhitelistCache cfg))))"

section \<open>Which models a task needs\<close>

text \<open>For SD tasks the repositories come from the requirement derivation (\<^verbatim>\<open>repos\<close>: the repositories of
  the derived entries, in order).\<close>

fun dedup_names :: "string list \<Rightarrow> string list \<Rightarrow> go_error + string list" where
  "dedup_names [] names = Inr names"
| "dedup_names (repo # repos) names =
    (case NormalizeModelWhitelistName repo of Inl e \<Rightarrow> Inl e | Inr normalized \<Rightarrow> dedup_names repos (insert_key normalized names))"

definition taskModelNamesForWhitelist ::
  "(string \<Rightarrow> TaskType \<Rightarrow> go_error + string list) \<Rightarrow> InferenceTask \<Rightarrow> go_error + string list" where
  "taskModelNamesForWhitelist derive task =
    (if t_TaskType task = TaskTypeSD
     then (case derive (t_TaskArgs task) (t_TaskType task) of Inl e \<Rightarrow> Inl e | Inr repos \<Rightarrow>
           case dedup_names repos [] of Inl e \<Rightarrow> Inl e | Inr names \<Rightarrow>
           if names = [] then Inl ErrInvalidModelWhitelistName else Inr names)
     else (case NormalizeModelWhitelistName (t_ModelName task) of Inl e \<Rightarrow> Inl e | Inr normalized \<Rightarrow> Inr [normalized]))"

fun all_whitelisted :: "mem \<Rightarrow> string list \<Rightarrow> go_error + unit" where
  "all_whitelisted m [] = Inr ()"
| "all_whitelisted m (name # names) =
    (case IsModelWhitelisted m name of Inl e \<Rightarrow> Inl e | Inr ok \<Rightarrow>
     if \<not> ok then Inl ErrModelNotWhitelisted else all_whitelisted m names)"

definition CheckTaskModelsWhitelisted ::
  "(string \<Rightarrow> TaskType \<Rightarrow> go_error + string list) \<Rightarrow> InferenceTask \<Rightarrow> unit relay" where
  "CheckTaskModelsWhitelisted derive task =
    bnd (of_sum (taskModelNamesForWhitelist derive task)) (\<lambda>names.
    bnd (read_mem (\<lambda>m. all_whitelisted m names)) of_sum)"

section \<open>Decisions agree with the table\<close>

definition entry_allows :: "string \<Rightarrow> string \<Rightarrow> bool" where
  "entry_allows e n \<longleftrightarrow>
    (if isOrganizationWhitelistEntry e then \<not> is_url n \<and> slash \<in> set n \<and> fst (Cut slash n) = fst (Cut slash e)
     else n = e)"

definition list_allows :: "string list \<Rightarrow> string \<Rightarrow> bool" where
  "list_allows names n \<longleftrightarrow> (\<exists>name\<in>set names. \<exists>e. NormalizeModelWhitelistName name = Inr e \<and> entry_allows e n)"

lemma set_insert_key [simp]: "set (insert_key x xs) = insert x (set xs)"
  by (auto simp: insert_key_def)

lemma split_entries_sets:
  "split_entries names (ex, os) = Inr (ex', os') \<Longrightarrow>
   (\<forall>name\<in>set names. \<exists>e. NormalizeModelWhitelistName name = Inr e) \<and>
   set ex' = set ex \<union> {e. \<exists>name\<in>set names. NormalizeModelWhitelistName name = Inr e \<and> \<not> isOrganizationWhitelistEntry e} \<and>
   set os' = set os \<union> {w. \<exists>name\<in>set names. \<exists>e. NormalizeModelWhitelistName name = Inr e \<and> isOrganizationWhitelistEntry e
                          \<and> w = fst (Cut slash e)}"
proof (induction names arbitrary: ex os)
  case (Cons name names)
  then obtain e where e: "NormalizeModelWhitelistName name = Inr e" by (auto split: sum.splits)
  show ?case
  proof (cases "isOrganizationWhitelistEntry e")
    case True
    then have "split_entries names (ex, insert_key (fst (Cut slash e)) os) = Inr (ex', os')"
      using Cons.prems e by (simp add: organizationOwnerFromWildcard_def)
    from Cons.IH[OF this] show ?thesis using e True by (auto simp del: split_entries.simps)
  next
    case False
    then have "split_entries names (insert_key e ex, os) = Inr (ex', os')"
      using Cons.prems e by (simp add: organizationOwnerFromWildcard_def)
    from Cons.IH[OF this] show ?thesis using e False by (auto simp del: split_entries.simps)
  qed
qed simp

lemma org_owner: "isOrganizationWhitelistEntry e \<Longrightarrow> fst (Cut slash e) \<noteq> []"
  by (auto simp: isOrganizationWhitelistEntry_def split: prod.splits)

lemma Cut_ok: "snd (snd (Cut sep s)) \<longleftrightarrow> sep \<in> set s"
  by (simp add: Cut_def)

lemma whitelisted_iff:
  assumes "split_entries names ([], []) = Inr (exact, orgs)" "normalizeModelWhitelistCandidate name = Inr n"
    "m_modelWhitelist m = Some (exact, orgs)"
  shows "IsModelWhitelisted m name = Inr (list_allows names n)"
proof -
  note sets = split_entries_sets[OF assms(1)]
  have "list_allows names n \<longleftrightarrow> n \<in> set exact \<or> (\<not> is_url n \<and> slash \<in> set n \<and> fst (Cut slash n) \<in> set orgs)"
    using sets by (auto simp: list_allows_def entry_allows_def)
  moreover have "[] \<notin> set orgs" using sets org_owner by (auto dest: sym)
  moreover obtain ow suf ok where cut: "Cut slash n = (ow, suf, ok)" by (metis prod_cases3)
  moreover have "ok \<longleftrightarrow> slash \<in> set n" using Cut_ok[of slash n] cut by simp
  ultimately show ?thesis using assms(2,3) by (auto simp: IsModelWhitelisted_def)
qed

lemma load_returns:
  assumes "returns loadModelWhitelistCacheLocked s () s'"
  obtains exact orgs where "split_entries (sort (d_model_whitelist (fst s))) ([], []) = Inr (exact, orgs)"
    "s' = (fst s, (snd s)\<lparr> m_modelWhitelist := Some (exact, orgs) \<rparr>)"
  using assms that by (auto simp: loadModelWhitelistCacheLocked_def ListModelWhitelistNames_def)

section \<open>Nothing forbidden survives\<close>

lemma banned_files_complete:
  "banned_files m files banned = Inr banned' \<Longrightarrow>
   set banned \<subseteq> set banned' \<and>
   (\<forall>f\<in>set files. IsModelWhitelisted m (me_Repository (mf_Entry f)) = Inr True \<or> mf_ModelFileHash f \<in> set banned')"
proof (induction files arbitrary: banned)
  case (Cons f files)
  then obtain ok where ok: "IsModelWhitelisted m (me_Repository (mf_Entry f)) = Inr ok" by (auto split: sum.splits)
  show ?case
  proof (cases ok)
    case True
    with Cons ok show ?thesis by simp
  next
    case False
    with Cons.prems ok have "banned_files m files (insert_key (mf_ModelFileHash f) banned) = Inr banned'"
      by (auto simp: Hash32FromBytes_def split: if_splits)
    from Cons.IH[OF this] show ?thesis by auto
  qed
qed simp

lemma forbidden_loaded_complete:
  "forbidden_loaded m rows = Inr ids \<Longrightarrow> (i, modelID) \<in> set rows \<Longrightarrow>
   IsModelWhitelisted m modelID = Inr True \<or> i \<in> set ids"
proof (induction rows arbitrary: ids)
  case (Cons row rows)
  then show ?case
    by (cases row; cases "IsModelWhitelisted m (snd row)"; cases "forbidden_loaded m rows") (auto split: if_splits)
qed simp

lemma any_not_whitelisted_False:
  "any_not_whitelisted m files = Inr False \<Longrightarrow> f \<in> set files \<Longrightarrow> IsModelWhitelisted m (me_Repository (mf_Entry f)) = Inr True"
  by (induction m files rule: any_not_whitelisted.induct) (auto split: sum.splits if_splits)

definition inventory_of :: "db \<Rightarrow> NodeModel list \<times> NodeInMemoryModel list \<times> ModelFile list \<times> (nat \<times> string) list \<times> string list" where
  "inventory_of d = (d_node_models d, d_in_memory_models d, d_model_files d, d_loaded_models d, d_model_whitelist d)"

interpretation inventory: step_relation "\<lambda>d d'. inventory_of d' = inventory_of d"
  by unfold_locales auto

lemma prune_selections_steps: "db_steps (\<lambda>d d'. inventory_of d' = inventory_of d) (pruneSelectionsForCurrentInventory addr)"
  unfolding pruneSelectionsForCurrentInventory_def pruneUncoveredSelections_def GetNodeModelsByNodeAddress_def GetModelFiles_def
  by (intro inventory.steps_intros inventory.steps_frame write_db_steps) (auto simp: inventory_of_def)

lemma clear_memory_run:
  "for_each addrs ClearNodeInMemoryModel s =
    (Inr (), ((fst s)\<lparr> d_in_memory_models := filter (\<lambda>r. im_NodeAddress r \<notin> set addrs) (d_in_memory_models (fst s)) \<rparr>, snd s))"
proof (induction addrs arbitrary: s)
  case (Cons a addrs)
  then show ?case by (simp add: op_simps ClearNodeInMemoryModel_def conj_commute)
qed (simp add: op_simps)

lemma prune_uncovered_mem: "returns (pruneUncoveredSelections addr ex so) s u s' \<Longrightarrow> snd s' = snd s"
  by (auto simp: pruneUncoveredSelections_def split: if_splits)

lemma prune_selections_mem: "returns (pruneSelectionsForCurrentInventory addr) s u s' \<Longrightarrow> snd s' = snd s"
  by (auto simp: pruneSelectionsForCurrentInventory_def GetNodeModelsByNodeAddress_def GetModelFiles_def
      dest!: prune_uncovered_mem split: if_splits)

lemma prune_selections_returns:
  "returns (pruneSelectionsForCurrentInventory addr) s u s' \<Longrightarrow> snd s' = snd s \<and> inventory_of (fst s') = inventory_of (fst s)"
  using prune_selections_mem inventory.steps_returns[OF prune_selections_steps] by blast

lemma prune_all_selections_returns:
  "returns (for_each addrs pruneSelectionsForCurrentInventory) s u s' \<Longrightarrow> snd s' = snd s \<and> inventory_of (fst s') = inventory_of (fst s)"
proof (induction addrs arbitrary: s)
  case (Cons a addrs)
  then obtain t where "returns (pruneSelectionsForCurrentInventory a) s () t"
    "returns (for_each addrs pruneSelectionsForCurrentInventory) t u s'" by auto
  then show ?case using Cons.IH[of t] prune_selections_returns by metis
qed simp

lemma prune_apply_returns:
  assumes "returns (prune_apply banned clr addrs ids) s u s'"
  shows "snd s' = snd s \<and> d_model_files (fst s') = d_model_files (fst s) \<and> d_model_whitelist (fst s') = d_model_whitelist (fst s) \<and>
    set (d_node_models (fst s')) \<subseteq> {nm \<in> set (d_node_models (fst s)). nm_ModelFileHash nm \<notin> set banned} \<and>
    set (d_in_memory_models (fst s')) \<subseteq> {r \<in> set (d_in_memory_models (fst s)). im_NodeAddress r \<notin> set clr} \<and>
    set (d_loaded_models (fst s')) \<subseteq> {r \<in> set (d_loaded_models (fst s)). fst r \<notin> set ids}"
proof -
  let ?ban = "if banned = [] then ret () else write_db (\<lambda>d. d\<lparr> d_node_models := filter (\<lambda>nm. nm_ModelFileHash nm \<notin> set banned) (d_node_models d) \<rparr>)"
  let ?load = "if ids = [] then ret () else write_db (\<lambda>d. d\<lparr> d_loaded_models := filter (\<lambda>(i, _). i \<notin> set ids) (d_loaded_models d) \<rparr>)"
  from assms obtain t1 t2 t3 where run: "returns ?ban s () t1" "returns (for_each clr ClearNodeInMemoryModel) t1 () t2"
    "returns (for_each addrs pruneSelectionsForCurrentInventory) t2 () t3" "returns ?load t3 u s'"
    unfolding prune_apply_def returns_bnd returns_txn by auto
  have 1: "t1 = ((fst s)\<lparr> d_node_models := filter (\<lambda>nm. nm_ModelFileHash nm \<notin> set banned) (d_node_models (fst s)) \<rparr>, snd s)"
    using run(1) by (cases "banned = []") auto
  have 2: "t2 = ((fst t1)\<lparr> d_in_memory_models := filter (\<lambda>r. im_NodeAddress r \<notin> set clr) (d_in_memory_models (fst t1)) \<rparr>, snd t1)"
    using run(2) by (simp add: returns_def clear_memory_run)
  have 4: "s' = ((fst t3)\<lparr> d_loaded_models := filter (\<lambda>(i, _). i \<notin> set ids) (d_loaded_models (fst t3)) \<rparr>, snd t3)"
    using run(4) by (cases "ids = []") (auto simp: case_prod_beta)
  show ?thesis using prune_all_selections_returns[OF run(3)] by (auto simp: 1 2 4 inventory_of_def)
qed

definition whitelist_clean :: "state \<Rightarrow> bool" where
  "whitelist_clean s \<longleftrightarrow>
    (\<forall>nm\<in>set (d_node_models (fst s)). \<forall>f\<in>set (d_model_files (fst s)). mf_ModelFileHash f = nm_ModelFileHash nm \<longrightarrow>
       IsModelWhitelisted (snd s) (me_Repository (mf_Entry f)) = Inr True) \<and>
    (\<forall>row\<in>set (d_in_memory_models (fst s)). \<exists>hashes. FileHashes row = Inr hashes \<and>
       (\<forall>f\<in>set (d_model_files (fst s)). mf_ModelFileHash f \<in> set hashes \<longrightarrow>
          IsModelWhitelisted (snd s) (me_Repository (mf_Entry f)) = Inr True)) \<and>
    (\<forall>(i, modelID)\<in>set (d_loaded_models (fst s)). IsModelWhitelisted (snd s) modelID = Inr True)"

lemma memory_flag_returns:
  assumes "returns (inMemoryModelHasNonWhitelistedFile row banned) s flag s'"
  shows "s' = s \<and> (\<exists>hashes. FileHashes row = Inr hashes \<and> (\<not> flag \<longrightarrow>
    (\<forall>f\<in>set (d_model_files (fst s)). mf_ModelFileHash f \<in> set hashes \<longrightarrow>
       IsModelWhitelisted (snd s) (me_Repository (mf_Entry f)) = Inr True)))"
  using assms any_not_whitelisted_False[of "snd s"]
  by (auto simp: inMemoryModelHasNonWhitelistedFile_def GetModelFiles_def split: if_splits)

lemma map_each_pure:
  assumes "returns (map_each f xs) s ys s'" "\<And>x y t t'. returns (f x) t y t' \<Longrightarrow> t' = t"
  shows "s' = s \<and> list_all2 (\<lambda>x y. returns (f x) s y s) xs ys"
  using assms(1)
proof (induction xs arbitrary: ys)
  case (Cons x xs)
  then obtain y t zs where "returns (f x) s y t" "returns (map_each f xs) t zs s'" "ys = y # zs" by auto
  with assms(2)[of x s y t] Cons.IH show ?case by auto
qed simp

lemma flagged_addresses:
  assumes "list_all2 P rows flags" "row \<in> set rows" "im_NodeAddress row \<notin> set (map (im_NodeAddress \<circ> fst) (filter snd (zip rows flags)))"
  shows "\<exists>flag. P row flag \<and> \<not> flag"
  using assms by (induction rule: list_all2_induct) (auto split: if_splits)

lemma IsModelWhitelisted_cong: "m_modelWhitelist m' = m_modelWhitelist m \<Longrightarrow> IsModelWhitelisted m' = IsModelWhitelisted m"
  by (intro ext) (simp add: IsModelWhitelisted_def split: sum.split)

lemma returns_bndE:
  assumes "returns (bnd f g) s b s'"
  obtains a t where "returns f s a t" "returns (g a) t b s'"
  using assms by auto

lemma prune_clean:
  assumes "returns pruneNonWhitelistedModelInventory s () s'"
  shows "whitelist_clean s' \<and> m_modelWhitelist (snd s') = m_modelWhitelist (snd s) \<and> d_model_whitelist (fst s') = d_model_whitelist (fst s)"
proof -
  define rows where "rows = sort_key im_NodeAddress (d_in_memory_models (fst s))"
  obtain banned affected flags t ids r where banned: "banned_files (snd s) (d_model_files (fst s)) [] = Inr banned"
    and flags: "returns (map_each (\<lambda>row. inMemoryModelHasNonWhitelistedFile row banned) rows) s flags t"
    and ids: "forbidden_loaded (snd t) (d_loaded_models (fst t)) = Inr ids"
    and app: "returns (prune_update banned (map (im_NodeAddress \<circ> fst) (filter snd (zip rows flags)))
         (sort (remdups (affected @ map (im_NodeAddress \<circ> fst) (filter snd (zip rows flags))))) ids) t () r"
    and s': "s' = (fst r, (snd r)\<lparr> m_calls := m_calls (snd r) @ [invalidateLoadedModelViewCache] \<rparr>)"
    using assms unfolding pruneNonWhitelistedModelInventory_def rows_def ListNodeInMemoryModels_def call_def Let_def
    by (elim returns_bndE) (auto simp del: returns_bnd)
  define clr where "clr = map (im_NodeAddress \<circ> fst) (filter snd (zip rows flags))"
  have pure: "t = s" "list_all2 (\<lambda>row flag. returns (inMemoryModelHasNonWhitelistedFile row banned) s flag s) rows flags"
    using map_each_pure[OF flags] memory_flag_returns by blast+
  obtain addrs t' where "returns (prune_apply banned clr addrs ids) s () t'"
    and r: "fst r = fst t'" "m_modelWhitelist (snd r) = m_modelWhitelist (snd t')"
    using app unfolding clr_def[symmetric] pure(1) prune_update_def
    by (auto split: if_splits dest!: execute_returns)
  note app = prune_apply_returns[OF this(1)]
  have same: "m_modelWhitelist (snd s') = m_modelWhitelist (snd s)" using app r by (simp add: s')
  note cong = IsModelWhitelisted_cong[OF same]
  have mem: "\<exists>hashes. FileHashes row = Inr hashes \<and> (\<forall>f\<in>set (d_model_files (fst s)). mf_ModelFileHash f \<in> set hashes \<longrightarrow>
        IsModelWhitelisted (snd s) (me_Repository (mf_Entry f)) = Inr True)"
    if there: "row \<in> set (d_in_memory_models (fst s))" and kept: "im_NodeAddress row \<notin> set clr" for row
  proof -
    have "row \<in> set rows" using there by (simp add: rows_def)
    then obtain flag where "returns (inMemoryModelHasNonWhitelistedFile row banned) s flag s" "\<not> flag"
      using flagged_addresses[OF pure(2), of row] kept unfolding clr_def by blast
    then show ?thesis using memory_flag_returns by blast
  qed
  have sub: "d_model_files (fst s') = d_model_files (fst s)"
    "set (d_node_models (fst s')) \<subseteq> {nm \<in> set (d_node_models (fst s)). nm_ModelFileHash nm \<notin> set banned}"
    "set (d_in_memory_models (fst s')) \<subseteq> {row \<in> set (d_in_memory_models (fst s)). im_NodeAddress row \<notin> set clr}"
    "set (d_loaded_models (fst s')) \<subseteq> {row \<in> set (d_loaded_models (fst s)). fst row \<notin> set ids}"
    using app r by (simp_all add: s')
  have "IsModelWhitelisted (snd s) (me_Repository (mf_Entry f)) = Inr True"
    if "nm \<in> set (d_node_models (fst s'))" "f \<in> set (d_model_files (fst s))" "mf_ModelFileHash f = nm_ModelFileHash nm" for nm f
  proof -
    have "nm_ModelFileHash nm \<notin> set banned" using sub(2) that(1) by blast
    then show ?thesis using banned_files_complete[OF banned] that(2,3) by auto
  qed
  moreover have "IsModelWhitelisted (snd s) (snd row) = Inr True" if "row \<in> set (d_loaded_models (fst s'))" for row
    using sub(4) that forbidden_loaded_complete[OF ids, of "fst row" "snd row"] by (auto simp: pure(1))
  ultimately have "whitelist_clean s'"
    unfolding whitelist_clean_def cong sub(1) using mem sub(3) by (auto simp: case_prod_beta)
  then show ?thesis using app r by (simp add: s')
qed


text \<open>C22: What the model whitelist does.  After the cache is loaded, a model name is allowed exactly when
  the table has an entry for it: the same repository name after normalization, or \<^verbatim>\<open>owner/*\<close> with the
  owner part of the name, which never matches a URL.  And when the list is enforced, a reload that
  succeeds leaves no forbidden file in any node's inventory, no node with a forbidden model in memory,
  and no forbidden loaded-model row, whatever was there before.\<close>

theorem model_whitelist_enforced:
  assumes "returns (RefreshModelWhitelistCache cfg) s () s'"
  shows "(case normalizeModelWhitelistCandidate name of
      Inl e \<Rightarrow> IsModelWhitelisted (snd s') name = Inl e
    | Inr n \<Rightarrow> IsModelWhitelisted (snd s') name = Inr (list_allows (d_model_whitelist (fst s')) n)) \<and>
    (cfg_ModelWhitelistEnabled cfg \<longrightarrow> whitelist_clean s')"
proof -
  obtain t where load: "returns loadModelWhitelistCacheLocked s () t" and after: "returns (afterModelWhitelistCacheUpdated cfg) t () s'"
    using assms unfolding RefreshModelWhitelistCache_def by (elim returns_bndE) simp
  obtain exact orgs where e: "split_entries (sort (d_model_whitelist (fst s))) ([], []) = Inr (exact, orgs)"
    and t: "t = (fst s, (snd s)\<lparr> m_modelWhitelist := Some (exact, orgs) \<rparr>)" using load by (rule load_returns)
  have s': "m_modelWhitelist (snd s') = Some (exact, orgs)" "d_model_whitelist (fst s') = d_model_whitelist (fst s)"
    "cfg_ModelWhitelistEnabled cfg \<longrightarrow> whitelist_clean s'"
    using after prune_clean[of t s'] by (auto simp: afterModelWhitelistCacheUpdated_def t split: if_splits)
  have "list_allows (sort (d_model_whitelist (fst s))) n = list_allows (d_model_whitelist (fst s)) n" for n
    by (simp add: list_allows_def)
  then show ?thesis using whitelisted_iff[OF e _ s'(1), of name] s'(2,3)
    by (auto simp: IsModelWhitelisted_def split: sum.splits)
qed

definition whitelist_db :: db where
  "whitelist_db = empty_db\<lparr> d_model_whitelist := [''org/*''],
     d_loaded_models := [(1, ''org/model''), (3, ''other/model'')] \<rparr>"

lemma sample_entry_normal:
  "NormalizeModelWhitelistName ''org/*'' = Inr ''org/*''"
  "organizationOwnerFromWildcard ''org/*'' = Some ''org''"
  "normalizeModelWhitelistCandidate ''Org/Model'' = Inr ''org/model''"
  "normalizeModelWhitelistCandidate ''org/model'' = Inr ''org/model''"
  "normalizeModelWhitelistCandidate ''other/model'' = Inr ''other/model''"
  "Cut slash ''org/model'' = (''org'', ''model'', True)" "Cut slash ''other/model'' = (''other'', ''model'', True)"
  "\<not> is_url ''org/model''" "\<not> is_url ''other/model''"
  by (simp_all add: NormalizeModelWhitelistName_def normalizeModelWhitelistCandidate_def organizationOwnerFromWildcard_def
      isOrganizationWhitelistEntry_def valid_whitelist_entry_def Cut_def slash_def star_def is_url_def TrimSpace_def is_space_def
      NormalizeModelName_def ToLower_def lower_char_def char_of_eq_iff)

theorem model_whitelist_enforced_witness:
  "\<exists>s'. returns (RefreshModelWhitelistCache (sample_cfg\<lparr> cfg_ModelWhitelistEnabled := True \<rparr>)) (whitelist_db, empty_mem) () s' \<and>
     IsModelWhitelisted (snd s') ''Org/Model'' = Inr True \<and> whitelist_clean s' \<and> d_loaded_models (fst s') = [(1, ''org/model'')]"
proof -
  let ?cfg = "sample_cfg\<lparr> cfg_ModelWhitelistEnabled := True \<rparr>"
  let ?s = "(whitelist_db\<lparr> d_loaded_models := [(1, ''org/model'')] \<rparr>,
     empty_mem\<lparr> m_modelWhitelist := Some ([], [''org'']), m_calls := [invalidateLoadedModelViewCache] \<rparr>)"
  have run: "returns (RefreshModelWhitelistCache ?cfg) (whitelist_db, empty_mem) () ?s"
    by (simp add: RefreshModelWhitelistCache_def loadModelWhitelistCacheLocked_def ListModelWhitelistNames_def
        afterModelWhitelistCacheUpdated_def pruneNonWhitelistedModelInventory_def ListNodeInMemoryModels_def
        whitelist_db_def empty_db_def empty_mem_def sample_entry_normal IsModelWhitelisted_def prune_update_def prune_apply_def
        call_def insert_key_def returns_def op_simps Let_def)
  have "list_allows [''org/*''] ''org/model''"
    using sample_entry_normal by (auto simp: list_allows_def entry_allows_def organizationOwnerFromWildcard_def slash_def split: if_splits)
  moreover have "d_model_whitelist (fst ?s) = [''org/*'']" by (simp add: whitelist_db_def)
  ultimately have "IsModelWhitelisted (snd ?s) ''Org/Model'' = Inr True \<and> whitelist_clean ?s"
    using model_whitelist_enforced[OF run, of "''Org/Model''"] by (simp only: sample_entry_normal sum.case) simp
  then show ?thesis using run by (intro exI[of _ ?s]) simp
qed

end
