(* ===== verification/NodeModels.thy ===== *)
theory NodeModels
  imports ModelWhitelist
begin

text \<open>
  What nodes hold (\<^verbatim>\<open>service/node_model_state.go\<close>): the disk inventory, the model in memory and the
  download selections of a node, how reports change them, and the exact files a task is executed with.
  The lemmas show that a report makes the inventory equal to what was reported, and that a task can be
  given its files exactly when the node passes the disk gate of the matching.
\<close>

section \<open>Reports\<close>

fun held_files :: "(bytes \<Rightarrow> bytes) \<Rightarrow> ModelFileEntry list \<Rightarrow> bytes list \<Rightarrow> go_error + ModelFile list" where
  "held_files sha256 [] seen = Inr []"
| "held_files sha256 (e # es) seen =
    (let n = Normalized e in
     if me_SourceType n \<noteq> ''huggingface'' then Inl ErrInvalidModelFile
     else if me_Repository n = [] then Inl ErrInvalidModelFile
     else if me_Revision n = [] then Inl ErrInvalidModelFile
     else case NewModelFile sha256 n of Inl _ \<Rightarrow> Inl ErrInvalidModelFile | Inr file \<Rightarrow>
          case Hash32FromBytes (mf_ModelFileHash file) of Inl err \<Rightarrow> Inl err | Inr hash \<Rightarrow>
          if hash \<in> set seen then held_files sha256 es seen
          else case held_files sha256 es (hash # seen) of Inl err \<Rightarrow> Inl err | Inr files \<Rightarrow> Inr (file # files))"

definition BuildHeldModelFiles :: "(bytes \<Rightarrow> bytes) \<Rightarrow> ModelFileEntry list \<Rightarrow> go_error + ModelFile list" where
  "BuildHeldModelFiles sha256 entries = held_files sha256 entries []"

definition NewNodeModel :: "address \<Rightarrow> bytes \<Rightarrow> NodeModel" where
  "NewNodeModel addr hash = \<lparr> nm_NodeAddress = addr, nm_ModelFileHash = hash \<rparr>"

definition replaceNodeModelFiles :: "AppConfig \<Rightarrow> address \<Rightarrow> ModelFile list \<Rightarrow> unit relay" where
  "replaceNodeModelFiles cfg addr reported_files =
    bnd (filterWhitelistedModelFiles cfg reported_files) (\<lambda>files.
    bnd (if files = [] then ret () else UpsertModelFiles files) (\<lambda>_.
    bnd (of_sum (modelFileHashes files)) (\<lambda>reported.
    bnd (GetNodeModelsByNodeAddress addr) (\<lambda>existingModels.
    bnd (of_sum (map_sum_list (\<lambda>nm. Hash32FromBytes (nm_ModelFileHash nm)) existingModels)) (\<lambda>existing.
    (let absent = filter (\<lambda>h. h \<notin> set reported) existing;
         missing = map (NewNodeModel addr) (filter (\<lambda>h. h \<notin> set existing) reported) in
     bnd (DeleteNodeModelsByFileHashes addr absent) (\<lambda>_.
     bnd (CreateNodeModels missing) (\<lambda>_.
     bnd (of_sum (modelFileSourceHashes files)) (\<lambda>sourceHashes.
     pruneUncoveredSelections addr reported sourceHashes)))))))))"

definition add_node_model :: "address \<Rightarrow> ModelFile \<Rightarrow> bytes \<Rightarrow> unit relay" where
  "add_node_model addr file hash = txn (
    bnd (GetNodeByAddress addr) (\<lambda>node.
    bnd (check (n_Status node \<noteq> NodeStatusQuit) ErrNodeModelStateIllegal) (\<lambda>_.
    bnd (UpsertModelFiles [file]) (\<lambda>_.
    try_catch (bnd (GetNodeModel addr hash) (\<lambda>_. ret ()))
      (\<lambda>err. if err = ErrRecordNotFound
            then write_db (\<lambda>d. d\<lparr> d_node_models := d_node_models d @ [NewNodeModel addr hash] \<rparr>)
            else raise err)))))"

definition AddNodeModelFile :: "AppConfig \<Rightarrow> address \<Rightarrow> ModelFile \<Rightarrow> unit relay" where
  "AddNodeModelFile cfg addr file =
    bnd (modelFileRejectedByWhitelist cfg file) (\<lambda>rejected.
    if rejected then ret ()
    else bnd (of_sum (Hash32FromBytes (mf_ModelFileHash file))) (\<lambda>hash.
         ExecuteNodeStateUpdate [addr] (add_node_model addr file hash)))"

record NodeInMemoryModelReport =
  mr_CacheHash :: bytes
  mr_Files :: "ModelFile list"
  mr_CacheConfig :: bytes
  mr_ExecutionDType :: string

definition set_in_memory :: "address \<Rightarrow> NodeInMemoryModelReport option \<Rightarrow> unit relay" where
  "set_in_memory addr report = txn (
    bnd (GetNodeByAddress addr) (\<lambda>node.
    bnd (check (n_Status node \<noteq> NodeStatusQuit) ErrNodeModelStateIllegal) (\<lambda>_.
    case report of
      None \<Rightarrow> ClearNodeInMemoryModel addr
    | Some r \<Rightarrow>
        bnd (if mr_Files r = [] then ret () else UpsertModelFiles (mr_Files r)) (\<lambda>_.
        bnd (of_sum (modelFileHashes (mr_Files r))) (\<lambda>hashes.
        SaveNodeInMemoryModel (NewNodeInMemoryModel addr (mr_CacheHash r) hashes (mr_CacheConfig r) (mr_ExecutionDType r)))))))"

definition SetNodeInMemoryModel :: "AppConfig \<Rightarrow> address \<Rightarrow> NodeInMemoryModelReport option \<Rightarrow> unit relay" where
  "SetNodeInMemoryModel cfg addr report =
    bnd (case report of None \<Rightarrow> ret () | Some r \<Rightarrow> assertWhitelistedModelFiles cfg (mr_Files r)) (\<lambda>_.
    ExecuteNodeStateUpdate [addr] (set_in_memory addr report))"

definition clearNodeModelState :: "address \<Rightarrow> unit relay" where
  "clearNodeModelState addr =
    bnd (DeleteNodeModelsByNodeAddress addr) (\<lambda>_.
    bnd (ClearNodeInMemoryModel addr) (\<lambda>_.
    write_db (\<lambda>d. d\<lparr> d_selections := filter (\<lambda>s. ds_NodeAddress s \<noteq> addr) (d_selections d) \<rparr>)))"

section \<open>The files a task is executed with\<close>

fun resolve_exact :: "bytes list \<Rightarrow> bytes list \<Rightarrow> go_error + bytes list" where
  "resolve_exact held [] = Inr []"
| "resolve_exact held (h # hs) =
    (if h \<notin> set held then Inl errModelFileNotHeldForTask
     else case resolve_exact held hs of Inl e \<Rightarrow> Inl e | Inr rs \<Rightarrow> Inr (h # rs))"

definition pick_revision :: "bytes list \<Rightarrow> bytes list \<Rightarrow> bytes option" where
  "pick_revision current candidates =
    (case SortedUniqueHashes candidates of
       [] \<Rightarrow> None
     | c # cs \<Rightarrow> Some (case find (\<lambda>x. x \<in> set current) (c # cs) of None \<Rightarrow> c | Some x \<Rightarrow> x))"

fun resolve_sources :: "(bytes \<times> bytes) list \<Rightarrow> bytes list \<Rightarrow> bytes list \<Rightarrow> go_error + bytes list" where
  "resolve_sources pairs current [] = Inr []"
| "resolve_sources pairs current (src # srcs) =
    (case pick_revision current (map fst (filter (\<lambda>p. snd p = src) pairs)) of
       None \<Rightarrow> Inl errModelFileNotHeldForTask
     | Some selected \<Rightarrow>
         (case resolve_sources pairs current srcs of Inl e \<Rightarrow> Inl e | Inr rs \<Rightarrow> Inr (selected # rs)))"

definition resolveExecutionModelFileHashes ::
  "taskModelRequirements \<Rightarrow> NodeModelFileRow list \<Rightarrow> bytes list \<Rightarrow> go_error + bytes list" where
  "resolveExecutionModelFileHashes r files current =
    (case map_sum_list row_hashes files of Inl e \<Rightarrow> Inl e | Inr pairs \<Rightarrow>
     case resolve_exact (map fst pairs) (rq_exact r) of Inl e \<Rightarrow> Inl e | Inr exact \<Rightarrow>
     case resolve_sources pairs current (rq_source r) of Inl e \<Rightarrow> Inl e | Inr source \<Rightarrow>
     Inr (SortedUniqueHashes (exact @ source)))"

section \<open>Reading entries back\<close>

definition LoadModelFileEntries :: "bytes list \<Rightarrow> (bytes \<times> ModelFileEntry) list relay" where
  "LoadModelFileEntries hashes =
    bnd (if hashes = [] then ret [] else GetModelFiles hashes) (\<lambda>files.
    bnd (of_sum (modelFileHashes files)) (\<lambda>hs. ret (rev (zip hs (map mf_Entry files)))))"

text \<open>A hash missing from the catalog is logged and left out.\<close>

definition orderedModelFileEntries :: "bytes list \<Rightarrow> (bytes \<times> ModelFileEntry) list \<Rightarrow> ModelFileEntry list" where
  "orderedModelFileEntries hashes entries = List.map_filter (map_of entries) hashes"

definition TaskExecutionModelFileEntries :: "InferenceTask \<Rightarrow> ModelFileEntry list relay" where
  "TaskExecutionModelFileEntries task =
    bnd (of_sum (DecodeHashList (t_ExecutionModelFileHashes task))) (\<lambda>hashes.
    if hashes = [] then ret []
    else bnd (LoadModelFileEntries hashes) (\<lambda>entries. ret (orderedModelFileEntries hashes entries)))"

definition BatchTaskExecutionModelFileEntries :: "InferenceTask list \<Rightarrow> (string \<times> ModelFileEntry list) list relay" where
  "BatchTaskExecutionModelFileEntries tasks =
    bnd (of_sum (map_sum_list (\<lambda>t. DecodeHashList (t_ExecutionModelFileHashes t)) tasks)) (\<lambda>decoded.
    (let hashesByTask = filter (\<lambda>(_, hs). hs \<noteq> []) (zip (map t_TaskIDCommitment tasks) decoded) in
     bnd (LoadModelFileEntries (SortedUniqueHashes (concat (map snd hashesByTask)))) (\<lambda>entries.
     ret (map (\<lambda>(c, hs). (c, orderedModelFileEntries hs entries)) hashesByTask))))"

definition NodeModelFileEntries :: "address \<Rightarrow> (ModelFileEntry list \<times> ModelFileEntry list) relay" where
  "NodeModelFileEntries addr =
    bnd (GetNodeModelsByNodeAddress addr) (\<lambda>nodeModels.
    bnd (GetNodeInMemoryModel addr) (\<lambda>memory.
    bnd (of_sum (map_sum_list (\<lambda>nm. Hash32FromBytes (nm_ModelFileHash nm)) nodeModels)) (\<lambda>diskHashes.
    bnd (of_sum (case memory of None \<Rightarrow> Inr [] | Some m \<Rightarrow> FileHashes m)) (\<lambda>memoryHashes.
    bnd (LoadModelFileEntries (SortedUniqueHashes (diskHashes @ memoryHashes))) (\<lambda>entries.
    ret (orderedModelFileEntries diskHashes entries, orderedModelFileEntries memoryHashes entries))))))"

section \<open>A task gets its files exactly when the node passes the gate\<close>

lemma resolve_exact_iff: "resolve_exact held hs = (if set hs \<subseteq> set held then Inr hs else Inl errModelFileNotHeldForTask)"
  by (induction hs) auto

lemma find_Some_mem: "find P xs = Some x \<Longrightarrow> x \<in> set xs \<and> P x"
  by (induction xs) (auto split: if_splits)

lemma pick_revision_spec:
  "pick_revision current cands = None \<longleftrightarrow> cands = []"
  "pick_revision current cands = Some h \<Longrightarrow> h \<in> set cands \<and> (set cands \<inter> set current \<noteq> {} \<longrightarrow> h \<in> set current) \<and>
     (set cands \<inter> set current = {} \<longrightarrow> h = Min (set cands))"
proof -
  have empty: "SortedUniqueHashes cands = [] \<longleftrightarrow> cands = []"
    by (metis SortedUniqueHashes_set set_empty)
  then show "pick_revision current cands = None \<longleftrightarrow> cands = []"
    by (auto simp: pick_revision_def split: list.splits)
  assume pick: "pick_revision current cands = Some h"
  then obtain c cs where c: "SortedUniqueHashes cands = c # cs" by (auto simp: pick_revision_def split: list.splits)
  have set: "set cands = insert c (set cs)" using SortedUniqueHashes_set[of cands] by (simp add: c)
  have "c = Min (set cands)"
    using SortedUniqueHashes_sorted[of cands] by (simp add: c set Min_insert2)
  moreover have "find (\<lambda>x. x \<in> set current) (c # cs) = None \<longleftrightarrow> set cands \<inter> set current = {}"
    unfolding set find_None_iff by auto
  moreover have "x \<in> set cands \<and> x \<in> set current" if "find (\<lambda>x. x \<in> set current) (c # cs) = Some x" for x
    unfolding set using find_Some_mem[OF that] by simp
  ultimately show "h \<in> set cands \<and> (set cands \<inter> set current \<noteq> {} \<longrightarrow> h \<in> set current) \<and>
     (set cands \<inter> set current = {} \<longrightarrow> h = Min (set cands))"
    using pick set by (cases "find (\<lambda>x. x \<in> set current) (c # cs)") (auto simp: pick_revision_def c simp del: find.simps)
qed

lemma pick_none: "pick_revision current (map fst (filter (\<lambda>p. snd p = src) pairs)) = None \<longleftrightarrow> src \<notin> snd ` set pairs"
  unfolding pick_revision_spec(1) by (auto simp: filter_empty_conv)

lemma resolve_sources_iff: "(\<exists>rs. resolve_sources pairs current srcs = Inr rs) \<longleftrightarrow> set srcs \<subseteq> snd ` set pairs"
proof (induction srcs)
  case (Cons src srcs)
  let ?p = "pick_revision current (map fst (filter (\<lambda>p. snd p = src) pairs))"
  show ?case
  proof (cases ?p)
    case None
    then show ?thesis using pick_none[of current src pairs] by simp
  next
    case (Some h)
    then have "src \<in> snd ` set pairs" using pick_none[of current src pairs] by auto
    with Some Cons show ?thesis by (cases "resolve_sources pairs current srcs") auto
  qed
qed simp

lemma pick_pair:
  assumes "pick_revision current (map fst (filter (\<lambda>p. snd p = src) pairs)) = Some h"
  shows "(h, src) \<in> set pairs \<and> ((\<exists>k\<in>set current. (k, src) \<in> set pairs) \<longrightarrow> h \<in> set current)"
proof -
  have cands: "set (map fst (filter (\<lambda>p. snd p = src) pairs)) = {k. (k, src) \<in> set pairs}" by force
  show ?thesis using pick_revision_spec(2)[OF assms] unfolding cands by blast
qed

lemma resolve_sources_spec:
  "resolve_sources pairs current srcs = Inr rs \<Longrightarrow>
     set rs \<subseteq> fst ` set pairs \<and>
     (\<forall>src\<in>set srcs. \<exists>h\<in>set rs. (h, src) \<in> set pairs \<and>
        ((\<exists>k\<in>set current. (k, src) \<in> set pairs) \<longrightarrow> h \<in> set current))"
proof (induction srcs arbitrary: rs)
  case (Cons src srcs)
  then obtain h rs' where h: "pick_revision current (map fst (filter (\<lambda>p. snd p = src) pairs)) = Some h"
    and rs': "resolve_sources pairs current srcs = Inr rs'" and rs: "rs = h # rs'"
    by (auto split: option.splits sum.splits)
  have "h \<in> fst ` set pairs" using pick_pair[OF h] by force
  then show ?case using Cons.IH[OF rs'] pick_pair[OF h] by (simp add: rs)
qed simp

lemma resolve_sources_error: "resolve_sources pairs current srcs = Inl e \<Longrightarrow> e = errModelFileNotHeldForTask"
  by (induction srcs) (auto split: option.splits sum.splits)

lemma disk_entry_gate:
  "holdsRequiredModelFiles (disk_entry node pairs) r \<longleftrightarrow>
     set (rq_exact r) \<subseteq> fst ` set pairs \<and> set (rq_source r) \<subseteq> snd ` set pairs"
  by (auto simp: holdsRequiredModelFiles_def modelFilesCovered_def disk_entry_def list_all_iff)

lemma build_gate:
  assumes "buildNodeIndexEntry node files mm = Inr ie"
  obtains pairs where "map_sum_list row_hashes files = Inr pairs"
    "\<And>r. holdsRequiredModelFiles ie r = holdsRequiredModelFiles (disk_entry node pairs) r"
  using assms that
  by (auto simp: buildNodeIndexEntry_def Let_def holdsRequiredModelFiles_def split: sum.splits option.splits)

text \<open>C24: The disk gate of the matching and the choice of files agree.  For the index entry built from a
  node's rows, the files of a task can be resolved exactly when the entry holds the task's required
  files, and otherwise the answer is that the node does not hold them.  The resolved set is sorted
  without duplicates, lies within the node's inventory, contains every exact file the task asks for, and
  for every source the task asks for contains a held file of that source: one that is in memory if any
  held revision is.\<close>

theorem execution_files_resolve:
  assumes "buildNodeIndexEntry node files mm = Inr ie"
  shows "case resolveExecutionModelFileHashes r files (ie_CurrentModelFileHashes ie) of
      Inl e \<Rightarrow> \<not> holdsRequiredModelFiles ie r \<and> e = errModelFileNotHeldForTask
    | Inr hashes \<Rightarrow>
        holdsRequiredModelFiles ie r \<and> sorted hashes \<and> distinct hashes \<and>
        set hashes \<subseteq> fr_ModelFileHash ` set files \<and> set (rq_exact r) \<subseteq> set hashes \<and>
        (\<forall>src\<in>set (rq_source r). \<exists>f\<in>set files. fr_ModelFileHash f \<in> set hashes \<and> fr_ModelFileSourceHash f = src \<and>
           ((\<exists>g\<in>set files. fr_ModelFileHash g \<in> set (ie_CurrentModelFileHashes ie) \<and> fr_ModelFileSourceHash g = src) \<longrightarrow>
              fr_ModelFileHash f \<in> set (ie_CurrentModelFileHashes ie)))"
proof -
  obtain pairs where pairs: "map_sum_list row_hashes files = Inr pairs"
    and gate: "\<And>r. holdsRequiredModelFiles ie r = holdsRequiredModelFiles (disk_entry node pairs) r"
    using assms by (rule build_gate) blast
  have "pairs = map (\<lambda>f. (fr_ModelFileHash f, fr_ModelFileSourceHash f)) files"
    using map_sum_list_Inr[OF pairs]
    by (induction rule: list_all2_induct) (auto simp: row_hashes_def Hash32FromBytes_def split: sum.splits if_splits)
  then have set: "set pairs = (\<lambda>f. (fr_ModelFileHash f, fr_ModelFileSourceHash f)) ` set files" by simp
  have gate': "holdsRequiredModelFiles ie r \<longleftrightarrow> set (rq_exact r) \<subseteq> fst ` set pairs \<and> set (rq_source r) \<subseteq> snd ` set pairs"
    unfolding gate disk_entry_gate ..
  let ?cur = "ie_CurrentModelFileHashes ie"
  show ?thesis
  proof (cases "resolve_sources pairs ?cur (rq_source r)")
    case (Inl e)
    then have "\<not> set (rq_source r) \<subseteq> snd ` set pairs" using resolve_sources_iff[of pairs ?cur "rq_source r"] by auto
    moreover have "e = errModelFileNotHeldForTask" using Inl by (rule resolve_sources_error)
    ultimately show ?thesis using Inl gate' by (auto simp: resolveExecutionModelFileHashes_def pairs resolve_exact_iff)
  next
    case (Inr rs)
    note spec = resolve_sources_spec[OF Inr] and ok = resolve_sources_iff[of pairs ?cur "rq_source r"]
    show ?thesis
    proof (cases "set (rq_exact r) \<subseteq> fst ` set pairs")
      case True
      have "\<exists>f\<in>set files. fr_ModelFileHash f \<in> set (SortedUniqueHashes (rq_exact r @ rs)) \<and> fr_ModelFileSourceHash f = src \<and>
          ((\<exists>g\<in>set files. fr_ModelFileHash g \<in> set ?cur \<and> fr_ModelFileSourceHash g = src) \<longrightarrow> fr_ModelFileHash f \<in> set ?cur)"
        if "src \<in> set (rq_source r)" for src
      proof -
        from spec that obtain h where h: "h \<in> set rs" "(h, src) \<in> set pairs"
          "(\<exists>k\<in>set ?cur. (k, src) \<in> set pairs) \<longrightarrow> h \<in> set ?cur" by blast
        from h(2) obtain f where "f \<in> set files" "fr_ModelFileHash f = h" "fr_ModelFileSourceHash f = src" unfolding set by auto
        moreover have "(k, src) \<in> set pairs \<longleftrightarrow> (\<exists>g\<in>set files. fr_ModelFileHash g = k \<and> fr_ModelFileSourceHash g = src)" for k
          unfolding set by auto
        ultimately show ?thesis using h by auto
      qed
      moreover have "fst ` set pairs = fr_ModelFileHash ` set files" unfolding set by force
      moreover have "resolveExecutionModelFileHashes r files ?cur = Inr (SortedUniqueHashes (rq_exact r @ rs))"
        using True Inr by (simp add: resolveExecutionModelFileHashes_def pairs resolve_exact_iff)
      moreover have "holdsRequiredModelFiles ie r" using True Inr ok gate' by auto
      ultimately show ?thesis using spec True
        by (simp add: SortedUniqueHashes_sorted SortedUniqueHashes_distinct)
    qed (use gate' in \<open>auto simp: resolveExecutionModelFileHashes_def pairs resolve_exact_iff\<close>)
  qed
qed

definition sample_row :: NodeModelFileRow where
  "sample_row = \<lparr> fr_NodeAddress = ''a'', fr_ModelFileHash = sample_hash CHR ''x'', fr_ModelFileSourceHash = sample_hash CHR ''y'' \<rparr>"

theorem execution_files_resolve_witness:
  "resolveExecutionModelFileHashes \<lparr> rq_exact = [], rq_source = [sample_hash CHR ''y''], rq_cacheHash = [] \<rparr> [sample_row] []
     = Inr [sample_hash CHR ''x'']"
proof -
  let ?r = "\<lparr> rq_exact = [], rq_source = [sample_hash CHR ''y''], rq_cacheHash = [] \<rparr>"
  let ?ie = "disk_entry sample_node [(sample_hash CHR ''x'', sample_hash CHR ''y'')]"
  have "buildNodeIndexEntry sample_node [sample_row] None = Inr ?ie"
    by (simp add: buildNodeIndexEntry_def sample_row_def row_hashes_def Hash32FromBytes_def sample_hash_def modelHashSize_def)
  from execution_files_resolve[OF this, of ?r]
  have "case resolveExecutionModelFileHashes ?r [sample_row] [] of Inl e \<Rightarrow> \<not> holdsRequiredModelFiles ?ie ?r
     | Inr hashes \<Rightarrow> distinct hashes \<and> set hashes \<subseteq> {sample_hash CHR ''x''} \<and> sample_hash CHR ''x'' \<in> set hashes"
    by (auto simp: disk_entry_def sample_row_def split: sum.splits)
  moreover have "holdsRequiredModelFiles ?ie ?r" by (simp add: disk_entry_gate)
  moreover have "hs = [x]" if "distinct hs" "set hs \<subseteq> {x}" "x \<in> set hs" for hs :: "bytes list" and x
    using that by (cases hs) (auto simp: subset_singleton_iff)
  ultimately show ?thesis by (auto split: sum.splits)
qed

section \<open>A report replaces the inventory\<close>

definition held_by :: "db \<Rightarrow> address \<Rightarrow> bytes set" where
  "held_by d addr = {h. NewNodeModel addr h \<in> set (d_node_models d)}"

lemma NewNodeModel_simps [simp]:
  "nm_NodeAddress (NewNodeModel a h) = a" "nm_ModelFileHash (NewNodeModel a h) = h"
  "NewNodeModel a h = NewNodeModel b k \<longleftrightarrow> a = b \<and> h = k"
  by (auto simp: NewNodeModel_def)

lemma NewNodeModel_surj: "nm = NewNodeModel (nm_NodeAddress nm) (nm_ModelFileHash nm)"
  by (simp add: NewNodeModel_def)

lemma create_models_run:
  "distinct nms \<Longrightarrow> set nms \<inter> set (d_node_models (fst s)) = {} \<Longrightarrow>
   CreateNodeModels nms s = (Inr (), ((fst s)\<lparr> d_node_models := d_node_models (fst s) @ nms \<rparr>, snd s))"
proof (induction nms arbitrary: s)
  case (Cons nm nms)
  then have "CreateNodeModels (nm # nms) s = CreateNodeModels nms ((fst s)\<lparr> d_node_models := d_node_models (fst s) @ [nm] \<rparr>, snd s)"
    by (simp add: op_simps)
  also have "\<dots> = (Inr (), ((fst s)\<lparr> d_node_models := d_node_models (fst s) @ nm # nms \<rparr>, snd s))"
    using Cons.prems by (subst Cons.IH) auto
  finally show ?case .
qed (simp add: op_simps)

lemma modelFileHashes_ok: "hashes_ok (map mf_ModelFileHash fs) \<Longrightarrow> modelFileHashes fs = Inr (map mf_ModelFileHash fs)"
  by (induction fs) (auto simp: modelFileHashes_def hashes_ok_def Hash32FromBytes_def)

lemma modelFileSourceHashes_ok: "hashes_ok (map mf_ModelFileSourceHash fs) \<Longrightarrow> modelFileSourceHashes fs = Inr (map mf_ModelFileSourceHash fs)"
  by (induction fs) (auto simp: modelFileSourceHashes_def hashes_ok_def Hash32FromBytes_def)

lemma existing_ok: "hashes_ok (map nm_ModelFileHash nms) \<Longrightarrow>
    map_sum_list (\<lambda>nm. Hash32FromBytes (nm_ModelFileHash nm)) nms = Inr (map nm_ModelFileHash nms)"
  by (induction nms) (auto simp: hashes_ok_def Hash32FromBytes_def)

definition selections_ok :: "NodeModelDownloadSelection list \<Rightarrow> bool" where
  "selections_ok ss \<longleftrightarrow> distinct (map ds_ID ss) \<and> (\<forall>s\<in>set ss. \<exists>p. RequiredHashes s = Inr p)"

definition selection_covered :: "bytes list \<Rightarrow> bytes list \<Rightarrow> NodeModelDownloadSelection \<Rightarrow> bool" where
  "selection_covered exactHeld sourceHeld s \<longleftrightarrow> (\<exists>exact source. RequiredHashes s = Inr (exact, source) \<and>
     modelFilesCovered exactHeld sourceHeld exact source)"

lemma uncovered_run:
  "\<forall>s\<in>set ss. \<exists>p. RequiredHashes s = Inr p \<Longrightarrow>
   uncovered_selections ex so ss = Inr (map ds_ID (filter (\<lambda>s. \<not> selection_covered ex so s) ss))"
  by (induction ss) (auto simp: selection_covered_def)

lemma filter_by_id:
  assumes "distinct (map ds_ID ss)"
  shows "filter (\<lambda>s. ds_ID s \<notin> set (map ds_ID (filter P (filter Q ss)))) ss = filter (\<lambda>s. \<not> (P s \<and> Q s)) ss"
  using assms by (intro filter_cong) (auto simp: distinct_map inj_on_def)

lemma prune_run:
  assumes "selections_ok (d_selections (fst s))"
  shows "pruneUncoveredSelections addr ex so s = (Inr (), ((fst s)\<lparr> d_selections :=
     filter (\<lambda>x. ds_NodeAddress x = addr \<longrightarrow> selection_covered ex so x) (d_selections (fst s)) \<rparr>, snd s))"
proof -
  let ?mine = "filter (\<lambda>x. ds_NodeAddress x = addr) (d_selections (fst s))"
  let ?un = "map ds_ID (filter (\<lambda>x. \<not> selection_covered ex so x) ?mine)"
  have un: "uncovered_selections ex so ?mine = Inr ?un"
    using assms by (intro uncovered_run) (auto simp: selections_ok_def)
  have eq: "filter (\<lambda>x. ds_ID x \<notin> set ?un) (d_selections (fst s)) =
      filter (\<lambda>x. ds_NodeAddress x = addr \<longrightarrow> selection_covered ex so x) (d_selections (fst s))"
    using assms by (subst filter_by_id) (auto simp: selections_ok_def intro!: filter_cong)
  show ?thesis
  proof (cases "?un = []")
    case True
    have "filter (\<lambda>x. ds_NodeAddress x = addr \<longrightarrow> selection_covered ex so x) (d_selections (fst s)) = d_selections (fst s)"
      unfolding eq[symmetric] True by simp
    moreover have "uncovered_selections ex so ?mine = Inr []" using un unfolding True .
    ultimately show ?thesis by (simp only: pruneUncoveredSelections_def) (simp add: op_simps)
  next
    case False
    then show ?thesis unfolding eq[symmetric] by (simp only: pruneUncoveredSelections_def bnd_run read_db_run of_sum_run un write_db_run prod.case sum.case if_False)
  qed
qed


definition upserted :: "ModelFile list \<Rightarrow> ModelFile list \<Rightarrow> ModelFile list" where
  "upserted files rows = foldl (\<lambda>rows f. if \<exists>r\<in>set rows. mf_ModelFileHash r = mf_ModelFileHash f then rows else rows @ [f]) rows files"

lemma upsert_run:
  "(if files = [] then ret () else UpsertModelFiles files) s =
     (Inr (), ((fst s)\<lparr> d_model_files := upserted files (d_model_files (fst s)) \<rparr>, snd s))"
  by (simp add: UpsertModelFiles_def upserted_def op_simps)

lemma upserted_hashes:
  "mf_ModelFileHash ` set (upserted files rows) = mf_ModelFileHash ` set rows \<union> mf_ModelFileHash ` set files"
  unfolding upserted_def by (induction files arbitrary: rows) (auto simp: image_iff, metis)

lemma delete_run:
  "DeleteNodeModelsByFileHashes addr hs s = (Inr (), ((fst s)\<lparr> d_node_models :=
     filter (\<lambda>nm. \<not> (nm_NodeAddress nm = addr \<and> nm_ModelFileHash nm \<in> set hs)) (d_node_models (fst s)) \<rparr>, snd s))"
  by (cases "hs = []") (simp_all add: DeleteNodeModelsByFileHashes_def op_simps)

definition held_hashes :: "db \<Rightarrow> address \<Rightarrow> bytes list" where
  "held_hashes d addr = map nm_ModelFileHash (filter (\<lambda>nm. nm_NodeAddress nm = addr) (d_node_models d))"

lemma held_hashes_set: "h \<in> set (held_hashes d addr) \<longleftrightarrow> NewNodeModel addr h \<in> set (d_node_models d)"
proof
  assume "h \<in> set (held_hashes d addr)"
  then obtain nm where "nm \<in> set (d_node_models d)" "nm_NodeAddress nm = addr" "nm_ModelFileHash nm = h"
    by (auto simp: held_hashes_def)
  then show "NewNodeModel addr h \<in> set (d_node_models d)" by (metis NewNodeModel_surj)
qed (force simp: held_hashes_def)

lemma replace_run:
  assumes "\<not> cfg_ModelWhitelistEnabled cfg" "hashes_ok (map mf_ModelFileHash files)" "distinct (map mf_ModelFileHash files)"
    and "hashes_ok (map mf_ModelFileSourceHash files)" "hashes_ok (map nm_ModelFileHash (d_node_models d))"
    and "selections_ok (d_selections d)"
  shows "replaceNodeModelFiles cfg addr files (d, m) = (Inr (), (d\<lparr> d_model_files := upserted files (d_model_files d),
    d_node_models := filter (\<lambda>nm. nm_NodeAddress nm = addr \<longrightarrow> nm_ModelFileHash nm \<in> set (map mf_ModelFileHash files)) (d_node_models d)
      @ map (NewNodeModel addr) (filter (\<lambda>h. h \<notin> set (held_hashes d addr)) (map mf_ModelFileHash files)),
    d_selections := filter (\<lambda>x. ds_NodeAddress x = addr \<longrightarrow>
       selection_covered (map mf_ModelFileHash files) (map mf_ModelFileSourceHash files) x) (d_selections d) \<rparr>, m))"
proof -
  let ?h = "map mf_ModelFileHash files" and ?src = "map mf_ModelFileSourceHash files"
  let ?absent = "filter (\<lambda>h. h \<notin> set ?h) (held_hashes d addr)" and ?missing = "map (NewNodeModel addr) (filter (\<lambda>h. h \<notin> set (held_hashes d addr)) ?h)"
  let ?kept = "filter (\<lambda>nm. \<not> (nm_NodeAddress nm = addr \<and> nm_ModelFileHash nm \<in> set ?absent)) (d_node_models d)"
  have kept: "?kept = filter (\<lambda>nm. nm_NodeAddress nm = addr \<longrightarrow> nm_ModelFileHash nm \<in> set ?h) (d_node_models d)"
    by (rule filter_cong) (auto simp: held_hashes_def)
  have existing: "map_sum_list (\<lambda>nm. Hash32FromBytes (nm_ModelFileHash nm)) (filter (\<lambda>nm. nm_NodeAddress nm = addr) (d_node_models d)) = Inr (held_hashes d addr)"
    unfolding held_hashes_def using assms(5) by (intro existing_ok) (auto simp: hashes_ok_set)
  have "distinct (filter (\<lambda>h. h \<notin> set (held_hashes d addr)) ?h)" using assms(3) by simp
  then have "distinct ?missing" by (simp add: distinct_map inj_on_def)
  moreover have "set ?missing \<inter> set ?kept = {}" by (auto simp: held_hashes_set)
  ultimately have create: "CreateNodeModels ?missing (d'\<lparr> d_node_models := ?kept \<rparr>, m) =
      (Inr (), (d'\<lparr> d_node_models := ?kept @ ?missing \<rparr>, m))" for d'
    using create_models_run[of ?missing "(d'\<lparr> d_node_models := ?kept \<rparr>, m)"] by simp
  have n1: "d_node_models (d\<lparr> d_model_files := F \<rparr>) = d_node_models d" for F by simp
  have sel: "selections_ok (d_selections (fst (d\<lparr> d_model_files := F, d_node_models := N \<rparr>, m)))" for F N using assms(6) by simp
  show ?thesis
    unfolding replaceNodeModelFiles_def filterWhitelistedModelFiles_def GetNodeModelsByNodeAddress_def Let_def
    using assms(1) modelFileHashes_ok[OF assms(2)] modelFileSourceHashes_ok[OF assms(4)]
    by (simp only: bnd_run ret_run if_True not_False_eq_True upsert_run of_sum_run prod.case sum.case read_db_run fst_conv snd_conv
        n1 existing delete_run create[unfolded kept] prune_run[OF sel] kept) simp
qed


definition sample_file :: ModelFile where
  "sample_file = \<lparr> mf_ModelFileHash = sample_hash CHR ''x'', mf_ModelFileSourceHash = sample_hash CHR ''y'', mf_Entry = sample_file_entry ''org/model'' \<rparr>"


end
