(* ===== verification/Qos.thy ===== *)
theory Qos
  imports NodeIndex Float64 "HOL-Library.AList"
begin

text \<open>
  Quality of service (\<^verbatim>\<open>service/qos.go\<close>): the rolling pool of task scores a node's long-term score is the
  mean of, and the short-term health that timeouts cut, successes raise and time restores.  Floating
  point is rounded after every operation.  \<^verbatim>\<open>math.Exp\<close> is the parameter \<^verbatim>\<open>exp64\<close>, of which the lemmas use
  that it is monotone with values in the unit interval on the non-positive numbers.  All clock readings
  of one operation are its argument \<^verbatim>\<open>now\<close>.  The lemmas show that scores and health never leave their
  ranges and that health only recovers as time passes.
\<close>

section \<open>Configuration\<close>

definition checkQosConfig :: "AppConfig \<Rightarrow> go_error + unit" where
  "checkQosConfig cfg =
    (if cfg_TracingMaxTaskEvents cfg = 0 then Inl (errors_New ''qos.tracing_max_task_events is not set'')
     else if cfg_HealthExcludeEnterThreshold cfg \<le> 0 \<or>
             cfg_HealthExcludeEnterThreshold cfg \<ge> cfg_HealthExcludeExitThreshold cfg \<or>
             cfg_HealthExcludeExitThreshold cfg > 1
       then Inl (errors_New ''qos health exclusion thresholds must satisfy 0 < health_exclude_enter_threshold < health_exclude_exit_threshold <= 1'')
     else if cfg_PenaltyFactor cfg \<le> 0 \<or> cfg_PenaltyFactor cfg > 1
       then Inl (errors_New ''qos.penalty_factor must be in (0, 1]'')
     else if cfg_FirstTimeoutPenaltyFactor cfg \<le> 0 \<or> cfg_FirstTimeoutPenaltyFactor cfg > 1
       then Inl (errors_New ''qos.first_timeout_penalty_factor must be in (0, 1]'')
     else if cfg_FirstTimeoutHealthThreshold cfg \<le> 0 \<or> cfg_FirstTimeoutHealthThreshold cfg > 1
       then Inl (errors_New ''qos.first_timeout_health_threshold must be in (0, 1]'')
     else if cfg_SuccessBoost cfg < 0 \<or> cfg_SuccessBoost cfg > 1
       then Inl (errors_New ''qos.success_boost must be in [0, 1]'')
     else if cfg_RecoveryTauMinutes cfg \<le> 0
       then Inl (errors_New ''qos.recovery_tau_minutes must be greater than 0'')
     else Inr ())"

section \<open>Task scores\<close>

definition TASK_SCORE_REWARDS :: "nat list" where
  "TASK_SCORE_REWARDS = [10, 5, 2]"

definition getTaskQosScore :: "nat \<Rightarrow> go_error + nat" where
  "getTaskQosScore order =
    (if order < length TASK_SCORE_REWARDS then Inr (TASK_SCORE_REWARDS ! order) else Inl (Panic ''index out of range''))"

definition GetMaxQosScore :: float64 where
  "GetMaxQosScore = 10"

definition getNodeTaskQosScore :: "AppConfig \<Rightarrow> Node \<Rightarrow> nat \<Rightarrow> float64 relay" where
  "getNodeTaskQosScore cfg node qos =
    (let poolSize = wrap64 (int (if cfg_ScorePoolSize cfg = 0 then 50 else cfg_ScorePoolSize cfg)) in
     bnd (read_mem (\<lambda>m. map_of (m_qosPool m) (n_Address node))) (\<lambda>found.
     (let start = (case found of
                     Some pool \<Rightarrow> pool
                   | None \<Rightarrow> if n_QOSScore node > 0 then replicate (nat (poolSize - 1)) (nat \<lfloor>n_QOSScore node\<rfloor>) else []);
          grown = start @ [qos];
          pool = (if int (length grown) > poolSize then tl grown else grown) in
      bnd (write_mem (\<lambda>m. m\<lparr> m_qosPool := AList.update (n_Address node) pool (m_qosPool m) \<rparr>)) (\<lambda>_.
      ret (fl64 (fl64 (of_nat (sum_list pool mod 2 ^ 64)) / fl64 (of_nat (length pool))))))))"

definition updateNodeQosScore :: "AppConfig \<Rightarrow> Node \<Rightarrow> nat \<Rightarrow> Node relay" where
  "updateNodeQosScore cfg node qos =
    bnd (getNodeTaskQosScore cfg node qos) (\<lambda>qosScore.
    node_Update node (\<lambda>n. n\<lparr> n_QOSScore := qosScore \<rparr>))"

definition ShouldPermanentKickout :: "AppConfig \<Rightarrow> mem \<Rightarrow> Node \<Rightarrow> bool" where
  "ShouldPermanentKickout cfg m node =
    (case map_of (m_qosPool m) (n_Address node) of
       None \<Rightarrow> False
     | Some pool \<Rightarrow> if length pool < cfg_ScorePoolSize cfg then False else n_QOSScore node < cfg_KickoutThreshold cfg)"

definition CalculateLongTermQos :: "float64 \<Rightarrow> float64" where
  "CalculateLongTermQos qosScore = fl64 (qosScore / GetMaxQosScore)"

definition resetNodeQosScorePool :: "address \<Rightarrow> unit relay" where
  "resetNodeQosScorePool addr = write_mem (\<lambda>m. m\<lparr> m_qosPool := AList.delete addr (m_qosPool m) \<rparr>)"

definition AdjustNodeQosForJoin :: "AppConfig \<Rightarrow> Node \<Rightarrow> bool \<Rightarrow> Node relay" where
  "AdjustNodeQosForJoin cfg node isNewNode =
    (if isNewNode then ret node
     else if CalculateLongTermQos (n_QOSScore node) \<ge> cfg_RejoinQosLongFloor cfg then ret node
     else bnd (resetNodeQosScorePool (n_Address node)) (\<lambda>_.
          ret (node\<lparr> n_QOSScore := fl64 (cfg_RejoinQosLongFloor cfg * GetMaxQosScore) \<rparr>)))"

definition getNodeQosWindowSize :: "mem \<Rightarrow> address \<Rightarrow> nat" where
  "getNodeQosWindowSize m addr = (case map_of (m_qosPool m) addr of None \<Rightarrow> 0 | Some pool \<Rightarrow> length pool)"

section \<open>Health\<close>

text \<open>\<^verbatim>\<open>Duration.Minutes\<close>: whole minutes and the fraction are converted apart.\<close>

definition Minutes :: "duration \<Rightarrow> float64" where
  "Minutes d = fl64 (fl64 (of_int (go_quo d time_Minute)) + fl64 (fl64 (of_int (go_rem d time_Minute)) / of_int time_Minute))"

definition getEffectiveHealthAt :: "(float64 \<Rightarrow> float64) \<Rightarrow> AppConfig \<Rightarrow> float64 \<Rightarrow> time option \<Rightarrow> time \<Rightarrow> float64" where
  "getEffectiveHealthAt exp64 cfg healthBase healthUpdatedAt now =
    (case healthUpdatedAt of
       None \<Rightarrow> 1
     | Some since \<Rightarrow>
         let e = Minutes (time_Sub now since);
             elapsed = (if e < 0 then 0 else e);
             hEffective = fl64 (healthBase + fl64 (fl64 (1 - healthBase) *
                            fl64 (1 - exp64 (fl64 (- elapsed / cfg_RecoveryTauMinutes cfg)))))
         in if hEffective > 1 then 1 else hEffective)"

definition IsHealthExcluded :: "(float64 \<Rightarrow> float64) \<Rightarrow> AppConfig \<Rightarrow> Node \<Rightarrow> time \<Rightarrow> bool" where
  "IsHealthExcluded exp64 cfg node now \<longleftrightarrow>
    n_HealthExcluded node \<and>
    getEffectiveHealthAt exp64 cfg (n_HealthBase node) (n_HealthUpdatedAt node) now < cfg_HealthExcludeExitThreshold cfg"

definition calculatePenalizedHealth :: "AppConfig \<Rightarrow> float64 \<Rightarrow> float64" where
  "calculatePenalizedHealth cfg hEffective =
    fl64 (hEffective * (if hEffective \<ge> cfg_FirstTimeoutHealthThreshold cfg then cfg_FirstTimeoutPenaltyFactor cfg
                        else cfg_PenaltyFactor cfg))"

definition calculateBoostedHealth :: "AppConfig \<Rightarrow> float64 \<Rightarrow> float64" where
  "calculateBoostedHealth cfg hEffective =
    (let hNew = fl64 (hEffective + cfg_SuccessBoost cfg) in if hNew > 1 then 1 else hNew)"

definition calculateCombinedQos :: "float64 \<Rightarrow> float64 \<Rightarrow> float64" where
  "calculateCombinedQos qosLong health = fl64 (qosLong * health)"

definition ApplyHealthPenalty :: "(float64 \<Rightarrow> float64) \<Rightarrow> AppConfig \<Rightarrow> Node \<Rightarrow> time \<Rightarrow> Node relay" where
  "ApplyHealthPenalty exp64 cfg node now =
    (let hEffective = getEffectiveHealthAt exp64 cfg (n_HealthBase node) (n_HealthUpdatedAt node) now;
         hNew = calculatePenalizedHealth cfg hEffective in
     node_Update node (\<lambda>n. n\<lparr> n_HealthBase := hNew, n_HealthUpdatedAt := Some now,
       n_HealthExcluded := (if hNew < cfg_HealthExcludeEnterThreshold cfg then True else n_HealthExcluded n) \<rparr>))"

definition ApplyHealthBoost :: "(float64 \<Rightarrow> float64) \<Rightarrow> AppConfig \<Rightarrow> Node \<Rightarrow> time \<Rightarrow> Node relay" where
  "ApplyHealthBoost exp64 cfg node now =
    (let hEffective = getEffectiveHealthAt exp64 cfg (n_HealthBase node) (n_HealthUpdatedAt node) now;
         hNew = calculateBoostedHealth cfg hEffective in
     node_Update node (\<lambda>n. n\<lparr> n_HealthBase := hNew, n_HealthUpdatedAt := Some now \<rparr>))"

definition CalculateQosComponentsAt ::
  "(float64 \<Rightarrow> float64) \<Rightarrow> AppConfig \<Rightarrow> float64 \<Rightarrow> float64 \<Rightarrow> time option \<Rightarrow> time \<Rightarrow> float64 \<times> float64 \<times> float64" where
  "CalculateQosComponentsAt exp64 cfg qosScore healthBase healthUpdatedAt now =
    (let h = getEffectiveHealthAt exp64 cfg healthBase healthUpdatedAt now; qosLong = CalculateLongTermQos qosScore
     in (qosLong, h, calculateCombinedQos qosLong h))"

definition CalculateQosScoreAt ::
  "(float64 \<Rightarrow> float64) \<Rightarrow> AppConfig \<Rightarrow> float64 \<Rightarrow> float64 \<Rightarrow> time option \<Rightarrow> time \<Rightarrow> float64" where
  "CalculateQosScoreAt exp64 cfg qosScore healthBase healthUpdatedAt now =
    snd (snd (CalculateQosComponentsAt exp64 cfg qosScore healthBase healthUpdatedAt now))"

section \<open>Elapsed minutes\<close>

definition elapsed_minutes :: "time \<Rightarrow> time \<Rightarrow> float64" where
  "elapsed_minutes since now = (let e = Minutes (time_Sub now since) in if e < 0 then 0 else e)"

lemma minute_pos [simp]: "0 < time_Minute" "0 \<le> time_Minute"
  by (simp_all add: time_units)

lemma time_Sub_le: "t \<le> t' \<Longrightarrow> time_Sub t u \<le> time_Sub t' u"
  by (simp add: time_Sub_def)

lemma Minutes_nonneg_eq:
  "0 \<le> d \<Longrightarrow> Minutes d = fl64 (fl64 (of_int (d div time_Minute)) + fl64 (fl64 (of_int (d mod time_Minute)) / of_int time_Minute))"
  by (simp add: Minutes_def)

lemma rem_nonpos: "d \<le> 0 \<Longrightarrow> 0 < b \<Longrightarrow> go_rem d b \<le> 0"
proof (cases "d = 0")
  case False
  assume "d \<le> 0" "0 < b"
  then have "go_rem d b = - (- d - (- d) div b * b)" using False go_quo_rem[of d b] go_quo_neg[of d b] by simp
  also have "\<dots> = - ((- d) mod b)" by (simp only: minus_div_mult_eq_mod)
  finally show ?thesis using \<open>0 < b\<close> by simp
qed simp

lemma Minutes_nonpos: "d \<le> 0 \<Longrightarrow> Minutes d \<le> 0"
proof -
  assume d: "d \<le> 0"
  have q: "go_quo d time_Minute \<le> 0" using d go_quo_neg_le[of d time_Minute] by (cases "d = 0") simp_all
  have r: "go_rem d time_Minute \<le> 0" using d by (simp add: rem_nonpos)
  have neg: "fl64 x \<le> 0" if "x \<le> 0" for x using fl_mono[of 53 x 0] that by simp
  have "fl64 (of_int (go_rem d time_Minute)) / of_int time_Minute \<le> 0"
    using neg[of "of_int (go_rem d time_Minute)"] r by (simp add: divide_le_0_iff)
  then have "fl64 (of_int (go_quo d time_Minute)) + fl64 (fl64 (of_int (go_rem d time_Minute)) / of_int time_Minute) \<le> 0"
    using neg q by (simp add: add_nonpos_nonpos)
  then show ?thesis unfolding Minutes_def by (rule neg)
qed

lemma minute_fraction:
  "0 \<le> fl64 (fl64 (of_int (d mod time_Minute)) / of_int time_Minute)"
  "fl64 (fl64 (of_int (d mod time_Minute)) / of_int time_Minute) \<le> 1"
proof -
  have m: "0 \<le> d mod time_Minute" "d mod time_Minute < time_Minute" by simp_all
  then have "\<bar>d mod time_Minute\<bar> \<le> 2 ^ 53" by (simp add: time_units)
  then have e: "fl64 (of_int (d mod time_Minute)) = of_int (d mod time_Minute)" by (rule fl_of_int) simp
  have "(of_int (d mod time_Minute) :: rat) \<le> of_int time_Minute" using m by (simp only: of_int_le_iff)
  moreover have "(0 :: rat) < of_int time_Minute" by simp
  ultimately have "of_int (d mod time_Minute) / of_int time_Minute \<le> (1 :: rat)" by simp
  then show "fl64 (fl64 (of_int (d mod time_Minute)) / of_int time_Minute) \<le> 1"
    unfolding e by (rule machine.rnd_le_1)
  show "0 \<le> fl64 (fl64 (of_int (d mod time_Minute)) / of_int time_Minute)"
    unfolding e using m by (intro machine.rnd_nonneg) simp
qed

lemma whole_minutes_exact:
  "0 \<le> d \<Longrightarrow> int64 d \<Longrightarrow> fl64 (of_int (d div time_Minute)) = of_int (d div time_Minute)"
proof (rule fl_of_int)
  assume d: "0 \<le> d" "int64 d"
  then have "d div time_Minute \<le> 2 ^ 63 div time_Minute" by (intro zdiv_mono1) (simp_all add: int64_def)
  moreover have "0 \<le> d div time_Minute" using d by (simp add: pos_imp_zdiv_nonneg_iff)
  ultimately show "\<bar>d div time_Minute\<bar> \<le> 2 ^ 53" by (simp add: time_units)
qed simp

lemma Minutes_bounds:
  assumes "0 \<le> d" "int64 d"
  shows "of_int (d div time_Minute) \<le> Minutes d" "Minutes d \<le> of_int (d div time_Minute + 1)"
proof -
  note e = whole_minutes_exact[OF assms] and f = minute_fraction[of d]
  have "d div time_Minute \<le> 2 ^ 63 div time_Minute" using assms by (intro zdiv_mono1) (simp_all add: int64_def)
  moreover have "0 \<le> d div time_Minute" using assms by (simp add: pos_imp_zdiv_nonneg_iff)
  ultimately have e1: "fl64 (of_int (d div time_Minute + 1)) = of_int (d div time_Minute + 1)"
    by (intro fl_of_int) (simp_all add: time_units)
  show "of_int (d div time_Minute) \<le> Minutes d"
    using fl_mono[of 53 "of_int (d div time_Minute)" "of_int (d div time_Minute) + fl64 (fl64 (of_int (d mod time_Minute)) / of_int time_Minute)"] f
    unfolding Minutes_nonneg_eq[OF assms(1)] e by (simp add: e)
  show "Minutes d \<le> of_int (d div time_Minute + 1)"
    using fl_mono[of 53 "of_int (d div time_Minute) + fl64 (fl64 (of_int (d mod time_Minute)) / of_int time_Minute)" "of_int (d div time_Minute + 1)"] f
    unfolding Minutes_nonneg_eq[OF assms(1)] e e1 by simp
qed

lemma Minutes_mono:
  assumes "0 \<le> d" "d \<le> d'" "int64 d" "int64 d'"
  shows "Minutes d \<le> Minutes d'"
proof (cases "d div time_Minute = d' div time_Minute")
  case True
  have "d mod time_Minute \<le> d' mod time_Minute"
    using True assms(2) by (metis add_le_cancel_left mult_div_mod_eq)
  then have "fl64 (of_int (d mod time_Minute)) \<le> fl64 (of_int (d' mod time_Minute))" by (intro fl_mono) simp_all
  then have "fl64 (of_int (d mod time_Minute)) / of_int time_Minute \<le> fl64 (of_int (d' mod time_Minute)) / of_int time_Minute"
    by (simp add: divide_right_mono)
  then show ?thesis
    using assms(1,2) True by (simp add: Minutes_nonneg_eq fl_mono)
next
  case False
  have "d div time_Minute \<le> d' div time_Minute" using assms by (simp add: zdiv_mono1)
  then have "d div time_Minute + 1 \<le> d' div time_Minute" using False by simp
  then have "(of_int (d div time_Minute + 1) :: rat) \<le> of_int (d' div time_Minute)" by (simp only: of_int_le_iff)
  then show ?thesis using Minutes_bounds(2)[of d] Minutes_bounds(1)[of d'] assms by linarith
qed

lemma elapsed_nonneg [simp]: "0 \<le> elapsed_minutes since now"
  by (simp add: elapsed_minutes_def Let_def)

lemma elapsed_mono: "now \<le> now' \<Longrightarrow> elapsed_minutes since now \<le> elapsed_minutes since now'"
proof (cases "0 \<le> time_Sub now since")
  case True
  assume "now \<le> now'"
  then show ?thesis
    using True Minutes_mono[of "time_Sub now since" "time_Sub now' since"] time_Sub_le[of now now' since]
    by (simp add: elapsed_minutes_def Let_def)
next
  case False
  then have "Minutes (time_Sub now since) \<le> 0" by (intro Minutes_nonpos) simp
  then have "elapsed_minutes since now = 0" by (simp add: elapsed_minutes_def Let_def)
  then show ?thesis by simp
qed

section \<open>Health stays in the unit interval and only recovers\<close>

text \<open>What \<^verbatim>\<open>math.Exp\<close> promises on the non-positive numbers: it is monotone, between 0 and 1, and underflows to 0.\<close>

definition exp_ok :: "(float64 \<Rightarrow> float64) \<Rightarrow> bool" where
  "exp_ok exp64 \<longleftrightarrow>
    (\<forall>x y. x \<le> y \<longrightarrow> y \<le> 0 \<longrightarrow> exp64 x \<le> exp64 y) \<and>
    (\<forall>x \<le> 0. 0 \<le> exp64 x \<and> exp64 x \<le> 1) \<and>
    (\<forall>x \<le> -746. exp64 x = 0)"

lemma checkQosConfig_ok:
  assumes "checkQosConfig cfg = Inr ()"
  shows "0 < cfg_PenaltyFactor cfg" "cfg_PenaltyFactor cfg \<le> 1"
    "0 < cfg_FirstTimeoutPenaltyFactor cfg" "cfg_FirstTimeoutPenaltyFactor cfg \<le> 1"
    "0 \<le> cfg_SuccessBoost cfg" "0 < cfg_RecoveryTauMinutes cfg"
    "0 < cfg_HealthExcludeEnterThreshold cfg"
    "cfg_HealthExcludeEnterThreshold cfg < cfg_HealthExcludeExitThreshold cfg"
    "cfg_HealthExcludeExitThreshold cfg \<le> 1"
  using assms by (auto simp: checkQosConfig_def split: if_splits)

definition recovered :: "(float64 \<Rightarrow> float64) \<Rightarrow> AppConfig \<Rightarrow> time \<Rightarrow> time \<Rightarrow> float64" where
  "recovered exp64 cfg since now = fl64 (1 - exp64 (fl64 (- elapsed_minutes since now / cfg_RecoveryTauMinutes cfg)))"

lemma effective_health_since:
  "getEffectiveHealthAt exp64 cfg base (Some since) now =
    min 1 (fl64 (base + fl64 (fl64 (1 - base) * recovered exp64 cfg since now)))"
  by (simp add: getEffectiveHealthAt_def recovered_def elapsed_minutes_def Let_def min_def)

lemma effective_health_never: "getEffectiveHealthAt exp64 cfg base None now = 1"
  by (simp add: getEffectiveHealthAt_def)

lemma recovery_exponent:
  assumes "checkQosConfig cfg = Inr ()"
  shows "fl64 (- elapsed_minutes since now / cfg_RecoveryTauMinutes cfg) \<le> 0"
    and "now \<le> now' \<Longrightarrow> fl64 (- elapsed_minutes since now' / cfg_RecoveryTauMinutes cfg)
           \<le> fl64 (- elapsed_minutes since now / cfg_RecoveryTauMinutes cfg)"
proof -
  note tau = checkQosConfig_ok(6)[OF assms]
  have "- elapsed_minutes since now / cfg_RecoveryTauMinutes cfg \<le> 0" using tau by (simp add: divide_le_0_iff)
  then show "fl64 (- elapsed_minutes since now / cfg_RecoveryTauMinutes cfg) \<le> 0"
    using fl_mono[of 53 _ 0] by simp
  show "fl64 (- elapsed_minutes since now' / cfg_RecoveryTauMinutes cfg)
      \<le> fl64 (- elapsed_minutes since now / cfg_RecoveryTauMinutes cfg)" if "now \<le> now'"
    using elapsed_mono[OF that] tau by (intro fl_mono divide_right_mono) simp_all
qed

lemma recovered_bounds:
  assumes "exp_ok exp64" "checkQosConfig cfg = Inr ()"
  shows "0 \<le> recovered exp64 cfg since now" "recovered exp64 cfg since now \<le> 1"
    and "now \<le> now' \<Longrightarrow> recovered exp64 cfg since now \<le> recovered exp64 cfg since now'"
proof -
  note e = recovery_exponent[OF assms(2)]
  show "0 \<le> recovered exp64 cfg since now" "recovered exp64 cfg since now \<le> 1"
    using assms(1) e(1)[of since now] unfolding recovered_def exp_ok_def
    by (simp_all add: machine.rnd_nonneg machine.rnd_le_1)
  show "recovered exp64 cfg since now \<le> recovered exp64 cfg since now'" if "now \<le> now'"
    using assms(1) e(2)[OF that, of since] e(1) unfolding recovered_def exp_ok_def by (intro fl_mono) simp_all
qed

lemma effective_health_bounds:
  assumes "exp_ok exp64" "checkQosConfig cfg = Inr ()" "0 \<le> base" "base \<le> 1"
  shows "0 \<le> getEffectiveHealthAt exp64 cfg base upd now" "getEffectiveHealthAt exp64 cfg base upd now \<le> 1"
    and "now \<le> now' \<Longrightarrow> getEffectiveHealthAt exp64 cfg base upd now \<le> getEffectiveHealthAt exp64 cfg base upd now'"
    and "fl64 base = base \<Longrightarrow> base \<le> getEffectiveHealthAt exp64 cfg base upd now"
proof -
  define gain where "gain = (\<lambda>since now. fl64 (fl64 (1 - base) * recovered exp64 cfg since now))"
  note r = recovered_bounds[OF assms(1,2)]
  have d: "0 \<le> fl64 (1 - base)" using assms by (simp add: machine.rnd_nonneg)
  have g: "0 \<le> gain since now" for since now
    unfolding gain_def using d r(1) by (simp add: machine.rnd_nonneg)
  have gm: "gain since now \<le> gain since now'" if "now \<le> now'" for since
    unfolding gain_def using d r(3)[OF that] by (simp add: fl_mono mult_left_mono)
  have h: "getEffectiveHealthAt exp64 cfg base (Some since) now = min 1 (fl64 (base + gain since now))" for since now
    by (simp add: effective_health_since gain_def)
  show "0 \<le> getEffectiveHealthAt exp64 cfg base upd now"
    using g assms(3) by (cases upd) (simp_all add: effective_health_never h machine.rnd_nonneg)
  show "getEffectiveHealthAt exp64 cfg base upd now \<le> 1"
    by (cases upd) (simp_all add: effective_health_never h)
  show "getEffectiveHealthAt exp64 cfg base upd now \<le> getEffectiveHealthAt exp64 cfg base upd now'" if "now \<le> now'"
  proof (cases upd)
    case (Some since)
    have "fl64 (base + gain since now) \<le> fl64 (base + gain since now')" using gm[OF that] by (simp add: fl_mono)
    then show ?thesis by (simp add: Some h min.coboundedI2)
  qed (simp add: effective_health_never)
  show "base \<le> getEffectiveHealthAt exp64 cfg base upd now" if "fl64 base = base"
    using assms(4) g fl_mono[of 53 base "base + gain _ now"] that by (cases upd) (simp_all add: effective_health_never h)
qed

lemma effective_health_rounded:
  "fl64 (getEffectiveHealthAt exp64 cfg base upd now) = getEffectiveHealthAt exp64 cfg base upd now"
  by (cases upd) (simp_all add: effective_health_never effective_health_since min_def)

lemma penalized_bounds:
  assumes "checkQosConfig cfg = Inr ()" "0 \<le> h" "h \<le> 1" "fl64 h = h"
  shows "0 \<le> calculatePenalizedHealth cfg h" "calculatePenalizedHealth cfg h \<le> h"
proof -
  define f where "f = (if h \<ge> cfg_FirstTimeoutHealthThreshold cfg then cfg_FirstTimeoutPenaltyFactor cfg else cfg_PenaltyFactor cfg)"
  have f: "0 \<le> f" "f \<le> 1" using checkQosConfig_ok[OF assms(1)] by (simp_all add: f_def)
  show "0 \<le> calculatePenalizedHealth cfg h" "calculatePenalizedHealth cfg h \<le> h"
    using f assms fl_mono[of 53 "h * f" h]
    by (simp_all add: calculatePenalizedHealth_def f_def[symmetric] machine.rnd_nonneg mult_left_le)
qed

lemma boosted_bounds:
  assumes "checkQosConfig cfg = Inr ()" "0 \<le> h" "h \<le> 1" "fl64 h = h"
  shows "h \<le> calculateBoostedHealth cfg h" "calculateBoostedHealth cfg h \<le> 1"
  using fl_mono[of 53 h "h + cfg_SuccessBoost cfg"] checkQosConfig_ok(5)[OF assms(1)] assms
  by (simp_all add: calculateBoostedHealth_def Let_def)

definition node_health :: "(float64 \<Rightarrow> float64) \<Rightarrow> AppConfig \<Rightarrow> Node \<Rightarrow> time \<Rightarrow> float64" where
  "node_health exp64 cfg node now = getEffectiveHealthAt exp64 cfg (n_HealthBase node) (n_HealthUpdatedAt node) now"

text \<open>
  C31: with a checked configuration, the effective health of a node stays between 0 and 1 and never falls while
  only time passes; a timeout never raises it and a success never lowers it, both within the unit interval;
  and a node that is not excluded for its health does not become excluded by waiting.
\<close>

theorem health_recovers:
  assumes "exp_ok exp64" "checkQosConfig cfg = Inr ()" "0 \<le> n_HealthBase node" "n_HealthBase node \<le> 1" "now \<le> now'"
  shows "let h = node_health exp64 cfg node in 0 \<le> h now \<and> h now \<le> h now' \<and> h now' \<le> 1 \<and>
    0 \<le> calculatePenalizedHealth cfg (h now) \<and> calculatePenalizedHealth cfg (h now) \<le> h now \<and>
    h now \<le> calculateBoostedHealth cfg (h now) \<and> calculateBoostedHealth cfg (h now) \<le> 1 \<and>
    (IsHealthExcluded exp64 cfg node now' \<longrightarrow> IsHealthExcluded exp64 cfg node now)"
proof -
  define h where "h = node_health exp64 cfg node"
  note b = effective_health_bounds[OF assms(1-4), where upd = "n_HealthUpdatedAt node", folded node_health_def, folded h_def]
  have r: "fl64 (h now) = h now" by (simp add: h_def node_health_def effective_health_rounded)
  show ?thesis
    using b(1,2)[of now] b(2)[of now'] b(3)[OF assms(5)] penalized_bounds[OF assms(2) _ _ r] boosted_bounds[OF assms(2) _ _ r]
    by (auto simp: IsHealthExcluded_def node_health_def[symmetric] h_def Let_def)
qed

section \<open>Exclusion ends\<close>

lemma elapsed_after:
  assumes "0 \<le> k" "int64 (time_Minute * k)" "since + time_Minute * k \<le> now"
  shows "of_int k \<le> elapsed_minutes since now"
proof -
  have "time_Minute * k \<le> time_Sub now since"
    using assms by (auto simp: time_Sub_def int64_def)
  then have "Minutes (time_Minute * k) \<le> Minutes (time_Sub now since)"
    using assms(1,2) by (intro Minutes_mono) simp_all
  moreover have "of_int (time_Minute * k div time_Minute) \<le> Minutes (time_Minute * k)"
    using assms(1,2) by (intro Minutes_bounds(1)) simp_all
  moreover have "time_Minute * k div time_Minute = k" by (simp add: time_units)
  ultimately show ?thesis by (simp add: elapsed_minutes_def Let_def)
qed

lemma almost_one: "fl64 (1 - 1 / 2 ^ 53) = 1 - 1 / 2 ^ 53"
proof -
  have "(1 - 1 / 2 ^ 53 :: rat) = of_int (2 ^ 53 - 1) * 2 powi (-53)" by (simp add: power_int_minus field_simps)
  then show ?thesis using fl_exact[of "2 ^ 53 - 1" 53 "-53"] by simp
qed

lemma full_recovery:
  assumes "0 \<le> base" "base \<le> 1"
  shows "1 - 1 / 2 ^ 53 \<le> fl64 (base + fl64 (1 - base))"
proof -
  have "(1 - base) / 2 ^ 53 \<le> 1 / 2 ^ 53" using assms by (simp add: divide_right_mono)
  moreover have "(1 - base) - (1 - base) / 2 ^ 53 \<le> fl64 (1 - base)" using assms by (intro fl_error) simp_all
  ultimately have "1 - 1 / 2 ^ 53 \<le> base + fl64 (1 - base)" by linarith
  then show ?thesis using fl_mono[of 53 "1 - 1 / 2 ^ 53" "base + fl64 (1 - base)"] almost_one by simp
qed

text \<open>
  C32: exclusion ends without any task: once 746 recovery constants have passed since the last change of a node's
  health, the node is no longer excluded, for every exit threshold below 1 and every recovery constant up to
  100000 minutes.
\<close>

theorem excluded_node_recovers:
  assumes "exp_ok exp64" "checkQosConfig cfg = Inr ()" "0 \<le> n_HealthBase node" "n_HealthBase node \<le> 1"
    "n_HealthUpdatedAt node = Some since" "cfg_HealthExcludeExitThreshold cfg \<le> 1 - 1 / 2 ^ 53"
    "cfg_RecoveryTauMinutes cfg \<le> 100000"
    "since + time_Minute * \<lceil>746 * cfg_RecoveryTauMinutes cfg\<rceil> \<le> now"
  shows "\<not> IsHealthExcluded exp64 cfg node now"
proof -
  define tau where "tau = cfg_RecoveryTauMinutes cfg"
  have tau: "0 < tau" "tau \<le> 100000" using checkQosConfig_ok(6)[OF assms(2)] assms(7) by (simp_all add: tau_def)
  define k where "k = \<lceil>746 * tau\<rceil>"
  have k: "0 \<le> k" "k \<le> 74600000" using tau by (simp_all add: k_def ceiling_le_iff)
  then have "int64 (time_Minute * k)" by (simp add: int64_def time_units)
  then have "of_int k \<le> elapsed_minutes since now"
    using k assms(8) by (intro elapsed_after) (simp_all add: tau_def k_def)
  then have "746 * tau \<le> elapsed_minutes since now" unfolding k_def by (metis order_trans le_of_int_ceiling)
  then have "- elapsed_minutes since now / tau \<le> - 746" using tau(1) by (simp add: field_simps)
  then have "fl64 (- elapsed_minutes since now / tau) \<le> fl64 (of_int (- 746))" by (intro fl_mono) simp_all
  also have "\<dots> = - 746" by (subst fl_of_int) simp_all
  finally have "recovered exp64 cfg since now = 1"
    using assms(1) by (simp add: recovered_def exp_ok_def tau_def)
  then have "1 - 1 / 2 ^ 53 \<le> node_health exp64 cfg node now"
    using full_recovery[OF assms(3,4)] by (simp add: node_health_def assms(5) effective_health_since)
  then show ?thesis using assms(6) by (simp add: IsHealthExcluded_def node_health_def)
qed

definition sample_exp :: "float64 \<Rightarrow> float64" where
  "sample_exp x = (if x \<le> -746 then 0 else 1 / (1 - x))"

lemma sample_exp_ok: "exp_ok sample_exp"
proof -
  have "sample_exp x \<le> sample_exp y" if "x \<le> y" "y \<le> 0" for x y
    using that by (auto simp: sample_exp_def frac_le)
  then show ?thesis by (auto simp: exp_ok_def sample_exp_def)
qed

definition tired_node :: Node where
  "tired_node = sample_node\<lparr> n_HealthBase := 1 / 8, n_HealthUpdatedAt := Some 0, n_HealthExcluded := True \<rparr>"

theorem health_recovers_witness:
  "0 \<le> node_health sample_exp sample_cfg tired_node time_Hour \<and>
   node_health sample_exp sample_cfg tired_node time_Hour \<le> node_health sample_exp sample_cfg tired_node (2 * time_Hour)"
  using health_recovers[of sample_exp sample_cfg tired_node time_Hour "2 * time_Hour"]
  by (simp add: sample_exp_ok tired_node_def checkQosConfig_def sample_cfg_def time_units Let_def)

theorem excluded_node_recovers_witness:
  "n_HealthExcluded tired_node \<and> IsHealthExcluded sample_exp sample_cfg tired_node 0 \<and>
   \<not> IsHealthExcluded sample_exp sample_cfg tired_node (time_Day * 100)"
proof -
  have "IsHealthExcluded sample_exp sample_cfg tired_node 0"
    by code_simp
  then show ?thesis
    using excluded_node_recovers[of sample_exp sample_cfg tired_node 0 "time_Day * 100"]
    by (simp add: sample_exp_ok tired_node_def checkQosConfig_def sample_cfg_def time_units)
qed

section \<open>Scores stay in range\<close>

definition score_pool_size :: "AppConfig \<Rightarrow> nat" where
  "score_pool_size cfg = (if cfg_ScorePoolSize cfg = 0 then 50 else cfg_ScorePoolSize cfg)"

definition pool_ok :: "AppConfig \<Rightarrow> nat list \<Rightarrow> bool" where
  "pool_ok cfg pool \<longleftrightarrow> pool \<noteq> [] \<and> length pool \<le> score_pool_size cfg \<and> (\<forall>q\<in>set pool. q \<le> 10)"

definition node_qos_ok :: "Node \<Rightarrow> bool" where
  "node_qos_ok n \<longleftrightarrow> 0 \<le> n_HealthBase n \<and> n_HealthBase n \<le> 1 \<and> 0 \<le> n_QOSScore n \<and> n_QOSScore n \<le> GetMaxQosScore"

definition qos_ok :: "AppConfig \<Rightarrow> db \<times> mem \<Rightarrow> bool" where
  "qos_ok cfg s \<longleftrightarrow>
    (\<forall>n\<in>set (d_nodes (fst s)). node_qos_ok n) \<and> (\<forall>p\<in>set (m_qosPool (snd s)). pool_ok cfg (snd p))"

text \<open>The four ways in which a task or a join changes what the relay thinks of a node.\<close>

datatype qos_step =
  TaskScored Node nat
| TaskTimedOut Node time
| TaskSucceeded Node time
| NodeRejoins Node bool

fun step_node :: "qos_step \<Rightarrow> Node" where
  "step_node (TaskScored n _) = n"
| "step_node (TaskTimedOut n _) = n"
| "step_node (TaskSucceeded n _) = n"
| "step_node (NodeRejoins n _) = n"

fun qos_apply :: "(float64 \<Rightarrow> float64) \<Rightarrow> AppConfig \<Rightarrow> qos_step \<Rightarrow> Node relay" where
  "qos_apply exp64 cfg (TaskScored n order) = bnd (of_sum (getTaskQosScore order)) (updateNodeQosScore cfg n)"
| "qos_apply exp64 cfg (TaskTimedOut n now) = ApplyHealthPenalty exp64 cfg n now"
| "qos_apply exp64 cfg (TaskSucceeded n now) = ApplyHealthBoost exp64 cfg n now"
| "qos_apply exp64 cfg (NodeRejoins n isNew) = AdjustNodeQosForJoin cfg n isNew"

lemma reward_le: "getTaskQosScore order = Inr q \<Longrightarrow> q \<le> 10"
proof -
  assume "getTaskQosScore order = Inr q"
  then have "order < 3" "q = TASK_SCORE_REWARDS ! order" by (auto simp: getTaskQosScore_def TASK_SCORE_REWARDS_def split: if_splits)
  then show ?thesis by (auto simp: TASK_SCORE_REWARDS_def less_Suc_eq numeral_3_eq_3)
qed

definition pushed_pool :: "AppConfig \<Rightarrow> Node \<Rightarrow> nat list option \<Rightarrow> nat \<Rightarrow> nat list" where
  "pushed_pool cfg node found q =
    (let start = (case found of Some pool \<Rightarrow> pool
          | None \<Rightarrow> if n_QOSScore node > 0 then replicate (score_pool_size cfg - 1) (nat \<lfloor>n_QOSScore node\<rfloor>) else []);
         grown = start @ [q] in
     if length grown > score_pool_size cfg then tl grown else grown)"

lemma score_run:
  assumes "score_pool_size cfg \<le> 2 ^ 32"
  shows "getNodeTaskQosScore cfg node q (d, m) =
    (let pool = pushed_pool cfg node (map_of (m_qosPool m) (n_Address node)) q in
     (Inr (fl64 (fl64 (of_nat (sum_list pool mod 2 ^ 64)) / fl64 (of_nat (length pool)))),
      (d, m\<lparr> m_qosPool := AList.update (n_Address node) pool (m_qosPool m) \<rparr>)))"
proof -
  have w: "wrap64 (int (score_pool_size cfg)) = int (score_pool_size cfg)" using assms by (simp add: int64_def)
  have n: "nat (int (score_pool_size cfg) - 1) = score_pool_size cfg - 1" by simp
  show ?thesis
    unfolding getNodeTaskQosScore_def pushed_pool_def Let_def score_pool_size_def[symmetric] w n of_nat_less_iff
    by (simp add: op_simps)
qed

lemma pushed_pool_ok:
  assumes "node_qos_ok node" "q \<le> 10" "\<And>p. found = Some p \<Longrightarrow> pool_ok cfg p"
  shows "pool_ok cfg (pushed_pool cfg node found q)"
proof -
  have s: "1 \<le> score_pool_size cfg" by (simp add: score_pool_size_def)
  have "\<lfloor>n_QOSScore node\<rfloor> \<le> 10"
    using assms(1) by (simp add: node_qos_ok_def GetMaxQosScore_def floor_le_iff)
  then have "nat \<lfloor>n_QOSScore node\<rfloor> \<le> 10" by linarith
  then have start: "length p \<le> score_pool_size cfg \<and> (\<forall>x\<in>set p. x \<le> 10)"
    if "p = (case found of Some pool \<Rightarrow> pool
          | None \<Rightarrow> if n_QOSScore node > 0 then replicate (score_pool_size cfg - 1) (nat \<lfloor>n_QOSScore node\<rfloor>) else [])" for p
    using that assms(3) by (cases found) (auto simp: pool_ok_def)
  have push: "pool_ok cfg (if length (p @ [q]) > score_pool_size cfg then tl (p @ [q]) else p @ [q])"
    if "length p \<le> score_pool_size cfg" "\<forall>x\<in>set p. x \<le> 10" for p
    using that s assms(2) by (cases p) (auto simp: pool_ok_def)
  show ?thesis unfolding pushed_pool_def Let_def by (rule push) (use start[OF refl] in blast)+
qed

lemma mean_bounds:
  assumes "pool_ok cfg pool" "score_pool_size cfg \<le> 2 ^ 32"
  shows "0 \<le> fl64 (fl64 (of_nat (sum_list pool mod 2 ^ 64)) / fl64 (of_nat (length pool)))"
    "fl64 (fl64 (of_nat (sum_list pool mod 2 ^ 64)) / fl64 (of_nat (length pool))) \<le> GetMaxQosScore"
proof -
  have l: "0 < length pool" "length pool \<le> 2 ^ 32" using assms by (auto simp: pool_ok_def)
  have "sum_list pool \<le> 10 * length pool"
    using assms(1) sum_list_mono[of pool id "\<lambda>_. 10"] by (simp add: pool_ok_def sum_list_triv mult.commute)
  then have t: "sum_list pool mod 2 ^ 64 \<le> 10 * length pool" by (meson mod_less_eq_dividend order_trans)
  have e: "fl64 (of_nat n) = of_nat n" if "n \<le> 10 * 2 ^ 32" for n
    using fl_of_int[of "int n" 53] that by simp
  have e1: "fl64 (of_nat (sum_list pool mod 2 ^ 64)) = of_nat (sum_list pool mod 2 ^ 64)"
    using t l by (intro e) linarith
  have e2: "fl64 (of_nat (length pool)) = of_nat (length pool)" using l by (intro e) linarith
  have "(of_nat (sum_list pool mod 2 ^ 64) :: rat) \<le> of_nat (10 * length pool)" using t by (simp only: of_nat_le_iff)
  then have "of_nat (sum_list pool mod 2 ^ 64) / of_nat (length pool) \<le> (of_int 10 :: rat)"
    using l(1) by (simp add: pos_divide_le_eq)
  then have "fl64 (of_nat (sum_list pool mod 2 ^ 64) / of_nat (length pool)) \<le> fl64 (of_int 10)" by (rule fl_mono[rotated]) simp
  also have "\<dots> = 10" by (subst fl_of_int) simp_all
  finally show "fl64 (fl64 (of_nat (sum_list pool mod 2 ^ 64)) / fl64 (of_nat (length pool))) \<le> GetMaxQosScore"
    unfolding e1 e2 GetMaxQosScore_def .
  show "0 \<le> fl64 (fl64 (of_nat (sum_list pool mod 2 ^ 64)) / fl64 (of_nat (length pool)))"
    unfolding e1 e2 by (simp add: machine.rnd_nonneg)
qed

lemma node_Update_qos:
  assumes "returns (node_Update node upd) s node' s'" "qos_ok cfg s" "node_qos_ok node"
    "\<And>n. node_qos_ok n \<Longrightarrow> node_qos_ok (upd n)"
  shows "qos_ok cfg s' \<and> node_qos_ok node'"
  using assms by (cases s) (auto simp: node_Update_def qos_ok_def upd_where_set split: if_splits)

lemma set_alist_update: "set (AList.update k v al) \<subseteq> insert (k, v) (set al)"
  by (induction al) auto

lemma pools_update:
  "qos_ok cfg (d, m) \<Longrightarrow> pool_ok cfg pool \<Longrightarrow> qos_ok cfg (d, m\<lparr> m_qosPool := AList.update a pool (m_qosPool m) \<rparr>)"
  unfolding qos_ok_def using set_alist_update[of a pool "m_qosPool m"] by fastforce

lemma pool_found: "qos_ok cfg (d, m) \<Longrightarrow> map_of (m_qosPool m) a = Some p \<Longrightarrow> pool_ok cfg p"
  by (auto simp: qos_ok_def dest!: map_of_SomeD)

lemma score_step_ok:
  assumes "score_pool_size cfg \<le> 2 ^ 32" "qos_ok cfg s" "node_qos_ok n" "q \<le> 10"
    "returns (updateNodeQosScore cfg n q) s n' s'"
  shows "qos_ok cfg s' \<and> node_qos_ok n'"
proof -
  obtain d m where s: "s = (d, m)" by (cases s)
  define pool where "pool = pushed_pool cfg n (map_of (m_qosPool m) (n_Address n)) q"
  have pool: "pool_ok cfg pool"
    unfolding pool_def using assms(3,4) pool_found[OF assms(2)[unfolded s]] by (rule pushed_pool_ok)
  define score where "score = fl64 (fl64 (of_nat (sum_list pool mod 2 ^ 64)) / fl64 (of_nat (length pool)))"
  note range = mean_bounds[OF pool assms(1), folded score_def]
  have run: "returns (node_Update n (\<lambda>n. n\<lparr> n_QOSScore := score \<rparr>))
      (d, m\<lparr> m_qosPool := AList.update (n_Address n) pool (m_qosPool m) \<rparr>) n' s'"
    using assms(5) score_run[OF assms(1), of n q d m]
    by (simp add: updateNodeQosScore_def s returns_def bnd_run pool_def score_def Let_def)
  show ?thesis
    using node_Update_qos[OF run pools_update[OF assms(2)[unfolded s] pool] assms(3)] range
    by (simp add: node_qos_ok_def)
qed

lemma health_step_ok:
  assumes "qos_ok cfg s" "node_qos_ok n" "0 \<le> h" "h \<le> 1"
    "returns (node_Update n (\<lambda>n. n\<lparr> n_HealthBase := h, n_HealthUpdatedAt := u, n_HealthExcluded := f n \<rparr>)) s n' s'"
  shows "qos_ok cfg s' \<and> node_qos_ok n'"
  using node_Update_qos[OF assms(5,1,2)] assms(3,4) by (simp add: node_qos_ok_def)

text \<open>
  C30: whatever the order of task scores, timeouts, successes and rejoins, the health of every stored node stays in
  the unit interval, every score between 0 and the maximum of 10, and every rolling pool non-empty, no longer than
  configured and with entries of at most 10; so no score pool ever averages to more than a full score.
\<close>

theorem qos_stays_in_range:
  assumes "exp_ok exp64" "checkQosConfig cfg = Inr ()" "score_pool_size cfg \<le> 2 ^ 32"
    "0 \<le> cfg_RejoinQosLongFloor cfg" "cfg_RejoinQosLongFloor cfg \<le> 1"
    "qos_ok cfg s" "node_qos_ok (step_node st)" "returns (qos_apply exp64 cfg st) s n' s'"
  shows "qos_ok cfg s' \<and> node_qos_ok n'"
proof (cases st)
  case (TaskScored n order)
  then obtain q where "getTaskQosScore order = Inr q" "returns (updateNodeQosScore cfg n q) s n' s'"
    using assms(8) by (auto simp: returns_of_sum)
  then show ?thesis using score_step_ok assms(3,6,7) reward_le TaskScored by (metis step_node.simps(1))
next
  case (TaskTimedOut n now)
  define h where "h = node_health exp64 cfg n now"
  have ok: "node_qos_ok n" using assms(7) TaskTimedOut by simp
  then have b: "0 \<le> h" "h \<le> 1" "fl64 h = h"
    using effective_health_bounds[OF assms(1,2)] by (simp_all add: h_def node_health_def node_qos_ok_def effective_health_rounded)
  show ?thesis
    using health_step_ok[OF assms(6) ok, of "calculatePenalizedHealth cfg h"] penalized_bounds[OF assms(2) b] b(2) assms(8)
    unfolding TaskTimedOut qos_apply.simps ApplyHealthPenalty_def node_health_def[symmetric] h_def[symmetric] Let_def by auto
next
  case (TaskSucceeded n now)
  define h where "h = node_health exp64 cfg n now"
  have ok: "node_qos_ok n" using assms(7) TaskSucceeded by simp
  then have b: "0 \<le> h" "h \<le> 1" "fl64 h = h"
    using effective_health_bounds[OF assms(1,2)] by (simp_all add: h_def node_health_def node_qos_ok_def effective_health_rounded)
  show ?thesis
    using health_step_ok[OF assms(6) ok, of "calculateBoostedHealth cfg h" n_HealthExcluded "Some now"]
      boosted_bounds[OF assms(2) b] b(1) assms(8)
    unfolding TaskSucceeded qos_apply.simps ApplyHealthBoost_def node_health_def[symmetric] h_def[symmetric] Let_def by auto
next
  case (NodeRejoins n isNew)
  have "fl64 (cfg_RejoinQosLongFloor cfg * 10) \<le> fl64 (of_int 10)" using assms(5) by (intro fl_mono) simp_all
  also have "\<dots> = 10" by (subst fl_of_int) simp_all
  finally have "fl64 (cfg_RejoinQosLongFloor cfg * GetMaxQosScore) \<le> GetMaxQosScore" by (simp add: GetMaxQosScore_def)
  moreover have "0 \<le> fl64 (cfg_RejoinQosLongFloor cfg * GetMaxQosScore)"
    using assms(4) by (simp add: GetMaxQosScore_def machine.rnd_nonneg)
  ultimately show ?thesis
    using assms(6-8) NodeRejoins by (cases s)
      (auto simp: AdjustNodeQosForJoin_def resetNodeQosScorePool_def node_qos_ok_def qos_ok_def split: if_splits
        simp: AList.delete_eq)
qed

theorem qos_stays_in_range_witness:
  "\<exists>s' n'. returns (qos_apply sample_exp sample_cfg (TaskScored sample_node 0)) (one_node_db, empty_mem) n' s' \<and>
    qos_ok sample_cfg s' \<and> node_qos_ok n'"
proof -
  have cfg: "score_pool_size sample_cfg = 50" by (simp add: score_pool_size_def sample_cfg_def)
  obtain n' s' where run: "returns (qos_apply sample_exp sample_cfg (TaskScored sample_node 0)) (one_node_db, empty_mem) n' s'"
    using score_run[of sample_cfg sample_node 10 one_node_db empty_mem]
    by (auto simp: cfg returns_def bnd_run updateNodeQosScore_def node_Update_def getTaskQosScore_def of_sum_run
        TASK_SCORE_REWARDS_def sample_node_def Let_def op_simps)
  have "qos_ok sample_cfg s' \<and> node_qos_ok n'"
    by (rule qos_stays_in_range[OF sample_exp_ok _ _ _ _ _ _ run])
      (simp_all add: cfg checkQosConfig_def qos_ok_def node_qos_ok_def one_node_db_def empty_mem_def sample_node_def
        GetMaxQosScore_def, simp_all add: sample_cfg_def)
  then show ?thesis using run by blast
qed

end
