(* ===== verification/Frames.thy ===== *)
theory Frames
  imports State
begin

text \<open>
  Frame reasoning: \<^verbatim>\<open>unchanged vd vm f\<close> says that the operation \<^verbatim>\<open>f\<close> leaves the part \<^verbatim>\<open>vd\<close> of the database and
  the part \<^verbatim>\<open>vm\<close> of the memory alone, whatever it returns.  The rules follow the structure of an operation, so
  that the frame of a handler comes from the frames of what it calls.
\<close>

named_theorems frame_intros

definition unchanged :: "(db \<Rightarrow> 'v) \<Rightarrow> (mem \<Rightarrow> 'w) \<Rightarrow> 'a relay \<Rightarrow> bool" where
  "unchanged vd vm f \<longleftrightarrow> (\<forall>s. vd (fst (snd (f s))) = vd (fst s) \<and> vm (snd (snd (f s))) = vm (snd s))"

lemma unchangedI:
  "(\<And>s. vd (fst (snd (f s))) = vd (fst s) \<and> vm (snd (snd (f s))) = vm (snd s)) \<Longrightarrow> unchanged vd vm f"
  by (simp add: unchanged_def)

lemma unchanged_run:
  "unchanged vd vm f \<Longrightarrow> f s = (r, s') \<Longrightarrow> vd (fst s') = vd (fst s) \<and> vm (snd s') = vm (snd s)"
  unfolding unchanged_def by (metis snd_conv)

lemma unchanged_returns:
  "unchanged vd vm f \<Longrightarrow> returns f s a s' \<Longrightarrow> vd (fst s') = vd (fst s) \<and> vm (snd s') = vm (snd s)"
  unfolding returns_def by (rule unchanged_run)

lemma unchanged_basic [frame_intros]:
  "unchanged vd vm (ret a)" "unchanged vd vm (raise e)" "unchanged vd vm (read_db g)" "unchanged vd vm (read_mem h)"
  "unchanged vd vm (check b e)" "unchanged vd vm (of_sum r)" "unchanged vd vm (of_option e q)"
  by (simp_all add: unchanged_def op_simps check_def of_sum_def of_option_def split: sum.splits option.splits)

lemma unchanged_write_db [frame_intros]: "(\<And>d. vd (g d) = vd d) \<Longrightarrow> unchanged vd vm (write_db g)"
  by (simp add: unchanged_def op_simps)

lemma unchanged_write_mem [frame_intros]: "(\<And>m. vm (g m) = vm m) \<Longrightarrow> unchanged vd vm (write_mem g)"
  by (simp add: unchanged_def op_simps)

lemma unchanged_call [frame_intros]: "(\<And>m c. vm (m\<lparr> m_calls := c \<rparr>) = vm m) \<Longrightarrow> unchanged vd vm (call c)"
  unfolding call_def by (rule unchanged_write_mem)

lemma unchanged_bnd_returns:
  assumes "unchanged vd vm f" "\<And>s a s'. returns f s a s' \<Longrightarrow> unchanged vd vm (g a)"
  shows "unchanged vd vm (bnd f g)"
proof (rule unchangedI)
  fix s
  obtain r t where run: "f s = (r, t)" by (metis surj_pair)
  note step = unchanged_run[OF assms(1) run]
  show "vd (fst (snd (bnd f g s))) = vd (fst s) \<and> vm (snd (snd (bnd f g s))) = vm (snd s)"
  proof (cases r)
    case (Inr a)
    then have "returns f s a t" using run by (simp add: returns_def)
    then show ?thesis
      using unchanged_run[OF assms(2)[of s a t], of t] step run Inr by (cases "g a t") (simp add: bnd_run)
  qed (simp add: bnd_run run step)
qed

lemma unchanged_bnd [frame_intros]:
  "unchanged vd vm f \<Longrightarrow> (\<And>a. unchanged vd vm (g a)) \<Longrightarrow> unchanged vd vm (bnd f g)"
  by (rule unchanged_bnd_returns)

lemma unchanged_txn [frame_intros]: "unchanged vd vm f \<Longrightarrow> unchanged vd vm (txn f)"
  unfolding unchanged_def txn_def
  by (auto split: prod.splits sum.splits) (metis fst_conv snd_conv)+

lemma unchanged_try [frame_intros]:
  assumes "unchanged vd vm f" "\<And>e. unchanged vd vm (h e)"
  shows "unchanged vd vm (try_catch f h)"
proof (rule unchangedI)
  fix s
  obtain r t where run: "f s = (r, t)" by (metis surj_pair)
  show "vd (fst (snd (try_catch f h s))) = vd (fst s) \<and> vm (snd (snd (try_catch f h s))) = vm (snd s)"
    using unchanged_run[OF assms(1) run] unchanged_run[OF assms(2) surjective_pairing] run
    by (cases r) (simp_all add: try_catch_def)
qed

lemma unchanged_for_each [frame_intros]: "(\<And>x. unchanged vd vm (f x)) \<Longrightarrow> unchanged vd vm (for_each xs f)"
  by (induction xs) (auto intro: frame_intros)

lemma unchanged_map_each [frame_intros]: "(\<And>x. unchanged vd vm (f x)) \<Longrightarrow> unchanged vd vm (map_each f xs)"
  by (induction xs) (auto intro: frame_intros)

lemma unchanged_cases [frame_intros]:
  "(b \<Longrightarrow> unchanged vd vm f) \<Longrightarrow> (\<not> b \<Longrightarrow> unchanged vd vm g) \<Longrightarrow> unchanged vd vm (if b then f else g)"
  "(q = None \<Longrightarrow> unchanged vd vm f) \<Longrightarrow> (\<And>a. q = Some a \<Longrightarrow> unchanged vd vm (k a)) \<Longrightarrow>
    unchanged vd vm (case q of None \<Rightarrow> f | Some a \<Rightarrow> k a)"
  "(\<And>a b. p = (a, b) \<Longrightarrow> unchanged vd vm (l a b)) \<Longrightarrow> unchanged vd vm (case p of (a, b) \<Rightarrow> l a b)"
  by (simp_all split: option.splits prod.splits)

lemma unchanged_let [frame_intros]: "(\<And>x. unchanged vd vm (f x)) \<Longrightarrow> unchanged vd vm (Let y f)"
  by simp

lemma unchanged_emit [frame_intros]: "(\<And>d x. vd (d\<lparr> d_log := x \<rparr>) = vd d) \<Longrightarrow> unchanged vd vm (emitEvent e)"
  unfolding emitEvent_def by (rule unchanged_write_db)

lemma unchanged_task_update [frame_intros]:
  "(\<And>d x. vd (d\<lparr> d_tasks := x \<rparr>) = vd d) \<Longrightarrow> unchanged vd vm (task_Update_status task upd)"
  "(\<And>d x. vd (d\<lparr> d_tasks := x \<rparr>) = vd d) \<Longrightarrow> unchanged vd vm (task_Update task upd)"
  unfolding task_Update_status_def task_Update_def by (intro frame_intros; assumption)+

lemma unchanged_reads [frame_intros]:
  "unchanged vd vm (GetTaskByIDCommitment c)" "unchanged vd vm (GetNodeByAddress a)"
  "unchanged vd vm (GetTaskGroupByTaskID i)" "unchanged vd vm (GetNodesByAddresses as)"
  "unchanged vd vm (SyncStatus task)" "unchanged vd vm (node_Sync node)"
  unfolding GetTaskByIDCommitment_def GetNodeByAddress_def GetTaskGroupByTaskID_def GetNodesByAddresses_def
    SyncStatus_def node_Sync_def
  by (intro frame_intros)+

end
