(* ===== verification/NodeLifecycle.thy ===== *)
theory NodeLifecycle
  imports NodeNames NodeModels Qos VestingService Frames
begin

text \<open>
  The life of a node (\<^verbatim>\<open>service/node.go\<close> and the handlers of \<^verbatim>\<open>api/v1/nodes\<close> and \<^verbatim>\<open>api/v2/nodes\<close>): joining,
  pausing, resuming, quitting, changing its version, starting and finishing a task, being kicked out and
  being slashed.  What the relay reads from the chain is the argument \<^verbatim>\<open>ch\<close>; the clock readings of one
  operation are its argument \<^verbatim>\<open>now\<close>; the signature check of a handler is the argument \<^verbatim>\<open>signer\<close>, the address
  the signature recovers to, if any.  The response wrappers of a handler keep the error they wrap.
\<close>

section \<open>The chain\<close>

record StakingInfo =
  si_StakedBalance :: int
  si_Status :: nat

text \<open>Contract reads and the ABI encoder, both outside the repository's own code.  A nil amount is \<^verbatim>\<open>None\<close>.\<close>

record chain_reads =
  ch_getStakingInfo :: "address \<Rightarrow> string \<Rightarrow> go_error + StakingInfo"
  ch_getNodeDelegatorShare :: "address \<Rightarrow> string \<Rightarrow> go_error + nat"
  ch_getNodeStakingInfos :: "address \<Rightarrow> string \<Rightarrow> go_error + (address list \<times> int option list)"
  ch_Pack :: "string \<Rightarrow> address \<Rightarrow> go_error + string"

definition transaction_Save :: "BlockchainTransaction \<Rightarrow> BlockchainTransaction relay" where
  "transaction_Save tx =
    bnd (read_db (\<lambda>d. next_id bt_ID (d_chain_txs d))) (\<lambda>i.
    bnd (write_db (\<lambda>d. d\<lparr> d_chain_txs := d_chain_txs d @ [tx\<lparr> bt_ID := i \<rparr>] \<rparr>)) (\<lambda>_.
    ret (tx\<lparr> bt_ID := i \<rparr>)))"

definition QueueUnstake :: "AppConfig \<Rightarrow> chain_reads \<Rightarrow> address \<Rightarrow> string \<Rightarrow> BlockchainTransaction relay" where
  "QueueUnstake cfg ch nodeAddress network =
    bnd (of_option (errors_New ''network not found'') (map_of (cfg_Blockchains cfg) network)) (\<lambda>blockchain.
    bnd (of_sum (ch_Pack ch ''unstake'' nodeAddress)) (\<lambda>packed.
    transaction_Save \<lparr> bt_ID = 0, bt_Network = network, bt_Type = ''NodeStaking::unstake'', bt_Status = TransactionStatusPending,
      bt_FromAddress = bc_AccountAddress blockchain, bt_ToAddress = bc_NodeStakingContract blockchain,
      bt_Data = packed, bt_MaxRetries = bc_MaxRetries blockchain \<rparr>))"

definition QueueSlashStaking :: "AppConfig \<Rightarrow> chain_reads \<Rightarrow> address \<Rightarrow> string \<Rightarrow> BlockchainTransaction relay" where
  "QueueSlashStaking cfg ch nodeAddress network =
    bnd (of_option (errors_New ''network not found'') (map_of (cfg_Blockchains cfg) network)) (\<lambda>blockchain.
    bnd (of_sum (ch_Pack ch ''slashStaking'' nodeAddress)) (\<lambda>packed.
    transaction_Save \<lparr> bt_ID = 0, bt_Network = network, bt_Type = ''NodeStaking::slashStaking'', bt_Status = TransactionStatusPending,
      bt_FromAddress = bc_AccountAddress blockchain, bt_ToAddress = bc_NodeStakingContract blockchain,
      bt_Data = packed, bt_MaxRetries = bc_MaxRetries blockchain \<rparr>))"

section \<open>Row operations\<close>

definition node_Save :: "Node \<Rightarrow> Node relay" where
  "node_Save node =
    bnd (read_db d_nodes) (\<lambda>rows.
    if n_ID node = 0
    then (let row = node\<lparr> n_ID := next_id n_ID rows \<rparr> in
          bnd (write_db (\<lambda>d. d\<lparr> d_nodes := d_nodes d @ [row] \<rparr>)) (\<lambda>_. ret row))
    else if \<exists>n\<in>set rows. n_ID n = n_ID node
    then bnd (write_db (\<lambda>d. d\<lparr> d_nodes := upd_where (\<lambda>n. n_ID n = n_ID node) (\<lambda>_. node) (d_nodes d) \<rparr>)) (\<lambda>_. ret node)
    else bnd (write_db (\<lambda>d. d\<lparr> d_nodes := d_nodes d @ [node] \<rparr>)) (\<lambda>_. ret node))"

definition node_SyncStatus :: "Node \<Rightarrow> Node relay" where
  "node_SyncStatus node =
    bnd (read_db (\<lambda>d. find (\<lambda>n. n_ID n = n_ID node) (d_nodes d))) (\<lambda>r.
    bnd (of_option ErrRecordNotFound r) (\<lambda>res.
    ret (node\<lparr> n_Status := n_Status res \<rparr>)))"

definition HasUnfinishedDelegatedSlashJobForNode :: "address \<Rightarrow> bool relay" where
  "HasUnfinishedDelegatedSlashJobForNode addr =
    read_db (\<lambda>d. \<exists>j\<in>set (d_slash_jobs d). sj_NodeAddress j = addr \<and> sj_Status j \<noteq> DelegatedSlashJobStatusCompleted)"

text \<open>The insert updates the row that has the address, the unique index of the table.\<close>

definition upsert_network_node :: "NetworkNodeData \<Rightarrow> unit relay" where
  "upsert_network_node row =
    write_db (\<lambda>d. d\<lparr> d_network_nodes :=
      (if \<exists>n\<in>set (d_network_nodes d). nd_Address n = nd_Address row
       then upd_where (\<lambda>n. nd_Address n = nd_Address row) (\<lambda>_. row) (d_network_nodes d)
       else d_network_nodes d @ [row]) \<rparr>)"

section \<open>Joining\<close>

fun normalize_delegations :: "(address \<times> int option) list \<Rightarrow> (address \<times> int) list" where
  "normalize_delegations [] = []"
| "normalize_delegations ((a, amount) # rest) =
    (case amount of
       None \<Rightarrow> normalize_delegations rest
     | Some x \<Rightarrow> if x = 0 then normalize_delegations rest else (a, x) # normalize_delegations rest)"

definition normalizeChainDelegations :: "address list \<Rightarrow> int option list \<Rightarrow> go_error + ((address \<times> int) list \<times> int)" where
  "normalizeChainDelegations addrs amounts =
    (if length addrs \<noteq> length amounts then Inl (errors_New ''delegated staking info length mismatch'')
     else let delegations = normalize_delegations (zip addrs amounts) in Inr (delegations, sum_list (map snd delegations)))"

definition upsert_delegation :: "Delegation \<Rightarrow> Delegation list \<Rightarrow> Delegation list" where
  "upsert_delegation row rows =
    (let same = (\<lambda>r. dg_DelegatorAddress r = dg_DelegatorAddress row \<and> dg_NodeAddress r = dg_NodeAddress row
                   \<and> dg_Network r = dg_Network row) in
     if \<exists>r\<in>set rows. same r
     then upd_where same (\<lambda>r. r\<lparr> dg_Amount := dg_Amount row, dg_Slashed := dg_Slashed row \<rparr>) rows
     else rows @ [row])"

definition syncNodeDelegationsFromChainTx :: "address \<Rightarrow> string \<Rightarrow> (address \<times> int) list \<Rightarrow> unit relay" where
  "syncNodeDelegationsFromChainTx nodeAddress network delegations =
    bnd (write_db (\<lambda>d. d\<lparr> d_delegations :=
           filter (\<lambda>r. \<not> (dg_NodeAddress r = nodeAddress \<and> dg_Network r = network \<and> \<not> dg_Slashed r)) (d_delegations d) \<rparr>)) (\<lambda>_.
    for_each delegations (\<lambda>(delegator, amount).
      write_db (\<lambda>d. d\<lparr> d_delegations := upsert_delegation \<lparr> dg_DelegatorAddress = delegator, dg_NodeAddress = nodeAddress,
        dg_Amount = amount, dg_Slashed = False, dg_Network = network \<rparr> (d_delegations d) \<rparr>)))"

definition cache_delegations :: "(delegationCaches \<Rightarrow> go_error + delegationCaches) \<Rightarrow> unit relay" where
  "cache_delegations f =
    bnd (read_mem m_delegations) (\<lambda>cs.
    bnd (of_sum (f cs)) (\<lambda>cs'.
    write_mem (\<lambda>m. m\<lparr> m_delegations := cs' \<rparr>)))"

definition applyNodeDelegationsToCache :: "address \<Rightarrow> string \<Rightarrow> (address \<times> int) list \<Rightarrow> unit relay" where
  "applyNodeDelegationsToCache nodeAddress network delegations =
    bnd (cache_delegations (RemoveNodeDelegations nodeAddress network)) (\<lambda>_.
    for_each delegations (\<lambda>(delegator, amount). cache_delegations (UpdateDelegation delegator nodeAddress amount network)))"

definition SetDelegatorShare :: "address \<Rightarrow> string \<Rightarrow> nat \<Rightarrow> unit relay" where
  "SetDelegatorShare nodeAddress network share =
    write_mem (\<lambda>m. m\<lparr> m_shares := share_set nodeAddress network share (m_shares m) \<rparr>)"

definition count_delta :: "Node \<Rightarrow> int \<Rightarrow> unit relay" where
  "count_delta node = ApplyNodeNameCountDeltaToCache (n_GPUName node) (n_GPUVram node) (node_version node)"

definition joined_node :: "Node \<Rightarrow> nat \<Rightarrow> time \<Rightarrow> Node" where
  "joined_node node delegatorShare now =
    node\<lparr> n_Status := NodeStatusAvailable, n_JoinTime := now, n_HealthBase := 1, n_HealthUpdatedAt := Some now,
      n_HealthExcluded := False, n_DelegatorShare := delegatorShare \<rparr>"

definition join_tx :: "AppConfig \<Rightarrow> Node \<Rightarrow> ModelFile list \<Rightarrow> (address \<times> int) list \<Rightarrow> int \<Rightarrow> nat \<Rightarrow> time \<Rightarrow> Node relay" where
  "join_tx cfg node modelFiles chainDelegations totalStakingAmount delegatorShare now =
    bnd (node_Save (joined_node node delegatorShare now)) (\<lambda>node.
    bnd (syncNodeDelegationsFromChainTx (n_Address node) (n_Network node) chainDelegations) (\<lambda>_.
    bnd (replaceNodeModelFiles cfg (n_Address node) modelFiles) (\<lambda>_.
    bnd (ClearNodeInMemoryModel (n_Address node)) (\<lambda>_.
    bnd (upsert_network_node \<lparr> nd_Address = n_Address node, nd_Network = n_Network node, nd_CardModel = n_GPUName node,
           nd_VRam = n_GPUVram node, nd_QoS = n_QOSScore node, nd_Staking = totalStakingAmount,
           nd_HealthBase = n_HealthBase node, nd_HealthUpdatedAt = n_HealthUpdatedAt node \<rparr>) (\<lambda>_.
    bnd (IncrementNodeNameCountTx node) (\<lambda>_.
    bnd (emitEvent (NodeJoinEvent (n_Address node) (n_Network node))) (\<lambda>_.
    ret node)))))))"

definition join_reads :: "chain_reads \<Rightarrow> Node \<Rightarrow> ((address \<times> int) list \<times> int \<times> nat) relay" where
  "join_reads ch node =
    bnd (HasUnfinishedDelegatedSlashJobForNode (n_Address node)) (\<lambda>unfinishedSlashJob.
    bnd (check (\<not> unfinishedSlashJob) ErrDelegatedSlashJobInProgress) (\<lambda>_.
    bnd (of_sum (ch_getStakingInfo ch (n_Address node) (n_Network node))) (\<lambda>stakingInfo.
    bnd (check (si_StakedBalance stakingInfo = n_StakeAmount node) (errors_New ''staking amount mismatch'')) (\<lambda>_.
    bnd (of_sum (ch_getNodeDelegatorShare ch (n_Address node) (n_Network node))) (\<lambda>delegatorShare.
    bnd (of_sum (ch_getNodeStakingInfos ch (n_Address node) (n_Network node))) (\<lambda>(delegatorAddresses, delegationAmounts).
    bnd (of_sum (normalizeChainDelegations delegatorAddresses delegationAmounts)) (\<lambda>(chainDelegations, delegatedStakingAmount).
    ret (chainDelegations, si_StakedBalance stakingInfo + delegatedStakingAmount, delegatorShare))))))))"

definition join_caches :: "AppConfig \<Rightarrow> Node \<Rightarrow> (address \<times> int) list \<Rightarrow> nat \<Rightarrow> time \<Rightarrow> unit relay" where
  "join_caches cfg node chainDelegations delegatorShare now =
    bnd (applyNodeDelegationsToCache (n_Address node) (n_Network node) chainDelegations) (\<lambda>_.
    bnd (SetDelegatorShare (n_Address node) (n_Network node) delegatorShare) (\<lambda>_.
    bnd (RefreshNodeVestingStake (n_Address node)) (\<lambda>_.
    bnd (read_mem (\<lambda>m. GetNodeScoreStakeAmount cfg m node now)) (\<lambda>amount.
    bnd (of_sum amount) (\<lambda>amount.
    bnd (UpdateMaxStaking (n_Address node) amount) (\<lambda>_.
    bnd (call (RefreshDelegatedStakingNodeListSnapshot (n_Address node))) (\<lambda>_.
    call (EnsureRequiredModelDownloads (n_Address node)))))))))"

definition SetNodeStatusJoin :: "AppConfig \<Rightarrow> chain_reads \<Rightarrow> Node \<Rightarrow> ModelFile list \<Rightarrow> time \<Rightarrow> unit relay" where
  "SetNodeStatusJoin cfg ch node modelFiles now =
    bnd (join_reads ch node) (\<lambda>(chainDelegations, totalStakingAmount, delegatorShare).
    bnd (txn (join_tx cfg node modelFiles chainDelegations totalStakingAmount delegatorShare now)) (\<lambda>node.
    bnd (call (RecordNodeQosTrace (n_Address node) [] ''node_join_health_reset'')) (\<lambda>_.
    bnd (count_delta node 1) (\<lambda>_.
    join_caches cfg node chainDelegations delegatorShare now))))"

section \<open>Quitting\<close>

definition quit_chain_tx :: "AppConfig \<Rightarrow> chain_reads \<Rightarrow> Node \<Rightarrow> bool \<Rightarrow> nat relay" where
  "quit_chain_tx cfg ch node slashed =
    bnd (of_sum (ch_getStakingInfo ch (n_Address node) (n_Network node))) (\<lambda>stakingInfo.
    bnd (if si_Status stakingInfo \<noteq> 0
         then (if slashed then bnd (QueueSlashStaking cfg ch (n_Address node) (n_Network node)) (\<lambda>tx. ret (bt_ID tx))
               else bnd (QueueUnstake cfg ch (n_Address node) (n_Network node)) (\<lambda>tx. ret (bt_ID tx)))
         else ret 0) (\<lambda>txID.
    bnd (if slashed then bnd (SlashNodeVestingsTx (n_Address node)) (\<lambda>_. ret ()) else ret ()) (\<lambda>_.
    bnd (emitEvent (NodeQuitEvent (n_Address node) txID (n_Network node))) (\<lambda>_.
    ret txID))))"

definition is_quit :: "Node \<Rightarrow> Node" where
  "is_quit n = n\<lparr> n_Status := NodeStatusQuit, n_CurrentTaskIDCommitment := None, n_StakeAmount := 0 \<rparr>"

definition setNodeStatusQuitTx :: "AppConfig \<Rightarrow> chain_reads \<Rightarrow> Node \<Rightarrow> bool \<Rightarrow> (bool \<times> nat) relay" where
  "setNodeStatusQuitTx cfg ch node slashed =
    (let wasActiveBeforeQuit = IsNodeStatusActiveForNodeNameCount (n_Status node) in
     bnd (clearNodeModelState (n_Address node)) (\<lambda>_.
     bnd (node_Update_status node is_quit) (\<lambda>node.
     bnd (if wasActiveBeforeQuit then DecrementNodeNameCountTx node else ret ()) (\<lambda>_.
     bnd (quit_chain_tx cfg ch node slashed) (\<lambda>txID.
     ret (wasActiveBeforeQuit, txID))))))"

definition applyNodeQuitPostCommit :: "Node \<Rightarrow> bool \<Rightarrow> unit relay" where
  "applyNodeQuitPostCommit node wasActiveBeforeQuit =
    bnd (UpdateMaxStaking (n_Address node) 0) (\<lambda>_.
    if wasActiveBeforeQuit then count_delta node (- 1) else ret ())"

definition SetNodeStatusQuit :: "AppConfig \<Rightarrow> chain_reads \<Rightarrow> Node \<Rightarrow> bool \<Rightarrow> unit relay" where
  "SetNodeStatusQuit cfg ch node slashed =
    bnd (txn (setNodeStatusQuitTx cfg ch node slashed)) (\<lambda>(wasActiveBeforeQuit, _).
    bnd (applyNodeQuitPostCommit node wasActiveBeforeQuit) (\<lambda>_.
    bnd (if slashed then RefreshNodeVestingStake (n_Address node) else ret ()) (\<lambda>_.
    call (RefreshDelegatedStakingNodeListSnapshot (n_Address node)))))"

section \<open>Starting and finishing a task\<close>

definition nodeStartTask :: "(float64 \<Rightarrow> float64) \<Rightarrow> AppConfig \<Rightarrow> Node \<Rightarrow> string \<Rightarrow> time \<Rightarrow> Node relay" where
  "nodeStartTask exp64 cfg node taskIDCommitment now =
    bnd (check (n_Status node = NodeStatusAvailable \<and> n_CurrentTaskIDCommitment node = None) (errors_New ''node is not available'')) (\<lambda>_.
    bnd (check (\<not> IsHealthExcluded exp64 cfg node now) ErrNodeHealthExcluded) (\<lambda>_.
    txn (bnd (node_Update_status node (\<lambda>n. n\<lparr> n_Status := NodeStatusBusy, n_CurrentTaskIDCommitment := Some taskIDCommitment,
                n_HealthExcluded := (if n_HealthExcluded node then False else n_HealthExcluded n) \<rparr>)) (\<lambda>node.
         ret (node\<lparr> n_HealthExcluded := False \<rparr>)))))"

definition nodeFinishTask :: "AppConfig \<Rightarrow> chain_reads \<Rightarrow> Node \<Rightarrow> unit relay" where
  "nodeFinishTask cfg ch node =
    bnd (check (n_Status node = NodeStatusBusy \<or> n_Status node = NodeStatusPendingPause \<or> n_Status node = NodeStatusPendingQuit)
          (errors_New ''illegal node status'')) (\<lambda>_.
    bnd (of_option (errors_New ''task id commitment is not valid'') (n_CurrentTaskIDCommitment node)) (\<lambda>taskIDCommitment.
    bnd (read_mem (\<lambda>m. ShouldPermanentKickout cfg m node)) (\<lambda>kickout.
    if kickout
    then bnd (GetTaskByIDCommitment taskIDCommitment) (\<lambda>_.
         bnd (txn (bnd (setNodeStatusQuitTx cfg ch node False) (\<lambda>(wasActiveBeforeQuit, _).
                   bnd (emitEvent (NodeKickedOutEvent (n_Address node) taskIDCommitment (n_Network node))) (\<lambda>_.
                   ret wasActiveBeforeQuit)))) (\<lambda>wasActiveBeforeQuit.
         applyNodeQuitPostCommit node wasActiveBeforeQuit))
    else if n_Status node = NodeStatusBusy
    then bnd (node_Update_status node (\<lambda>n. n\<lparr> n_Status := NodeStatusAvailable, n_CurrentTaskIDCommitment := None \<rparr>)) (\<lambda>_. ret ())
    else if n_Status node = NodeStatusPendingQuit then SetNodeStatusQuit cfg ch node False
    else bnd (txn (bnd (node_Update_status node (\<lambda>n. n\<lparr> n_Status := NodeStatusPaused, n_CurrentTaskIDCommitment := None \<rparr>)) (\<lambda>node.
                   DecrementNodeNameCountTx node))) (\<lambda>_.
         count_delta node (- 1)))))"

section \<open>Slashing\<close>

text \<open>Ranging over the map of networks and returning in the first round picks any of them: the head of the list.\<close>

definition getDefaultAbortIssuer :: "AppConfig \<Rightarrow> address" where
  "getDefaultAbortIssuer cfg = (case cfg_Blockchains cfg of [] \<Rightarrow> [] | (_, blockchain) # _ \<Rightarrow> bc_AccountAddress blockchain)"

definition task_ended :: "TaskStatus \<Rightarrow> bool" where
  "task_ended st \<longleftrightarrow> st \<in> {TaskEndInvalidated, TaskEndSuccess, TaskEndAborted, TaskEndGroupRefund, TaskEndGroupSuccess}"

definition slash_abort_commit :: "unit relay \<Rightarrow> string \<Rightarrow> string list \<Rightarrow> unit relay" where
  "slash_abort_commit commitFunc taskIDCommitment groupRefundSnapshotIDs =
    bnd commitFunc (\<lambda>_.
    bnd (call (deleteRunningTaskSnapshot taskIDCommitment)) (\<lambda>_.
    bnd (call (DeleteTaskExecutionGPUSnapshot taskIDCommitment)) (\<lambda>_.
    for_each groupRefundSnapshotIDs (\<lambda>i. call (DeleteTaskExecutionGPUSnapshot i)))))"

definition abortNodeCurrentTaskForSlash :: "AppConfig \<Rightarrow> Node \<Rightarrow> time \<Rightarrow> (unit relay) option relay" where
  "abortNodeCurrentTaskForSlash cfg node now =
    (case n_CurrentTaskIDCommitment node of
       None \<Rightarrow> ret None
     | Some c \<Rightarrow>
        bnd (GetTaskByIDCommitment c) (\<lambda>task.
        bnd (check (t_SelectedNode task = n_Address node) ErrWrongNodeCurrentTask) (\<lambda>_.
        if task_ended (t_Status task) then ret None
        else (let lastStatus = t_Status task in
          bnd (refundTaskPaymentToRelayAccount (t_TaskIDCommitment task) (t_Creator task) (t_TaskFee task) now) (\<lambda>commitFunc.
          bnd (task_Update_status task (\<lambda>t. t\<lparr> t_Status := TaskEndAborted, t_AbortReason := TaskAbortNodeSlashed, t_DeadlineAt := None \<rparr>)) (\<lambda>_.
          bnd (emitEvent (TaskEndAbortedEvent (t_TaskIDCommitment task) (getDefaultAbortIssuer cfg) lastStatus TaskAbortNodeSlashed)) (\<lambda>_.
          bnd (if lastStatus = TaskGroupValidated \<and> t_TaskID task \<noteq> []
               then bnd (GetTaskGroupByTaskID (t_TaskID task)) (\<lambda>groupTasks.
                    ret (map t_TaskIDCommitment (filter (\<lambda>t. t_Status t = TaskEndGroupRefund) groupTasks)))
               else ret []) (\<lambda>groupRefundSnapshotIDs.
          ret (Some (slash_abort_commit commitFunc (t_TaskIDCommitment task) groupRefundSnapshotIDs))))))))))"

definition slashNodeTx :: "AppConfig \<Rightarrow> chain_reads \<Rightarrow> Node \<Rightarrow> string \<Rightarrow> time \<Rightarrow> (bool \<times> nat \<times> (unit relay) option) relay" where
  "slashNodeTx cfg ch node taskIDCommitment now =
    bnd (abortNodeCurrentTaskForSlash cfg node now) (\<lambda>postCommit.
    bnd (setNodeStatusQuitTx cfg ch node True) (\<lambda>(wasActiveBeforeQuit, blockchainTransactionID).
    bnd (emitEvent (NodeSlashedEvent (n_Address node) (if taskIDCommitment = [] then ''0x'' else taskIDCommitment)
           (n_StakeAmount node) (n_Network node))) (\<lambda>_.
    ret (wasActiveBeforeQuit, blockchainTransactionID, postCommit))))"

definition slash_post_commit :: "Node \<Rightarrow> bool \<Rightarrow> (unit relay) option \<Rightarrow> unit relay" where
  "slash_post_commit node wasActiveBeforeQuit postCommit =
    bnd (case postCommit of None \<Rightarrow> ret () | Some f \<Rightarrow> f) (\<lambda>_.
    bnd (applyNodeQuitPostCommit node wasActiveBeforeQuit) (\<lambda>_.
    RefreshNodeVestingStake (n_Address node)))"

definition SlashNode :: "AppConfig \<Rightarrow> chain_reads \<Rightarrow> Node \<Rightarrow> string \<Rightarrow> time \<Rightarrow> nat relay" where
  "SlashNode cfg ch node taskIDCommitment now =
    bnd (check (n_Status node \<noteq> NodeStatusQuit) (errors_New ''node has already quit'')) (\<lambda>_.
    bnd (txn (slashNodeTx cfg ch node taskIDCommitment now)) (\<lambda>(wasActiveBeforeQuit, blockchainTransactionID, postCommit).
    bnd (slash_post_commit node wasActiveBeforeQuit postCommit) (\<lambda>_.
    ret blockchainTransactionID)))"

text \<open>\<^verbatim>\<open>parse\<close> decodes the stored evidence (\<^verbatim>\<open>json.Unmarshal\<close> into the evidence struct), which only the event carries.\<close>

definition pending_slash_tx ::
  "AppConfig \<Rightarrow> chain_reads \<Rightarrow> (string \<Rightarrow> go_error + unit) \<Rightarrow> nat \<Rightarrow> time \<Rightarrow> (Node \<times> bool \<times> nat \<times> (unit relay) option) relay" where
  "pending_slash_tx cfg ch parse pendingSlashID now =
    bnd (read_db (\<lambda>d. find (\<lambda>p. ps_ID p = pendingSlashID) (d_pending_slashes d))) (\<lambda>r.
    bnd (of_option ErrRecordNotFound r) (\<lambda>pendingSlash.
    bnd (check (ps_Status pendingSlash = PendingSlashStatusPending) ErrPendingSlashAlreadyProcessed) (\<lambda>_.
    bnd (of_sum (parse (ps_EvidenceJSON pendingSlash))) (\<lambda>_.
    bnd (GetNodeByAddress (ps_NodeAddress pendingSlash)) (\<lambda>node.
    bnd (check (n_Status node \<noteq> NodeStatusQuit) (errors_New ''node has already quit'')) (\<lambda>_.
    bnd (slashNodeTx cfg ch node (ps_TaskIDCommitment pendingSlash) now) (\<lambda>(wasActiveBeforeQuit, blockchainTransactionID, postCommit).
    bnd (write_db (\<lambda>d. d\<lparr> d_pending_slashes :=
           upd_where (\<lambda>p. ps_ID p = ps_ID pendingSlash) (\<lambda>_. pendingSlash\<lparr> ps_Status := PendingSlashStatusSlashed \<rparr>) (d_pending_slashes d) \<rparr>)) (\<lambda>_.
    ret (node, wasActiveBeforeQuit, blockchainTransactionID, postCommit)))))))))"

definition SlashPendingNode :: "AppConfig \<Rightarrow> chain_reads \<Rightarrow> (string \<Rightarrow> go_error + unit) \<Rightarrow> nat \<Rightarrow> time \<Rightarrow> nat relay" where
  "SlashPendingNode cfg ch parse pendingSlashID now =
    bnd (read_db (\<lambda>d. find (\<lambda>p. ps_ID p = pendingSlashID) (d_pending_slashes d))) (\<lambda>r.
    bnd (of_option ErrRecordNotFound r) (\<lambda>pendingSlashForAddress.
    bnd (ExecuteNodeStateUpdate [ps_NodeAddress pendingSlashForAddress]
           (txn (pending_slash_tx cfg ch parse pendingSlashID now))) (\<lambda>(node, wasActiveBeforeQuit, blockchainTransactionID, postCommit).
    bnd (slash_post_commit node wasActiveBeforeQuit postCommit) (\<lambda>_.
    ret blockchainTransactionID))))"

section \<open>Handlers\<close>

definition check_signer :: "address option \<Rightarrow> address \<Rightarrow> unit relay" where
  "check_signer signer addr =
    (case signer of
       None \<Rightarrow> raise (errors_New ''Invalid signature'')
     | Some a \<Rightarrow> check (a = addr) (errors_New ''Signer not allowed''))"

definition find_node :: "address \<Rightarrow> Node relay" where
  "find_node addr =
    try_catch (GetNodeByAddress addr) (\<lambda>e. if e = ErrRecordNotFound then raise (errors_New ''Node not found'') else raise e)"

text \<open>A handler tries three times, reading the status again after each update that found it changed.\<close>

definition attempt :: "'a relay \<Rightarrow> bool relay" where
  "attempt f = try_catch (bnd f (\<lambda>_. ret True)) (\<lambda>e. if e = ErrNodeStatusChanged then ret False else raise e)"

definition pause_once :: "Node \<Rightarrow> bool relay" where
  "pause_once node =
    (case n_Status node of
       NodeStatusAvailable \<Rightarrow>
         bnd (attempt (txn (bnd (node_Update_status node (\<lambda>n. n\<lparr> n_Status := NodeStatusPaused \<rparr>)) (\<lambda>node.
                            DecrementNodeNameCountTx node)))) (\<lambda>paused.
         bnd (if paused then count_delta node (- 1) else ret ()) (\<lambda>_.
         ret paused))
     | NodeStatusBusy \<Rightarrow> attempt (node_Update_status node (\<lambda>n. n\<lparr> n_Status := NodeStatusPendingPause \<rparr>))
     | _ \<Rightarrow> raise (errors_New ''Illegal node status''))"

definition resume_once :: "Node \<Rightarrow> bool relay" where
  "resume_once node =
    bnd (check (n_Status node = NodeStatusPaused) (errors_New ''Illegal node status'')) (\<lambda>_.
    bnd (attempt (txn (bnd (node_Update_status node (\<lambda>n. n\<lparr> n_Status := NodeStatusAvailable \<rparr>)) (\<lambda>node.
                       IncrementNodeNameCountTx node)))) (\<lambda>resumed.
    bnd (if resumed then count_delta node 1 else ret ()) (\<lambda>_.
    ret resumed)))"

definition quit_once :: "AppConfig \<Rightarrow> chain_reads \<Rightarrow> Node \<Rightarrow> bool relay" where
  "quit_once cfg ch node =
    (if n_Status node = NodeStatusAvailable \<or> n_Status node = NodeStatusPaused then attempt (SetNodeStatusQuit cfg ch node False)
     else if n_Status node = NodeStatusBusy
     then attempt (node_Update_status node (\<lambda>n. n\<lparr> n_Status := NodeStatusPendingQuit \<rparr>))
     else if n_Status node = NodeStatusQuit \<or> n_Status node = NodeStatusPendingQuit then ret True
     else raise (errors_New ''Illegal node status''))"

fun retry :: "nat \<Rightarrow> (Node \<Rightarrow> bool relay) \<Rightarrow> Node \<Rightarrow> unit relay" where
  "retry 0 once node = raise ErrNodeStatusChanged"
| "retry (Suc k) once node =
    bnd (once node) (\<lambda>settled. if settled then ret () else bnd (node_SyncStatus node) (\<lambda>node. retry k once node))"

definition NodePause :: "address option \<Rightarrow> address \<Rightarrow> unit relay" where
  "NodePause signer addr =
    bnd (check_signer signer addr) (\<lambda>_.
    bnd (find_node addr) (\<lambda>node.
    ExecuteNodeStateUpdate [addr] (retry 3 pause_once node)))"

definition NodeResume :: "address option \<Rightarrow> address \<Rightarrow> unit relay" where
  "NodeResume signer addr =
    bnd (check_signer signer addr) (\<lambda>_.
    bnd (find_node addr) (\<lambda>node.
    ExecuteNodeStateUpdate [addr] (retry 3 resume_once node)))"

definition NodeQuit :: "AppConfig \<Rightarrow> chain_reads \<Rightarrow> address option \<Rightarrow> address \<Rightarrow> unit relay" where
  "NodeQuit cfg ch signer addr =
    bnd (check_signer signer addr) (\<lambda>_.
    bnd (find_node addr) (\<lambda>node.
    bnd (of_sum (ch_getStakingInfo ch addr (n_Network node))) (\<lambda>stakingInfo.
    bnd (check (si_Status stakingInfo \<noteq> 1) (errors_New ''Staking status is staked'')) (\<lambda>_.
    ExecuteNodeStateUpdate [addr] (retry 3 (quit_once cfg ch) node)))))"

definition parse_versions :: "string \<Rightarrow> go_error + (nat \<times> nat \<times> nat)" where
  "parse_versions version =
    (case Split dot version of
       [a, b, c] \<Rightarrow>
         (case (ParseUint a, ParseUint b, ParseUint c) of
            (Some major, Some minor, Some patch) \<Rightarrow> Inr (major, minor, patch)
          | _ \<Rightarrow> Inl (errors_New ''Invalid node version''))
     | _ \<Rightarrow> Inl (errors_New ''Invalid node version''))"

definition set_version :: "nat \<Rightarrow> nat \<Rightarrow> nat \<Rightarrow> Node \<Rightarrow> Node" where
  "set_version major minor patch n = n\<lparr> n_MajorVersion := major, n_MinorVersion := minor, n_PatchVersion := patch \<rparr>"

definition UpdateNodeVersion :: "address option \<Rightarrow> address \<Rightarrow> string \<Rightarrow> unit relay" where
  "UpdateNodeVersion signer addr version =
    bnd (check_signer signer addr) (\<lambda>_.
    bnd (of_sum (parse_versions version)) (\<lambda>(major, minor, patch).
    bnd (ExecuteNodeStateUpdate [addr]
          (bnd (read_db (\<lambda>d. length (filter (\<lambda>n. n_Address n = addr) (d_nodes d)))) (\<lambda>rows.
           bnd (write_db (\<lambda>d. d\<lparr> d_nodes := upd_where (\<lambda>n. n_Address n = addr) (set_version major minor patch) (d_nodes d) \<rparr>)) (\<lambda>_.
           ret rows)))) (\<lambda>rowsAffected.
    check (rowsAffected \<noteq> 0) (errors_New ''Node not found''))))"

record NodeJoinInput =
  ji_Network :: string
  ji_Address :: address
  ji_GPUName :: string
  ji_GPUVram :: nat
  ji_Version :: string
  ji_ModelFiles :: "ModelFileEntry list"
  ji_Staking :: int

definition new_node :: "NodeJoinInput \<Rightarrow> nat \<Rightarrow> nat \<Rightarrow> nat \<Rightarrow> Node" where
  "new_node input major minor patch =
    \<lparr> n_ID = 0, n_Network = ji_Network input, n_Address = ji_Address input, n_Status = NodeStatusQuit,
      n_GPUName = NormalizeGPUName (ji_GPUName input), n_GPUVram = ji_GPUVram input, n_QOSScore = 5,
      n_MajorVersion = major, n_MinorVersion = minor, n_PatchVersion = patch, n_JoinTime = 0, n_StakeAmount = 0,
      n_HealthBase = 0, n_HealthUpdatedAt = None, n_HealthExcluded = False, n_DelegatorShare = 0,
      n_CurrentTaskIDCommitment = None, n_LastSeenTime = None \<rparr>"

definition joining_node :: "NodeJoinInput \<Rightarrow> nat \<Rightarrow> nat \<Rightarrow> nat \<Rightarrow> (bool \<times> Node) relay" where
  "joining_node input major minor patch =
    try_catch
      (bnd (GetNodeByAddress (ji_Address input)) (\<lambda>node.
       ret (False, node\<lparr> n_Network := ji_Network input, n_GPUName := NormalizeGPUName (ji_GPUName input),
         n_GPUVram := ji_GPUVram input, n_MajorVersion := major, n_MinorVersion := minor, n_PatchVersion := patch \<rparr>)))
      (\<lambda>e. if e = ErrRecordNotFound then ret (True, new_node input major minor patch) else raise e)"

definition complete_join :: "AppConfig \<Rightarrow> chain_reads \<Rightarrow> NodeJoinInput \<Rightarrow> ModelFile list \<Rightarrow> time \<Rightarrow> Node \<Rightarrow> unit relay" where
  "complete_join cfg ch input modelFiles now node =
    (let stakeAmount = (if ji_Staking input = 0 then EtherToWei (wrap64 (int (cfg_StakeAmount cfg))) else ji_Staking input)
     in bnd (try_catch (bnd (SetNodeStatusJoin cfg ch (node\<lparr> n_StakeAmount := stakeAmount \<rparr>) modelFiles now) (\<lambda>_. ret None)) (\<lambda>e. ret (Some e))) (\<lambda>failure.
        bnd (try_catch (refreshNodeIndexLocked (ji_Address input)) (\<lambda>_. ret ())) (\<lambda>_.
        bnd (case failure of None \<Rightarrow> ret () | Some e \<Rightarrow> raise e) (\<lambda>_.
        call (RecordNodeQosTrace (ji_Address input) [] ''node_rejoin_qos_floor'')))))"

definition NodeJoin ::
  "AppConfig \<Rightarrow> chain_reads \<Rightarrow> (bytes \<Rightarrow> bytes) \<Rightarrow> address option \<Rightarrow> NodeJoinInput \<Rightarrow> time \<Rightarrow> unit relay" where
  "NodeJoin cfg ch sha256 signer input now =
    bnd (check_signer signer (ji_Address input)) (\<lambda>_.
    bnd (of_sum (BuildHeldModelFiles sha256 (ji_ModelFiles input))) (\<lambda>modelFiles.
    bnd (of_sum (parse_versions (ji_Version input))) (\<lambda>(major, minor, patch).
    bnd (joining_node input major minor patch) (\<lambda>(isNewNode, node).
    bnd (check (n_Status node = NodeStatusQuit) (errors_New ''Node already joined'')) (\<lambda>_.
    bnd (AdjustNodeQosForJoin cfg node isNewNode) (complete_join cfg ch input modelFiles now))))))"

section \<open>What the name counts depend on\<close>

abbreviation names_db :: "db \<Rightarrow> Node list \<times> NodeNameCount list" where
  "names_db d \<equiv> (d_nodes d, d_name_counts d)"

text \<open>An operation that touches neither the node rows nor the name counts, stored or cached.\<close>

abbreviation nameless :: "'a relay \<Rightarrow> bool" where
  "nameless f \<equiv> unchanged names_db m_nameCounts f"

lemma nameless_cache_steps [frame_intros]:
  "nameless (UpdateMaxStaking a x)" "nameless (RefreshNodeVestingStake a)" "nameless (SetDelegatorShare a w h)"
  "nameless (cache_delegations f)" "nameless (applyNodeDelegationsToCache a w ds)"
  unfolding UpdateMaxStaking_def RefreshNodeVestingStake_def SetDelegatorShare_def cache_delegations_def
    applyNodeDelegationsToCache_def
  by (intro frame_intros; simp)+

lemma nameless_index [frame_intros]: "nameless (refreshNodeIndexLocked a)" "nameless (refresh_all as)"
  unfolding refresh_all_def refreshNodeIndexLocked_def loadNodeModelState_def removeSlot_def
    ListNodeModelFileRows_def ListNodeInMemoryModels_def GetNodeInMemoryModel_def
  by (intro frame_intros; simp)+

lemma nameless_rows [frame_intros]:
  "nameless (clearNodeModelState a)" "nameless (ClearNodeInMemoryModel a)" "nameless (upsert_network_node r)"
  "nameless (syncNodeDelegationsFromChainTx a w ds)" "nameless (transaction_Save tx)" "nameless (SlashNodeVestingsTx a)"
  "nameless (HasUnfinishedDelegatedSlashJobForNode a)"
  unfolding clearNodeModelState_def ClearNodeInMemoryModel_def upsert_network_node_def DeleteNodeModelsByNodeAddress_def
    syncNodeDelegationsFromChainTx_def transaction_Save_def SlashNodeVestingsTx_def HasUnfinishedDelegatedSlashJobForNode_def
  by (intro frame_intros; simp)+

lemma nameless_queue [frame_intros]:
  "nameless (QueueUnstake cfg ch a w)" "nameless (QueueSlashStaking cfg ch a w)"
  unfolding QueueUnstake_def QueueSlashStaking_def by (intro frame_intros)+

lemma nameless_creates [frame_intros]: "nameless (CreateNodeModels nms)"
  by (induction nms) (auto intro!: frame_intros)

lemma nameless_replace [frame_intros]: "nameless (replaceNodeModelFiles cfg a fs)"
  unfolding replaceNodeModelFiles_def filterWhitelistedModelFiles_def UpsertModelFiles_def GetNodeModelsByNodeAddress_def
    DeleteNodeModelsByFileHashes_def pruneUncoveredSelections_def
  by (intro frame_intros; simp)

section \<open>The counts follow the nodes\<close>

definition active :: "Node \<Rightarrow> bool" where
  "active n \<longleftrightarrow> IsNodeStatusActiveForNodeNameCount (n_Status n)"

definition active_count :: "Node list \<Rightarrow> node_name \<Rightarrow> nat" where
  "active_count rows nm = length (filter (\<lambda>n. active n \<and> name_of n = nm) rows)"

definition names_ok :: "state \<Rightarrow> bool" where
  "names_ok s \<longleftrightarrow>
    distinct (map n_ID (d_nodes (fst s))) \<and> counts_ok (d_name_counts (fst s)) \<and>
    counted (d_name_counts (fst s)) = active_count (d_nodes (fst s)) \<and> counts_cached s"

lemma counts_cached_cong:
  assumes "d_name_counts (fst s') = d_name_counts (fst s)" "m_nameCounts (snd s') = m_nameCounts (snd s)"
  shows "counts_cached s' = counts_cached s"
  unfolding counts_cached_def assms ..

lemma names_ok_view:
  "names_ok s \<Longrightarrow> names_db (fst s') = names_db (fst s) \<Longrightarrow> m_nameCounts (snd s') = m_nameCounts (snd s) \<Longrightarrow> names_ok s'"
  using counts_cached_cong[of s' s] by (simp add: names_ok_def)

lemma nameless_keeps: "nameless f \<Longrightarrow> names_ok s \<Longrightarrow> f s = (r, s') \<Longrightarrow> names_ok s'"
  using unchanged_run names_ok_view by blast

definition hits :: "Node \<Rightarrow> Node \<Rightarrow> bool" where
  "hits node n \<longleftrightarrow> n_ID n = n_ID node \<and> n_Status n = n_Status node"

lemma hits_self [simp]: "hits node node"
  by (simp add: hits_def)

lemma length_filter_hit:
  assumes "distinct (map n_ID rows)" "node \<in> set rows"
  shows "length (filter P (upd_where (hits node) upd rows)) + (if P node then 1 else 0) =
    length (filter P rows) + (if P (upd node) then 1 else 0)"
  using assms
proof (induction rows)
  case (Cons n rows)
  show ?case
  proof (cases "n = node")
    case True
    then have "upd_where (hits node) upd rows = rows"
      using Cons.prems(1) by (fastforce simp: upd_where_def hits_def image_iff intro!: map_idI)
    then show ?thesis using True by simp
  next
    case False
    then have "n_ID n \<noteq> n_ID node" using Cons.prems by (auto simp: image_iff)
    then have "\<not> hits node n" by (simp add: hits_def)
    then show ?thesis using Cons False by auto
  qed
qed simp

lemma active_count_hit:
  assumes "distinct (map n_ID rows)" "node \<in> set rows" "name_of (upd node) = name_of node"
  shows "int (active_count (upd_where (hits node) upd rows) nm) =
    int (active_count rows nm) + (if nm = name_of node then (if active (upd node) then 1 else 0) - (if active node then 1 else 0) else 0)"
  using length_filter_hit[OF assms(1,2), of "\<lambda>n. active n \<and> name_of n = nm" upd] assms(3)
  by (auto simp: active_count_def split: if_splits)

lemma active_counted:
  assumes "names_ok s" "node \<in> set (d_nodes (fst s))" "active node"
  shows "0 < counted (d_name_counts (fst s)) (name_of node)"
proof -
  have "node \<in> set (filter (\<lambda>n. active n \<and> name_of n = name_of node) (d_nodes (fst s)))" using assms by simp
  then have "0 < active_count (d_nodes (fst s)) (name_of node)" unfolding active_count_def by (rule length_pos_if_in_set)
  then show ?thesis using assms(1) by (simp add: names_ok_def)
qed

text \<open>How the stored counts must move when a node changes between counted and not counted.\<close>

definition moved_counts :: "Node \<Rightarrow> Node \<Rightarrow> NodeNameCount list \<Rightarrow> NodeNameCount list" where
  "moved_counts node node' rows =
    (if active node \<and> \<not> active node' then dec_rows node rows
     else if \<not> active node \<and> active node' then inc_rows node rows else rows)"

definition moved_delta :: "Node \<Rightarrow> Node \<Rightarrow> int" where
  "moved_delta node node' = (if active node' then 1 else 0) - (if active node then 1 else 0)"

lemma moved_counts_counted:
  assumes "counts_ok rows" "active node \<and> \<not> active node' \<Longrightarrow> 0 < counted rows (name_of node)"
  shows "counts_ok (moved_counts node node' rows)"
    "int (counted (moved_counts node node' rows) nm) = int (counted rows nm) + (if nm = name_of node then moved_delta node node' else 0)"
  using inc_rows_counted[of rows node] dec_rows_counted[of rows node] assms
  by (auto simp: moved_counts_def moved_delta_def)

lemma move_keeps:
  assumes ok: "names_ok (d, m)" and node: "node \<in> set (d_nodes d)" and name: "name_of (upd node) = name_of node"
    and ids: "\<And>n. n_ID (upd n) = n_ID n"
    and nodes: "d_nodes d' = upd_where (hits node) upd (d_nodes d)"
    and counts: "d_name_counts d' = moved_counts node (upd node) (d_name_counts d)"
    and mem: "m_nameCounts m' = m_nameCounts m"
  shows "names_ok (d', snd (snd (count_delta node (moved_delta node (upd node)) (d', m'))))"
proof -
  have pos: "active node \<Longrightarrow> 0 < counted (d_name_counts d) (name_of node)" using active_counted[OF ok] node by simp
  note step = moved_counts_counted[of "d_name_counts d" node "upd node"]
  have cok: "counts_ok (d_name_counts d)" and dist: "distinct (map n_ID (d_nodes d))"
    and eq: "counted (d_name_counts d) nm = active_count (d_nodes d) nm" for nm
    using ok by (simp_all add: names_ok_def)
  have c: "int (counted (d_name_counts d') nm) = int (counted (d_name_counts d) nm) + (if nm = name_of node then moved_delta node (upd node) else 0)" for nm
    unfolding counts by (rule step(2)) (use cok pos in auto)
  have "counts_cached (d, m')" using ok mem counts_cached_cong[of "(d, m')" "(d, m)"] by (simp add: names_ok_def)
  from apply_delta_cached[OF this c]
  have "counts_cached (d', snd (snd (count_delta node (moved_delta node (upd node)) (d', m'))))" by (simp add: count_delta_def)
  moreover have "distinct (map n_ID (d_nodes d'))" using dist ids by (simp add: nodes upd_where_map)
  moreover have "counts_ok (d_name_counts d')" unfolding counts by (rule step(1)) (use cok pos in auto)
  moreover have "counted (d_name_counts d') = active_count (d_nodes d')"
  proof (rule ext)
    show "counted (d_name_counts d') nm = active_count (d_nodes d') nm" for nm
      using c[of nm] active_count_hit[of "d_nodes d" node upd nm, OF dist node name] eq[of nm] unfolding nodes moved_delta_def by linarith
  qed
  ultimately show ?thesis by (simp add: names_ok_def)
qed

lemma stay_keeps:
  assumes ok: "names_ok (d, m)" and node: "node \<in> set (d_nodes d)" and name: "name_of (upd node) = name_of node"
    and ids: "\<And>n. n_ID (upd n) = n_ID n" and act: "active (upd node) = active node"
    and nodes: "d_nodes d' = upd_where (hits node) upd (d_nodes d)"
    and counts: "d_name_counts d' = d_name_counts d" and mem: "m_nameCounts m' = m_nameCounts m"
  shows "names_ok (d', m')"
proof -
  have dist: "distinct (map n_ID (d_nodes d))" using ok by (simp add: names_ok_def)
  have "active_count (d_nodes d') nm = active_count (d_nodes d) nm" for nm
    using active_count_hit[of "d_nodes d" node upd nm, OF dist node name] unfolding nodes act
    by (simp only: diff_self if_cancel add_0_right of_nat_eq_iff)
  then have "active_count (d_nodes d') = active_count (d_nodes d)" by (rule ext)
  moreover have "counts_cached (d', m')" using ok counts_cached_cong[of "(d', m')" "(d, m)"] counts mem by (simp add: names_ok_def)
  moreover have "distinct (map n_ID (d_nodes d'))" using dist ids by (simp add: nodes upd_where_map)
  ultimately show ?thesis using ok counts by (simp add: names_ok_def)
qed

lemma update_status_run:
  assumes "node \<in> set (d_nodes d)"
  shows "node_Update_status node upd (d, m) =
    (if n_ID node = 0 then (Inl (errors_New ''Node.ID cannot be 0 when update''), (d, m))
     else (Inr (upd node), (d\<lparr> d_nodes := upd_where (hits node) upd (d_nodes d) \<rparr>, m)))"
proof -
  have "filter (hits node) (d_nodes d) \<noteq> []" using assms hits_self[of node] unfolding filter_empty_conv by blast
  then show ?thesis
    by (simp add: node_Update_status_def op_simps hits_def[abs_def, symmetric] flip: hits_def)
qed

lemma status_names [simp]:
  "name_of (n\<lparr> n_Status := st \<rparr>) = name_of n" "name_of (n\<lparr> n_CurrentTaskIDCommitment := c \<rparr>) = name_of n"
  "name_of (n\<lparr> n_StakeAmount := x \<rparr>) = name_of n" "name_of (n\<lparr> n_HealthExcluded := h \<rparr>) = name_of n"
  "active (n\<lparr> n_CurrentTaskIDCommitment := c \<rparr>) = active n" "active (n\<lparr> n_StakeAmount := x \<rparr>) = active n"
  "active (n\<lparr> n_HealthExcluded := h \<rparr>) = active n"
  "active (n\<lparr> n_Status := st \<rparr>) = IsNodeStatusActiveForNodeNameCount st"
  by (simp_all add: name_of_def node_version_def active_def)

lemma count_delta_cong:
  "name_of n = name_of n' \<Longrightarrow> count_delta n = count_delta n'"
  by (simp add: name_of_def count_delta_def)

lemma dec_rows_cong: "name_of n = name_of n' \<Longrightarrow> dec_rows n = dec_rows n' \<and> inc_rows n = inc_rows n'"
proof -
  assume eq: "name_of n = name_of n'"
  then have "named n = named n'" by (intro ext) (simp add: named_iff)
  then show ?thesis using eq by (auto simp: dec_rows_def[abs_def] inc_rows_def[abs_def] name_of_def)
qed

lemma nameless_quit_chain [frame_intros]: "nameless (quit_chain_tx cfg ch node slashed)"
  unfolding quit_chain_tx_def by (intro frame_intros; simp)

lemma quit_mem: "unchanged (\<lambda>_. ()) m_nameCounts (setNodeStatusQuitTx cfg ch node slashed)"
proof -
  have "unchanged (\<lambda>_. ()) m_nameCounts (clearNodeModelState a)" "unchanged (\<lambda>_. ()) m_nameCounts (quit_chain_tx cfg ch n slashed)" for a n
    using nameless_rows(1)[of a] nameless_quit_chain[of cfg ch n slashed] by (simp_all add: unchanged_def)
  then show ?thesis
    unfolding setNodeStatusQuitTx_def node_Update_status_def DecrementNodeNameCountTx_def
    by (intro frame_intros; simp)
qed

lemma moved_quit: "moved_counts node (is_quit node) rows = (if active node then dec_rows node rows else rows)"
  by (simp add: moved_counts_def is_quit_def IsNodeStatusActiveForNodeNameCount_def)

lemma name_quit [simp]: "name_of (is_quit n) = name_of n"
  by (simp add: is_quit_def)

lemma quit_effect:
  assumes "returns (setNodeStatusQuitTx cfg ch node slashed) (d, m) (a, i) (d', m')" "names_ok (d, m)" "node \<in> set (d_nodes d)"
  shows "a = active node" "d_nodes d' = upd_where (hits node) is_quit (d_nodes d)"
    "d_name_counts d' = moved_counts node (is_quit node) (d_name_counts d)" "m_nameCounts m' = m_nameCounts m"
proof -
  obtain u s1 where clear: "returns (clearNodeModelState (n_Address node)) (d, m) u s1"
    and rest: "returns (bnd (node_Update_status node is_quit) (\<lambda>node'.
      bnd (if active node then DecrementNodeNameCountTx node' else ret ()) (\<lambda>_.
      bnd (quit_chain_tx cfg ch node' slashed) (\<lambda>txID. ret (active node, txID))))) s1 (a, i) (d', m')"
    using assms(1) unfolding setNodeStatusQuitTx_def Let_def active_def[symmetric] by (rule returns_bndE) blast
  obtain d1 m1 where s1: "s1 = (d1, m1)" by (cases s1)
  have v1: "names_db d1 = names_db d" "m_nameCounts m1 = m_nameCounts m"
    using unchanged_returns[OF nameless_rows(1) clear] s1 by simp_all
  have st: "node \<in> set (d_nodes d1)" using assms(3) v1 by simp
  obtain s2 j where dec: "returns (if active node then DecrementNodeNameCountTx (is_quit node) else ret ())
        (d1\<lparr> d_nodes := upd_where (hits node) is_quit (d_nodes d1) \<rparr>, m1) () s2"
    and chain: "returns (quit_chain_tx cfg ch (is_quit node) slashed) s2 j (d', m')" and a: "a = active node"
    using rest update_status_run[OF st, of is_quit m1]
    unfolding s1 returns_bnd returns_def[of "node_Update_status node is_quit"] by (cases "n_ID node = 0") auto
  have "counts_ok (d_name_counts d1)" using assms(2) v1 by (simp add: names_ok_def)
  then have s2: "names_db (fst s2) = (upd_where (hits node) is_quit (d_nodes d), moved_counts node (is_quit node) (d_name_counts d))"
    "m_nameCounts (snd s2) = m_nameCounts m"
    using dec v1 dec_rows_cong[OF name_quit, of node]
    by (auto simp: returns_def Decrement_run moved_quit ret_run split: if_splits)
  show "a = active node" "d_nodes d' = upd_where (hits node) is_quit (d_nodes d)"
    "d_name_counts d' = moved_counts node (is_quit node) (d_name_counts d)" "m_nameCounts m' = m_nameCounts m"
    using unchanged_returns[OF nameless_quit_chain chain] s2 a by simp_all
qed

lemma quit_ids [simp]: "n_ID (is_quit n) = n_ID n"
  and active_quit [simp]: "\<not> active (is_quit n)"
  by (simp_all add: is_quit_def IsNodeStatusActiveForNodeNameCount_def)

lemma count_delta_view: "fst (snd (count_delta node x s)) = fst s \<and> fst (count_delta node x s) = Inr ()"
  by (simp add: count_delta_def ApplyNodeNameCountDeltaToCache_def op_simps)

lemma quit_post_keeps:
  assumes "names_ok (d, m)" "node \<in> set (d_nodes d)" "d_nodes d' = upd_where (hits node) is_quit (d_nodes d)"
    "d_name_counts d' = moved_counts node (is_quit node) (d_name_counts d)" "m_nameCounts m' = m_nameCounts m"
  shows "names_ok (snd (applyNodeQuitPostCommit node (active node) (d', m')))"
    "fst (applyNodeQuitPostCommit node (active node) (d', m')) = Inr ()"
proof -
  define m1 where "m1 = m'\<lparr> m_maxStaking := maxStaking_update (n_Address node) 0 (m_maxStaking m') \<rparr>"
  have run: "applyNodeQuitPostCommit node (active node) (d', m') =
      (if active node then count_delta node (- 1) (d', m1) else (Inr (), (d', m1)))"
    by (simp add: applyNodeQuitPostCommit_def UpdateMaxStaking_def op_simps m1_def)
  show "names_ok (snd (applyNodeQuitPostCommit node (active node) (d', m')))"
  proof (cases "active node")
    case True
    have "names_ok (d', snd (snd (count_delta node (moved_delta node (is_quit node)) (d', m1))))"
      by (rule move_keeps[of d m node is_quit]) (use assms in \<open>simp_all add: m1_def\<close>)
    then show ?thesis unfolding run using True count_delta_view[of node "- 1" "(d', m1)"]
      by (cases "count_delta node (- 1) (d', m1)") (simp add: moved_delta_def)
  next
    case False
    have "names_ok (d', m1)"
      by (rule stay_keeps[of d m node is_quit]) (use assms False in \<open>simp_all add: m1_def moved_quit\<close>)
    then show ?thesis unfolding run by (simp add: False)
  qed
  show "fst (applyNodeQuitPostCommit node (active node) (d', m')) = Inr ()"
    unfolding run using count_delta_view[of node "- 1" "(d', m1)"] by simp
qed

text \<open>A failed transaction leaves the view the counts depend on as it was.\<close>

lemma txn_failed_view:
  assumes "txn f s = (Inl e, s')" "unchanged (\<lambda>_. ()) m_nameCounts f"
  shows "fst s' = fst s" "m_nameCounts (snd s') = m_nameCounts (snd s)"
proof -
  obtain r t where run: "f s = (r, t)" by (metis surj_pair)
  then show "fst s' = fst s" "m_nameCounts (snd s') = m_nameCounts (snd s)"
    using assms(1) unchanged_run[OF assms(2) run] by (auto simp: txn_def split: sum.splits)
qed

lemma txn_returns_run: "txn f s = (Inr a, s') \<Longrightarrow> returns f s a s'"
  by (auto simp: txn_def returns_def split: prod.splits sum.splits)

lemma failed_keeps:
  "names_ok s \<Longrightarrow> txn f s = (Inl e, s') \<Longrightarrow> unchanged (\<lambda>_. ()) m_nameCounts f \<Longrightarrow> names_ok s' \<and> d_nodes (fst s') = d_nodes (fst s)"
  using txn_failed_view[of f s e s'] names_ok_view[of s s'] by simp

lemma set_quit_keeps:
  assumes "names_ok s" "node \<in> set (d_nodes (fst s))" "SetNodeStatusQuit cfg ch node slashed s = (r, s')"
  shows "names_ok s'" "r = Inl e \<Longrightarrow> d_nodes (fst s') = d_nodes (fst s)"
proof -
  obtain d m where s: "s = (d, m)" by (cases s)
  obtain q t where tx: "txn (setNodeStatusQuitTx cfg ch node slashed) s = (q, t)" by (metis surj_pair)
  have "names_ok s' \<and> (r = Inl e \<longrightarrow> d_nodes (fst s') = d_nodes (fst s))"
  proof (cases q)
    case (Inl e')
    then have "s' = t" using assms(3) tx by (simp add: SetNodeStatusQuit_def bnd_run)
    then show ?thesis using failed_keeps[OF assms(1) tx[unfolded Inl] quit_mem] by simp
  next
    case (Inr ai)
    obtain a i where ai: "ai = (a, i)" by (cases ai)
    obtain d' m' where t: "t = (d', m')" by (cases t)
    note eff = quit_effect[OF txn_returns_run[OF tx[unfolded Inr s ai t]] assms(1)[unfolded s] assms(2)[unfolded s fst_conv]]
    note post = quit_post_keeps[OF assms(1)[unfolded s] assms(2)[unfolded s fst_conv] eff(2-4)]
    define rest where "rest = bnd (if slashed then RefreshNodeVestingStake (n_Address node) else ret ())
      (\<lambda>_. call (RefreshDelegatedStakingNodeListSnapshot (n_Address node)))"
    obtain p where p: "applyNodeQuitPostCommit node (active node) t = (Inr (), p)" and pok: "names_ok p"
      using post t by (metis prod.collapse)
    have run: "(r, s') = rest p"
      using assms(3) tx p by (simp add: SetNodeStatusQuit_def bnd_run Inr ai eff(1) rest_def)
    have "nameless rest" unfolding rest_def by (intro frame_intros; simp)
    then have "names_ok s'" using nameless_keeps[of rest p r s'] pok run[symmetric] by blast
    moreover have "r = Inr ()" using run by (cases slashed) (simp_all add: rest_def op_simps RefreshNodeVestingStake_def call_def)
    ultimately show ?thesis by simp
  qed
  then show "names_ok s'" "r = Inl e \<Longrightarrow> d_nodes (fst s') = d_nodes (fst s)" by simp_all
qed

section \<open>Every operation keeps the counts\<close>

abbreviation no_id_error :: go_error where
  "no_id_error \<equiv> errors_New ''Node.ID cannot be 0 when update''"

lemma leave_run:
  assumes "names_ok (d, m)" "node \<in> set (d_nodes d)" "active node" "name_of (upd node) = name_of node"
  shows "txn (bnd (node_Update_status node upd) DecrementNodeNameCountTx) (d, m) =
    (if n_ID node = 0 then (Inl no_id_error, (d, m))
     else (Inr (), (d\<lparr> d_nodes := upd_where (hits node) upd (d_nodes d), d_name_counts := dec_rows node (d_name_counts d) \<rparr>, m)))"
proof -
  have "counts_ok (d_name_counts d)" using assms(1) by (simp add: names_ok_def)
  then show ?thesis
    using active_counted[OF assms(1) _ assms(3)] assms(2,4) dec_rows_cong[OF assms(4)]
    by (simp add: txn_run bnd_run update_status_run Decrement_run)
qed

lemma enter_run:
  assumes "node \<in> set (d_nodes d)" "name_of (upd node) = name_of node"
  shows "txn (bnd (node_Update_status node upd) IncrementNodeNameCountTx) (d, m) =
    (if n_ID node = 0 then (Inl no_id_error, (d, m))
     else (Inr (), (d\<lparr> d_nodes := upd_where (hits node) upd (d_nodes d), d_name_counts := inc_rows node (d_name_counts d) \<rparr>, m)))"
  using dec_rows_cong[OF assms(2)] assms(1)
  by (simp add: txn_run bnd_run update_status_run Increment_rows write_db_run)

lemma leave_keeps:
  assumes "names_ok (d, m)" "node \<in> set (d_nodes d)" "active node" "\<not> active (upd node)" "name_of (upd node) = name_of node"
    "\<And>n. n_ID (upd n) = n_ID n"
  shows "names_ok (snd (count_delta node (- 1)
    (d\<lparr> d_nodes := upd_where (hits node) upd (d_nodes d), d_name_counts := dec_rows node (d_name_counts d) \<rparr>, m)))"
proof -
  define d' where "d' = d\<lparr> d_nodes := upd_where (hits node) upd (d_nodes d), d_name_counts := dec_rows node (d_name_counts d) \<rparr>"
  have "names_ok (d', snd (snd (count_delta node (moved_delta node (upd node)) (d', m))))"
    by (rule move_keeps[of d m node upd]) (use assms in \<open>simp_all add: d'_def moved_counts_def\<close>)
  then show ?thesis
    using assms(3,4) count_delta_view[of node "- 1" "(d', m)"]
    by (cases "count_delta node (- 1) (d', m)") (simp add: moved_delta_def d'_def)
qed

lemma enter_keeps:
  assumes "names_ok (d, m)" "node \<in> set (d_nodes d)" "\<not> active node" "active (upd node)" "name_of (upd node) = name_of node"
    "\<And>n. n_ID (upd n) = n_ID n"
  shows "names_ok (snd (count_delta node 1
    (d\<lparr> d_nodes := upd_where (hits node) upd (d_nodes d), d_name_counts := inc_rows node (d_name_counts d) \<rparr>, m)))"
proof -
  define d' where "d' = d\<lparr> d_nodes := upd_where (hits node) upd (d_nodes d), d_name_counts := inc_rows node (d_name_counts d) \<rparr>"
  have "names_ok (d', snd (snd (count_delta node (moved_delta node (upd node)) (d', m))))"
    by (rule move_keeps[of d m node upd]) (use assms in \<open>simp_all add: d'_def moved_counts_def\<close>)
  then show ?thesis
    using assms(3,4) count_delta_view[of node 1 "(d', m)"]
    by (cases "count_delta node 1 (d', m)") (simp add: moved_delta_def d'_def)
qed

lemma stay_run_keeps:
  assumes "names_ok s" "node \<in> set (d_nodes (fst s))" "active (upd node) = active node" "name_of (upd node) = name_of node"
    "\<And>n. n_ID (upd n) = n_ID n" "node_Update_status node upd s = (r, s')"
  shows "names_ok s'" "r = Inl e \<Longrightarrow> s' = s \<and> e = no_id_error"
proof -
  obtain d m where s: "s = (d, m)" by (cases s)
  have run: "(r, s') = (if n_ID node = 0 then (Inl no_id_error, (d, m))
     else (Inr (upd node), (d\<lparr> d_nodes := upd_where (hits node) upd (d_nodes d) \<rparr>, m)))"
    using assms(2,6) update_status_run[of node d upd m] by (simp add: s)
  have "names_ok (d\<lparr> d_nodes := upd_where (hits node) upd (d_nodes d) \<rparr>, m)"
    by (rule stay_keeps[of d m node upd]) (use assms s in simp_all)
  then show "names_ok s'" using run assms(1) s by (simp split: if_splits)
  show "r = Inl e \<Longrightarrow> s' = s \<and> e = no_id_error" using run s by (simp split: if_splits)
qed

lemma attempt_run:
  "attempt f s = (case f s of (Inl e, s') \<Rightarrow> if e = ErrNodeStatusChanged then (Inr False, s') else (Inl e, s') | (Inr _, s') \<Rightarrow> (Inr True, s'))"
  by (simp add: attempt_def op_simps split: prod.splits sum.splits)

lemma sync_stored:
  assumes "distinct (map n_ID (d_nodes (fst s)))" "node \<in> set (d_nodes (fst s))"
  shows "node_SyncStatus node s = (Inr node, s)"
proof -
  obtain n where n: "find (\<lambda>n. n_ID n = n_ID node) (d_nodes (fst s)) = Some n" "n_ID n = n_ID node" "n \<in> set (d_nodes (fst s))"
    using assms(2) by (cases "find (\<lambda>n. n_ID n = n_ID node) (d_nodes (fst s))") (auto simp: find_None_iff find_Some_iff)
  then have "n = node" using assms by (metis distinct_map inj_onD)
  then show ?thesis using n by (simp add: node_SyncStatus_def op_simps)
qed

text \<open>One attempt on a stored node keeps the counts, and one that must be repeated leaves the nodes alone.\<close>

definition once_ok :: "(Node \<Rightarrow> bool relay) \<Rightarrow> bool" where
  "once_ok once \<longleftrightarrow> (\<forall>node s r s'. names_ok s \<longrightarrow> node \<in> set (d_nodes (fst s)) \<longrightarrow> once node s = (r, s') \<longrightarrow>
     names_ok s' \<and> (r = Inr False \<longrightarrow> d_nodes (fst s') = d_nodes (fst s)))"

lemma retry_keeps:
  assumes "once_ok once" "names_ok s" "node \<in> set (d_nodes (fst s))"
  shows "names_ok (snd (retry k once node s))"
  using assms(2,3)
proof (induction k arbitrary: s)
  case (Suc k)
  obtain r t where run: "once node s = (r, t)" by (metis surj_pair)
  note ok = assms(1)[unfolded once_ok_def, rule_format, OF Suc.prems run]
  show ?case
  proof (cases "r = Inr False")
    case True
    then have st: "node \<in> set (d_nodes (fst t))" using ok Suc.prems by simp
    then have "node_SyncStatus node t = (Inr node, t)" using ok by (intro sync_stored) (simp_all add: names_ok_def)
    then show ?thesis using Suc.IH[OF _ st] ok True run by (simp add: bnd_run)
  next
    case False
    then show ?thesis using ok run by (cases r) (auto simp: bnd_run ret_run)
  qed
qed (simp add: raise_run)

lemma count_delta_run: "count_delta node x s = (Inr (), snd (count_delta node x s))"
  using count_delta_view[of node x s] by (metis prod.collapse)

lemma bnd_count_delta: "bnd (count_delta node x) g s = g () (snd (count_delta node x s))"
  using count_delta_run[of node x s] by (simp add: bnd_def split: prod.splits sum.splits) (metis Inr_not_Inl fst_conv)

lemma pause_once_ok: "once_ok pause_once"
  unfolding once_ok_def
proof (intro allI impI)
  fix node s r s'
  assume ok: "names_ok s" and st: "node \<in> set (d_nodes (fst s))" and run: "pause_once node s = (r, s')"
  obtain d m where s: "s = (d, m)" by (cases s)
  show "names_ok s' \<and> (r = Inr False \<longrightarrow> d_nodes (fst s') = d_nodes (fst s))"
  proof (cases "n_Status node")
    case NodeStatusAvailable
    then have a: "active node" by (simp add: active_def IsNodeStatusActiveForNodeNameCount_def)
    define paused where "paused = (\<lambda>n :: Node. n\<lparr> n_Status := NodeStatusPaused \<rparr>)"
    have p: "name_of (paused node) = name_of node" "\<not> active (paused node)" "\<And>n. n_ID (paused n) = n_ID n"
      by (simp_all add: paused_def IsNodeStatusActiveForNodeNameCount_def)
    show ?thesis
      using run leave_run[of d m node paused, OF ok[unfolded s] _ a p(1)] st[unfolded s]
        leave_keeps[of d m node paused, OF ok[unfolded s] _ a p(2,1,3)] ok
      by (auto simp: pause_once_def NodeStatusAvailable paused_def[symmetric] attempt_run bnd_count_delta bnd_run[of "attempt _"] s ret_run split: if_splits)
  next
    case NodeStatusBusy
    obtain r1 s1 where run1: "node_Update_status node (\<lambda>n. n\<lparr> n_Status := NodeStatusPendingPause \<rparr>) s = (r1, s1)" by (metis surj_pair)
    have "active node" using NodeStatusBusy by (simp add: active_def IsNodeStatusActiveForNodeNameCount_def)
    then show ?thesis
      using run run1 stay_run_keeps[OF ok st _ _ _ run1]
      by (cases r1) (auto simp: pause_once_def NodeStatusBusy attempt_run IsNodeStatusActiveForNodeNameCount_def)
  qed (use ok run in \<open>auto simp: pause_once_def raise_run\<close>)
qed

lemma resume_once_ok: "once_ok resume_once"
  unfolding once_ok_def
proof (intro allI impI)
  fix node s r s'
  assume ok: "names_ok s" and st: "node \<in> set (d_nodes (fst s))" and run: "resume_once node s = (r, s')"
  obtain d m where s: "s = (d, m)" by (cases s)
  show "names_ok s' \<and> (r = Inr False \<longrightarrow> d_nodes (fst s') = d_nodes (fst s))"
  proof (cases "n_Status node = NodeStatusPaused")
    case True
    then have a: "\<not> active node" by (simp add: active_def IsNodeStatusActiveForNodeNameCount_def)
    define resumed where "resumed = (\<lambda>n :: Node. n\<lparr> n_Status := NodeStatusAvailable \<rparr>)"
    have p: "name_of (resumed node) = name_of node" "active (resumed node)" "\<And>n. n_ID (resumed n) = n_ID n"
      by (simp_all add: resumed_def IsNodeStatusActiveForNodeNameCount_def)
    show ?thesis
      using run enter_run[of node d resumed m, OF _ p(1)] st[unfolded s]
        enter_keeps[of d m node resumed, OF ok[unfolded s] _ a p(2,1,3)] ok
      by (auto simp: resume_once_def True resumed_def[symmetric] attempt_run bnd_count_delta bnd_run[of "attempt _"] bnd_run[of "check _ _"] s ret_run check_run split: if_splits)
  qed (use ok run in \<open>auto simp: resume_once_def bnd_run check_run\<close>)
qed

lemma quit_once_ok: "once_ok (quit_once cfg ch)"
  unfolding once_ok_def
proof (intro allI impI)
  fix node s r s'
  assume ok: "names_ok s" and st: "node \<in> set (d_nodes (fst s))" and run: "quit_once cfg ch node s = (r, s')"
  consider (quit) "n_Status node = NodeStatusAvailable \<or> n_Status node = NodeStatusPaused"
    | (busy) "n_Status node = NodeStatusBusy"
    | (other) "n_Status node \<noteq> NodeStatusAvailable" "n_Status node \<noteq> NodeStatusPaused" "n_Status node \<noteq> NodeStatusBusy" by blast
  then show "names_ok s' \<and> (r = Inr False \<longrightarrow> d_nodes (fst s') = d_nodes (fst s))"
  proof cases
    case quit
    obtain r1 s1 where run1: "SetNodeStatusQuit cfg ch node False s = (r1, s1)" by (metis surj_pair)
    show ?thesis
      using run run1 set_quit_keeps[OF ok st run1] quit
      by (cases r1) (auto simp: quit_once_def attempt_run split: if_splits)
  next
    case busy
    obtain r1 s1 where run1: "node_Update_status node (\<lambda>n. n\<lparr> n_Status := NodeStatusPendingQuit \<rparr>) s = (r1, s1)" by (metis surj_pair)
    have "active node" using busy by (simp add: active_def IsNodeStatusActiveForNodeNameCount_def)
    then show ?thesis
      using run run1 stay_run_keeps[OF ok st _ _ _ run1] busy
      by (cases r1) (auto simp: quit_once_def attempt_run IsNodeStatusActiveForNodeNameCount_def)
  next
    case other
    then show ?thesis using run ok by (auto simp: quit_once_def ret_run raise_run split: if_splits)
  qed
qed

lemma execute_keeps_names: "names_ok (snd (f s)) \<Longrightarrow> names_ok (snd (ExecuteNodeStateUpdate addrs f s))"
proof -
  assume ok: "names_ok (snd (f s))"
  obtain r t where run: "f s = (r, t)" by (metis surj_pair)
  obtain q u where ref: "refresh_all (sort (remdups (filter (\<lambda>a. a \<noteq> []) addrs))) t = (q, u)" by (metis surj_pair)
  have "names_ok u" using nameless_keeps[of _ t q u, OF nameless_index(2) _ ref] ok run by simp
  then show ?thesis by (simp add: ExecuteNodeStateUpdate_def run ref Let_def)
qed

lemma find_node_run:
  "find_node addr s = (case find (\<lambda>n. addr = [] \<or> n_Address n = addr) (d_nodes (fst s)) of
     None \<Rightarrow> (Inl (errors_New ''Node not found''), s) | Some n \<Rightarrow> (Inr n, s))"
  by (simp add: find_node_def GetNodeByAddress_def op_simps split: option.splits)

lemma find_stored: "find P rows = Some n \<Longrightarrow> n \<in> set rows"
  by (auto simp: find_Some_iff)

lemma handler_keeps:
  assumes "names_ok s" "\<And>node. node \<in> set (d_nodes (fst s)) \<Longrightarrow> names_ok (snd (g node s))"
  shows "names_ok (snd (bnd (check_signer signer addr) (\<lambda>_. bnd (find_node addr) g) s))"
  using assms by (cases signer)
    (auto simp: check_signer_def bnd_run raise_run check_run find_node_run dest: find_stored split: option.splits)

lemma pause_keeps: "names_ok s \<Longrightarrow> names_ok (snd (NodePause signer addr s))"
  unfolding NodePause_def
  by (rule handler_keeps) (auto intro: execute_keeps_names retry_keeps pause_once_ok)

lemma resume_keeps: "names_ok s \<Longrightarrow> names_ok (snd (NodeResume signer addr s))"
  unfolding NodeResume_def
  by (rule handler_keeps) (auto intro: execute_keeps_names retry_keeps resume_once_ok)

lemma quit_keeps: "names_ok s \<Longrightarrow> names_ok (snd (NodeQuit cfg ch signer addr s))"
  unfolding NodeQuit_def
  by (rule handler_keeps)
    (auto simp: bnd_run of_sum_run check_run split: sum.splits intro: execute_keeps_names retry_keeps quit_once_ok)

lemma nameless_mem: "nameless f \<Longrightarrow> unchanged (\<lambda>_. ()) m_nameCounts f"
  by (simp add: unchanged_def)

lemma start_keeps:
  assumes "names_ok s" "node \<in> set (d_nodes (fst s))"
  shows "names_ok (snd (nodeStartTask exp64 cfg node c now s))"
proof -
  define busy where "busy = (\<lambda>n :: Node. n\<lparr> n_Status := NodeStatusBusy, n_CurrentTaskIDCommitment := Some c,
    n_HealthExcluded := (if n_HealthExcluded node then False else n_HealthExcluded n) \<rparr>)"
  obtain r t where run: "node_Update_status node busy s = (r, t)" by (metis surj_pair)
  have b: "name_of (busy node) = name_of node" "active (busy node)" "\<And>n. n_ID (busy n) = n_ID n"
    by (simp_all add: busy_def IsNodeStatusActiveForNodeNameCount_def)
  show ?thesis
  proof (cases "n_Status node = NodeStatusAvailable \<and> n_CurrentTaskIDCommitment node = None \<and> \<not> IsHealthExcluded exp64 cfg node now")
    case True
    then have "active node" by (simp add: active_def IsNodeStatusActiveForNodeNameCount_def)
    then show ?thesis
      using stay_run_keeps[OF assms _ b(1,3) run] b(2) run True
      by (cases r) (auto simp: nodeStartTask_def bnd_run check_run txn_run ret_run busy_def[symmetric])
  qed (use assms in \<open>auto simp: nodeStartTask_def bnd_run check_run\<close>)
qed

lemma txn_keeps:
  assumes ok: "names_ok s" and mem: "unchanged (\<lambda>_. ()) m_nameCounts f"
    and post: "\<And>a t. returns f s a t \<Longrightarrow> names_ok (snd (g a t))"
  shows "names_ok (snd (bnd (txn f) g s))"
proof -
  obtain q t where tx: "txn f s = (q, t)" by (metis surj_pair)
  show ?thesis
  proof (cases q)
    case (Inl e)
    then show ?thesis using failed_keeps[OF ok tx[unfolded Inl] mem] tx by (simp add: bnd_run)
  next
    case (Inr a)
    then show ?thesis using post[OF txn_returns_run[OF tx[unfolded Inr]]] tx by (simp add: bnd_run)
  qed
qed

lemma get_task_bnd:
  "bnd (GetTaskByIDCommitment c) g s =
    (case find (\<lambda>t. c = [] \<or> t_TaskIDCommitment t = c) (d_tasks (fst s)) of None \<Rightarrow> (Inl ErrRecordNotFound, s) | Some t \<Rightarrow> g t s)"
  by (simp add: GetTaskByIDCommitment_def op_simps split: option.splits)

lemma kickout_keeps:
  assumes ok: "names_ok s" and st: "node \<in> set (d_nodes (fst s))"
  shows "names_ok (snd (bnd (txn (bnd (setNodeStatusQuitTx cfg ch node False) (\<lambda>(a, _).
     bnd (emitEvent e) (\<lambda>_. ret a)))) (applyNodeQuitPostCommit node) s))" (is "names_ok (snd (bnd (txn ?f) _ s))")
proof (rule txn_keeps[OF ok])
  obtain d m where s: "s = (d, m)" by (cases s)
  show "unchanged (\<lambda>_. ()) m_nameCounts ?f" by (intro frame_intros quit_mem; simp)
  fix a t assume ret: "returns ?f s a t"
  obtain d' m' where t: "t = (d', m')" by (cases t)
  obtain i d1 where q: "returns (setNodeStatusQuitTx cfg ch node False) (d, m) (a, i) (d1, m')"
    and d': "d' = d1\<lparr> d_log := d_log d1 @ [ToEvent e] \<rparr>"
    using ret by (auto simp: s t emitEvent_def)
  note eff = quit_effect[OF q ok[unfolded s] st[unfolded s fst_conv]]
  have "names_ok (snd (applyNodeQuitPostCommit node (active node) (d', m')))"
    by (rule quit_post_keeps(1)[OF ok[unfolded s] st[unfolded s fst_conv]]) (simp_all add: d' eff)
  then show "names_ok (snd (applyNodeQuitPostCommit node a t))" by (simp add: eff t)
qed

lemma finish_keeps:
  assumes ok: "names_ok s" and st: "node \<in> set (d_nodes (fst s))"
  shows "names_ok (snd (nodeFinishTask cfg ch node s))"
proof (cases "(n_Status node = NodeStatusBusy \<or> n_Status node = NodeStatusPendingPause \<or> n_Status node = NodeStatusPendingQuit)
    \<and> n_CurrentTaskIDCommitment node \<noteq> None")
  case True
  then obtain c where c: "n_CurrentTaskIDCommitment node = Some c" by blast
  have act: "active node" using True by (auto simp: active_def IsNodeStatusActiveForNodeNameCount_def)
  obtain d m where s: "s = (d, m)" by (cases s)
  define free where "free = (\<lambda>n :: Node. n\<lparr> n_Status := NodeStatusAvailable, n_CurrentTaskIDCommitment := None \<rparr>)"
  define paused where "paused = (\<lambda>n :: Node. n\<lparr> n_Status := NodeStatusPaused, n_CurrentTaskIDCommitment := None \<rparr>)"
  have free: "names_ok (snd (bnd (node_Update_status node free) (\<lambda>_. ret ()) s))"
  proof -
    obtain r t where run: "node_Update_status node free s = (r, t)" by (metis surj_pair)
    have "names_ok t"
      by (rule stay_run_keeps(1)[OF ok st _ _ _ run]) (simp_all add: free_def act IsNodeStatusActiveForNodeNameCount_def)
    then show ?thesis using run by (cases r) (simp_all add: bnd_run ret_run)
  qed
  have p: "name_of (paused node) = name_of node" "\<not> active (paused node)" "\<And>n. n_ID (paused n) = n_ID n"
    by (simp_all add: paused_def IsNodeStatusActiveForNodeNameCount_def)
  have pause: "names_ok (snd (bnd (txn (bnd (node_Update_status node paused) DecrementNodeNameCountTx)) (\<lambda>_. count_delta node (- 1)) s))"
    using leave_run[of d m node paused, OF ok[unfolded s] _ act p(1)] st[unfolded s] ok
      leave_keeps[of d m node paused, OF ok[unfolded s] _ act p(2,1,3)] by (simp add: s bnd_run)
  have quit: "names_ok (snd (SetNodeStatusQuit cfg ch node False s))"
    using set_quit_keeps(1)[OF ok st] by (metis prod.collapse)
  show ?thesis
    using free pause quit kickout_keeps[OF ok st, of cfg ch] ok True
    by (auto simp: nodeFinishTask_def bnd_run[of "check _ _"] bnd_run[of "of_option _ _"] bnd_run[of "read_mem _"] check_run
        of_option_run read_mem_run c get_task_bnd
        free_def[symmetric] paused_def[symmetric] split: option.splits)
qed (use ok in \<open>auto simp: nodeFinishTask_def bnd_run check_run of_option_run split: option.splits\<close>)

lemma nameless_money [frame_intros]:
  "nameless (createRelayAccountEvent ty reason a x now)" "nameless (getRelayAccountFromCache a)" "nameless (add_cached a x)"
  unfolding createRelayAccountEvent_def createRelayAccountEventWithID_def getRelayAccountFromCache_def add_cached_def
  by (intro frame_intros; simp)+

lemma nameless_abort [frame_intros]: "nameless (abortNodeCurrentTaskForSlash cfg node now)"
  unfolding abortNodeCurrentTaskForSlash_def refundTaskPaymentToRelayAccount_def
  by (intro frame_intros; simp)

definition quiet :: "(unit relay) option \<Rightarrow> bool" where
  "quiet p \<longleftrightarrow> (case p of None \<Rightarrow> True | Some f \<Rightarrow> nameless f \<and> never_fails f)"

lemma abort_quiet: "returns (abortNodeCurrentTaskForSlash cfg node now) s p s' \<Longrightarrow> quiet p"
proof -
  assume ret: "returns (abortNodeCurrentTaskForSlash cfg node now) s p s'"
  have "p = None \<or> (\<exists>a x c ids. p = Some (slash_abort_commit (add_cached a x) c ids))"
    using ret unfolding abortNodeCurrentTaskForSlash_def refundTaskPaymentToRelayAccount_def Let_def
    by (auto split: option.splits if_splits simp del: returns_txn)
  moreover have "nameless (slash_abort_commit (add_cached a x) c ids)" for a x c ids
    unfolding slash_abort_commit_def by (intro frame_intros; simp)
  moreover have "never_fails (slash_abort_commit (add_cached a x) c ids)" for a x c ids
    unfolding slash_abort_commit_def by (intro never_fails_intros) (simp_all add: add_cached_def call_def)
  ultimately show ?thesis by (auto simp: quiet_def)
qed

lemma slash_mem: "unchanged (\<lambda>_. ()) m_nameCounts (slashNodeTx cfg ch node c now)"
  unfolding slashNodeTx_def by (intro frame_intros quit_mem nameless_mem[OF nameless_abort]; simp)

lemma slash_effect:
  assumes "returns (slashNodeTx cfg ch node c now) (d, m) (a, i, p) (d', m')" "names_ok (d, m)" "node \<in> set (d_nodes d)"
  shows "a = active node" "d_nodes d' = upd_where (hits node) is_quit (d_nodes d)"
    "d_name_counts d' = moved_counts node (is_quit node) (d_name_counts d)" "m_nameCounts m' = m_nameCounts m" "quiet p"
proof -
  obtain d1 m1 d2 log where abort: "returns (abortNodeCurrentTaskForSlash cfg node now) (d, m) p (d1, m1)"
    and q: "returns (setNodeStatusQuitTx cfg ch node True) (d1, m1) (a, i) (d2, m')"
    and d': "d' = d2\<lparr> d_log := log \<rparr>"
    using assms(1) by (auto simp: slashNodeTx_def emitEvent_def)
  have v: "names_db d1 = names_db d" "m_nameCounts m1 = m_nameCounts m"
    using unchanged_returns[OF nameless_abort abort] by simp_all
  have "names_ok (d1, m1)" "node \<in> set (d_nodes d1)"
    using names_ok_view[OF assms(2), of "(d1, m1)"] v assms(3) by simp_all
  note eff = quit_effect[OF q this]
  show "a = active node" "d_nodes d' = upd_where (hits node) is_quit (d_nodes d)"
    "d_name_counts d' = moved_counts node (is_quit node) (d_name_counts d)" "m_nameCounts m' = m_nameCounts m" "quiet p"
    using eff v d' abort_quiet[OF abort] by simp_all
qed

lemma nameless_quiet: "quiet p \<Longrightarrow> nameless (case p of None \<Rightarrow> ret () | Some f \<Rightarrow> f)"
  by (cases p) (auto simp: quiet_def intro: frame_intros)

lemma slash_post_keeps:
  assumes "names_ok (d, m)" "node \<in> set (d_nodes d)" "d_nodes d' = upd_where (hits node) is_quit (d_nodes d)"
    "d_name_counts d' = moved_counts node (is_quit node) (d_name_counts d)" "m_nameCounts m' = m_nameCounts m" "quiet p"
  shows "names_ok (snd (bnd (slash_post_commit node (active node) p) (\<lambda>_. ret i) (d', m')))"
proof -
  obtain t where c: "(case p of None \<Rightarrow> ret () | Some f \<Rightarrow> f) (d', m') = (Inr (), t)"
  proof (cases p)
    case (Some f)
    then obtain t where "f (d', m') = (Inr (), t)" using assms(6) never_fails_returns[of f "(d', m')"] by (auto simp: quiet_def returns_def)
    then show ?thesis using that Some by simp
  qed (use that in \<open>simp add: ret_run\<close>)
  obtain d1 m1 where t: "t = (d1, m1)" by (cases t)
  have v: "names_db d1 = names_db d'" "m_nameCounts m1 = m_nameCounts m'"
    using unchanged_run[OF nameless_quiet[OF assms(6)] c] t by simp_all
  have post: "names_ok (snd (applyNodeQuitPostCommit node (active node) (d1, m1)))"
    by (rule quit_post_keeps(1)[OF assms(1,2)]) (use assms v in simp_all)
  have ok: "fst (applyNodeQuitPostCommit node (active node) (d1, m1)) = Inr ()"
    by (rule quit_post_keeps(2)[OF assms(1,2)]) (use assms v in simp_all)
  obtain u where u: "applyNodeQuitPostCommit node (active node) (d1, m1) = (Inr (), u)" using ok by (metis prod.collapse)
  obtain r w where w: "RefreshNodeVestingStake (n_Address node) u = (r, w)" by (metis surj_pair)
  have "names_ok w" using nameless_keeps[of _ u r w, OF nameless_cache_steps(2) _ w] post u by simp
  then show ?thesis using c t u w by (cases r) (simp_all add: slash_post_commit_def bnd_run ret_run)
qed

lemma slash_keeps_names:
  assumes ok: "names_ok s" and st: "node \<in> set (d_nodes (fst s))"
  shows "names_ok (snd (SlashNode cfg ch node c now s))"
proof (cases "n_Status node \<noteq> NodeStatusQuit")
  case True
  obtain d m where s: "s = (d, m)" by (cases s)
  have "names_ok (snd (bnd (txn (slashNodeTx cfg ch node c now)) (\<lambda>(a, i, p). bnd (slash_post_commit node a p) (\<lambda>_. ret i)) s))"
  proof (rule txn_keeps[OF ok slash_mem])
    fix x t assume ret: "returns (slashNodeTx cfg ch node c now) s x t"
    obtain a i p d' m' where x: "x = (a, i, p)" and t: "t = (d', m')" by (metis surj_pair)
    note eff = slash_effect[OF ret[unfolded s x t] ok[unfolded s] st[unfolded s fst_conv]]
    show "names_ok (snd ((case x of (a, i, p) \<Rightarrow> bnd (slash_post_commit node a p) (\<lambda>_. ret i)) t))"
      using slash_post_keeps[OF ok[unfolded s] st[unfolded s fst_conv] eff(2-5)] by (simp add: x t eff(1))
  qed
  then show ?thesis using True by (simp add: SlashNode_def bnd_run[of "check _ _"] check_run)
qed (use ok in \<open>simp add: SlashNode_def bnd_run check_run\<close>)

lemma execute_view:
  assumes "f s = (r, t)"
  obtains u where "ExecuteNodeStateUpdate addrs f s = (r, u)" "names_db (fst u) = names_db (fst t)" "m_nameCounts (snd u) = m_nameCounts (snd t)"
proof -
  obtain q u where ref: "refresh_all (sort (remdups (filter (\<lambda>a. a \<noteq> []) addrs))) t = (q, u)" by (metis surj_pair)
  show ?thesis
    by (rule that[of u]) (use unchanged_run[OF nameless_index(2) ref] assms ref in \<open>simp_all add: ExecuteNodeStateUpdate_def Let_def\<close>)
qed

lemma pending_slash_effect:
  assumes "returns (pending_slash_tx cfg ch parse i now) (d, m) (node, a, j, p) (d', m')" "names_ok (d, m)"
  shows "node \<in> set (d_nodes d)" "a = active node" "d_nodes d' = upd_where (hits node) is_quit (d_nodes d)"
    "d_name_counts d' = moved_counts node (is_quit node) (d_name_counts d)" "m_nameCounts m' = m_nameCounts m" "quiet p"
proof -
  obtain c d1 ps where node: "node \<in> set (d_nodes d)" and q: "returns (slashNodeTx cfg ch node c now) (d, m) (a, j, p) (d1, m')"
    and d': "d' = d1\<lparr> d_pending_slashes := ps \<rparr>"
    using assms(1) by (auto simp: pending_slash_tx_def GetNodeByAddress_def dest!: find_stored)
  show "node \<in> set (d_nodes d)" "a = active node" "d_nodes d' = upd_where (hits node) is_quit (d_nodes d)"
    "d_name_counts d' = moved_counts node (is_quit node) (d_name_counts d)" "m_nameCounts m' = m_nameCounts m" "quiet p"
    using slash_effect[OF q assms(2) node] node d' by simp_all
qed

lemma pending_slash_mem: "unchanged (\<lambda>_. ()) m_nameCounts (pending_slash_tx cfg ch parse i now)"
  unfolding pending_slash_tx_def by (intro frame_intros slash_mem; simp)

lemma pending_slash_keeps:
  assumes ok: "names_ok s"
  shows "names_ok (snd (SlashPendingNode cfg ch parse i now s))"
proof (cases "find (\<lambda>p. ps_ID p = i) (d_pending_slashes (fst s))")
  case (Some row)
  obtain d m where s: "s = (d, m)" by (cases s)
  define f where "f = txn (pending_slash_tx cfg ch parse i now)"
  obtain r t where run: "f s = (r, t)" by (metis surj_pair)
  obtain u where ex: "ExecuteNodeStateUpdate [ps_NodeAddress row] f s = (r, u)"
    and v: "names_db (fst u) = names_db (fst t)" "m_nameCounts (snd u) = m_nameCounts (snd t)"
    by (rule execute_view[of f s r t, OF run])
  have "names_ok (snd (bnd (ExecuteNodeStateUpdate [ps_NodeAddress row] f)
      (\<lambda>(node, a, j, p). bnd (slash_post_commit node a p) (\<lambda>_. ret j)) s))"
  proof (cases r)
    case (Inl e)
    have "names_ok t" using failed_keeps[OF ok run[unfolded f_def Inl] pending_slash_mem] by simp
    then have "names_ok u" using names_ok_view[of t u] v by simp
    then show ?thesis using ex Inl by (simp add: bnd_run)
  next
    case (Inr x)
    obtain node a j p where x: "x = (node, a, j, p)" by (metis surj_pair)
    obtain d' m' where t: "t = (d', m')" by (cases t)
    note eff = pending_slash_effect[OF txn_returns_run[OF run[unfolded f_def Inr x t s]] ok[unfolded s]]
    obtain d2 m2 where u: "u = (d2, m2)" by (cases u)
    have "names_ok (snd (bnd (slash_post_commit node (active node) p) (\<lambda>_. ret j) (d2, m2)))"
      by (rule slash_post_keeps[OF ok[unfolded s] eff(1)]) (use eff v t u in simp_all)
    then show ?thesis using ex Inr x u eff(2) by (simp add: bnd_run[of "ExecuteNodeStateUpdate _ _"])
  qed
  then show ?thesis
    using Some by (simp add: SlashPendingNode_def bnd_run[of "read_db _"] bnd_run[of "of_option _ _"] read_db_run of_option_run f_def)
qed (use ok in \<open>simp add: SlashPendingNode_def bnd_run read_db_run of_option_run\<close>)

text \<open>Joining adds a counted node, as a new row or in place of a row that had quit.\<close>

lemma join_counts_keep:
  assumes ok: "names_ok (d, m)" and dist: "distinct (map n_ID (d_nodes d'))"
    and more: "\<And>nm. active_count (d_nodes d') nm = active_count (d_nodes d) nm + (if nm = name_of row then 1 else 0)"
    and counts: "d_name_counts d' = inc_rows row (d_name_counts d)" and mem: "m_nameCounts m' = m_nameCounts m"
  shows "names_ok (snd (count_delta row 1 (d', m')))"
proof -
  have cok: "counts_ok (d_name_counts d)" and eq: "counted (d_name_counts d) = active_count (d_nodes d)"
    using ok by (simp_all add: names_ok_def)
  have c: "int (counted (d_name_counts d') nm) = int (counted (d_name_counts d) nm) + (if nm = name_of row then 1 else 0)" for nm
    using inc_rows_counted(1)[OF cok, of row nm] by (simp add: counts)
  have "counts_cached (d, m')" using ok mem counts_cached_cong[of "(d, m')" "(d, m)"] by (simp add: names_ok_def)
  from apply_delta_cached[OF this c]
  have "counts_cached (snd (count_delta row 1 (d', m')))"
    using count_delta_view[of row 1 "(d', m')"] by (cases "count_delta row 1 (d', m')") (simp add: count_delta_def)
  moreover have "counted (d_name_counts d') = active_count (d_nodes d')"
  proof (rule ext)
    show "counted (d_name_counts d') nm = active_count (d_nodes d') nm" for nm
      using inc_rows_counted(1)[OF cok, of row nm] more[of nm] eq by (simp add: counts)
  qed
  ultimately show ?thesis
    using dist inc_rows_counted(2)[OF cok, of row] count_delta_view[of row 1 "(d', m')"] by (simp add: names_ok_def counts)
qed

definition may_join :: "Node \<Rightarrow> db \<Rightarrow> bool" where
  "may_join node d \<longleftrightarrow> n_ID node = 0 \<or> (\<exists>r\<in>set (d_nodes d). n_ID r = n_ID node \<and> \<not> active r)"

definition saved_rows :: "Node \<Rightarrow> Node list \<Rightarrow> Node \<times> Node list" where
  "saved_rows node rows =
    (if n_ID node = 0 then (node\<lparr> n_ID := next_id n_ID rows \<rparr>, rows @ [node\<lparr> n_ID := next_id n_ID rows \<rparr>])
     else (node, upd_where (\<lambda>n. n_ID n = n_ID node) (\<lambda>_. node) rows))"

lemma save_run:
  assumes "may_join node d" "n_ID node' = n_ID node"
  shows "node_Save node' (d, m) = (Inr (fst (saved_rows node' (d_nodes d))), (d\<lparr> d_nodes := snd (saved_rows node' (d_nodes d)) \<rparr>, m))"
  using assms by (auto simp: node_Save_def saved_rows_def may_join_def op_simps Let_def)

lemma saved_counts:
  assumes "names_ok (d, m)" "may_join node d" "n_ID node' = n_ID node" "active node'"
  shows "distinct (map n_ID (snd (saved_rows node' (d_nodes d))))"
    "active_count (snd (saved_rows node' (d_nodes d))) nm
      = active_count (d_nodes d) nm + (if nm = name_of (fst (saved_rows node' (d_nodes d))) then 1 else 0)"
proof -
  have dist: "distinct (map n_ID (d_nodes d))" using assms(1) by (simp add: names_ok_def)
  have same: "upd_where (\<lambda>n. n_ID n = n_ID node') (\<lambda>_. node') (d_nodes d) = upd_where (hits r) (\<lambda>_. node') (d_nodes d)"
    if r: "r \<in> set (d_nodes d)" "n_ID r = n_ID node'" for r
  proof -
    have "n = r" if "n \<in> set (d_nodes d)" "n_ID n = n_ID node'" for n
      using dist that r by (metis distinct_map inj_onD)
    then show ?thesis unfolding upd_where_def hits_def by (intro map_cong) (auto simp: r(2))
  qed
  have name: "name_of (node'\<lparr> n_ID := k \<rparr>) = name_of node'" "active (node'\<lparr> n_ID := k \<rparr>) = active node'" for k
    by (simp_all add: name_of_def node_version_def active_def)
  show "distinct (map n_ID (snd (saved_rows node' (d_nodes d))))"
  proof (cases "n_ID node' = 0")
    case True
    have "next_id n_ID (d_nodes d) \<notin> n_ID ` set (d_nodes d)" 
    proof
      assume "next_id n_ID (d_nodes d) \<in> n_ID ` set (d_nodes d)"
      then obtain x where "x \<in> set (d_nodes d)" "next_id n_ID (d_nodes d) = n_ID x" by blast
      then show False using next_id_fresh[of x "d_nodes d" n_ID] by simp
    qed
    then show ?thesis using dist True by (simp add: saved_rows_def)
  next
    case False
    have "map n_ID (upd_where (\<lambda>n. n_ID n = n_ID node') (\<lambda>_. node') (d_nodes d)) = map n_ID (d_nodes d)"
      by (rule upd_where_map) simp
    then show ?thesis using dist False by (simp add: saved_rows_def)
  qed
  show "active_count (snd (saved_rows node' (d_nodes d))) nm
      = active_count (d_nodes d) nm + (if nm = name_of (fst (saved_rows node' (d_nodes d))) then 1 else 0)"
  proof (cases "n_ID node' = 0")
    case False
    then obtain r where r: "r \<in> set (d_nodes d)" "n_ID r = n_ID node'" "\<not> active r" using assms(2,3) by (auto simp: may_join_def)
    show ?thesis
      using length_filter_hit[OF dist r(1), of "\<lambda>n. active n \<and> name_of n = nm" "\<lambda>_. node'"] False r(3) assms(4)
      unfolding saved_rows_def active_count_def same[OF r(1,2)] by (auto split: if_splits)
  qed (use assms(4) in \<open>auto simp: saved_rows_def active_count_def name\<close>)
qed

lemma joined_fields [simp]:
  "n_ID (joined_node node share now) = n_ID node" "active (joined_node node share now)"
  by (simp_all add: joined_node_def active_def IsNodeStatusActiveForNodeNameCount_def)

lemma join_mem: "unchanged (\<lambda>_. ()) m_nameCounts (join_tx cfg node fs ds tot share now)"
  unfolding join_tx_def node_Save_def IncrementNodeNameCountTx_def
  by (intro frame_intros nameless_mem[OF nameless_rows(4)] nameless_mem[OF nameless_replace]
      nameless_mem[OF nameless_rows(2)] nameless_mem[OF nameless_rows(3)]; simp)

lemma join_effect:
  assumes "returns (join_tx cfg node fs ds tot share now) (d, m) row (d', m')" "may_join node d"
  shows "row = fst (saved_rows (joined_node node share now) (d_nodes d))"
    "d_nodes d' = snd (saved_rows (joined_node node share now) (d_nodes d))"
    "d_name_counts d' = inc_rows row (d_name_counts d)" "m_nameCounts m' = m_nameCounts m"
proof -
  define j where "j = saved_rows (joined_node node share now) (d_nodes d)"
  obtain s2 s3 s4 s5 s6 r e where
    sync: "returns (syncNodeDelegationsFromChainTx (n_Address (fst j)) (n_Network (fst j)) ds) (d\<lparr> d_nodes := snd j \<rparr>, m) () s2"
    and repl: "returns (replaceNodeModelFiles cfg (n_Address (fst j)) fs) s2 () s3"
    and clear: "returns (ClearNodeInMemoryModel (n_Address (fst j))) s3 () s4"
    and net: "returns (upsert_network_node r) s4 () s5"
    and fin: "returns (IncrementNodeNameCountTx (fst j)) s5 () s6" "returns (emitEvent e) s6 () (d', m')" "row = fst j"
    using assms(1) save_run[OF assms(2) joined_fields(1), of share now m]
    unfolding join_tx_def returns_bnd[of "node_Save _"] returns_def[of "node_Save _"] j_def[symmetric]
    by (auto elim!: returns_bndE simp del: returns_bnd)
  have v: "names_db (fst s5) = (snd j, d_name_counts d)" "m_nameCounts (snd s5) = m_nameCounts m"
    using unchanged_returns[OF nameless_rows(4) sync] unchanged_returns[OF nameless_replace repl]
      unchanged_returns[OF nameless_rows(2) clear] unchanged_returns[OF nameless_rows(3) net] by simp_all
  have "row = fst j" "d_nodes d' = snd j" "d_name_counts d' = inc_rows row (d_name_counts d)" "m_nameCounts m' = m_nameCounts m"
    using fin v by (auto simp: Increment_rows emitEvent_def)
  then show "row = fst (saved_rows (joined_node node share now) (d_nodes d))"
    "d_nodes d' = snd (saved_rows (joined_node node share now) (d_nodes d))"
    "d_name_counts d' = inc_rows row (d_name_counts d)" "m_nameCounts m' = m_nameCounts m"
    by (simp_all add: j_def)
qed

lemma nameless_join_caches: "nameless (join_caches cfg row ds share now)"
  unfolding join_caches_def by (intro frame_intros; simp)

lemma join_reads_state: "snd (join_reads ch node s) = s"
  by (simp add: join_reads_def HasUnfinishedDelegatedSlashJobForNode_def op_simps split: sum.splits prod.splits)

lemma bnd_call: "bnd (call c) g (d, m) = g () (d, m\<lparr> m_calls := m_calls m @ [c] \<rparr>)"
  by (simp add: call_def op_simps)

lemma join_tx_keeps:
  assumes ok: "names_ok s" and may: "may_join node (fst s)"
  shows "names_ok (snd (bnd (txn (join_tx cfg node fs ds tot share now)) (\<lambda>node.
    bnd (call (c node)) (\<lambda>_. bnd (count_delta node 1) (\<lambda>_. join_caches cfg node ds share now))) s))"
proof (rule txn_keeps[OF ok join_mem])
  fix row t assume ret: "returns (join_tx cfg node fs ds tot share now) s row t"
  obtain d m d' m' where s: "s = (d, m)" and t: "t = (d', m')" by (metis surj_pair)
  note eff = join_effect[OF ret[unfolded s t] may[unfolded s fst_conv]]
  note cnt = saved_counts[OF ok[unfolded s] may[unfolded s fst_conv] joined_fields, of share now]
  define m1 where "m1 = m'\<lparr> m_calls := m_calls m' @ [c row] \<rparr>"
  have "names_ok (snd (count_delta row 1 (d', m1)))"
    by (rule join_counts_keep[OF ok[unfolded s]]) (use eff cnt in \<open>simp_all add: m1_def\<close>)
  moreover obtain r u where u: "join_caches cfg row ds share now (snd (count_delta row 1 (d', m1))) = (r, u)" by (metis surj_pair)
  ultimately have "names_ok u" using nameless_keeps[OF nameless_join_caches _ u] by simp
  then show "names_ok (snd (bnd (call (c row)) (\<lambda>_. bnd (count_delta row 1) (\<lambda>_. join_caches cfg row ds share now)) t))"
    using u by (simp add: t bnd_call bnd_count_delta m1_def)
qed

lemma set_join_keeps:
  assumes "names_ok s" "may_join node (fst s)"
  shows "names_ok (snd (SetNodeStatusJoin cfg ch node fs now s))"
proof -
  obtain r where run: "join_reads ch node s = (r, s)" using join_reads_state[of ch node s] by (metis prod.collapse)
  show ?thesis
    using assms run join_tx_keeps[OF assms]
    by (cases r) (auto simp: SetNodeStatusJoin_def bnd_run[of "join_reads _ _"] split: prod.splits)
qed

lemma adjust_run:
  obtains node' m' where "AdjustNodeQosForJoin cfg node isNew s = (Inr node', (fst s, m'))" "n_ID node' = n_ID node"
    "n_Status node' = n_Status node" "m_nameCounts m' = m_nameCounts (snd s)"
proof (cases "isNew \<or> cfg_RejoinQosLongFloor cfg \<le> CalculateLongTermQos (n_QOSScore node)")
  case True
  show ?thesis by (rule that[of node "snd s"]) (use True in \<open>auto simp: AdjustNodeQosForJoin_def ret_run\<close>)
next
  case False
  show ?thesis
    by (rule that[of "node\<lparr> n_QOSScore := fl64 (cfg_RejoinQosLongFloor cfg * GetMaxQosScore) \<rparr>"
          "(snd s)\<lparr> m_qosPool := AList.delete (n_Address node) (m_qosPool (snd s)) \<rparr>"])
      (use False in \<open>auto simp: AdjustNodeQosForJoin_def resetNodeQosScorePool_def op_simps\<close>)
qed

lemma nameless_keeps_snd: "nameless f \<Longrightarrow> names_ok s \<Longrightarrow> names_ok (snd (f s))"
  by (rule nameless_keeps[OF _ _ surjective_pairing])

definition renamed :: "NodeJoinInput \<Rightarrow> nat \<Rightarrow> nat \<Rightarrow> nat \<Rightarrow> Node \<Rightarrow> Node" where
  "renamed input major minor patch node =
    node\<lparr> n_Network := ji_Network input, n_GPUName := NormalizeGPUName (ji_GPUName input), n_GPUVram := ji_GPUVram input,
      n_MajorVersion := major, n_MinorVersion := minor, n_PatchVersion := patch \<rparr>"

lemma joining_node_run:
  "joining_node input major minor patch s =
    (Inr (case find (\<lambda>n. ji_Address input = [] \<or> n_Address n = ji_Address input) (d_nodes (fst s)) of
       None \<Rightarrow> (True, new_node input major minor patch) | Some n \<Rightarrow> (False, renamed input major minor patch n)), s)"
  by (simp add: joining_node_def GetNodeByAddress_def op_simps renamed_def split: option.splits)

lemma joining_may_join:
  assumes "joining_node input major minor patch s = (Inr (isNew, node), s)" "n_Status node = NodeStatusQuit"
  shows "may_join node (fst s)"
  using assms
  by (cases "find (\<lambda>n. ji_Address input = [] \<or> n_Address n = ji_Address input) (d_nodes (fst s))")
    (auto simp: joining_node_run may_join_def new_node_def renamed_def active_def IsNodeStatusActiveForNodeNameCount_def
      dest!: find_stored)

lemma complete_join_keeps:
  assumes ok: "names_ok s" and may: "may_join node (fst s)"
  shows "names_ok (snd (complete_join cfg ch input fs now node s))"
proof -
  define x where "x = (if ji_Staking input = 0 then EtherToWei (wrap64 (int (cfg_StakeAmount cfg))) else ji_Staking input)"
  define a where "a = ji_Address input"
  have "may_join (node\<lparr> n_StakeAmount := x \<rparr>) (fst s)" using may by (simp add: may_join_def)
  moreover obtain r t where t: "SetNodeStatusJoin cfg ch (node\<lparr> n_StakeAmount := x \<rparr>) fs now s = (r, t)" by (metis surj_pair)
  ultimately have okt: "names_ok t" using set_join_keeps[OF ok, of _ cfg ch fs now] by (metis snd_conv)
  obtain q u where u: "try_catch (refreshNodeIndexLocked a) (\<lambda>_. ret ()) t = (q, u)" by (metis surj_pair)
  have "names_ok (snd (try_catch (refreshNodeIndexLocked a) (\<lambda>_. ret ()) t))"
    by (rule nameless_keeps_snd[OF _ okt]) (intro frame_intros)
  then have oku: "names_ok u" using u by simp
  have "names_ok (snd (call c u))" for c by (rule nameless_keeps_snd[OF _ oku]) (intro frame_intros; simp)
  then show ?thesis using t u oku
    by (cases r; cases q) (simp_all add: complete_join_def x_def[symmetric] a_def[symmetric] bnd_run[of "try_catch _ _"]
        bnd_run[of "SetNodeStatusJoin _ _ _ _ _"] try_catch_run[of "bnd _ _"] ret_run raise_run)
qed

lemma join_keeps:
  assumes ok: "names_ok s"
  shows "names_ok (snd (NodeJoin cfg ch sha256 signer input now s))"
proof -
  have signed: "names_ok (snd (bnd (check_signer signer (ji_Address input)) (\<lambda>_. g) s))" if "names_ok (snd (g s))" for g
    using ok that by (cases signer) (auto simp: check_signer_def bnd_run raise_run check_run)
  have joining: "names_ok (snd (bnd (joining_node input a b c) (\<lambda>(isNew, node).
      bnd (check (n_Status node = NodeStatusQuit) e) (\<lambda>_. bnd (AdjustNodeQosForJoin cfg node isNew) (complete_join cfg ch input fs now))) s))"
    for a b c e fs
  proof -
    obtain isNew node where join: "joining_node input a b c s = (Inr (isNew, node), s)"
      by (cases "find (\<lambda>n. ji_Address input = [] \<or> n_Address n = ji_Address input) (d_nodes (fst s))") (auto simp: joining_node_run)
    obtain node' m' where adj: "AdjustNodeQosForJoin cfg node isNew s = (Inr node', (fst s, m'))" "n_ID node' = n_ID node"
      "m_nameCounts m' = m_nameCounts (snd s)" by (rule adjust_run)
    have "names_ok (fst s, m')" using names_ok_view[OF ok, of "(fst s, m')"] adj by simp
    then have "names_ok (snd (complete_join cfg ch input fs now node' (fst s, m')))" if "n_Status node = NodeStatusQuit"
      using complete_join_keeps joining_may_join[OF join that] adj(2) by (simp add: may_join_def)
    then show ?thesis
      using ok join adj(1) by (cases "n_Status node = NodeStatusQuit")
        (simp_all add: bnd_run[of "joining_node _ _ _ _"] bnd_run[of "check _ _"] bnd_run[of "AdjustNodeQosForJoin _ _ _"] check_run)
  qed
  show ?thesis
    unfolding NodeJoin_def using ok joining
    by (intro signed) (auto simp: bnd_run[of "of_sum _"] of_sum_run split: sum.splits prod.splits)
qed

section \<open>The counts the relay answers with\<close>

lemma count_updates:
  "map_of (foldl (\<lambda>cache e. AList.update (count_key e) (nc_ActiveCount e) cache) idx rows) =
     map_of idx ++ map_of (rev (map (\<lambda>e. (count_key e, nc_ActiveCount e)) rows))"
  by (induction rows arbitrary: idx) (auto simp: AList.update_conv')

lemma count_key_iff:
  "nc_NodeVersion e = BuildNodeVersion x y z \<Longrightarrow>
   count_key e = BuildNodeNameKey g v (BuildNodeVersion a b c) \<longleftrightarrow> row_name e = (g, v, BuildNodeVersion a b c)"
  by (simp add: count_key_def row_name_def)

lemma counted_lookup:
  assumes "distinct (map row_name rows)" "\<And>e. e \<in> set rows \<Longrightarrow> \<exists>a b c. nc_NodeVersion e = BuildNodeVersion a b c"
  shows "(case map_of (rev (map (\<lambda>e. (count_key e, nc_ActiveCount e)) rows)) (BuildNodeNameKey g v (BuildNodeVersion a b c)) of
      None \<Rightarrow> 0 | Some n \<Rightarrow> n) = counted rows (g, v, BuildNodeVersion a b c)"
  using assms
proof (induction rows)
  case (Cons e rows)
  obtain x y z where ver: "nc_NodeVersion e = BuildNodeVersion x y z" using Cons.prems(2)[of e] by auto
  note key = count_key_iff[OF ver, of g v a b c]
  have IH: "(case map_of (rev (map (\<lambda>e. (count_key e, nc_ActiveCount e)) rows)) (BuildNodeNameKey g v (BuildNodeVersion a b c)) of
      None \<Rightarrow> 0 | Some n \<Rightarrow> n) = counted rows (g, v, BuildNodeVersion a b c)"
    using Cons by simp
  show ?case
  proof (cases "row_name e = (g, v, BuildNodeVersion a b c)")
    case True
    then have absent: "(g, v, BuildNodeVersion a b c) \<notin> row_name ` set rows" using Cons.prems(1) by force
    have ne: "BuildNodeNameKey g v (BuildNodeVersion a b c) \<noteq> count_key e'" if e': "e' \<in> set rows" for e'
    proof -
      obtain x' y' z' where "nc_NodeVersion e' = BuildNodeVersion x' y' z'" using Cons.prems(2)[of e'] e' by auto
      then show ?thesis using count_key_iff[of e' x' y' z' g v a b c] absent e' by (metis imageI)
    qed
    have "map_of (rev (map (\<lambda>e. (count_key e, nc_ActiveCount e)) rows)) (BuildNodeNameKey g v (BuildNodeVersion a b c)) = None"
      unfolding map_of_eq_None_iff by (simp add: image_iff) (use ne in blast)
    then show ?thesis using True key counted_absent[OF absent] by (simp add: map_add_def)
  next
    case False
    then have "BuildNodeNameKey g v (BuildNodeVersion a b c) \<noteq> count_key e" using key by simp
    then show ?thesis using IH False by (simp add: map_add_def split: option.splits)
  qed
qed simp

lemma counted_versions:
  assumes "names_ok s" "e \<in> set (d_name_counts (fst s))"
  shows "\<exists>a b c. nc_NodeVersion e = BuildNodeVersion a b c"
proof -
  have "0 < counted (d_name_counts (fst s)) (row_name e)"
    using assms counted_pos[of "d_name_counts (fst s)" "row_name e"] by (simp add: names_ok_def)
  then have "0 < active_count (d_nodes (fst s)) (row_name e)" using assms(1) by (simp add: names_ok_def)
  then obtain n where "name_of n = row_name e" by (auto simp: active_count_def filter_empty_conv)
  then have "nc_NodeVersion e = BuildNodeVersion (n_MajorVersion n) (n_MinorVersion n) (n_PatchVersion n)"
    by (simp add: name_of_def row_name_def node_version_def)
  then show ?thesis by blast
qed

lemma refresh_counts_keeps: "names_ok s \<Longrightarrow> names_ok (snd (RefreshNodeNameCountCache s))"
proof -
  assume ok: "names_ok s"
  have "distinct (map row_name (d_name_counts (fst s)))" using ok by (simp add: names_ok_def counts_ok_def)
  note look = counted_lookup[OF this counted_versions[OF ok]]
  show ?thesis using ok look
    by (simp add: names_ok_def RefreshNodeNameCountCache_def op_simps counts_cached_def count_updates)
qed

lemma ensure_counts_keeps: "names_ok s \<Longrightarrow> names_ok (snd (ensureNodeNameCountCacheLoaded s))"
  using refresh_counts_keeps by (cases "m_nameCounts (snd s)") (simp_all add: ensureNodeNameCountCacheLoaded_def op_simps)

lemma active_count_answer:
  assumes ok: "names_ok s" and ret: "returns (GetNodeNameActiveCount gpu vram ver) s k s'"
  shows "names_ok s' \<and> (\<exists>e. NormalizeNodeNameEntry gpu vram ver = Inr e \<and>
    k = active_count (d_nodes (fst s)) (nw_GPUName e, nw_GPUVram e, nw_NodeVersion e))"
proof -
  obtain e where e: "NormalizeNodeNameEntry gpu vram ver = Inr e" using ret by (auto simp: GetNodeNameActiveCount_def)
  obtain a b c where ver: "nw_NodeVersion e = BuildNodeVersion a b c"
    using e by (auto simp: NormalizeNodeNameEntry_def Let_def split: if_splits sum.splits)
  define t where "t = snd (ensureNodeNameCountCacheLoaded s)"
  have okt: "names_ok t" using ensure_counts_keeps[OF ok] by (simp add: t_def)
  have run: "ensureNodeNameCountCacheLoaded s = (Inr (), t)" "fst t = fst s" "m_nameCounts (snd t) \<noteq> None"
    by (cases "m_nameCounts (snd s)"; simp add: t_def ensureNodeNameCountCacheLoaded_def RefreshNodeNameCountCache_def op_simps)+
  obtain counts where counts: "m_nameCounts (snd t) = Some counts" using run(3) by blast
  have "k = (case map_of counts (whitelist_key e) of None \<Rightarrow> 0 | Some c \<Rightarrow> c)" and s': "s' = t"
    using ret run(1) counts by (auto simp: GetNodeNameActiveCount_def e returns_def bnd_run of_sum_run read_mem_run)
  then have "k = counted (d_name_counts (fst t)) (nw_GPUName e, nw_GPUVram e, nw_NodeVersion e)"
    using okt counts by (auto simp: names_ok_def counts_cached_def whitelist_key_def ver)
  then show ?thesis using okt run(2) s' e by (simp add: names_ok_def)
qed

text \<open>The requests that reach the life of a node; each reads the node it works on from the database.\<close>

datatype node_request =
    RequestJoin NodeJoinInput
  | RequestPause address
  | RequestResume address
  | RequestQuit address
  | RequestStart address string
  | RequestFinish address
  | RequestSlash address string
  | RequestSlashPending nat
  | RequestCount string nat string

record node_env =
  env_cfg :: AppConfig
  env_chain :: chain_reads
  env_exp :: "float64 \<Rightarrow> float64"
  env_sha256 :: "bytes \<Rightarrow> bytes"
  env_parse :: "string \<Rightarrow> go_error + unit"

fun node_step :: "node_env \<Rightarrow> time \<Rightarrow> node_request \<Rightarrow> nat relay" where
  "node_step env now (RequestJoin input) =
    bnd (NodeJoin (env_cfg env) (env_chain env) (env_sha256 env) (Some (ji_Address input)) input now) (\<lambda>_. ret 0)"
| "node_step env now (RequestPause a) = bnd (NodePause (Some a) a) (\<lambda>_. ret 0)"
| "node_step env now (RequestResume a) = bnd (NodeResume (Some a) a) (\<lambda>_. ret 0)"
| "node_step env now (RequestQuit a) = bnd (NodeQuit (env_cfg env) (env_chain env) (Some a) a) (\<lambda>_. ret 0)"
| "node_step env now (RequestStart a c) =
    bnd (GetNodeByAddress a) (\<lambda>node. bnd (nodeStartTask (env_exp env) (env_cfg env) node c now) (\<lambda>_. ret 0))"
| "node_step env now (RequestFinish a) =
    bnd (GetNodeByAddress a) (\<lambda>node. bnd (nodeFinishTask (env_cfg env) (env_chain env) node) (\<lambda>_. ret 0))"
| "node_step env now (RequestSlash a c) =
    bnd (GetNodeByAddress a) (\<lambda>node. SlashNode (env_cfg env) (env_chain env) node c now)"
| "node_step env now (RequestSlashPending i) = SlashPendingNode (env_cfg env) (env_chain env) (env_parse env) i now"
| "node_step env now (RequestCount g v ver) = GetNodeNameActiveCount g v ver"

inductive node_reach :: "node_env \<Rightarrow> state \<Rightarrow> bool" for env where
  node_start: "m_nameCounts m = None \<Longrightarrow> node_reach env (empty_db, m)"
| node_next: "node_reach env s \<Longrightarrow> node_reach env (snd (node_step env now req s))"

lemma bnd_ret_state: "snd (bnd f (\<lambda>_. ret a) s) = snd (f s)"
  by (simp add: bnd_run ret_run split: prod.splits sum.splits)

lemma get_node_bnd_keeps:
  assumes "names_ok s" "\<And>node. node \<in> set (d_nodes (fst s)) \<Longrightarrow> names_ok (snd (g node s))"
  shows "names_ok (snd (bnd (GetNodeByAddress a) g s))"
  using assms by (auto simp: GetNodeByAddress_def op_simps dest: find_stored split: option.splits)

lemma ask_keeps: "names_ok s \<Longrightarrow> names_ok (snd (GetNodeNameActiveCount g v ver s))"
proof -
  assume ok: "names_ok s"
  obtain r t where run: "ensureNodeNameCountCacheLoaded s = (r, t)" by (metis surj_pair)
  then show ?thesis
    using ok ensure_counts_keeps[OF ok]
    by (cases "NormalizeNodeNameEntry g v ver"; cases r)
      (simp_all add: GetNodeNameActiveCount_def bnd_run of_sum_run read_mem_run)
qed

lemma node_step_keeps: "names_ok s \<Longrightarrow> names_ok (snd (node_step env now req s))"
  by (cases req)
    (auto simp: bnd_ret_state intro!: get_node_bnd_keeps
      intro: join_keeps pause_keeps resume_keeps quit_keeps start_keeps finish_keeps slash_keeps_names pending_slash_keeps ask_keeps)

lemma node_reach_names: "node_reach env s \<Longrightarrow> names_ok s"
proof (induction rule: node_reach.induct)
  case (node_start m)
  have "counted [] = active_count []" by (rule ext) (simp add: active_count_def)
  then show ?case using node_start by (simp add: names_ok_def empty_db_def counts_ok_def counts_cached_def)
next
  case (node_next s now req)
  show ?case by (rule node_step_keeps) fact
qed


definition sample_chain_reads :: chain_reads where
  "sample_chain_reads =
    \<lparr> ch_getStakingInfo = (\<lambda>_ _. Inr \<lparr> si_StakedBalance = 400, si_Status = 1 \<rparr>), ch_getNodeDelegatorShare = (\<lambda>_ _. Inr 0),
      ch_getNodeStakingInfos = (\<lambda>_ _. Inr ([], [])), ch_Pack = (\<lambda>m a. Inr (m @ a)) \<rparr>"

definition sample_env :: node_env where
  "sample_env = \<lparr> env_cfg = sample_cfg, env_chain = sample_chain_reads, env_exp = sample_exp, env_sha256 = id,
     env_parse = (\<lambda>_. Inr ()) \<rparr>"

definition sample_join :: NodeJoinInput where
  "sample_join = \<lparr> ji_Network = ''n'', ji_Address = ''a'', ji_GPUName = ''G'', ji_GPUVram = 8, ji_Version = ''3.6.4'',
     ji_ModelFiles = [], ji_Staking = 400 \<rparr>"

text \<open>A first node that reports no files joins an empty relay.\<close>

lemma first_join_tx:
  assumes "n_ID node = 0" "\<not> cfg_ModelWhitelistEnabled cfg"
  shows "\<exists>d' row. join_tx cfg node [] [] tot share now (empty_db, m) = (Inr row, (d', m)) \<and> d_nodes d' = [row]"
proof -
  have may: "may_join node empty_db" using assms(1) by (simp add: may_join_def)
  define j where "j = saved_rows (joined_node node share now) []"
  have j: "snd j = [fst j]" using assms(1) by (simp add: j_def saved_rows_def)
  have save: "node_Save (joined_node node share now) (empty_db, m) = (Inr (fst j), (empty_db\<lparr> d_nodes := [fst j] \<rparr>, m))"
    using save_run[OF may joined_fields(1), of share now m] j by (simp add: j_def empty_db_def)
  have repl: "replaceNodeModelFiles cfg a [] s = (Inr (), s)" if "d_node_models (fst s) = []" "d_selections (fst s) = []" for a s
    using that assms(2)
    by (simp add: replaceNodeModelFiles_def filterWhitelistedModelFiles_def modelFileHashes_def modelFileSourceHashes_def
        GetNodeModelsByNodeAddress_def DeleteNodeModelsByFileHashes_def pruneUncoveredSelections_def op_simps Let_def)
  have e: "d_node_models empty_db = []" "d_selections empty_db = []" by (simp_all add: empty_db_def)
  show ?thesis
    by (simp add: e join_tx_def bnd_run save syncNodeDelegationsFromChainTx_def repl ClearNodeInMemoryModel_def
        upsert_network_node_def Increment_rows emitEvent_def write_db_run ret_run)
qed

lemma first_join_rows:
  assumes "n_ID node = 0" "\<not> cfg_ModelWhitelistEnabled cfg" "join_reads ch node (empty_db, m) = (Inr ([], tot, share), (empty_db, m))"
  shows "d_nodes (fst (snd (SetNodeStatusJoin cfg ch node [] now (empty_db, m)))) = [fst (saved_rows (joined_node node share now) [])]"
proof -
  obtain d' row where tx: "join_tx cfg node [] [] tot share now (empty_db, m) = (Inr row, (d', m))" "d_nodes d' = [row]"
    using first_join_tx[OF assms(1,2)] by blast
  have row: "row = fst (saved_rows (joined_node node share now) (d_nodes empty_db))"
    by (rule join_effect(1)[of cfg node "[]" "[]" tot share now empty_db m row d' m])
      (use tx(1) assms(1) in \<open>simp_all add: returns_def may_join_def\<close>)
  define t where "t = snd (count_delta row 1 (d', m\<lparr> m_calls := m_calls m @ [RecordNodeQosTrace (n_Address row) [] ''node_join_health_reset''] \<rparr>))"
  have t: "fst t = d'" using count_delta_view by (simp add: t_def)
  obtain r u where u: "join_caches cfg row [] share now t = (r, u)" by (metis surj_pair)
  have "d_nodes (fst u) = [row]" using unchanged_run[OF nameless_join_caches u] t tx(2) by simp
  moreover have "SetNodeStatusJoin cfg ch node [] now (empty_db, m) = (r, u)"
    using tx(1) u by (simp add: SetNodeStatusJoin_def bnd_run[of "join_reads _ _"] assms(3) bnd_run[of "txn _"] txn_run bnd_call bnd_count_delta t_def)
  ultimately show ?thesis using row by (simp add: empty_db_def)
qed

definition sample_joined :: state where
  "sample_joined = snd (node_step sample_env 0 (RequestJoin sample_join) (empty_db, empty_mem))"

lemmas text_eval = NormalizeNodeNameEntry_def NormalizeGPUName_def Fields.simps is_space_def TrimSpace_def Let_def
  ParseNodeVersion_def parse_versions_def ParseUint_def is_digit_def digit_val_def BuildNodeVersion_def FormatUint.simps

definition sample_row :: Node where
  "sample_row = fst (saved_rows (joined_node ((new_node sample_join 3 6 4)\<lparr> n_StakeAmount := 400 \<rparr>) 0 0) [])"

lemma sample_joined_rows: "d_nodes (fst sample_joined) = [sample_row]"
proof -
  define node where "node = (new_node sample_join 3 6 4)\<lparr> n_StakeAmount := 400 \<rparr>"
  have ver: "parse_versions ''3.6.4'' = Inr (3, 6, 4)" by (simp add: text_eval)
  have n: "n_ID node = 0" by (simp add: node_def new_node_def)
  have reads: "join_reads sample_chain_reads node (empty_db, empty_mem) = (Inr ([], 400, 0), (empty_db, empty_mem))"
    by (simp add: join_reads_def sample_chain_reads_def HasUnfinishedDelegatedSlashJobForNode_def op_simps normalizeChainDelegations_def
        empty_db_def node_def new_node_def)
  have wl: "\<not> cfg_ModelWhitelistEnabled sample_cfg" by (simp add: sample_cfg_def)
  obtain r t where set: "SetNodeStatusJoin sample_cfg sample_chain_reads node [] 0 (empty_db, empty_mem) = (r, t)" by (metis surj_pair)
  have row: "d_nodes (fst t) = [sample_row]"
    using first_join_rows[OF n wl reads, of 0] set by (simp add: sample_row_def node_def)
  define rest where "rest = (\<lambda>failure. bnd (try_catch (refreshNodeIndexLocked ''a'') (\<lambda>_. ret ())) (\<lambda>_.
        bnd (case failure of None \<Rightarrow> ret () | Some e \<Rightarrow> raise e) (\<lambda>_. call (RecordNodeQosTrace ''a'' [] ''node_rejoin_qos_floor''))))"
  have "nameless (rest failure)" for failure unfolding rest_def by (intro frame_intros; simp)
  then have rest: "d_nodes (fst (snd (rest failure t))) = d_nodes (fst t)" for failure
    using unchanged_run[of names_db m_nameCounts "rest failure" t] by (metis Pair_inject prod.collapse)
  have "snd (NodeJoin sample_cfg sample_chain_reads id (Some ''a'') sample_join 0 (empty_db, empty_mem)) =
      snd (rest (case r of Inl e \<Rightarrow> Some e | Inr _ \<Rightarrow> None) t)"
  proof -
    have a: "ji_Address sample_join = ''a''" "ji_ModelFiles sample_join = []" "ji_Version sample_join = ''3.6.4''" "ji_Staking sample_join = 400"
      by (simp_all add: sample_join_def)
    have join: "joining_node sample_join 3 6 4 (empty_db, empty_mem) = (Inr (True, new_node sample_join 3 6 4), (empty_db, empty_mem))"
      by (simp add: joining_node_run empty_db_def)
    have held: "BuildHeldModelFiles id [] = Inr []" by (simp add: BuildHeldModelFiles_def)
    have st: "n_Status (new_node sample_join 3 6 4) = NodeStatusQuit" by (simp add: new_node_def)
    show ?thesis
      unfolding NodeJoin_def check_signer_def complete_join_def a held ver rest_def AdjustNodeQosForJoin_def Let_def
      using set[unfolded node_def] join st by (cases r) (simp_all add: bnd_run[of "joining_node _ _ _ _"] bnd_run[of "try_catch (bnd _ _) _"]
        bnd_run[of "SetNodeStatusJoin _ _ _ _ _"] try_catch_run[of "bnd _ _"] ret_run bnd_run[of "check _ _"] check_run
        bnd_run[of "of_sum _"] of_sum_run)
  qed
  then show ?thesis
    using row rest by (simp add: sample_joined_def sample_env_def bnd_ret_state sample_join_def)
qed


section \<open>A version update strands an active node\<close>

lemma quit_needs_count:
  assumes "returns (setNodeStatusQuitTx cfg ch node slashed) (d, m) x t" "counts_ok (d_name_counts d)" "active node"
  shows "0 < counted (d_name_counts d) (name_of node)"
proof -
  obtain u s1 where clear: "returns (clearNodeModelState (n_Address node)) (d, m) u s1"
    and rest: "returns (bnd (node_Update_status node is_quit) (\<lambda>node'.
      bnd (if active node then DecrementNodeNameCountTx node' else ret ()) (\<lambda>_.
      bnd (quit_chain_tx cfg ch node' slashed) (\<lambda>txID. ret (active node, txID))))) s1 x t"
    using assms(1) unfolding setNodeStatusQuitTx_def Let_def active_def[symmetric] by (rule returns_bndE) blast
  obtain d1 m1 where s1: "s1 = (d1, m1)" by (cases s1)
  have c1: "d_name_counts d1 = d_name_counts d" using unchanged_returns[OF nameless_rows(1) clear] s1 by simp
  obtain n2 s2 s3 where upd: "returns (node_Update_status node is_quit) (d1, m1) n2 s2"
    and dec: "returns (DecrementNodeNameCountTx n2) s2 () s3"
    using rest assms(3) unfolding s1 by (auto elim!: returns_bndE simp del: returns_bnd)
  have n2: "n2 = is_quit node" "d_name_counts (fst s2) = d_name_counts d"
    using upd c1 by (auto simp: node_Update_status_def split: if_splits)
  then show ?thesis
    using dec assms(2) by (auto simp: returns_def Decrement_run split: if_splits)
qed

lemma version_run:
  assumes "parse_versions ver = Inr (a, b, c)" "node \<in> set (d_nodes d)" "n_Address node = addr"
  obtains m' where "UpdateNodeVersion (Some addr) addr ver (d, m) =
    (Inr (), (d\<lparr> d_nodes := upd_where (\<lambda>n. n_Address n = addr) (set_version a b c) (d_nodes d) \<rparr>, m'))"
    "m_nameCounts m' = m_nameCounts m"
proof -
  define f where "f = bnd (read_db (\<lambda>d. length (filter (\<lambda>n. n_Address n = addr) (d_nodes d)))) (\<lambda>rows.
    bnd (write_db (\<lambda>d. d\<lparr> d_nodes := upd_where (\<lambda>n. n_Address n = addr) (set_version a b c) (d_nodes d) \<rparr>)) (\<lambda>_. ret rows))"
  define d' where "d' = d\<lparr> d_nodes := upd_where (\<lambda>n. n_Address n = addr) (set_version a b c) (d_nodes d) \<rparr>"
  define k where "k = length (filter (\<lambda>n. n_Address n = addr) (d_nodes d))"
  have k: "k \<noteq> 0" using assms(2,3) by (auto simp: k_def filter_empty_conv)
  have f: "f (d, m) = (Inr k, (d', m))" by (simp add: f_def op_simps d'_def k_def)
  obtain idx where ex: "ExecuteNodeStateUpdate [addr] f (d, m) = (Inr k, (d', m\<lparr> m_nodeIndex := idx \<rparr>))"
    using execute_run[of f "(d, m)" "Inr k" "(d', m)" "[addr]"] f by auto
  show ?thesis
  proof (rule that[of "m\<lparr> m_nodeIndex := idx \<rparr>"])
    show "UpdateNodeVersion (Some addr) addr ver (d, m) = (Inr (),
        (d\<lparr> d_nodes := upd_where (\<lambda>n. n_Address n = addr) (set_version a b c) (d_nodes d) \<rparr>, m\<lparr> m_nodeIndex := idx \<rparr>))"
      using k ex unfolding UpdateNodeVersion_def f_def
      by (simp add: check_signer_def assms(1) bnd_run[of "check _ _"] bnd_run[of "of_sum _"] bnd_run[of "ExecuteNodeStateUpdate _ _"] check_run of_sum_run d'_def)
  qed simp
qed

lemma pause_missing:
  assumes "find (\<lambda>n. n_Address n = addr) (d_nodes d) = Some node" "addr \<noteq> []" "n_Status node = NodeStatusAvailable" "n_ID node \<noteq> 0"
    "counts_ok (d_name_counts d)" "counted (d_name_counts d) (name_of node) = 0"
  shows "fst (NodePause (Some addr) addr (d, m)) = Inl ErrNodeNameCountEntryMissing"
    "fst (snd (NodePause (Some addr) addr (d, m))) = d"
proof -
  have st: "node \<in> set (d_nodes d)" using assms(1) by (rule find_stored)
  define paused where "paused = (\<lambda>n :: Node. n\<lparr> n_Status := NodeStatusPaused \<rparr>)"
  have "txn (bnd (node_Update_status node paused) DecrementNodeNameCountTx) (d, m) = (Inl ErrNodeNameCountEntryMissing, (d, m))"
    using assms(4-6) by (simp add: txn_run bnd_run update_status_run[OF st] Decrement_run paused_def)
  then have once: "pause_once node (d, m) = (Inl ErrNodeNameCountEntryMissing, (d, m))"
    by (simp add: pause_once_def assms(3) bnd_run[of "attempt _"] attempt_run paused_def)
  have "retry 3 pause_once node (d, m) = (Inl ErrNodeNameCountEntryMissing, (d, m))"
    by (simp add: numeral_3_eq_3 bnd_run once)
  then obtain idx where "ExecuteNodeStateUpdate [addr] (retry 3 pause_once node) (d, m) = (Inl ErrNodeNameCountEntryMissing, (d, m\<lparr> m_nodeIndex := idx \<rparr>))"
    using execute_run[of "retry 3 pause_once node" "(d, m)" _ "(d, m)" "[addr]"] by auto
  moreover have "find_node addr (d, m) = (Inr node, (d, m))" using assms(1,2) by (simp add: find_node_run)
  ultimately show "fst (NodePause (Some addr) addr (d, m)) = Inl ErrNodeNameCountEntryMissing"
    "fst (snd (NodePause (Some addr) addr (d, m))) = d"
    by (simp_all add: NodePause_def check_signer_def bnd_run check_run)
qed

lemma slash_missing:
  assumes "active node" "counts_ok (d_name_counts d)" "counted (d_name_counts d) (name_of node) = 0"
  shows "\<exists>e m'. SlashNode cfg ch node c now (d, m) = (Inl e, (d, m'))"
proof -
  have "\<not> returns (slashNodeTx cfg ch node c now) (d, m) x t" for x t
  proof
    assume "returns (slashNodeTx cfg ch node c now) (d, m) x t"
    then obtain p s1 y u where abort: "returns (abortNodeCurrentTaskForSlash cfg node now) (d, m) p s1"
      and quit: "returns (setNodeStatusQuitTx cfg ch node True) s1 y u"
      unfolding slashNodeTx_def by (elim returns_bndE) blast
    have "d_name_counts (fst s1) = d_name_counts d" using unchanged_returns[OF nameless_abort abort] by simp
    then show False using quit_needs_count[of cfg ch node True "fst s1" "snd s1"] quit assms by simp
  qed
  then obtain e t where "slashNodeTx cfg ch node c now (d, m) = (Inl e, t)"
    unfolding returns_def by (metis surj_pair sum.exhaust)
  then show ?thesis using assms(1)
    by (auto simp: SlashNode_def bnd_run check_run txn_run active_def IsNodeStatusActiveForNodeNameCount_def)
qed



end
