(* ===== verification/TaskDeadline.thy ===== *)
theory TaskDeadline
  imports State "HOL-Library.Product_Lexorder"
begin

text \<open>
  Deadlines of tasks (\<^verbatim>\<open>service/start_task.go\<close>): which deadline a task has in each status, whose delay it
  bounds and why the task is aborted when it passes, and the queries that find the tasks whose deadline has
  passed.  A number of seconds becomes a \<^verbatim>\<open>time.Duration\<close> by a conversion and a multiplication that both wrap
  at 64 bits.  The lemmas show that the paged queries return exactly the timed out tasks, that a deadline is
  the sum it reads as while nothing wraps, and that the cursor of the deadline scan passes every due task.
\<close>

section \<open>Deadlines\<close>

datatype TaskTimeoutPhase =
    TaskTimeoutPhaseQueue
  | TaskTimeoutPhaseExecution
  | TaskTimeoutPhaseAppValidation
  | TaskTimeoutPhaseResultUpload
  | TaskTimeoutPhaseSDFT

definition UsesRelayOwnedTimeouts :: "InferenceTask \<Rightarrow> bool" where
  "UsesRelayOwnedTimeouts task \<longleftrightarrow> t_TaskType task = TaskTypeSD \<or> t_TaskType task = TaskTypeLLM"

definition ResolveQueueTimeout :: "AppConfig \<Rightarrow> TaskType \<Rightarrow> nat option \<Rightarrow> go_error + nat" where
  "ResolveQueueTimeout cfg taskType requested =
    (if taskType = TaskTypeSDFTLora then if requested \<noteq> None then Inl ErrQueueTimeoutNotAllowed else Inr 0
     else if \<not> (taskType = TaskTypeSD \<or> taskType = TaskTypeLLM)
     then if requested \<noteq> None then Inl ErrQueueTimeoutNotAllowed else Inr 0
     else case requested of
       None \<Rightarrow> Inr (cfg_DefaultQueueTimeoutSeconds cfg)
     | Some r \<Rightarrow> if r = 0 then Inl ErrQueueTimeoutZero
                 else if r > cfg_MaxQueueTimeoutSeconds cfg then Inl ErrQueueTimeoutTooLarge
                 else Inr r)"

text \<open>\<^verbatim>\<open>time.Duration(x) * time.Second\<close>\<close>

definition duration_seconds :: "nat \<Rightarrow> duration" where
  "duration_seconds x = wrap64 (wrap64 (int x) * time_Second)"

definition GetQueueDeadline :: "AppConfig \<Rightarrow> InferenceTask \<Rightarrow> time option" where
  "GetQueueDeadline cfg task =
    (case t_CreateTime task of
       None \<Rightarrow> None
     | Some created \<Rightarrow>
        if t_TaskType task = TaskTypeSDFTLora
        then Some (created + wrap64 (3 * time_Minute + duration_seconds (t_Timeout task)))
        else if \<not> UsesRelayOwnedTimeouts task then None
        else (let seconds = (if t_QueueTimeout task = 0 then cfg_DefaultQueueTimeoutSeconds cfg else t_QueueTimeout task)
              in Some (created + duration_seconds seconds)))"

record task_deadline =
  dl_at :: time
  dl_phase :: TaskTimeoutPhase
  dl_actor :: string
  dl_reason :: TaskAbortReason

abbreviation deadline_after :: "time option \<Rightarrow> nat \<Rightarrow> TaskTimeoutPhase \<Rightarrow> string \<Rightarrow> TaskAbortReason \<Rightarrow> task_deadline option" where
  "deadline_after since seconds phase actor reason \<equiv>
    map_option (\<lambda>t. \<lparr> dl_at = t + duration_seconds seconds, dl_phase = phase, dl_actor = actor, dl_reason = reason \<rparr>) since"

text \<open>The five results of \<^verbatim>\<open>GetTaskDeadline\<close>: \<^verbatim>\<open>None\<close> is \<^verbatim>\<open>ok = false\<close> with the others zero.\<close>

definition GetTaskDeadline :: "AppConfig \<Rightarrow> InferenceTask \<Rightarrow> task_deadline option" where
  "GetTaskDeadline cfg task =
    (if t_Status task = TaskQueued
     then map_option (\<lambda>d. \<lparr> dl_at = d,
            dl_phase = (if UsesRelayOwnedTimeouts task then TaskTimeoutPhaseQueue else TaskTimeoutPhaseSDFT),
            dl_actor = ''relay'', dl_reason = TaskAbortTimeout \<rparr>) (GetQueueDeadline cfg task)
     else if \<not> UsesRelayOwnedTimeouts task
     then if t_TaskType task \<noteq> TaskTypeSDFTLora then None
          else if t_Status task \<in> {TaskStarted, TaskParametersUploaded, TaskErrorReported, TaskScoreReady, TaskValidated, TaskGroupValidated}
          then deadline_after (t_StartTime task) (t_Timeout task) TaskTimeoutPhaseSDFT ''node_or_creator'' TaskAbortTimeout
          else None
     else if t_Status task \<in> {TaskStarted, TaskParametersUploaded}
     then deadline_after (t_StartTime task) (t_Timeout task) TaskTimeoutPhaseExecution ''node'' TaskAbortTimeout
     else if t_Status task \<in> {TaskScoreReady, TaskErrorReported}
     then deadline_after (t_ScoreReadyTime task) (cfg_AppValidationTimeoutSeconds cfg) TaskTimeoutPhaseAppValidation ''app''
            TaskAbortCreatorValidationTimeout
     else if t_Status task \<in> {TaskValidated, TaskGroupValidated}
     then deadline_after (t_ValidatedTime task) (cfg_ResultUploadTimeoutSeconds cfg) TaskTimeoutPhaseResultUpload ''node''
            TaskAbortResultUploadTimeout
     else None)"

definition timed_out :: "AppConfig \<Rightarrow> InferenceTask \<Rightarrow> time \<Rightarrow> bool" where
  "timed_out cfg task now = (case GetTaskDeadline cfg task of None \<Rightarrow> False | Some d \<Rightarrow> \<not> dl_at d > now)"

definition isQueuedTaskTimedOut :: "AppConfig \<Rightarrow> InferenceTask \<Rightarrow> time \<Rightarrow> bool" where
  "isQueuedTaskTimedOut cfg task now \<longleftrightarrow> t_Status task = TaskQueued \<and> timed_out cfg task now"

definition isRunningTaskTimedOut :: "AppConfig \<Rightarrow> InferenceTask \<Rightarrow> time \<Rightarrow> bool" where
  "isRunningTaskTimedOut cfg task now \<longleftrightarrow> t_Status task \<noteq> TaskQueued \<and> timed_out cfg task now"

section \<open>Paged queries\<close>

definition pageSize :: nat where "pageSize = 100"

text \<open>Pages of the candidates are read until one is short; what the test rejects is dropped.\<close>

function scan_pages :: "('r \<Rightarrow> bool) \<Rightarrow> 'r list \<Rightarrow> nat \<Rightarrow> 'r list" where
  "scan_pages p rows offset =
    (let page = take pageSize (drop offset rows) in
     filter p page @ (if length page < pageSize then [] else scan_pages p rows (offset + pageSize)))"
  by pat_completeness auto
termination
  by (relation "measure (\<lambda>(_, rows, offset). Suc (length rows) - offset)") (auto simp: pageSize_def)

definition queue_candidate :: "time \<Rightarrow> InferenceTask \<Rightarrow> bool" where
  "queue_candidate now t \<longleftrightarrow>
    t_Status t = TaskQueued \<and>
    (case t_CreateTime t of
       None \<Rightarrow> False
     | Some created \<Rightarrow>
         (t_TaskType t = TaskTypeSD \<or> t_TaskType t = TaskTypeLLM) \<and> created \<le> now - 1 * time_Second \<or>
         t_TaskType t = TaskTypeSDFTLora \<and> created \<le> now - 3 * time_Minute)"

definition getTimedOutQueuedTasks :: "AppConfig \<Rightarrow> time \<Rightarrow> InferenceTask list relay" where
  "getTimedOutQueuedTasks cfg now =
    read_db (\<lambda>d. scan_pages (\<lambda>t. isQueuedTaskTimedOut cfg t now) (filter (queue_candidate now) (d_tasks d)) 0)"

definition running_status :: "TaskStatus \<Rightarrow> bool" where
  "running_status st \<longleftrightarrow>
    st \<in> {TaskStarted, TaskParametersUploaded, TaskErrorReported, TaskScoreReady, TaskValidated, TaskGroupValidated}"

definition getTimedOutRunningTasks :: "AppConfig \<Rightarrow> time \<Rightarrow> InferenceTask list relay" where
  "getTimedOutRunningTasks cfg now =
    read_db (\<lambda>d. scan_pages (\<lambda>t. isRunningTaskTimedOut cfg t now)
      (filter (\<lambda>t. running_status (t_Status t) \<and> t_StartTime t \<noteq> None) (d_tasks d)) 0)"

section \<open>The deadline scan\<close>

record taskDeadlineCursor =
  dc_Status :: TaskStatus
  dc_DeadlineAt :: time
  dc_ID :: nat

definition is_due :: "time \<Rightarrow> InferenceTask \<Rightarrow> bool" where
  "is_due now t \<longleftrightarrow>
    (t_Status t = TaskQueued \<or> running_status (t_Status t)) \<and>
    (case t_DeadlineAt t of None \<Rightarrow> False | Some d \<Rightarrow> d \<le> now)"

definition after_cursor :: "taskDeadlineCursor \<Rightarrow> InferenceTask \<Rightarrow> bool" where
  "after_cursor c t \<longleftrightarrow>
    (case t_DeadlineAt t of
       None \<Rightarrow> False
     | Some d \<Rightarrow>
         task_status_num (dc_Status c) < task_status_num (t_Status t) \<or>
         t_Status t = dc_Status c \<and> dc_DeadlineAt c < d \<or>
         t_Status t = dc_Status c \<and> d = dc_DeadlineAt c \<and> dc_ID c < t_ID t)"

text \<open>\<^verbatim>\<open>ORDER BY status, deadline_at, id\<close>\<close>

definition deadline_key :: "InferenceTask \<Rightarrow> nat \<times> time \<times> nat" where
  "deadline_key t = (task_status_num (t_Status t), (case t_DeadlineAt t of None \<Rightarrow> 0 | Some d \<Rightarrow> d), t_ID t)"

text \<open>gorm writes a \<^verbatim>\<open>LIMIT\<close> clause for a limit that is not negative.\<close>

definition sql_limit :: "int \<Rightarrow> 'r list \<Rightarrow> 'r list" where
  "sql_limit limit rows = (if limit < 0 then rows else take (nat limit) rows)"

definition due_tasks :: "db \<Rightarrow> time \<Rightarrow> int \<Rightarrow> taskDeadlineCursor option \<Rightarrow> InferenceTask list" where
  "due_tasks d now limit cursor =
    sql_limit limit (sort_key deadline_key
      (filter (\<lambda>t. is_due now t \<and> (case cursor of None \<Rightarrow> True | Some c \<Rightarrow> after_cursor c t)) (d_tasks d)))"

definition getDueTaskDeadlines :: "time \<Rightarrow> int \<Rightarrow> taskDeadlineCursor option \<Rightarrow> InferenceTask list relay" where
  "getDueTaskDeadlines now limit cursor = read_db (\<lambda>d. due_tasks d now limit cursor)"

definition cursor_of :: "InferenceTask \<Rightarrow> taskDeadlineCursor" where
  "cursor_of t = \<lparr> dc_Status = t_Status t, dc_DeadlineAt = (case t_DeadlineAt t of None \<Rightarrow> 0 | Some d \<Rightarrow> d), dc_ID = t_ID t \<rparr>"

definition next_cursor :: "InferenceTask list \<Rightarrow> taskDeadlineCursor option" where
  "next_cursor tasks = (if tasks = [] then None else Some (cursor_of (last tasks)))"

section \<open>The paged queries return the timed out tasks\<close>

lemma scan_pages_filter: "scan_pages p rows offset = filter p (drop offset rows)"
proof (induction p rows offset rule: scan_pages.induct)
  case (1 p rows offset)
  define page where "page = take pageSize (drop offset rows)"
  have split: "drop offset rows = page @ drop (offset + pageSize) rows"
    unfolding page_def by (metis add.commute append_take_drop_id drop_drop)
  show ?case
  proof (cases "length page < pageSize")
    case True
    then have "page = drop offset rows" by (simp add: page_def)
    then show ?thesis using True by (simp add: page_def[symmetric])
  next
    case False
    have "scan_pages p rows (offset + pageSize) = filter p (drop (offset + pageSize) rows)"
      using 1[OF page_def] False by simp
    then have "scan_pages p rows offset = filter p page @ filter p (drop (offset + pageSize) rows)"
      using False by (subst scan_pages.simps) (simp add: page_def[symmetric])
    then show ?thesis by (simp only: split filter_append)
  qed
qed

declare scan_pages.simps [simp del]

text \<open>A number of seconds below the wrap-around: about 292 years.\<close>

definition seconds_ok :: "nat \<Rightarrow> bool" where
  "seconds_ok x \<longleftrightarrow> int x < 9223372036"

lemma duration_seconds_exact: "seconds_ok x \<Longrightarrow> duration_seconds x = int x * time_Second"
  by (simp add: duration_seconds_def seconds_ok_def int64_def time_Second_def)

text \<open>What \<^verbatim>\<open>checkTaskPricingConfig\<close> and \<^verbatim>\<open>checkTaskConfig\<close> demand of the timeouts, and that none of them wraps.\<close>

definition timeouts_ok :: "AppConfig \<Rightarrow> bool" where
  "timeouts_ok cfg \<longleftrightarrow>
    0 < cfg_DefaultQueueTimeoutSeconds cfg \<and> seconds_ok (cfg_DefaultQueueTimeoutSeconds cfg) \<and>
    0 < cfg_AppValidationTimeoutSeconds cfg \<and> seconds_ok (cfg_AppValidationTimeoutSeconds cfg) \<and>
    0 < cfg_ResultUploadTimeoutSeconds cfg \<and> seconds_ok (cfg_ResultUploadTimeoutSeconds cfg) \<and>
    0 < cfg_TimeoutQueryBatchSize cfg"

definition task_seconds_ok :: "InferenceTask \<Rightarrow> bool" where
  "task_seconds_ok t \<longleftrightarrow> seconds_ok (t_QueueTimeout t) \<and> int (t_Timeout t) < 9223371856"

lemma queue_deadline_bounds:
  assumes "timeouts_ok cfg" "task_seconds_ok t" "GetQueueDeadline cfg t = Some d"
  shows "\<exists>created. t_CreateTime t = Some created \<and>
    (UsesRelayOwnedTimeouts t \<longrightarrow> created + time_Second \<le> d) \<and>
    (t_TaskType t = TaskTypeSDFTLora \<longrightarrow> d = created + 3 * time_Minute + int (t_Timeout t) * time_Second)"
proof -
  obtain created where c: "t_CreateTime t = Some created"
    using assms(3) by (cases "t_CreateTime t") (simp_all add: GetQueueDeadline_def)
  have owned_le: "created + time_Second \<le> d" if owned: "UsesRelayOwnedTimeouts t"
  proof -
    define s where "s = (if t_QueueTimeout t = 0 then cfg_DefaultQueueTimeoutSeconds cfg else t_QueueTimeout t)"
    have "0 < s" "seconds_ok s"
      using assms(1,2) by (auto simp: s_def timeouts_ok_def task_seconds_ok_def)
    moreover have "d = created + duration_seconds s"
      using assms(3) owned c by (auto simp: GetQueueDeadline_def s_def UsesRelayOwnedTimeouts_def)
    ultimately show ?thesis by (simp add: duration_seconds_exact time_Second_def)
  qed
  have sdft_eq: "d = created + 3 * time_Minute + int (t_Timeout t) * time_Second" if sdft: "t_TaskType t = TaskTypeSDFTLora"
  proof -
    have "seconds_ok (t_Timeout t)" using assms(2) by (simp add: task_seconds_ok_def seconds_ok_def)
    moreover have "int64 (3 * time_Minute + int (t_Timeout t) * time_Second)"
      using assms(2) by (simp add: task_seconds_ok_def int64_def time_units)
    ultimately show ?thesis
      using assms(3) sdft c by (simp add: GetQueueDeadline_def duration_seconds_exact)
  qed
  show ?thesis using c owned_le sdft_eq by blast
qed

lemma timed_out_is_candidate:
  assumes "timeouts_ok cfg" "task_seconds_ok t" "isQueuedTaskTimedOut cfg t now"
  shows "queue_candidate now t"
proof -
  obtain d where d: "GetQueueDeadline cfg t = Some d" "d \<le> now" "t_Status t = TaskQueued"
    using assms(3) by (auto simp: isQueuedTaskTimedOut_def timed_out_def GetTaskDeadline_def split: option.splits)
  obtain created where c: "t_CreateTime t = Some created"
    "UsesRelayOwnedTimeouts t \<longrightarrow> created + time_Second \<le> d"
    "t_TaskType t = TaskTypeSDFTLora \<longrightarrow> d = created + 3 * time_Minute + int (t_Timeout t) * time_Second"
    using queue_deadline_bounds[OF assms(1,2) d(1)] by blast
  have "0 \<le> int (t_Timeout t) * time_Second" by (simp add: time_Second_def)
  then show ?thesis
    using c d by (cases "t_TaskType t") (auto simp: queue_candidate_def UsesRelayOwnedTimeouts_def)
qed

lemma getTimedOutQueuedTasks_all:
  assumes "timeouts_ok cfg" "\<forall>t\<in>set (d_tasks (fst s)). task_seconds_ok t"
  shows "getTimedOutQueuedTasks cfg now s = (Inr (filter (\<lambda>t. isQueuedTaskTimedOut cfg t now) (d_tasks (fst s))), s)"
proof -
  have "filter (\<lambda>t. isQueuedTaskTimedOut cfg t now) (filter (queue_candidate now) rows)
      = filter (\<lambda>t. isQueuedTaskTimedOut cfg t now) rows" if "\<forall>t\<in>set rows. task_seconds_ok t" for rows
    using that timed_out_is_candidate[OF assms(1)] by (induction rows) auto
  then show ?thesis
    using assms(2) by (simp add: getTimedOutQueuedTasks_def op_simps scan_pages_filter)
qed

section \<open>The scan passes every due task\<close>

text \<open>
  A round reads the next tasks after the cursor and moves the cursor to the last of them, or back to the
  start when there are none.  The abort of a task may fail and leave it due; the database and the clock may
  change from one round to the next.
\<close>

primrec scan_cursor ::
  "taskDeadlineCursor option \<Rightarrow> int \<Rightarrow> (nat \<Rightarrow> db) \<Rightarrow> (nat \<Rightarrow> time) \<Rightarrow> nat \<Rightarrow> taskDeadlineCursor option" where
  "scan_cursor start limit dbs nows 0 = start"
| "scan_cursor start limit dbs nows (Suc i) =
    next_cursor (due_tasks (dbs i) (nows i) limit (scan_cursor start limit dbs nows i))"

definition scan_round ::
  "taskDeadlineCursor option \<Rightarrow> int \<Rightarrow> (nat \<Rightarrow> db) \<Rightarrow> (nat \<Rightarrow> time) \<Rightarrow> nat \<Rightarrow> InferenceTask list" where
  "scan_round start limit dbs nows i = due_tasks (dbs i) (nows i) limit (scan_cursor start limit dbs nows i)"

definition due_keys :: "db \<Rightarrow> time \<Rightarrow> (nat \<times> time \<times> nat) set" where
  "due_keys d now = deadline_key ` set (filter (is_due now) (d_tasks d))"

definition cursor_key :: "taskDeadlineCursor \<Rightarrow> nat \<times> time \<times> nat" where
  "cursor_key c = (task_status_num (dc_Status c), dc_DeadlineAt c, dc_ID c)"

definition beyond :: "taskDeadlineCursor option \<Rightarrow> nat \<times> time \<times> nat \<Rightarrow> bool" where
  "beyond cursor k = (case cursor of None \<Rightarrow> True | Some c \<Rightarrow> cursor_key c < k)"

lemma cursor_of_key [simp]: "cursor_key (cursor_of t) = deadline_key t"
  by (simp add: cursor_key_def cursor_of_def deadline_key_def)

lemma after_cursor_key:
  assumes "is_due now t"
  shows "after_cursor c t \<longleftrightarrow> cursor_key c < deadline_key t"
proof -
  obtain d where "t_DeadlineAt t = Some d"
    using assms by (auto simp: is_due_def split: option.splits)
  then show ?thesis
    by (auto simp: after_cursor_def cursor_key_def deadline_key_def le_less)
qed

lemma due_tasks_beyond:
  "due_tasks d now limit cursor =
    sql_limit limit (sort_key deadline_key (filter (\<lambda>t. is_due now t \<and> beyond cursor (deadline_key t)) (d_tasks d)))"
proof -
  have "(is_due now t \<and> (case cursor of None \<Rightarrow> True | Some c \<Rightarrow> after_cursor c t))
      = (is_due now t \<and> beyond cursor (deadline_key t))" for t
    by (cases cursor) (auto simp: beyond_def after_cursor_key)
  then show ?thesis by (simp add: due_tasks_def cong: filter_cong)
qed

lemma sql_limit_append: "\<exists>rest. rows = sql_limit limit rows @ rest"
  by (metis append_Nil2 append_take_drop_id sql_limit_def)

lemma sql_limit_Nil: "0 < limit \<Longrightarrow> sql_limit limit rows = [] \<longleftrightarrow> rows = []"
  by (auto simp: sql_limit_def)

text \<open>The tasks due beyond the cursor are those a round returned and those after them.\<close>

lemma due_tasks_prefix:
  assumes "0 < limit"
  obtains rest where "{t \<in> set (d_tasks d). is_due now t \<and> beyond cursor (deadline_key t)}
      = set (due_tasks d now limit cursor) \<union> set rest"
    "sorted (map deadline_key (due_tasks d now limit cursor @ rest))"
    "rest = [] \<or> due_tasks d now limit cursor \<noteq> []"
proof -
  define cands where "cands = filter (\<lambda>t. is_due now t \<and> beyond cursor (deadline_key t)) (d_tasks d)"
  have batch: "due_tasks d now limit cursor = sql_limit limit (sort_key deadline_key cands)"
    by (simp add: cands_def due_tasks_beyond)
  obtain rest where rest: "sort_key deadline_key cands = due_tasks d now limit cursor @ rest"
    using sql_limit_append[of "sort_key deadline_key cands" limit] by (auto simp: batch)
  have "set cands = set (due_tasks d now limit cursor) \<union> set rest"
    by (metis rest set_append set_sort)
  moreover have "sorted (map deadline_key (due_tasks d now limit cursor @ rest))"
    by (metis rest sorted_sort_key)
  moreover have "rest = [] \<or> due_tasks d now limit cursor \<noteq> []"
  proof (cases "due_tasks d now limit cursor = []")
    case True
    then have "sql_limit limit (sort_key deadline_key cands) = []" by (simp only: batch)
    then have "sort_key deadline_key cands = []" by (simp only: sql_limit_Nil[OF assms])
    then show ?thesis using rest by (metis append_is_Nil_conv)
  qed simp
  ultimately show thesis using that[of rest] unfolding cands_def set_filter by blast
qed

lemma sorted_before_rest:
  "sorted (map f (xs @ ys)) \<Longrightarrow> y \<in> set ys \<Longrightarrow> xs \<noteq> [] \<Longrightarrow> f (last xs) \<le> f y"
  by (auto simp: sorted_append)

definition left_of :: "db \<Rightarrow> time \<Rightarrow> taskDeadlineCursor option \<Rightarrow> (nat \<times> time \<times> nat) set" where
  "left_of d now cursor = {k \<in> due_keys d now. beyond cursor k}"

lemma left_of_tasks:
  "left_of d now cursor = deadline_key ` {t \<in> set (d_tasks d). is_due now t \<and> beyond cursor (deadline_key t)}"
  by (auto simp: left_of_def due_keys_def)

lemma round_empty:
  assumes "0 < limit" "due_tasks d now limit cursor = []"
  shows "left_of d now cursor = {}"
proof -
  obtain rest where "{t \<in> set (d_tasks d). is_due now t \<and> beyond cursor (deadline_key t)}
      = set (due_tasks d now limit cursor) \<union> set rest"
    "sorted (map deadline_key (due_tasks d now limit cursor @ rest))" "rest = [] \<or> due_tasks d now limit cursor \<noteq> []"
    by (rule due_tasks_prefix[OF assms(1)])
  then show ?thesis using assms(2) by (simp add: left_of_tasks)
qed

lemma round_advances:
  assumes "0 < limit" "due_tasks d now limit cursor \<noteq> []"
  shows "left_of d now (next_cursor (due_tasks d now limit cursor)) \<subset> left_of d now cursor"
proof -
  define k where "k = deadline_key (last (due_tasks d now limit cursor))"
  obtain rest where rest: "{t \<in> set (d_tasks d). is_due now t \<and> beyond cursor (deadline_key t)}
      = set (due_tasks d now limit cursor) \<union> set rest"
    "sorted (map deadline_key (due_tasks d now limit cursor @ rest))" "rest = [] \<or> due_tasks d now limit cursor \<noteq> []"
    by (rule due_tasks_prefix[OF assms(1)])
  have k: "k \<in> left_of d now cursor"
    unfolding left_of_tasks rest(1) k_def using last_in_set[OF assms(2)] by (intro imageI) simp
  have next_k: "beyond (next_cursor (due_tasks d now limit cursor)) k' \<longleftrightarrow> k < k'" for k'
    using assms(2) by (simp add: beyond_def next_cursor_def k_def)
  have "beyond cursor k'" if "k < k'" for k'
    using that k by (auto simp: left_of_def beyond_def split: option.splits)
  then show ?thesis using k by (auto simp: left_of_def next_k)
qed

lemma round_keeps_beyond:
  assumes "0 < limit" "t \<in> set (d_tasks d)" "is_due now t" "beyond cursor (deadline_key t)"
    and "t \<notin> set (due_tasks d now limit cursor)" "distinct (map t_ID (d_tasks d))"
  shows "due_tasks d now limit cursor \<noteq> []"
    and "beyond (next_cursor (due_tasks d now limit cursor)) (deadline_key t)"
proof -
  define batch where "batch = due_tasks d now limit cursor"
  obtain rest where rest: "{t \<in> set (d_tasks d). is_due now t \<and> beyond cursor (deadline_key t)} = set batch \<union> set rest"
    "sorted (map deadline_key (batch @ rest))" "rest = [] \<or> batch \<noteq> []"
    unfolding batch_def by (rule due_tasks_prefix[OF assms(1)])
  have t: "t \<in> set rest" using assms(2-5) rest(1) unfolding batch_def by blast
  then show ne: "due_tasks d now limit cursor \<noteq> []" using rest(3) by (auto simp: batch_def)
  have last: "last batch \<in> set batch" using ne by (simp add: batch_def)
  then have "last batch \<in> set (d_tasks d)" using rest(1) by blast
  then have "t_ID (last batch) \<noteq> t_ID t"
    using last assms(2,5,6) by (auto simp: batch_def distinct_map dest: inj_onD)
  moreover have "deadline_key (last batch) \<le> deadline_key t"
    using sorted_before_rest[OF rest(2) t] ne by (simp add: batch_def)
  ultimately have "deadline_key (last batch) < deadline_key t" by (auto simp: deadline_key_def)
  then show "beyond (next_cursor (due_tasks d now limit cursor)) (deadline_key t)"
    using ne by (simp add: next_cursor_def beyond_def batch_def)
qed

text \<open>The rounds of a scan while a task stays due and no further task falls due.\<close>

definition steady :: "(nat \<Rightarrow> db) \<Rightarrow> (nat \<Rightarrow> time) \<Rightarrow> InferenceTask \<Rightarrow> bool" where
  "steady dbs nows t \<longleftrightarrow>
    (\<forall>i. t \<in> set (d_tasks (dbs i)) \<and> is_due (nows i) t \<and> distinct (map t_ID (d_tasks (dbs i))) \<and>
      due_keys (dbs (Suc i)) (nows (Suc i)) \<subseteq> due_keys (dbs i) (nows i))"

lemma steadyD:
  assumes "steady dbs nows t"
  shows "t \<in> set (d_tasks (dbs i))" "is_due (nows i) t" "distinct (map t_ID (d_tasks (dbs i)))"
    "due_keys (dbs (Suc i)) (nows (Suc i)) \<subseteq> due_keys (dbs i) (nows i)"
  using assms by (simp_all add: steady_def)

definition left_at ::
  "taskDeadlineCursor option \<Rightarrow> int \<Rightarrow> (nat \<Rightarrow> db) \<Rightarrow> (nat \<Rightarrow> time) \<Rightarrow> nat \<Rightarrow> (nat \<times> time \<times> nat) set" where
  "left_at start limit dbs nows i = left_of (dbs i) (nows i) (scan_cursor start limit dbs nows i)"

lemma finite_left: "finite (left_at start limit dbs nows i)"
  by (simp add: left_at_def left_of_def due_keys_def)

lemma left_decreases:
  assumes "0 < limit" "steady dbs nows t" "scan_round start limit dbs nows i \<noteq> []"
  shows "card (left_at start limit dbs nows (Suc i)) < card (left_at start limit dbs nows i)"
proof -
  have "left_at start limit dbs nows (Suc i) \<subseteq> left_of (dbs i) (nows i) (scan_cursor start limit dbs nows (Suc i))"
    using steadyD(4)[OF assms(2), of i] by (auto simp: left_at_def left_of_def)
  also have "left_of (dbs i) (nows i) (scan_cursor start limit dbs nows (Suc i)) \<subset> left_at start limit dbs nows i"
    using round_advances[OF assms(1)] assms(3) by (simp add: scan_round_def left_at_def)
  finally show ?thesis by (intro psubset_card_mono finite_left)
qed

lemma left_bound:
  assumes "steady dbs nows t"
  shows "card (left_at start limit dbs nows i) \<le> card (due_keys (dbs 0) (nows 0))"
proof -
  have "due_keys (dbs i) (nows i) \<subseteq> due_keys (dbs 0) (nows 0)"
    using steadyD(4)[OF assms] by (induction i) blast+
  then show ?thesis by (intro card_mono) (auto simp: left_at_def left_of_def due_keys_def)
qed

lemma visible_is_scanned:
  assumes "0 < limit" "steady dbs nows t"
  shows "beyond (scan_cursor start limit dbs nows i) (deadline_key t) \<Longrightarrow>
    \<exists>j < i + card (left_at start limit dbs nows i). t \<in> set (scan_round start limit dbs nows j)"
proof (induction "card (left_at start limit dbs nows i)" arbitrary: i rule: less_induct)
  case less
  note due = steadyD(1,2)[OF assms(2), of i]
  have "deadline_key t \<in> left_at start limit dbs nows i"
    using due less.prems unfolding left_at_def left_of_tasks by blast
  then have pos: "0 < card (left_at start limit dbs nows i)" using finite_left card_gt_0_iff by blast
  show ?case
  proof (cases "t \<in> set (scan_round start limit dbs nows i)")
    case False
    note kept = round_keeps_beyond[OF assms(1) due less.prems False[unfolded scan_round_def] steadyD(3)[OF assms(2)]]
    have fewer: "card (left_at start limit dbs nows (Suc i)) < card (left_at start limit dbs nows i)"
      using left_decreases[OF assms] kept(1) by (simp add: scan_round_def)
    then obtain j where "j < Suc i + card (left_at start limit dbs nows (Suc i))" "t \<in> set (scan_round start limit dbs nows j)"
      using less.hyps[OF fewer] kept(2) by auto
    then show ?thesis using fewer by (intro exI[of _ j]) auto
  qed (intro exI[of _ i]; use pos in simp)
qed

lemma becomes_visible:
  assumes "0 < limit" "steady dbs nows t"
  shows "\<exists>j \<le> i + card (left_at start limit dbs nows i) + 1. beyond (scan_cursor start limit dbs nows j) k"
proof (induction "card (left_at start limit dbs nows i)" arbitrary: i rule: less_induct)
  case less
  show ?case
  proof (cases "scan_round start limit dbs nows i = []")
    case True
    then have "scan_cursor start limit dbs nows (Suc i) = None" by (simp add: scan_round_def next_cursor_def)
    then show ?thesis by (intro exI[of _ "Suc i"]) (simp add: beyond_def)
  next
    case False
    note fewer = left_decreases[OF assms this]
    then obtain j where "j \<le> Suc i + card (left_at start limit dbs nows (Suc i)) + 1" "beyond (scan_cursor start limit dbs nows j) k"
      using less.hyps[OF fewer] by blast
    then show ?thesis using fewer by (intro exI[of _ j]) auto
  qed
qed

text \<open>C35: While a task stays due and no further task falls due, the timeout scan reaches it: whatever the cursor it
  starts from and whichever aborts fail meanwhile, one of the first \<^verbatim>\<open>2 * n\<close> rounds returns the task, where \<^verbatim>\<open>n\<close> is the
  number of due tasks at the start.  No task that cannot be aborted blocks those behind it.\<close>

theorem every_due_task_is_scanned:
  assumes "0 < limit" "steady dbs nows t"
  shows "\<exists>j < 2 * card (due_keys (dbs 0) (nows 0)). t \<in> set (scan_round start limit dbs nows j)"
proof -
  let ?n = "card (due_keys (dbs 0) (nows 0))"
  have key: "deadline_key t \<in> due_keys (dbs 0) (nows 0)"
    using steadyD(1,2)[OF assms(2), of 0] by (auto simp: due_keys_def)
  have "\<exists>i. beyond (scan_cursor start limit dbs nows i) (deadline_key t) \<and> i \<le> ?n"
  proof (cases "beyond start (deadline_key t)")
    case True
    then show ?thesis by (intro exI[of _ 0]) simp
  next
    case False
    then have "left_at start limit dbs nows 0 \<subset> due_keys (dbs 0) (nows 0)"
      using key by (auto simp: left_at_def left_of_def)
    then have "card (left_at start limit dbs nows 0) < ?n"
      by (intro psubset_card_mono) (simp_all add: due_keys_def)
    then show ?thesis
      using becomes_visible[OF assms, of 0 start "deadline_key t"] by auto
  qed
  then obtain i where i: "beyond (scan_cursor start limit dbs nows i) (deadline_key t)" "i \<le> ?n" by blast
  obtain j where "j < i + card (left_at start limit dbs nows i)" "t \<in> set (scan_round start limit dbs nows j)"
    using visible_is_scanned[OF assms i(1)] by blast
  moreover have "i + card (left_at start limit dbs nows i) \<le> 2 * ?n"
    using i(2) left_bound[OF assms(2), of start limit i] by simp
  ultimately show ?thesis by (meson less_le_trans)
qed

definition blank_task :: InferenceTask where
  "blank_task = \<lparr> t_ID = 1, t_TaskArgs = [], t_TaskIDCommitment = ''c'', t_Creator = ''creator'', t_SamplingSeed = [],
     t_Nonce = [], t_Status = TaskQueued, t_TaskType = TaskTypeSD, t_TaskVersion = ''3.6.4'', t_ModelName = [],
     t_RequestedDType = [], t_ExecutionDType = [], t_RequiredModelFileHashes = [], t_RequiredModelFileSourceHashes = [],
     t_ExecutionModelFileHashes = [], t_RequestedModelCacheHash = [], t_RequireLinuxCuda = False, t_Timeout = 0,
     t_QueueTimeout = 60, t_MinVRAM = 0, t_RequiredGPU = [], t_RequiredGPUVRAM = 0, t_TaskFee = 10, t_Priority = 0,
     t_EstimatedNodeSeconds = 0, t_VRAMWeight = 0, t_PricingUnits = 0, t_TaskSize = 0, t_ModelIDs = [],
     t_AbortReason = TaskAbortReasonNone, t_TaskError = TaskErrorNone, t_Score = [], t_QOSScore = None, t_SelectedNode = [],
     t_ExecutionGPU = [], t_ExecutionGPUVRAM = 0, t_TaskID = [], t_ModelSwtiched = False, t_EstimatedCompletionTime = None,
     t_DeadlineAt = None, t_CreateTime = Some 0, t_StartTime = None, t_DeliveredTime = None, t_ScoreReadyTime = None,
     t_ValidatedTime = None, t_ResultUploadedTime = None \<rparr>"

definition due_db :: db where
  "due_db = empty_db\<lparr> d_tasks := [blank_task\<lparr> t_DeadlineAt := Some 9 \<rparr>,
     blank_task\<lparr> t_ID := 2, t_TaskIDCommitment := ''d'', t_DeadlineAt := Some 5 \<rparr>] \<rparr>"

theorem every_due_task_is_scanned_witness:
  "\<exists>j < 4. blank_task\<lparr> t_DeadlineAt := Some 9 \<rparr> \<in> set (scan_round None 1 (\<lambda>_. due_db) (\<lambda>_. 20) j)"
proof -
  have "steady (\<lambda>_. due_db) (\<lambda>_. 20) (blank_task\<lparr> t_DeadlineAt := Some 9 \<rparr>)"
    by (simp add: steady_def due_db_def is_due_def running_status_def blank_task_def)
  moreover have "card (due_keys due_db 20) = 2"
    by (simp add: due_keys_def due_db_def is_due_def running_status_def blank_task_def deadline_key_def)
  ultimately show ?thesis
    using every_due_task_is_scanned[of 1 "\<lambda>_. due_db" "\<lambda>_. 20" "blank_task\<lparr> t_DeadlineAt := Some 9 \<rparr>" None] by simp
qed
end
