(* ===== verification/TaskLifecycle.thy ===== *)
theory TaskLifecycle
  imports NodeLifecycle TaskDeadline Income
begin

text \<open>
  The life of a task (\<^verbatim>\<open>service/task_status.go\<close>): creation against the creator's balance, start on a node,
  score or error report, validation, and the five ways it ends, with what each does to the fee, the node and
  the event log in one transaction.  A handler works on a copy of the caller's task and returns it; the values
  gorm writes are a function on the record.  What the execution calibration predicts, the evidence of a slash,
  the pricing of a task and the repositories named by its arguments come from components outside the model and
  are fields of the environment.  Metrics and log lines are left out.
\<close>

section \<open>Environment\<close>

record task_env = node_env +
  env_describe :: "InferenceTask \<Rightarrow> string \<Rightarrow> nat \<Rightarrow> go_error + (nat \<times> float64)"
  env_evidence :: "db \<Rightarrow> InferenceTask \<Rightarrow> Node \<Rightarrow> go_error + (string \<times> bool)"
  env_price :: "InferenceTask \<Rightarrow> go_error + InferenceTask"
  env_repositories :: "string \<Rightarrow> TaskType \<Rightarrow> go_error + string list"

section \<open>Creation and delivery\<close>

definition CreateTask :: "task_env \<Rightarrow> InferenceTask \<Rightarrow> time \<Rightarrow> InferenceTask relay" where
  "CreateTask env task now =
    bnd (of_sum (env_price env task)) (\<lambda>task.
    bnd (if cfg_ModelWhitelistEnabled (env_cfg env) then CheckTaskModelsWhitelisted (env_repositories env) task else ret ()) (\<lambda>_.
    (let task = (case GetQueueDeadline (env_cfg env) task of None \<Rightarrow> task | Some d \<Rightarrow> task\<lparr> t_DeadlineAt := Some d \<rparr>) in
    bnd (getRelayAccountFromCache (t_Creator task)) (\<lambda>balance.
    bnd (check (\<not> balance < t_TaskFee task) ErrInsufficientRelayAccount) (\<lambda>_.
    bnd (txn (bnd (task_Create task) (\<lambda>task.
              bnd AddTotalTask (\<lambda>_.
              bnd (createRelayAccountEvent RelayAccountEventTypeTaskPayment
                     (reason1 RelayAccountEventTypeTaskPayment (t_TaskIDCommitment task)) (t_Creator task) (t_TaskFee task) now) (\<lambda>_.
              ret task))))) (\<lambda>task.
    bnd (add_cached (t_Creator task) (- t_TaskFee task)) (\<lambda>_.
    ret task)))))))"

definition MarkTaskDelivered :: "InferenceTask \<Rightarrow> time \<Rightarrow> InferenceTask relay" where
  "MarkTaskDelivered task now =
    (if t_DeliveredTime task \<noteq> None then ret task
     else bnd (read_db (\<lambda>d. filter (\<lambda>t. t_ID t = t_ID task \<and> t_DeliveredTime t = None) (d_tasks d))) (\<lambda>hits.
          bnd (write_db (\<lambda>d. d\<lparr> d_tasks := upd_where (\<lambda>t. t_ID t = t_ID task \<and> t_DeliveredTime t = None)
                 (\<lambda>t. t\<lparr> t_DeliveredTime := Some now \<rparr>) (d_tasks d) \<rparr>)) (\<lambda>_.
          ret (if hits \<noteq> [] then task\<lparr> t_DeliveredTime := Some now \<rparr> else task))))"

section \<open>Start\<close>

text \<open>\<^verbatim>\<open>log.Fatalf\<close> ends the process.\<close>

definition VersionNumbers :: "InferenceTask \<Rightarrow> go_error + (nat \<times> nat \<times> nat)" where
  "VersionNumbers task =
    (case Split dot (t_TaskVersion task) of
       [a, b, c] \<Rightarrow>
         (case (ParseUint a, ParseUint b, ParseUint c) of
            (Some major, Some minor, Some patch) \<Rightarrow> Inr (major, minor, patch)
          | _ \<Rightarrow> Inl (Panic ''Task version is invalid''))
     | _ \<Rightarrow> Inl (Panic ''Task version is invalid''))"

definition isNodeVersionValidForTask :: "Node \<Rightarrow> InferenceTask \<Rightarrow> go_error + bool" where
  "isNodeVersionValidForTask node task =
    (case VersionNumbers task of
       Inl e \<Rightarrow> Inl e
     | Inr (major, minor, patch) \<Rightarrow>
         Inr (n_MajorVersion node = major \<and>
              (n_MinorVersion node > minor \<or> n_MinorVersion node = minor \<and> n_PatchVersion node \<ge> patch)))"

text \<open>\<^verbatim>\<open>time.Duration(seconds * float64(time.Second))\<close>: truncation, and the minimum for a value out of range.\<close>

definition duration_of_float :: "float64 \<Rightarrow> duration" where
  "duration_of_float x = (let t = (if x < 0 then - \<lfloor>- x\<rfloor> else \<lfloor>x\<rfloor>) in if int64 t then t else - (2 ^ 63))"

text \<open>What a start decides before its transaction: the execution files, whether the model is switched, the timeout
  in seconds and the estimated completion.\<close>

record start_plan =
  sp_files :: bytes
  sp_switched :: bool
  sp_timeout :: nat
  sp_estimate :: "time option"

definition start_plan_for :: "task_env \<Rightarrow> InferenceTask \<Rightarrow> Node \<Rightarrow> time \<Rightarrow> start_plan relay" where
  "start_plan_for env task node now =
    bnd (of_sum (newTaskModelRequirements task)) (\<lambda>requirements.
    bnd (loadNodeModelState [n_Address node]) (\<lambda>modelState.
    (let files = files_of modelState (n_Address node) in
    bnd (of_sum (buildNodeIndexEntry node files (inMemory_of modelState (n_Address node)))) (\<lambda>nodeEntry.
    bnd (of_sum (resolveExecutionModelFileHashes requirements files (ie_CurrentModelFileHashes nodeEntry))) (\<lambda>executionHashes.
    (let modelSwitched = (\<not> holdsRequiredModelInMemory nodeEntry requirements);
         encoded = EncodeHashList executionHashes in
     if UsesRelayOwnedTimeouts task
     then bnd (of_sum (env_describe env (task\<lparr> t_ExecutionModelFileHashes := encoded, t_ModelSwtiched := modelSwitched \<rparr>)
                         (n_GPUName node) (n_GPUVram node))) (\<lambda>(timeout, predicted).
          ret \<lparr> sp_files = encoded, sp_switched = modelSwitched, sp_timeout = timeout,
                sp_estimate = Some (now + duration_of_float (fl64 (predicted * of_int time_Second))) \<rparr>)
     else ret \<lparr> sp_files = encoded, sp_switched = modelSwitched, sp_timeout = t_Timeout task, sp_estimate = None \<rparr>))))))"

definition started :: "Node \<Rightarrow> start_plan \<Rightarrow> bool \<Rightarrow> time \<Rightarrow> InferenceTask \<Rightarrow> InferenceTask" where
  "started node plan owned now t = t\<lparr>
     t_SelectedNode := n_Address node, t_StartTime := Some now, t_Timeout := sp_timeout plan, t_Status := TaskStarted,
     t_ModelSwtiched := sp_switched plan, t_DeadlineAt := Some (now + duration_seconds (sp_timeout plan)),
     t_ExecutionGPU := n_GPUName node, t_ExecutionGPUVRAM := n_GPUVram node, t_ExecutionModelFileHashes := sp_files plan,
     t_EstimatedCompletionTime := (if owned then sp_estimate plan else t_EstimatedCompletionTime t) \<rparr>"

definition SetTaskStatusStarted :: "task_env \<Rightarrow> InferenceTask \<Rightarrow> Node \<Rightarrow> time \<Rightarrow> (InferenceTask \<times> Node) relay" where
  "SetTaskStatusStarted env task node now =
    bnd (check (t_Status task = TaskQueued) errWrongTaskStatus) (\<lambda>_.
    bnd (node_Sync node) (\<lambda>node.
    bnd (check (\<not> IsHealthExcluded (env_exp env) (env_cfg env) node now) ErrNodeHealthExcluded) (\<lambda>_.
    bnd (of_sum (isNodeVersionValidForTask node task)) (\<lambda>valid.
    bnd (check valid (errors_New ''node version is not compatible with task'')) (\<lambda>_.
    bnd (start_plan_for env task node now) (\<lambda>plan.
    bnd (txn (bnd (task_Update_status task (started node plan (UsesRelayOwnedTimeouts task) now)) (\<lambda>task.
              bnd (nodeStartTask (env_exp env) (env_cfg env) node (t_TaskIDCommitment task) now) (\<lambda>node.
              bnd (emitEvent (TaskStartedEvent (t_TaskIDCommitment task) (n_Address node))) (\<lambda>_.
              ret (task, node)))))) (\<lambda>(task, node).
    (let task = task\<lparr> t_EstimatedCompletionTime := sp_estimate plan \<rparr> in
    bnd (if UsesRelayOwnedTimeouts task then call (CaptureTaskExecutionGPUSnapshot (t_TaskIDCommitment task)) else ret ()) (\<lambda>_.
    bnd (call (captureRunningTaskSnapshot (t_TaskIDCommitment task))) (\<lambda>_.
    bnd (call (captureTaskTraceStartSnapshot (t_TaskIDCommitment task))) (\<lambda>_.
    ret (task, node))))))))))))"

section \<open>Score, error and validation\<close>

definition checkTaskSelectedNode :: "InferenceTask \<Rightarrow> Node relay" where
  "checkTaskSelectedNode task =
    bnd (GetNodeByAddress (t_SelectedNode task)) (\<lambda>node.
    bnd (check (n_CurrentTaskIDCommitment node = Some (t_TaskIDCommitment task)) ErrWrongNodeCurrentTask) (\<lambda>_.
    ret node))"

definition getTaskTransitionDeadline :: "AppConfig \<Rightarrow> InferenceTask \<Rightarrow> TaskStatus \<Rightarrow> time \<Rightarrow> go_error + time" where
  "getTaskTransitionDeadline cfg task status transitionTime =
    (let t = task\<lparr> t_Status := status \<rparr>;
         t = (if status = TaskScoreReady \<or> status = TaskErrorReported then t\<lparr> t_ScoreReadyTime := Some transitionTime \<rparr>
              else if status = TaskValidated \<or> status = TaskGroupValidated then t\<lparr> t_ValidatedTime := Some transitionTime \<rparr>
              else t)
     in case GetTaskDeadline cfg t of
          None \<Rightarrow> Inl (errors_New ''task deadline cannot be calculated'')
        | Some d \<Rightarrow> Inr (dl_at d))"

definition SetTaskStatusScoreReady :: "task_env \<Rightarrow> InferenceTask \<Rightarrow> time \<Rightarrow> InferenceTask relay" where
  "SetTaskStatusScoreReady env task now =
    bnd (check (t_Status task = TaskStarted) errWrongTaskStatus) (\<lambda>_.
    bnd (checkTaskSelectedNode task) (\<lambda>_.
    bnd (of_sum (getTaskTransitionDeadline (env_cfg env) task TaskScoreReady now)) (\<lambda>deadlineAt.
    txn (bnd (task_Update_status task (\<lambda>t. t\<lparr> t_Status := TaskScoreReady, t_Score := t_Score task,
                t_ExecutionDType := t_ExecutionDType task, t_ScoreReadyTime := Some now, t_DeadlineAt := Some deadlineAt \<rparr>)) (\<lambda>task.
         bnd (emitEvent (TaskScoreReadyEvent (t_TaskIDCommitment task) (t_SelectedNode task) (t_Score task))) (\<lambda>_.
         ret task))))))"

definition SetTaskStatusErrorReported :: "task_env \<Rightarrow> InferenceTask \<Rightarrow> time \<Rightarrow> InferenceTask relay" where
  "SetTaskStatusErrorReported env task now =
    bnd (check (t_Status task = TaskStarted) errWrongTaskStatus) (\<lambda>_.
    bnd (checkTaskSelectedNode task) (\<lambda>_.
    bnd (of_sum (getTaskTransitionDeadline (env_cfg env) task TaskErrorReported now)) (\<lambda>deadlineAt.
    txn (bnd (task_Update_status task (\<lambda>t. t\<lparr> t_Status := TaskErrorReported, t_TaskError := t_TaskError task,
                t_ScoreReadyTime := Some now, t_DeadlineAt := Some deadlineAt \<rparr>)) (\<lambda>task.
         bnd (emitEvent (TaskErrorReportedEvent (t_TaskIDCommitment task) (t_SelectedNode task) (t_TaskError task))) (\<lambda>_.
         ret task))))))"

definition SetTaskStatusValidated :: "task_env \<Rightarrow> InferenceTask \<Rightarrow> time \<Rightarrow> InferenceTask relay" where
  "SetTaskStatusValidated env task now =
    bnd (check (t_Status task = TaskScoreReady) errWrongTaskStatus) (\<lambda>_.
    bnd (checkTaskSelectedNode task) (\<lambda>_.
    bnd (of_sum (getTaskTransitionDeadline (env_cfg env) task TaskValidated now)) (\<lambda>deadlineAt.
    bnd (txn (bnd (task_Update_status task (\<lambda>t. t\<lparr> t_Status := TaskValidated, t_TaskID := t_TaskID task,
                     t_ValidatedTime := Some now, t_DeadlineAt := Some deadlineAt \<rparr>)) (\<lambda>task.
              bnd (emitEvent (TaskValidatedEvent (t_TaskIDCommitment task) (t_SelectedNode task))) (\<lambda>_.
              ret task)))) (\<lambda>task.
    bnd (if t_TaskType task = TaskTypeSD
         then seq (call (CalibrateValidatedSDTask (t_TaskIDCommitment task)))
                  (call (DeleteTaskExecutionGPUSnapshot (t_TaskIDCommitment task)))
         else ret ()) (\<lambda>_.
    ret task)))))"

text \<open>\<^verbatim>\<open>uint64\<close> of the score a group gave a task.\<close>

definition qos_number :: "int option \<Rightarrow> nat" where
  "qos_number q = (case q of None \<Rightarrow> 0 | Some x \<Rightarrow> nat (wrap_u64 x))"

definition BuildValidationGroupQosTraceMetadata :: "InferenceTask \<Rightarrow> string" where
  "BuildValidationGroupQosTraceMetadata task =
    (case t_QOSScore task of
       None \<Rightarrow> []
     | Some x \<Rightarrow>
         let q = nat (wrap_u64 x) in
         if q = TASK_SCORE_REWARDS ! 0 then ''validation_group_rank_1''
         else if q = TASK_SCORE_REWARDS ! 1 then ''validation_group_rank_2''
         else if q = TASK_SCORE_REWARDS ! 2 then ''validation_group_rank_3''
         else if q = 0 then ''validation_group_aborted''
         else [])"

text \<open>The node's share of a group score, with the trace entry it leaves.\<close>

definition apply_group_score :: "task_env \<Rightarrow> InferenceTask \<Rightarrow> Node \<Rightarrow> (Node \<times> call list) relay" where
  "apply_group_score env task node =
    bnd (updateNodeQosScore (env_cfg env) node (qos_number (t_QOSScore task))) (\<lambda>node.
    (let eventType = BuildValidationGroupQosTraceMetadata task in
     ret (node, if eventType \<noteq> [] then [RecordNodeQosTrace (n_Address node) (t_TaskIDCommitment task) eventType] else [])))"

definition SetTaskStatusGroupValidated :: "task_env \<Rightarrow> InferenceTask \<Rightarrow> time \<Rightarrow> InferenceTask relay" where
  "SetTaskStatusGroupValidated env task now =
    bnd (check (t_Status task = TaskScoreReady) errWrongTaskStatus) (\<lambda>_.
    bnd (checkTaskSelectedNode task) (\<lambda>node.
    bnd (of_sum (getTaskTransitionDeadline (env_cfg env) task TaskGroupValidated now)) (\<lambda>deadlineAt.
    bnd (txn (bnd (task_Update_status task (\<lambda>t. t\<lparr> t_Status := TaskGroupValidated, t_TaskID := t_TaskID task,
                     t_ValidatedTime := Some now, t_QOSScore := t_QOSScore task, t_DeadlineAt := Some deadlineAt \<rparr>)) (\<lambda>task.
              bnd (if t_QOSScore task \<noteq> None then apply_group_score env task node else ret (node, [])) (\<lambda>(_, traces).
              bnd (emitEvent (TaskValidatedEvent (t_TaskIDCommitment task) (t_SelectedNode task))) (\<lambda>_.
              ret (task, traces)))))) (\<lambda>(task, traces).
    bnd (for_each traces call) (\<lambda>_.
    ret task)))))"


section \<open>Invalidation\<close>

definition createPendingSlash :: "InferenceTask \<Rightarrow> Node \<Rightarrow> string \<Rightarrow> bool \<Rightarrow> unit relay" where
  "createPendingSlash task node evidence evidenceComplete =
    write_db (\<lambda>d. d\<lparr> d_pending_slashes := d_pending_slashes d @
      [\<lparr> ps_ID = next_id ps_ID (d_pending_slashes d), ps_Status = PendingSlashStatusPending, ps_NodeAddress = n_Address node,
         ps_Network = n_Network node, ps_TaskIDCommitment = t_TaskIDCommitment task, ps_EvidenceJSON = evidence,
         ps_EvidenceComplete = evidenceComplete \<rparr>] \<rparr>)"

definition setTaskStatusEndInvalidatedWithEvidence ::
  "task_env \<Rightarrow> InferenceTask \<Rightarrow> Node \<Rightarrow> string \<Rightarrow> bool \<Rightarrow> time \<Rightarrow> InferenceTask relay" where
  "setTaskStatusEndInvalidatedWithEvidence env task node evidence evidenceComplete now =
    bnd (txn (bnd (task_Update_status task (\<lambda>t. t\<lparr> t_Status := TaskEndInvalidated, t_TaskID := t_TaskID task,
                     t_ValidatedTime := Some now, t_QOSScore := Some 0, t_DeadlineAt := None \<rparr>)) (\<lambda>task.
              bnd (emitEvent (TaskEndInvalidatedEvent (t_TaskIDCommitment task) (t_SelectedNode task))) (\<lambda>_.
              bnd (if cfg_PassiveSlashMode (env_cfg env)
                   then bnd (createPendingSlash task node evidence evidenceComplete) (\<lambda>_.
                        nodeFinishTask (env_cfg env) (env_chain env) node)
                   else bnd (SlashNode (env_cfg env) (env_chain env) node (t_TaskIDCommitment task) now) (\<lambda>_. ret ())) (\<lambda>_.
              ret task))))) (\<lambda>task.
    bnd (call (deleteRunningTaskSnapshot (t_TaskIDCommitment task))) (\<lambda>_.
    bnd (call (DeleteTaskExecutionGPUSnapshot (t_TaskIDCommitment task))) (\<lambda>_.
    ret task)))"

definition may_be_invalidated :: "TaskStatus \<Rightarrow> bool" where
  "may_be_invalidated st \<longleftrightarrow> st = TaskScoreReady \<or> st = TaskEndAborted \<or> st = TaskErrorReported"

definition SetTaskStatusEndInvalidatedWithEvidence ::
  "task_env \<Rightarrow> InferenceTask \<Rightarrow> string \<Rightarrow> bool \<Rightarrow> time \<Rightarrow> InferenceTask relay" where
  "SetTaskStatusEndInvalidatedWithEvidence env task evidence evidenceComplete now =
    bnd (check (may_be_invalidated (t_Status task)) errWrongTaskStatus) (\<lambda>_.
    bnd (checkTaskSelectedNode task) (\<lambda>node.
    setTaskStatusEndInvalidatedWithEvidence env task node evidence evidenceComplete now))"

definition buildSlashEvidence :: "task_env \<Rightarrow> InferenceTask \<Rightarrow> Node \<Rightarrow> (string \<times> bool) relay" where
  "buildSlashEvidence env task node = bnd (read_db (\<lambda>d. env_evidence env d task node)) of_sum"

definition SetTaskStatusEndInvalidated :: "task_env \<Rightarrow> InferenceTask \<Rightarrow> time \<Rightarrow> InferenceTask relay" where
  "SetTaskStatusEndInvalidated env task now =
    bnd (check (may_be_invalidated (t_Status task)) errWrongTaskStatus) (\<lambda>_.
    bnd (checkTaskSelectedNode task) (\<lambda>node.
    bnd (buildSlashEvidence env task node) (\<lambda>(evidence, evidenceComplete).
    ExecuteNodeStateUpdate [t_SelectedNode task]
      (setTaskStatusEndInvalidatedWithEvidence env task node evidence evidenceComplete now))))"

section \<open>Refund of a group member\<close>

definition boost_node :: "task_env \<Rightarrow> InferenceTask \<Rightarrow> string \<Rightarrow> Node \<Rightarrow> time \<Rightarrow> (Node \<times> call list) relay" where
  "boost_node env task eventType node now =
    bnd (ApplyHealthBoost (env_exp env) (env_cfg env) node now) (\<lambda>node.
    ret (node, [RecordNodeQosTrace (n_Address node) (t_TaskIDCommitment task) eventType]))"

definition SetTaskStatusEndGroupRefund :: "task_env \<Rightarrow> InferenceTask \<Rightarrow> time \<Rightarrow> InferenceTask relay" where
  "SetTaskStatusEndGroupRefund env task now =
    bnd (check (t_Status task = TaskScoreReady) errWrongTaskStatus) (\<lambda>_.
    bnd (checkTaskSelectedNode task) (\<lambda>node.
    bnd (txn (bnd (refundTaskPaymentToRelayAccount (t_TaskIDCommitment task) (t_Creator task) (t_TaskFee task) now) (\<lambda>commitFunc.
              bnd (if t_QOSScore task \<noteq> None then apply_group_score env task node else ret (node, [])) (\<lambda>(node, scoreTraces).
              bnd (task_Update_status task (\<lambda>t. t\<lparr> t_Status := TaskEndGroupRefund, t_TaskID := t_TaskID task,
                     t_ValidatedTime := Some now, t_QOSScore := t_QOSScore task, t_DeadlineAt := None \<rparr>)) (\<lambda>task.
              bnd (boost_node env task ''validation_group_matched_boost'' node now) (\<lambda>(node, boostTraces).
              bnd (nodeFinishTask (env_cfg env) (env_chain env) node) (\<lambda>_.
              bnd (emitEvent (TaskEndGroupRefundEvent (t_TaskIDCommitment task) (t_SelectedNode task))) (\<lambda>_.
              bnd commitFunc (\<lambda>_.
              ret (task, node, scoreTraces @ boostTraces)))))))))) (\<lambda>(task, node, traces).
    bnd (call (updateLoadedModels (t_TaskIDCommitment task) (n_Address node))) (\<lambda>_.
    bnd (for_each traces call) (\<lambda>_.
    bnd (call (deleteRunningTaskSnapshot (t_TaskIDCommitment task))) (\<lambda>_.
    ret task))))))"

section \<open>Abortion\<close>

definition timeout_reason :: "TaskAbortReason \<Rightarrow> bool" where
  "timeout_reason r \<longleftrightarrow>
    r = TaskAbortTimeout \<or> r = TaskAbortCreatorValidationTimeout \<or> r = TaskAbortResultUploadTimeout"

definition shouldUpdateNodeQosScoreOnAbort :: "InferenceTask \<Rightarrow> bool" where
  "shouldUpdateNodeQosScoreOnAbort task \<longleftrightarrow>
    t_QOSScore task \<noteq> None \<and> t_AbortReason task \<noteq> TaskAbortCreatorValidationTimeout \<and>
    t_AbortReason task \<noteq> TaskAbortResultUploadTimeout"

text \<open>The node a task is aborted on: none for a task that never started, or whose node works on another task.\<close>

definition aborted_node :: "InferenceTask \<Rightarrow> Node option relay" where
  "aborted_node task =
    (if t_SelectedNode task = [] then ret None
     else try_catch (bnd (checkTaskSelectedNode task) (\<lambda>node. ret (Some node)))
       (\<lambda>e. if e = ErrWrongNodeCurrentTask \<and> \<not> timeout_reason (t_AbortReason task) then ret None else raise e))"

text \<open>The fee of an aborted task goes to the node when the creator let the validation lapse, and back to the creator otherwise.\<close>

definition abort_payment :: "task_env \<Rightarrow> InferenceTask \<Rightarrow> Node option \<Rightarrow> time \<Rightarrow> unit relay relay" where
  "abort_payment env task node now =
    (if t_AbortReason task = TaskAbortCreatorValidationTimeout
     then case node of
            None \<Rightarrow> raise (errors_New ''creator validation timeout task has no active selected node'')
          | Some n \<Rightarrow> sendTaskIncome (env_cfg env) (t_TaskIDCommitment task) (n_Address n) (t_TaskFee task) (t_TaskType task) (n_Network n) now
     else refundTaskPaymentToRelayAccount (t_TaskIDCommitment task) (t_Creator task) (t_TaskFee task) now)"

definition penalized :: "InferenceTask \<Rightarrow> TaskStatus \<Rightarrow> bool" where
  "penalized task lastStatus \<longleftrightarrow>
    t_AbortReason task = TaskAbortTimeout \<and> (lastStatus = TaskStarted \<or> lastStatus = TaskParametersUploaded) \<or>
    t_AbortReason task = TaskAbortResultUploadTimeout"

definition abort_on_node :: "task_env \<Rightarrow> InferenceTask \<Rightarrow> TaskStatus \<Rightarrow> Node \<Rightarrow> time \<Rightarrow> call list relay" where
  "abort_on_node env task lastStatus node now =
    bnd (if shouldUpdateNodeQosScoreOnAbort task then apply_group_score env task node else ret (node, [])) (\<lambda>(node, scoreTraces).
    bnd (if penalized task lastStatus
         then bnd (ApplyHealthPenalty (env_exp env) (env_cfg env) node now) (\<lambda>node.
              ret (node, [RecordNodeQosTrace (n_Address node) (t_TaskIDCommitment task) ''task_timeout_penalty'']))
         else ret (node, [])) (\<lambda>(node, penaltyTraces).
    bnd (nodeFinishTask (env_cfg env) (env_chain env) node) (\<lambda>_.
    ret (scoreTraces @ penaltyTraces))))"

definition DeleteGroupRefundExecutionGPUSnapshots :: "string \<Rightarrow> unit relay" where
  "DeleteGroupRefundExecutionGPUSnapshots taskID =
    (if taskID = [] then ret ()
     else bnd (GetTaskGroupByTaskID taskID) (\<lambda>groupTasks.
          for_each (filter (\<lambda>t. t_Status t = TaskEndGroupRefund) groupTasks)
            (\<lambda>t. call (DeleteTaskExecutionGPUSnapshot (t_TaskIDCommitment t)))))"

definition abort_tx :: "task_env \<Rightarrow> InferenceTask \<Rightarrow> address \<Rightarrow> time \<Rightarrow> (InferenceTask \<times> call list) relay" where
  "abort_tx env task abortIssuer now =
    bnd (aborted_node task) (\<lambda>node.
    bnd (abort_payment env task node now) (\<lambda>commitFunc.
    bnd (task_Update_status task (\<lambda>t. t\<lparr> t_Status := TaskEndAborted, t_TaskID := t_TaskID task, t_AbortReason := t_AbortReason task,
           t_ValidatedTime := t_ValidatedTime task, t_QOSScore := t_QOSScore task, t_DeadlineAt := None \<rparr>)) (\<lambda>aborted.
    bnd (case node of None \<Rightarrow> ret [] | Some n \<Rightarrow> abort_on_node env aborted (t_Status task) n now) (\<lambda>traces.
    bnd (emitEvent (TaskEndAbortedEvent (t_TaskIDCommitment task) abortIssuer (t_Status task) (t_AbortReason task))) (\<lambda>_.
    bnd commitFunc (\<lambda>_.
    ret (aborted, traces)))))))"

definition SetTaskStatusEndAborted :: "task_env \<Rightarrow> InferenceTask \<Rightarrow> address \<Rightarrow> time \<Rightarrow> InferenceTask relay" where
  "SetTaskStatusEndAborted env task abortIssuer now =
    (if t_Status task = TaskEndAborted then ret task
     else if t_Status task \<in> {TaskEndSuccess, TaskEndInvalidated, TaskEndGroupSuccess, TaskEndGroupRefund} then raise errWrongTaskStatus
     else bnd (txn (abort_tx env task abortIssuer now)) (\<lambda>(aborted, traces).
          bnd (for_each traces call) (\<lambda>_.
          bnd (call (deleteRunningTaskSnapshot (t_TaskIDCommitment task))) (\<lambda>_.
          bnd (call (DeleteTaskExecutionGPUSnapshot (t_TaskIDCommitment task))) (\<lambda>_.
          bnd (if t_Status task = TaskGroupValidated then DeleteGroupRefundExecutionGPUSnapshots (t_TaskID task) else ret ()) (\<lambda>_.
          ret aborted))))))"

section \<open>Success\<close>

record taskPayment =
  tp_taskIDCommitment :: string
  tp_address :: address
  tp_payment :: int
  tp_network :: string

definition paid_in_group :: "InferenceTask \<Rightarrow> bool" where
  "paid_in_group t \<longleftrightarrow> t_Status t = TaskGroupValidated \<or> t_Status t = TaskEndGroupRefund"

definition group_score :: "InferenceTask list \<Rightarrow> nat" where
  "group_score validTasks = foldl (\<lambda>acc t. (acc + qos_number (t_QOSScore t)) mod 2 ^ 64) 0 validTasks"

text \<open>Each member gets its fee times its score over the total score; the remainders are added up and go to the last one.\<close>

fun share_payments :: "nat \<Rightarrow> (address \<Rightarrow> string) \<Rightarrow> int \<Rightarrow> InferenceTask list \<Rightarrow> taskPayment list" where
  "share_payments totalScore network totalRem [] = []"
| "share_payments totalScore network totalRem (t # ts) =
    (let product = t_TaskFee t * (case t_QOSScore t of None \<Rightarrow> 0 | Some q \<Rightarrow> q);
         quotient = go_quo product (int totalScore);
         totalRem = totalRem + go_rem product (int totalScore)
     in \<lparr> tp_taskIDCommitment = t_TaskIDCommitment t, tp_address = t_SelectedNode t,
          tp_payment = (if ts = [] then quotient + totalRem else quotient), tp_network = network (t_SelectedNode t) \<rparr>
        # share_payments totalScore network totalRem ts)"

definition network_of :: "Node list \<Rightarrow> address \<Rightarrow> string" where
  "network_of nodes addr = (case map_of (rev (map (\<lambda>n. (n_Address n, n_Network n)) nodes)) addr of None \<Rightarrow> [] | Some w \<Rightarrow> w)"

definition group_payments :: "InferenceTask list \<Rightarrow> taskPayment list relay" where
  "group_payments tasks =
    (let validTasks = filter paid_in_group tasks; totalScore = group_score validTasks in
     bnd (GetNodesByAddresses (map t_SelectedNode validTasks)) (\<lambda>validNodes.
     bnd (check (validTasks = [] \<or> totalScore \<noteq> 0) (Panic ''division by zero'')) (\<lambda>_.
     ret (share_payments totalScore (network_of validNodes) 0 validTasks))))"

definition success_tx ::
  "task_env \<Rightarrow> InferenceTask \<Rightarrow> Node \<Rightarrow> TaskStatus \<Rightarrow> taskPayment list \<Rightarrow> time \<Rightarrow> (InferenceTask \<times> Node \<times> call list) relay" where
  "success_tx env task node status payments now =
    bnd (map_each (\<lambda>p. sendTaskIncome (env_cfg env) (tp_taskIDCommitment p) (tp_address p) (tp_payment p) (t_TaskType task)
           (tp_network p) now) payments) (\<lambda>commitFuncs.
    bnd (task_Update_status task (\<lambda>t. t\<lparr> t_Status := status, t_ResultUploadedTime := Some now, t_DeadlineAt := None \<rparr>)) (\<lambda>task.
    bnd (boost_node env task ''task_result_upload_success_boost'' node now) (\<lambda>(node, traces).
    bnd (nodeFinishTask (env_cfg env) (env_chain env) node) (\<lambda>_.
    bnd (emitEvent (if status = TaskEndSuccess then TaskEndSuccessEvent (t_TaskIDCommitment task) (t_SelectedNode task)
                    else TaskEndGroupSuccessEvent (t_TaskIDCommitment task) (t_SelectedNode task))) (\<lambda>_.
    bnd (for_each commitFuncs (\<lambda>commitFunc. commitFunc)) (\<lambda>_.
    ret (task, node, traces)))))))"

definition SetTaskStatusEndSuccess :: "task_env \<Rightarrow> InferenceTask \<Rightarrow> time \<Rightarrow> InferenceTask relay" where
  "SetTaskStatusEndSuccess env task now =
    bnd (checkTaskSelectedNode task) (\<lambda>node.
    bnd (GetTaskGroupByTaskID (t_TaskID task)) (\<lambda>tasks.
    (let status = (if length tasks > 1 then TaskEndGroupSuccess else TaskEndSuccess) in
    bnd (if length tasks > 1 then group_payments tasks
         else ret [\<lparr> tp_taskIDCommitment = t_TaskIDCommitment task, tp_address = t_SelectedNode task,
                     tp_payment = t_TaskFee task, tp_network = n_Network node \<rparr>]) (\<lambda>payments.
    bnd (txn (success_tx env task node status payments now)) (\<lambda>(task, node, traces).
    bnd (call (updateLoadedModels (t_TaskIDCommitment task) (n_Address node))) (\<lambda>_.
    bnd (for_each traces call) (\<lambda>_.
    bnd (call (deleteRunningTaskSnapshot (t_TaskIDCommitment task))) (\<lambda>_.
    ret task))))))))"

section \<open>Timeouts\<close>

text \<open>Up to three attempts, each on the row as it was last read.\<close>

fun abort_attempts :: "nat \<Rightarrow> go_error \<Rightarrow> task_env \<Rightarrow> InferenceTask \<Rightarrow> address \<Rightarrow> time \<Rightarrow> unit relay" where
  "abort_attempts 0 err env task abortIssuer now = raise err"
| "abort_attempts (Suc n) err env task abortIssuer now =
    (case GetTaskDeadline (env_cfg env) task of
       None \<Rightarrow> ret ()
     | Some dl \<Rightarrow>
        if (case t_DeadlineAt task of None \<Rightarrow> True | Some d \<Rightarrow> d > now) then ret ()
        else let task = task\<lparr> t_AbortReason := dl_reason dl \<rparr> in
             try_catch (bnd (ExecuteNodeStateUpdate [t_SelectedNode task] (SetTaskStatusEndAborted env task abortIssuer now)) (\<lambda>_. ret ()))
               (\<lambda>e. if e = ErrTaskStatusChanged \<or> e = ErrNodeStatusChanged
                    then bnd (GetTaskByIDCommitment (t_TaskIDCommitment task)) (\<lambda>currentTask.
                         abort_attempts n e env currentTask abortIssuer now)
                    else raise e))"

definition abortTimedOutTask :: "task_env \<Rightarrow> InferenceTask \<Rightarrow> address \<Rightarrow> time \<Rightarrow> unit relay" where
  "abortTimedOutTask env task abortIssuer now = abort_attempts 3 ErrTaskStatusChanged env task abortIssuer now"

definition abortTimedOutTasks :: "task_env \<Rightarrow> InferenceTask list \<Rightarrow> address \<Rightarrow> time \<Rightarrow> unit relay" where
  "abortTimedOutTasks env tasks abortIssuer now =
    for_each tasks (\<lambda>task. try_catch (abortTimedOutTask env task abortIssuer now) (\<lambda>_. ret ()))"

text \<open>One tick of the timeout worker, from the cursor it holds to the next.\<close>

definition processTaskTimeouts_round :: "task_env \<Rightarrow> taskDeadlineCursor option \<Rightarrow> time \<Rightarrow> taskDeadlineCursor option relay" where
  "processTaskTimeouts_round env cursor now =
    (let abortIssuer = getDefaultAbortIssuer (env_cfg env) in
     if abortIssuer = [] then ret cursor
     else bnd (getDueTaskDeadlines now (cfg_TimeoutQueryBatchSize (env_cfg env)) cursor) (\<lambda>tasks.
          bnd (abortTimedOutTasks env tasks abortIssuer now) (\<lambda>_.
          ret (next_cursor tasks))))"

section \<open>What a group is paid\<close>

definition share_product :: "InferenceTask \<Rightarrow> int" where
  "share_product t = t_TaskFee t * (case t_QOSScore t of None \<Rightarrow> 0 | Some q \<Rightarrow> q)"

lemma share_payments_total:
  assumes "0 < whole" "\<And>t. t \<in> set ts \<Longrightarrow> 0 \<le> share_product t"
  shows "(\<Sum>p\<leftarrow>share_payments whole net rem ts. tp_payment p) =
    (\<Sum>t\<leftarrow>ts. share_product t div int whole) + (if ts = [] then 0 else rem + (\<Sum>t\<leftarrow>ts. share_product t mod int whole))"
  using assms(2)
proof (induction ts arbitrary: rem)
  case (Cons t ts)
  have "0 \<le> share_product t" using Cons.prems by simp
  then show ?case
    using Cons.IH[of "rem + share_product t mod int whole"] Cons.prems assms(1)
    by (simp add: Let_def share_product_def[symmetric])
qed simp

lemma group_score_sum:
  "foldl (\<lambda>acc t. (acc + qos_number (t_QOSScore t)) mod 2 ^ 64) a ts =
    (if ts = [] then a else (a + (\<Sum>t\<leftarrow>ts. qos_number (t_QOSScore t))) mod 2 ^ 64)"
proof (induction ts arbitrary: a)
  case (Cons t ts)
  then show ?case by (cases "ts = []") (simp_all add: mod_simps ac_simps)
qed simp

lemma sum_div_mod: "(\<Sum>x\<leftarrow>xs. f x div k) * k + (\<Sum>x\<leftarrow>xs. f x mod k) = (\<Sum>x\<leftarrow>xs. f x :: int)"
  by (induction xs) (simp_all add: algebra_simps)

lemma sum_mod_bound:
  assumes "0 < (k :: int)"
  shows "0 \<le> (\<Sum>x\<leftarrow>xs. f x mod k) \<and> (\<Sum>x\<leftarrow>xs. f x mod k) \<le> int (length xs) * (k - 1)"
proof (induction xs)
  case (Cons x xs)
  have "0 \<le> f x mod k" "f x mod k \<le> k - 1" using assms by simp_all
  then show ?case using Cons by (simp add: algebra_simps)
qed simp

text \<open>A group as the validation leaves it: one fee, and a score below the wrap-around for every paid member.\<close>

definition scored_group :: "int \<Rightarrow> InferenceTask list \<Rightarrow> bool" where
  "scored_group fee ts \<longleftrightarrow>
    0 \<le> fee \<and> length ts \<le> 3 \<and> list_all (\<lambda>t. t_TaskFee t = fee \<and>
      (case t_QOSScore t of None \<Rightarrow> False | Some q \<Rightarrow> 0 \<le> q \<and> q < 2 ^ 32)) ts"

lemma scored_group_total:
  assumes "scored_group fee ts"
  shows "int (group_score ts) = (\<Sum>t\<leftarrow>ts. case t_QOSScore t of None \<Rightarrow> 0 | Some q \<Rightarrow> q)"
    and "(\<Sum>t\<leftarrow>ts. share_product t) = fee * int (group_score ts)"
    and "t \<in> set ts \<Longrightarrow> 0 \<le> share_product t"
proof -
  have member: "int (qos_number (t_QOSScore t)) = (case t_QOSScore t of None \<Rightarrow> 0 | Some q \<Rightarrow> q) \<and>
      qos_number (t_QOSScore t) < 2 ^ 32 \<and> share_product t = fee * int (qos_number (t_QOSScore t))" if mem: "t \<in> set ts" for t
  proof -
    obtain q where q: "t_QOSScore t = Some q" "0 \<le> q" "q < 2 ^ 32" "t_TaskFee t = fee"
      using assms mem by (auto simp: scored_group_def list_all_iff split: option.splits)
    then have "q mod 2 ^ 64 = q" by (intro mod_pos_pos_trivial) simp_all
    then show ?thesis using q by (simp add: qos_number_def wrap_u64_def share_product_def)
  qed
  have sums: "int (\<Sum>t\<leftarrow>us. qos_number (t_QOSScore t)) = (\<Sum>t\<leftarrow>us. case t_QOSScore t of None \<Rightarrow> 0 | Some q \<Rightarrow> q)
      \<and> (\<Sum>t\<leftarrow>us. share_product t) = fee * int (\<Sum>t\<leftarrow>us. qos_number (t_QOSScore t))
      \<and> (\<Sum>t\<leftarrow>us. qos_number (t_QOSScore t)) \<le> length us * 2 ^ 32" if "set us \<subseteq> set ts" for us
    using that
  proof (induction us)
    case (Cons u us)
    then show ?case using member[of u] by (simp add: algebra_simps)
  qed simp
  have "length ts * 2 ^ 32 < (2 ^ 64 :: nat)" using assms by (simp add: scored_group_def)
  then have "(\<Sum>t\<leftarrow>ts. qos_number (t_QOSScore t)) mod 2 ^ 64 = (\<Sum>t\<leftarrow>ts. qos_number (t_QOSScore t))"
    using sums[OF subset_refl] by (intro mod_less) (meson le_less_trans)
  then have score: "group_score ts = (\<Sum>t\<leftarrow>ts. qos_number (t_QOSScore t))"
    unfolding group_score_def group_score_sum by (cases "ts = []") simp_all
  show "int (group_score ts) = (\<Sum>t\<leftarrow>ts. case t_QOSScore t of None \<Rightarrow> 0 | Some q \<Rightarrow> q)"
    "(\<Sum>t\<leftarrow>ts. share_product t) = fee * int (group_score ts)"
    using sums[of ts] by (simp_all add: score)
  show "0 \<le> share_product t" if "t \<in> set ts"
    using member[OF that] assms by (simp add: scored_group_def)
qed

text \<open>C36: The payments to the paid members of a group with one fee add up to the fee and a surplus, \<^verbatim>\<open>totalScore - 1\<close>
  units for every whole unit the rounding left over: the remainders are counted in fractions of a unit and
  paid as whole units.  The group is never paid less than the fee, and at most \<^verbatim>\<open>totalScore - 1\<close> units per member more.\<close>

theorem group_paid_fee_and_remainders:
  assumes "returns (group_payments tasks) s payments s'" "scored_group fee (filter paid_in_group tasks)"
    and "filter paid_in_group tasks \<noteq> []"
  defines "whole \<equiv> int (group_score (filter paid_in_group tasks))"
  shows "\<exists>k \<ge> 0. k * whole = (\<Sum>t\<leftarrow>filter paid_in_group tasks. share_product t mod whole) \<and>
      (\<Sum>p\<leftarrow>payments. tp_payment p) = fee + k * (whole - 1) \<and>
      (\<Sum>p\<leftarrow>payments. tp_payment p) \<le> fee + int (length (filter paid_in_group tasks)) * (whole - 1)"
proof -
  define ts where "ts = filter paid_in_group tasks"
  obtain net where pay: "payments = share_payments (group_score ts) net 0 ts" and pos: "0 < group_score ts"
    using assms(1,3) by (auto simp: group_payments_def Let_def ts_def)
  note group = scored_group_total[OF assms(2)[folded ts_def]]
  define R where "R = (\<Sum>t\<leftarrow>ts. share_product t mod whole)"
  define Q where "Q = (\<Sum>t\<leftarrow>ts. share_product t div whole)"
  have whole: "whole = int (group_score ts)" "0 < whole" using pos by (simp_all add: whole_def ts_def)
  have sum: "Q * whole + R = fee * whole"
    using sum_div_mod[of share_product whole ts] group(2) by (simp add: Q_def R_def whole(1))
  have paid: "(\<Sum>p\<leftarrow>payments. tp_payment p) = Q + R"
    using share_payments_total[OF pos, of ts net 0] group(3) assms(3) by (simp add: pay Q_def R_def whole(1) ts_def)
  have R: "0 \<le> R" "R \<le> int (length ts) * (whole - 1)"
    using sum_mod_bound[OF whole(2), of share_product ts] by (simp_all add: R_def)
  have k: "R = (fee - Q) * whole" using sum by (simp add: algebra_simps)
  then have "0 \<le> fee - Q" using R(1) whole(2) by (simp add: zero_le_mult_iff)
  moreover have "Q + R = fee + (fee - Q) * (whole - 1)" using k by (simp add: algebra_simps)
  moreover have "Q + R \<le> fee + int (length ts) * (whole - 1)" using R(2) calculation(1) by linarith
  ultimately show ?thesis
    using k paid by (intro exI[of _ "fee - Q"]) (simp add: R_def ts_def)
qed

definition paid_task :: "nat \<Rightarrow> TaskStatus \<Rightarrow> int \<Rightarrow> InferenceTask" where
  "paid_task i st q = blank_task\<lparr> t_ID := i, t_Status := st, t_QOSScore := Some q, t_SelectedNode := ''a'' \<rparr>"

definition paid_group :: "InferenceTask list" where
  "paid_group = [paid_task 1 TaskGroupValidated 10, paid_task 2 TaskEndGroupRefund 5, paid_task 3 TaskEndGroupRefund 2]"

text \<open>Three members with the scores 10, 5 and 2 and a fee of 10 units are paid 42 units.\<close>

theorem group_paid_fee_and_remainders_witness:
  "\<exists>payments s'. returns (group_payments paid_group) (empty_db, empty_mem) payments s' \<and> (\<Sum>p\<leftarrow>payments. tp_payment p) = 10 + 2 * (17 - 1)"
proof -
  have f: "filter paid_in_group paid_group = paid_group"
    by (simp add: paid_group_def paid_task_def paid_in_group_def blank_task_def)
  have score: "group_score paid_group = 17"
    by (simp add: group_score_def paid_group_def paid_task_def qos_number_def wrap_u64_def blank_task_def)
  have ok: "scored_group 10 (filter paid_in_group paid_group)" unfolding f
    by (simp add: scored_group_def paid_group_def paid_task_def blank_task_def)
  have ne: "paid_group \<noteq> []" by (simp add: paid_group_def)
  obtain payments s' where run: "returns (group_payments paid_group) (empty_db, empty_mem) payments s'"
    using ne by (simp add: group_payments_def Let_def f score GetNodesByAddresses_def)
  have rems: "(\<Sum>t\<leftarrow>paid_group. share_product t mod 17) = 34"
    by (simp add: paid_group_def paid_task_def share_product_def blank_task_def)
  have "(\<Sum>p\<leftarrow>payments. tp_payment p) = 10 + 2 * (17 - 1)"
    using group_paid_fee_and_remainders[OF run ok] ne by (auto simp: f score rems)
  with run show ?thesis by blast
qed
end
