(* ===== verification/Validation.thy ===== *)
theory Validation
  imports TaskLifecycle
begin

text \<open>
  Validation of results (\<^verbatim>\<open>service/validate_task.go\<close>): a single task whose sampling number does not select it is
  validated on its own; a task that is selected runs three times and the three results are compared, the
  majority is paid and a dissenter is slashed.  Hex decoding, hashing, the elliptic curve and the verifiable
  random function are a library record.  The whole group is settled in one transaction on the refreshed rows.
\<close>

section \<open>Identifiers and proofs\<close>

record vrf_lib =
  vl_Decode :: "string \<Rightarrow> go_error + bytes"
  vl_Keccak256Hex :: "bytes \<Rightarrow> string"
  vl_ParsePubKey :: "bytes \<Rightarrow> go_error + string"
  vl_PubkeyToAddressHex :: "string \<Rightarrow> address"
  vl_Verify :: "string \<Rightarrow> bytes \<Rightarrow> bytes \<Rightarrow> go_error + bytes"

definition validateTaskID :: "vrf_lib \<Rightarrow> string \<Rightarrow> string \<Rightarrow> string \<Rightarrow> go_error + unit" where
  "validateTaskID lib taskID nonce taskIDCommitment =
    (case vl_Decode lib taskID of Inl e \<Rightarrow> Inl e | Inr taskIDBytes \<Rightarrow>
     case vl_Decode lib nonce of Inl e \<Rightarrow> Inl e | Inr nonceBytes \<Rightarrow>
     if vl_Keccak256Hex lib (taskIDBytes @ nonceBytes) \<noteq> taskIDCommitment then Inl (errors_New ''task id incorrect'') else Inr ())"

definition VrfNeedValidation :: "bytes \<Rightarrow> bool" where
  "VrfNeedValidation vrfNumber \<longleftrightarrow> big_endian vrfNumber mod 100 = 0"

definition validateVRFProof :: "vrf_lib \<Rightarrow> string \<Rightarrow> string \<Rightarrow> string \<Rightarrow> address \<Rightarrow> bool \<Rightarrow> go_error + unit" where
  "validateVRFProof lib samplingSeed vrfProof publicKey creator grouped =
    (case vl_Decode lib samplingSeed of Inl _ \<Rightarrow> Inl (errors_New ''invalid sampling seed'') | Inr seed \<Rightarrow>
     case vl_Decode lib publicKey of Inl _ \<Rightarrow> Inl (errors_New ''invalid public key'') | Inr pk \<Rightarrow>
     if length pk \<noteq> 64 then Inl (errors_New ''invalid public key'') else
     case vl_Decode lib vrfProof of Inl _ \<Rightarrow> Inl (errors_New ''invalid vrf proof'') | Inr proof_bytes \<Rightarrow>
     if length proof_bytes \<noteq> 81 then Inl (errors_New ''invalid vrf proof'') else
     case vl_ParsePubKey lib (CHR 0x04 # pk) of Inl e \<Rightarrow> Inl e | Inr pubKey \<Rightarrow>
     if vl_PubkeyToAddressHex lib pubKey \<noteq> creator then Inl (errors_New ''not task creator'') else
     case vl_Verify lib pubKey seed proof_bytes of Inl e \<Rightarrow> Inl e | Inr beta \<Rightarrow>
     if grouped \<and> \<not> VrfNeedValidation beta then Inl (errors_New ''task is not selected for validation'')
     else if \<not> grouped \<and> VrfNeedValidation beta then Inl (errors_New ''task is selected for validation'')
     else Inr ())"

definition ValidateSingleTask ::
  "task_env \<Rightarrow> vrf_lib \<Rightarrow> InferenceTask \<Rightarrow> string \<Rightarrow> string \<Rightarrow> string \<Rightarrow> time \<Rightarrow> InferenceTask relay" where
  "ValidateSingleTask env lib task taskID vrfProof publicKey now =
    bnd (of_sum (validateTaskID lib taskID (t_Nonce task) (t_TaskIDCommitment task))) (\<lambda>_.
    bnd (of_sum (validateVRFProof lib (t_SamplingSeed task) vrfProof publicKey (t_Creator task) False)) (\<lambda>_.
    bnd (check (\<not> (t_TaskID task \<noteq> [] \<and> t_TaskID task \<noteq> taskID)) (errors_New ''task id conflicts with completed validation'')) (\<lambda>_.
    bnd (check (\<not> (t_Status task = TaskValidated \<or> t_Status task = TaskEndSuccess \<or>
                   t_Status task = TaskEndAborted \<and> t_AbortReason task = TaskAbortErrorReported)) ErrValidationAlreadyApplied) (\<lambda>_.
    bnd (check (t_Status task = TaskScoreReady \<or> t_Status task = TaskErrorReported) (errors_New ''illegal task state'')) (\<lambda>_.
    (let task = task\<lparr> t_TaskID := taskID \<rparr> in
     if t_Status task = TaskScoreReady then SetTaskStatusValidated env task now
     else let task = task\<lparr> t_AbortReason := TaskAbortErrorReported, t_ValidatedTime := Some now \<rparr> in
          ExecuteNodeStateUpdate [t_SelectedNode task] (SetTaskStatusEndAborted env task (t_Creator task) now)))))))"

section \<open>Comparing results\<close>

fun char_bits :: "char \<Rightarrow> bool list" where
  "char_bits (Char b0 b1 b2 b3 b4 b5 b6 b7) = [b0, b1, b2, b3, b4, b5, b6, b7]"

text \<open>\<^verbatim>\<open>bits.OnesCount8(a ^ b)\<close>\<close>

definition byte_distance :: "char \<Rightarrow> char \<Rightarrow> nat" where
  "byte_distance a b = length (filter (\<lambda>(x, y). x \<noteq> y) (zip (char_bits a) (char_bits b)))"

definition HammingDistance :: "bytes \<Rightarrow> bytes \<Rightarrow> nat" where
  "HammingDistance a b = sum_list (map2 byte_distance a b)"

fun blocks_close :: "nat \<Rightarrow> bytes \<Rightarrow> bytes \<Rightarrow> bool" where
  "blocks_close threshold [] h2 = True"
| "blocks_close threshold (x # h1) h2 =
    (if HammingDistance (take 8 (x # h1)) (take 8 h2) \<ge> threshold then False
     else blocks_close threshold (drop 8 (x # h1)) (drop 8 h2))"

definition checkHammingDistance :: "bytes \<Rightarrow> bytes \<Rightarrow> nat \<Rightarrow> bool" where
  "checkHammingDistance h1 h2 threshold =
    (if length h1 \<noteq> length h2 \<or> length h1 mod 8 \<noteq> 0 then False else blocks_close threshold h1 h2)"

definition MustDecode :: "vrf_lib \<Rightarrow> string \<Rightarrow> go_error + bytes" where
  "MustDecode lib s = (case vl_Decode lib s of Inl _ \<Rightarrow> Inl (Panic ''hexutil.MustDecode'') | Inr bs \<Rightarrow> Inr bs)"

definition compareTaskScore :: "vrf_lib \<Rightarrow> nat \<Rightarrow> InferenceTask \<Rightarrow> InferenceTask \<Rightarrow> go_error + bool" where
  "compareTaskScore lib threshold task1 task2 =
    (if t_TaskType task1 \<noteq> t_TaskType task2 then Inr False
     else if t_Status task1 \<noteq> t_Status task2 then Inr False
     else if t_Status task1 = TaskScoreReady
     then (case t_TaskType task1 of
             TaskTypeLLM \<Rightarrow> Inr (t_Score task1 = t_Score task2)
           | _ \<Rightarrow> (case MustDecode lib (t_Score task1) of Inl e \<Rightarrow> Inl e | Inr h1 \<Rightarrow>
                   case MustDecode lib (t_Score task2) of Inl e \<Rightarrow> Inl e | Inr h2 \<Rightarrow>
                   Inr (checkHammingDistance h1 h2 threshold)))
     else Inr True)"

section \<open>Groups\<close>

definition ExecutionTime :: "InferenceTask \<Rightarrow> duration" where
  "ExecutionTime task =
    (case (t_StartTime task, t_ScoreReadyTime task) of
       (Some started_at, Some ready_at) \<Rightarrow> time_Sub ready_at started_at
     | _ \<Rightarrow> 2 ^ 63 - 1)"

definition unaborted :: "InferenceTask list \<Rightarrow> InferenceTask list" where
  "unaborted tasks = filter (\<lambda>t. t_Status t \<noteq> TaskEndAborted) tasks"

definition checkGroupExecutionModelFiles :: "InferenceTask list \<Rightarrow> go_error + unit" where
  "checkGroupExecutionModelFiles tasks =
    (case unaborted tasks of
       [] \<Rightarrow> Inr ()
     | reference # rest \<Rightarrow>
         if list_all (\<lambda>t. t_ExecutionModelFileHashes reference = t_ExecutionModelFileHashes t) rest then Inr ()
         else Inl ErrInconsistentExecutionModelFiles)"

fun assign_scores :: "nat \<Rightarrow> InferenceTask list \<Rightarrow> go_error + InferenceTask list" where
  "assign_scores order [] = Inr []"
| "assign_scores order (t # ts) =
    (if t_Status t \<noteq> TaskEndAborted
     then (case getTaskQosScore order of Inl e \<Rightarrow> Inl e | Inr score \<Rightarrow>
           case assign_scores (Suc order) ts of Inl e \<Rightarrow> Inl e | Inr rest \<Rightarrow> Inr (t\<lparr> t_QOSScore := Some (int score) \<rparr> # rest))
     else (case assign_scores order ts of Inl e \<Rightarrow> Inl e | Inr rest \<Rightarrow> Inr (t\<lparr> t_QOSScore := Some 0 \<rparr> # rest)))"

definition assignValidationGroupQosScores :: "InferenceTask list \<Rightarrow> go_error + InferenceTask list" where
  "assignValidationGroupQosScores tasks =
    (case assign_scores 0 tasks of Inl e \<Rightarrow> Inl e | Inr scored \<Rightarrow>
     Inr (if unaborted tasks = [] then map (\<lambda>t. t\<lparr> t_QOSScore := None \<rparr>) scored else scored))"

definition shouldPersistValidationGroupTimeoutQos :: "InferenceTask \<Rightarrow> bool" where
  "shouldPersistValidationGroupTimeoutQos task \<longleftrightarrow>
    t_Status task = TaskEndAborted \<and> t_AbortReason task = TaskAbortTimeout \<and> t_QOSScore task \<noteq> None \<and> t_SelectedNode task \<noteq> []"

definition persistValidationGroupAbortedTaskQos :: "task_env \<Rightarrow> InferenceTask \<Rightarrow> InferenceTask relay" where
  "persistValidationGroupAbortedTaskQos env task =
    bnd (if shouldPersistValidationGroupTimeoutQos task
         then bnd (GetNodeByAddress (t_SelectedNode task)) (\<lambda>node.
              bnd (updateNodeQosScore (env_cfg env) node (qos_number (t_QOSScore task))) (\<lambda>_. ret ()))
         else ret ()) (\<lambda>_.
    task_Update task (\<lambda>t. t\<lparr> t_QOSScore := t_QOSScore task, t_TaskID := t_TaskID task \<rparr>))"

definition groupHasCreatorValidationTimeout :: "InferenceTask list \<Rightarrow> bool" where
  "groupHasCreatorValidationTimeout tasks =
    list_ex (\<lambda>t. t_Status t = TaskEndAborted \<and> t_AbortReason t = TaskAbortCreatorValidationTimeout) tasks"

definition lockValidationGroupTasks :: "InferenceTask list \<Rightarrow> InferenceTask list relay" where
  "lockValidationGroupTasks tasks =
    bnd (check (length tasks = 3) (errors_New ''task group size is not 3'')) (\<lambda>_.
    bnd (read_db (\<lambda>d. filter (\<lambda>r. t_ID r \<in> set (map t_ID tasks)) (d_tasks d))) (\<lambda>records.
    bnd (check (length records = length tasks) (errors_New ''task group records are incomplete'')) (\<lambda>_.
    map_each (\<lambda>task. of_option (errors_New ''task group records are incomplete'') (find (\<lambda>r. t_ID r = t_ID task) (rev records))) tasks)))"

definition refreshValidationGroupTasksForFinalUpdate :: "InferenceTask list \<Rightarrow> string \<Rightarrow> InferenceTask list relay" where
  "refreshValidationGroupTasksForFinalUpdate tasks taskID =
    bnd (lockValidationGroupTasks tasks) (\<lambda>refreshedTasks.
    bnd (check (\<not> list_all (\<lambda>t. t_TaskID t = taskID) refreshedTasks) ErrValidationAlreadyApplied) (\<lambda>_.
    bnd (check (\<not> groupHasCreatorValidationTimeout refreshedTasks) (errors_New ''task group validation expired'')) (\<lambda>_.
    bnd (check (list_all (\<lambda>t. t_Status t = TaskScoreReady \<or> t_Status t = TaskErrorReported \<or> t_Status t = TaskEndAborted) refreshedTasks)
          (errors_New ''illegal task state'')) (\<lambda>_.
    ret refreshedTasks))))"

section \<open>The verdict on a group\<close>

text \<open>The next status of every member, keyed by commitment; a member that is not mentioned is aborted.\<close>

type_synonym verdict = "(string \<times> TaskStatus) list"

definition verdict_of :: "verdict \<Rightarrow> InferenceTask \<Rightarrow> TaskStatus" where
  "verdict_of v task = (case map_of v (t_TaskIDCommitment task) of None \<Rightarrow> TaskEndAborted | Some st \<Rightarrow> st)"

definition matched_pair :: "InferenceTask \<Rightarrow> InferenceTask \<Rightarrow> verdict" where
  "matched_pair a b =
    (if t_Status a = TaskScoreReady
     then [(t_TaskIDCommitment a, TaskGroupValidated), (t_TaskIDCommitment b, TaskEndGroupRefund)] else [])"

text \<open>Later entries of the source's map overwrite earlier ones: they come first in the list.\<close>

definition group_verdict :: "vrf_lib \<Rightarrow> nat \<Rightarrow> InferenceTask list \<Rightarrow> go_error + verdict" where
  "group_verdict lib threshold finishedTasks =
    (case finishedTasks of
       [a, b] \<Rightarrow>
         (case compareTaskScore lib threshold a b of Inl e \<Rightarrow> Inl e | Inr same \<Rightarrow>
          Inr (if same then matched_pair a b else []))
     | [a, b, c] \<Rightarrow>
         (case compareTaskScore lib threshold a b of Inl e \<Rightarrow> Inl e | Inr same1 \<Rightarrow>
          case compareTaskScore lib threshold a c of Inl e \<Rightarrow> Inl e | Inr same2 \<Rightarrow>
          case compareTaskScore lib threshold b c of Inl e \<Rightarrow> Inl e | Inr same3 \<Rightarrow>
          Inr (if same1 then (t_TaskIDCommitment c, if same2 then TaskEndGroupRefund else TaskEndInvalidated) # matched_pair a b
               else if same2 then (t_TaskIDCommitment b, TaskEndInvalidated) # matched_pair a c
               else if same3 then (t_TaskIDCommitment a, TaskEndInvalidated) # matched_pair b c
               else []))
     | _ \<Rightarrow> Inr [])"

definition buildInvalidatedTaskSlashEvidence ::
  "task_env \<Rightarrow> InferenceTask list \<Rightarrow> verdict \<Rightarrow> (string \<times> string \<times> bool) list relay" where
  "buildInvalidatedTaskSlashEvidence env tasks v =
    map_each (\<lambda>task.
      bnd (checkTaskSelectedNode task) (\<lambda>node.
      bnd (buildSlashEvidence env task node) (\<lambda>(evidence, evidenceComplete).
      ret (t_TaskIDCommitment task, evidence, evidenceComplete))))
      (filter (\<lambda>t. verdict_of v t = TaskEndInvalidated) tasks)"

definition apply_verdict ::
  "task_env \<Rightarrow> verdict \<Rightarrow> (string \<times> string \<times> bool) list \<Rightarrow> nat \<Rightarrow> time \<Rightarrow> InferenceTask \<Rightarrow> InferenceTask relay" where
  "apply_verdict env v evidences finished now task =
    (case verdict_of v task of
       TaskEndInvalidated \<Rightarrow>
         (case map_of evidences (t_TaskIDCommitment task) of
            None \<Rightarrow> raise (errors_New ''missing prebuilt slash evidence'')
          | Some (evidence, evidenceComplete) \<Rightarrow> SetTaskStatusEndInvalidatedWithEvidence env task evidence evidenceComplete now)
     | TaskGroupValidated \<Rightarrow> SetTaskStatusGroupValidated env task now
     | TaskEndGroupRefund \<Rightarrow> SetTaskStatusEndGroupRefund env task now
     | _ \<Rightarrow>
         if t_Status task \<noteq> TaskEndAborted
         then SetTaskStatusEndAborted env
                (task\<lparr> t_AbortReason := (if finished < 2 then TaskAbortGroupTimeout else TaskAbortIncorrectResult),
                       t_ValidatedTime := Some now \<rparr>) (t_Creator task) now
         else persistValidationGroupAbortedTaskQos env task)"

definition settle_group :: "task_env \<Rightarrow> vrf_lib \<Rightarrow> InferenceTask list \<Rightarrow> time \<Rightarrow> InferenceTask list relay" where
  "settle_group env lib tasks now =
    bnd (of_sum (checkGroupExecutionModelFiles tasks)) (\<lambda>_.
    bnd (of_sum (assignValidationGroupQosScores (sort_key (\<lambda>t. (ExecutionTime t, t_ID t)) tasks))) (\<lambda>tasks.
    (let finishedTasks = unaborted tasks in
    bnd (of_sum (group_verdict lib (cfg_DistanceThreshold (env_cfg env)) finishedTasks)) (\<lambda>v.
    bnd (buildInvalidatedTaskSlashEvidence env tasks v) (\<lambda>evidences.
    map_each (apply_verdict env v evidences (length finishedTasks) now) tasks)))))"

definition group_tx :: "task_env \<Rightarrow> vrf_lib \<Rightarrow> InferenceTask list \<Rightarrow> string \<Rightarrow> time \<Rightarrow> InferenceTask list relay" where
  "group_tx env lib tasks taskID now =
    bnd (refreshValidationGroupTasksForFinalUpdate tasks taskID) (\<lambda>refreshedTasks.
    settle_group env lib (map (\<lambda>t. t\<lparr> t_TaskID := taskID \<rparr>) refreshedTasks) now)"

definition check_member :: "vrf_lib \<Rightarrow> string \<Rightarrow> string \<Rightarrow> string \<Rightarrow> string \<Rightarrow> InferenceTask \<Rightarrow> unit relay" where
  "check_member lib taskID samplingSeed vrfProof publicKey task =
    bnd (of_sum (validateTaskID lib taskID (t_Nonce task) (t_TaskIDCommitment task))) (\<lambda>_.
    bnd (of_sum (validateVRFProof lib samplingSeed vrfProof publicKey (t_Creator task) True)) (\<lambda>_.
    check (\<not> (t_TaskID task \<noteq> [] \<and> t_TaskID task \<noteq> taskID)) (errors_New ''task id conflicts with completed validation'')))"

definition ValidateTaskGroup ::
  "task_env \<Rightarrow> vrf_lib \<Rightarrow> InferenceTask list \<Rightarrow> string \<Rightarrow> string \<Rightarrow> string \<Rightarrow> time \<Rightarrow> InferenceTask list relay" where
  "ValidateTaskGroup env lib originTasks taskID vrfProof publicKey now =
    bnd (check (length originTasks = 3) (errors_New ''task group size is not 3'')) (\<lambda>_.
    (let tasks = sort_key t_ID originTasks in
    bnd (check (\<not> groupHasCreatorValidationTimeout tasks) (errors_New ''task group validation expired'')) (\<lambda>_.
    bnd (for_each tasks (check_member lib taskID (t_SamplingSeed (hd tasks)) vrfProof publicKey)) (\<lambda>_.
    bnd (check (\<not> list_all (\<lambda>t. t_TaskID t = taskID) tasks) ErrValidationAlreadyApplied) (\<lambda>_.
    bnd (ExecuteNodeStateUpdate (map t_SelectedNode tasks)
          (txn (group_tx env lib (map (\<lambda>t. t\<lparr> t_TaskID := taskID \<rparr>) tasks) taskID now))) (\<lambda>tasks.
    bnd (for_each (filter (\<lambda>t. t_TaskType t = TaskTypeSD \<and> (t_Status t = TaskGroupValidated \<or> t_Status t = TaskEndGroupRefund)) tasks)
          (\<lambda>t. seq (call (CalibrateValidatedSDTask (t_TaskIDCommitment t))) (call (DeleteTaskExecutionGPUSnapshot (t_TaskIDCommitment t))))) (\<lambda>_.
    ret tasks)))))))"


section \<open>Results are compared without regard to order\<close>

lemma zip_differ_sym:
  "length (filter (\<lambda>(x, y). x \<noteq> y) (zip xs ys)) = length (filter (\<lambda>(x, y). x \<noteq> y) (zip ys xs))"
  by (induction xs ys rule: list_induct2') auto

lemma byte_distance_sym: "byte_distance a b = byte_distance b a"
  unfolding byte_distance_def by (rule zip_differ_sym)

lemma HammingDistance_sym: "HammingDistance a b = HammingDistance b a"
  unfolding HammingDistance_def
  by (induction a b rule: list_induct2') (simp_all add: byte_distance_sym)

lemma blocks_close_sym:
  "length h1 = length h2 \<Longrightarrow> blocks_close threshold h1 h2 = blocks_close threshold h2 h1"
proof (induction threshold h1 h2 rule: blocks_close.induct)
  case (2 threshold x h1 h2)
  then obtain y h where h2: "h2 = y # h" by (cases h2) auto
  show ?case
    using 2 HammingDistance_sym[of "take 8 (x # h1)" "take 8 (y # h)"] by (simp add: h2)
qed simp

lemma checkHammingDistance_sym: "checkHammingDistance h1 h2 k = checkHammingDistance h2 h1 k"
  using blocks_close_sym[of h1 h2 k] by (auto simp: checkHammingDistance_def)

lemma compareTaskScore_sym: "compareTaskScore lib k a b = Inr r \<Longrightarrow> compareTaskScore lib k b a = Inr r"
  by (cases "t_TaskType b"; cases "MustDecode lib (t_Score a)"; cases "MustDecode lib (t_Score b)")
    (auto simp: compareTaskScore_def checkHammingDistance_sym[of _ _ k] split: if_splits)

section \<open>The verdict follows the majority\<close>

definition agree :: "vrf_lib \<Rightarrow> nat \<Rightarrow> InferenceTask \<Rightarrow> InferenceTask \<Rightarrow> bool" where
  "agree lib k a b \<longleftrightarrow> compareTaskScore lib k a b = Inr True"

lemma agree_sym: "agree lib k a b \<longleftrightarrow> agree lib k b a"
  unfolding agree_def using compareTaskScore_sym by blast

lemma agree_status: "agree lib k a b \<Longrightarrow> t_Status a = t_Status b"
  by (simp add: agree_def compareTaskScore_def split: if_splits)

text \<open>The verdict on three finished members in terms of who agrees with whom.\<close>

lemma group_verdict_cases:
  assumes "group_verdict lib k [a, b, c] = Inr v"
  shows "v = (if agree lib k a b then (t_TaskIDCommitment c, if agree lib k a c then TaskEndGroupRefund else TaskEndInvalidated) # matched_pair a b
    else if agree lib k a c then (t_TaskIDCommitment b, TaskEndInvalidated) # matched_pair a c
    else if agree lib k b c then (t_TaskIDCommitment a, TaskEndInvalidated) # matched_pair b c else [])"
  using assms by (auto simp: group_verdict_def agree_def split: sum.splits)

definition three_verdicts :: "verdict \<Rightarrow> InferenceTask \<Rightarrow> InferenceTask \<Rightarrow> InferenceTask \<Rightarrow> TaskStatus \<times> TaskStatus \<times> TaskStatus" where
  "three_verdicts v a b c = (verdict_of v a, verdict_of v b, verdict_of v c)"

lemma three_verdicts_cases:
  assumes "group_verdict lib k [a, b, c] = Inr v" "distinct [t_TaskIDCommitment a, t_TaskIDCommitment b, t_TaskIDCommitment c]"
  shows "three_verdicts v a b c =
    (if agree lib k a b
     then if t_Status a = TaskScoreReady
          then (TaskGroupValidated, TaskEndGroupRefund, if agree lib k a c then TaskEndGroupRefund else TaskEndInvalidated)
          else (TaskEndAborted, TaskEndAborted, if agree lib k a c then TaskEndGroupRefund else TaskEndInvalidated)
     else if agree lib k a c
     then if t_Status a = TaskScoreReady then (TaskGroupValidated, TaskEndInvalidated, TaskEndGroupRefund)
          else (TaskEndAborted, TaskEndInvalidated, TaskEndAborted)
     else if agree lib k b c
     then if t_Status b = TaskScoreReady then (TaskEndInvalidated, TaskGroupValidated, TaskEndGroupRefund)
          else (TaskEndInvalidated, TaskEndAborted, TaskEndAborted)
     else (TaskEndAborted, TaskEndAborted, TaskEndAborted))"
proof -
  have ne: "t_TaskIDCommitment a \<noteq> t_TaskIDCommitment b" "t_TaskIDCommitment b \<noteq> t_TaskIDCommitment a"
    "t_TaskIDCommitment a \<noteq> t_TaskIDCommitment c" "t_TaskIDCommitment c \<noteq> t_TaskIDCommitment a"
    "t_TaskIDCommitment b \<noteq> t_TaskIDCommitment c" "t_TaskIDCommitment c \<noteq> t_TaskIDCommitment b"
    using assms(2) by auto
  show ?thesis
    unfolding group_verdict_cases[OF assms(1)] three_verdicts_def verdict_of_def matched_pair_def
    by (cases "agree lib k a b"; cases "agree lib k a c"; cases "agree lib k b c") (simp_all add: ne)
qed

text \<open>
  C37: Three results, at least one of them a score, in the order of their execution times.  A member is only
  invalidated when the two others agree with each other; one member is validated exactly when two scores
  agree, and then it is a score, never the slower one of the agreeing pair; and whoever is refunded agrees with it.
\<close>

theorem verdict_follows_majority:
  assumes "group_verdict lib k [a, b, c] = Inr v"
    and "distinct [t_TaskIDCommitment a, t_TaskIDCommitment b, t_TaskIDCommitment c]"
    and "TaskScoreReady \<in> {t_Status a, t_Status b, t_Status c}"
  shows "(verdict_of v a = TaskEndInvalidated \<longrightarrow> agree lib k b c \<and> \<not> agree lib k a b \<and> \<not> agree lib k a c)
    \<and> (verdict_of v b = TaskEndInvalidated \<longrightarrow> agree lib k a c \<and> \<not> agree lib k a b)
    \<and> (verdict_of v c = TaskEndInvalidated \<longrightarrow> agree lib k a b \<and> \<not> agree lib k a c)
    \<and> (verdict_of v a = TaskGroupValidated \<longleftrightarrow> t_Status a = TaskScoreReady \<and> (agree lib k a b \<or> agree lib k a c))
    \<and> (verdict_of v b = TaskGroupValidated \<longleftrightarrow>
         t_Status b = TaskScoreReady \<and> agree lib k b c \<and> \<not> agree lib k a b \<and> \<not> agree lib k a c)
    \<and> verdict_of v c \<noteq> TaskGroupValidated
    \<and> (\<forall>x\<in>{a, b, c}. verdict_of v x = TaskEndGroupRefund \<longrightarrow>
         (\<exists>y\<in>{a, b, c}. verdict_of v y = TaskGroupValidated \<and> t_Status y = TaskScoreReady \<and> agree lib k y x))"
proof -
  have st: "agree lib k a b \<Longrightarrow> t_Status b = t_Status a" "agree lib k a c \<Longrightarrow> t_Status c = t_Status a"
    "agree lib k b c \<Longrightarrow> t_Status c = t_Status b"
    using agree_status[of lib k a b] agree_status[of lib k a c] agree_status[of lib k b c] by simp_all
  have v: "(verdict_of v a, verdict_of v b, verdict_of v c) = three_verdicts v a b c" by (simp add: three_verdicts_def)
  show ?thesis
    using v[unfolded three_verdicts_cases[OF assms(1,2)]] assms(3) st
    by (cases "agree lib k a b"; cases "agree lib k a c"; cases "agree lib k b c"; cases "t_Status a = TaskScoreReady"; cases "t_Status b = TaskScoreReady") simp_all
qed

text \<open>Hex strings that stand for themselves, for runs of the model.\<close>

definition plain_lib :: vrf_lib where
  "plain_lib = \<lparr> vl_Decode = (\<lambda>s. Inr s), vl_Keccak256Hex = id, vl_ParsePubKey = (\<lambda>s. Inr s),
     vl_PubkeyToAddressHex = (\<lambda>_. ''creator''), vl_Verify = (\<lambda>_ _ _. Inr []) \<rparr>"

definition member_task :: "nat \<Rightarrow> string \<Rightarrow> TaskType \<Rightarrow> TaskStatus \<Rightarrow> string \<Rightarrow> InferenceTask" where
  "member_task i c ty st score = blank_task\<lparr> t_ID := i, t_TaskIDCommitment := c, t_TaskType := ty, t_Status := st, t_Score := score \<rparr>"

theorem verdict_follows_majority_witness:
  "\<exists>v. group_verdict plain_lib 5 [member_task 1 ''a'' TaskTypeLLM TaskScoreReady ''x'',
        member_task 2 ''b'' TaskTypeLLM TaskScoreReady ''y'', member_task 3 ''c'' TaskTypeLLM TaskScoreReady ''x''] = Inr v
    \<and> verdict_of v (member_task 2 ''b'' TaskTypeLLM TaskScoreReady ''y'') = TaskEndInvalidated
    \<and> verdict_of v (member_task 1 ''a'' TaskTypeLLM TaskScoreReady ''x'') = TaskGroupValidated"
proof -
  let ?a = "member_task 1 ''a'' TaskTypeLLM TaskScoreReady ''x''"
  let ?b = "member_task 2 ''b'' TaskTypeLLM TaskScoreReady ''y''"
  let ?c = "member_task 3 ''c'' TaskTypeLLM TaskScoreReady ''x''"
  obtain v where v: "group_verdict plain_lib 5 [?a, ?b, ?c] = Inr v"
    by (simp add: group_verdict_def compareTaskScore_def member_task_def blank_task_def)
  have agree: "agree plain_lib 5 ?a ?c" "\<not> agree plain_lib 5 ?a ?b"
    by (simp_all add: agree_def compareTaskScore_def member_task_def blank_task_def)
  have "verdict_of v ?a = TaskGroupValidated"
    using verdict_follows_majority[OF v] agree by (simp add: member_task_def)
  moreover have "verdict_of v ?b = TaskEndInvalidated"
    using group_verdict_cases[OF v] agree by (simp add: verdict_of_def member_task_def)
  ultimately show ?thesis using v by blast
qed

text \<open>
  Closeness is not transitive: of three images that each differ little from the next, the slowest is slashed
  although it is as close to the second as the second is to the first.
\<close>

definition image_hash :: "char \<Rightarrow> string" where
  "image_hash c = [c, CHR 0x00, CHR 0x00, CHR 0x00, CHR 0x00, CHR 0x00, CHR 0x00, CHR 0x00]"

definition image_task :: "nat \<Rightarrow> string \<Rightarrow> char \<Rightarrow> InferenceTask" where
  "image_task i c h = member_task i c TaskTypeSD TaskScoreReady (image_hash h)"

lemma close_image_is_invalidated:
  "compareTaskScore plain_lib 5 (image_task 2 ''b'' (CHR 0x0F)) (image_task 3 ''c'' (CHR 0xFF)) = Inr True"
  "group_verdict plain_lib 5 [image_task 1 ''a'' (CHR 0x00), image_task 2 ''b'' (CHR 0x0F), image_task 3 ''c'' (CHR 0xFF)] =
    Inr [(''c'', TaskEndInvalidated), (''a'', TaskGroupValidated), (''b'', TaskEndGroupRefund)]"
  by (code_simp, code_simp)

section \<open>Groups in which every member reports an error\<close>

definition error_group :: "TaskType \<Rightarrow> InferenceTask list \<Rightarrow> bool" where
  "error_group ty tasks \<longleftrightarrow>
    length tasks = 3 \<and> distinct (map t_TaskIDCommitment tasks) \<and>
    list_all (\<lambda>t. t_Status t = TaskErrorReported \<and> t_TaskType t = ty) tasks"

lemma assign_scores_shape:
  "assign_scores order tasks = Inr scored \<Longrightarrow>
    map t_TaskIDCommitment scored = map t_TaskIDCommitment tasks \<and> map t_Status scored = map t_Status tasks \<and>
    map t_TaskType scored = map t_TaskType tasks"
  by (induction order tasks arbitrary: scored rule: assign_scores.induct) (auto split: if_splits sum.splits)

lemma list_all_maps: "list_all (\<lambda>t. f t = x \<and> g t = y) ts \<longleftrightarrow> list_all ((=) x) (map f ts) \<and> list_all ((=) y) (map g ts)"
  by (auto simp: list_all_iff)

lemma error_group_scored:
  assumes "error_group ty tasks" "assignValidationGroupQosScores (sort_key key tasks) = Inr scored"
  shows "error_group ty scored" "unaborted scored = scored"
proof -
  have sorted_group: "error_group ty (sort_key key tasks)"
  proof -
    have "mset (map t_TaskIDCommitment (sort_key key tasks)) = mset (map t_TaskIDCommitment tasks)" by simp
    then have "distinct (map t_TaskIDCommitment (sort_key key tasks)) = distinct (map t_TaskIDCommitment tasks)"
      by (rule mset_eq_imp_distinct_iff)
    then show ?thesis using assms(1) by (simp add: error_group_def list_all_iff)
  qed
  then have "unaborted (sort_key key tasks) = sort_key key tasks"
    by (auto simp: error_group_def unaborted_def list_all_iff intro!: filter_True)
  then have "assign_scores 0 (sort_key key tasks) = Inr scored"
    using assms(2) sorted_group by (auto simp: assignValidationGroupQosScores_def error_group_def split: sum.splits if_splits)
  from assign_scores_shape[OF this]
  show "error_group ty scored"
    using sorted_group unfolding error_group_def list_all_maps by (metis length_map)
  then show "unaborted scored = scored"
    by (auto simp: error_group_def unaborted_def list_all_iff intro!: filter_True)
qed

text \<open>The third member is to be refunded as if its score had matched, but a refund takes a score.\<close>

lemma error_group_verdict:
  assumes "error_group ty [a, b, c]"
  shows "group_verdict lib k [a, b, c] = Inr [(t_TaskIDCommitment c, TaskEndGroupRefund)]"
  using assms by (simp add: error_group_def group_verdict_def compareTaskScore_def matched_pair_def)

lemma refund_needs_score:
  "t_Status task \<noteq> TaskScoreReady \<Longrightarrow> SetTaskStatusEndGroupRefund env task now s = (Inl errWrongTaskStatus, s)"
  by (simp add: SetTaskStatusEndGroupRefund_def op_simps)

lemma error_group_not_settled:
  assumes "error_group ty tasks"
  shows "\<not> returns (settle_group env lib tasks now) s r s'"
proof
  assume "returns (settle_group env lib tasks now) s r s'"
  then obtain scored v evidences t where scored: "assignValidationGroupQosScores (sort_key (\<lambda>t. (ExecutionTime t, t_ID t)) tasks) = Inr scored"
    and v: "group_verdict lib (cfg_DistanceThreshold (env_cfg env)) (unaborted scored) = Inr v"
    and apply_all: "returns (map_each (apply_verdict env v evidences (length (unaborted scored)) now) scored) t r s'"
    by (auto simp: settle_group_def Let_def)
  note group = error_group_scored[OF assms scored]
  obtain a b c where abc: "scored = [a, b, c]"
    using group(1) by (auto simp: error_group_def length_Suc_conv numeral_3_eq_3)
  have "v = [(t_TaskIDCommitment c, TaskEndGroupRefund)]"
    using v error_group_verdict[OF group(1)[unfolded abc]] group(2) abc by simp
  then have "verdict_of v c = TaskEndGroupRefund" by (simp add: verdict_of_def)
  moreover have "t_Status c = TaskErrorReported" using group(1) abc by (simp add: error_group_def)
  ultimately have "\<not> returns (apply_verdict env v evidences n now c) u r' u'" for n u r' u'
    using refund_needs_score[of c] by (simp add: apply_verdict_def returns_def)
  then show False using apply_all abc by simp
qed

lemma find_SomeD: "find p xs = Some x \<Longrightarrow> p x \<and> x \<in> set xs"
  by (auto simp: find_Some_iff)

lemma refreshed_rows:
  assumes "returns (lockValidationGroupTasks tasks) s rows s'" "distinct (map t_ID (d_tasks (fst s)))"
  shows "s' = s" "length rows = 3" "set rows \<subseteq> set (d_tasks (fst s))" "map t_ID rows = map t_ID tasks" "distinct (map t_ID rows)"
proof -
  let ?records = "filter (\<lambda>r. t_ID r \<in> set (map t_ID tasks)) (d_tasks (fst s))"
  have each: "s' = s \<and> map t_ID ys = map t_ID xs \<and> set ys \<subseteq> set records"
    if "returns (map_each (\<lambda>task. of_option e (find (\<lambda>r. t_ID r = t_ID task) (rev records))) xs) s ys s'" for e xs ys records s s'
    using that
  proof (induction xs arbitrary: ys s)
    case (Cons x xs)
    then obtain y ys' where y: "find (\<lambda>r. t_ID r = t_ID x) (rev records) = Some y" and ys: "ys = y # ys'"
      and rest: "returns (map_each (\<lambda>task. of_option e (find (\<lambda>r. t_ID r = t_ID task) (rev records))) xs) s ys' s'"
      by auto
    show ?case using Cons.IH[OF rest] find_SomeD[OF y] by (simp add: ys)
  qed simp
  have run: "length tasks = 3" "length ?records = length tasks"
    "returns (map_each (\<lambda>task. of_option (errors_New ''task group records are incomplete'') (find (\<lambda>r. t_ID r = t_ID task) (rev ?records))) tasks) s rows s'"
    using assms(1) by (auto simp: lockValidationGroupTasks_def)
  note rows = each[OF run(3)]
  show "s' = s" "set rows \<subseteq> set (d_tasks (fst s))" "map t_ID rows = map t_ID tasks" using rows by auto
  then show "length rows = 3" using run(1) by (metis length_map)
  have "distinct (map t_ID ?records)" using assms(2) by (rule distinct_map_filter)
  then have "card (set (map t_ID ?records)) = length (map t_ID ?records)" by (rule distinct_card)
  then have "card (set (map t_ID ?records)) = 3" using run(1,2) by (simp only: length_map)
  moreover have "set (map t_ID ?records) \<subseteq> set (map t_ID tasks)" by auto
  ultimately have "3 \<le> card (set (map t_ID tasks))" by (metis List.finite_set card_mono)
  then have "card (set (map t_ID tasks)) = length (map t_ID tasks)"
    using run(1) card_length[of "map t_ID tasks"] by simp
  then show "distinct (map t_ID rows)" using rows card_distinct by metis
qed

text \<open>The tables as their unique indexes keep them, with the rows of a request all in error.\<close>

definition errors_stored :: "TaskType \<Rightarrow> InferenceTask list \<Rightarrow> db \<Rightarrow> bool" where
  "errors_stored ty tasks d \<longleftrightarrow>
    distinct (map t_ID (d_tasks d)) \<and> distinct (map t_TaskIDCommitment (d_tasks d)) \<and>
    (\<forall>r\<in>set (d_tasks d). t_ID r \<in> t_ID ` set tasks \<longrightarrow> t_Status r = TaskErrorReported \<and> t_TaskType r = ty)"

lemma stored_errors_refreshed:
  assumes "errors_stored ty tasks (fst s)" "returns (refreshValidationGroupTasksForFinalUpdate tasks taskID) s rows s'"
  shows "error_group ty rows"
proof -
  have lock: "returns (lockValidationGroupTasks tasks) s rows s'"
    using assms(2) by (auto simp: refreshValidationGroupTasksForFinalUpdate_def)
  have distinct: "distinct (map t_ID (d_tasks (fst s)))" "distinct (map t_TaskIDCommitment (d_tasks (fst s)))"
    using assms(1) by (simp_all add: errors_stored_def)
  note rows = refreshed_rows[OF lock distinct(1)]
  have "inj_on t_TaskIDCommitment (set rows)"
    using distinct(2) rows(3) by (auto simp: distinct_map intro: inj_on_subset)
  moreover have "distinct rows" using rows(5) by (simp add: distinct_map)
  moreover have "t_Status r = TaskErrorReported \<and> t_TaskType r = ty" if mem: "r \<in> set rows" for r
  proof -
    have "t_ID r \<in> t_ID ` set tasks" using mem rows(4) by (metis image_eqI image_set)
    then show ?thesis using assms(1) rows(3) mem unfolding errors_stored_def by blast
  qed
  ultimately show ?thesis using rows(2) by (auto simp: error_group_def distinct_map list_all_iff)
qed

lemma error_group_tx_fails:
  assumes "errors_stored ty tasks (fst s)"
  shows "\<not> returns (group_tx env lib tasks taskID now) s r s'"
proof
  assume "returns (group_tx env lib tasks taskID now) s r s'"
  then obtain rows t where refresh: "returns (refreshValidationGroupTasksForFinalUpdate tasks taskID) s rows t"
    and settled: "returns (settle_group env lib (map (\<lambda>t. t\<lparr> t_TaskID := taskID \<rparr>) rows) now) t r s'"
    by (auto simp: group_tx_def)
  have "error_group ty (map (\<lambda>t. t\<lparr> t_TaskID := taskID \<rparr>) rows)"
    using stored_errors_refreshed[OF assms refresh] by (simp add: error_group_def list_all_iff comp_def)
  then show False using error_group_not_settled settled by blast
qed

lemma refresh_keeps_db: "unchanged id (\<lambda>_. ()) (refresh_all addrs)"
  unfolding refresh_all_def refreshNodeIndexLocked_def loadNodeModelState_def removeSlot_def
    ListNodeModelFileRows_def ListNodeInMemoryModels_def GetNodeInMemoryModel_def
  by (intro frame_intros; simp)

lemma failed_update_keeps_db:
  assumes "\<And>r s'. \<not> returns f s r s'"
  shows "\<exists>e s'. ExecuteNodeStateUpdate addrs (txn f) s = (Inl e, s') \<and> fst s' = fst s"
proof -
  obtain r t where run: "f s = (r, t)" by (metis surj_pair)
  then obtain e where e: "r = Inl e" using assms unfolding returns_def by (metis sumE)
  define u where "u = snd (refresh_all (sort (remdups (filter (\<lambda>a. a \<noteq> []) addrs))) (fst s, snd t))"
  have "fst u = fst s"
    using refresh_keeps_db by (simp add: u_def unchanged_def)
  then show ?thesis using run e by (simp add: ExecuteNodeStateUpdate_def txn_run u_def Let_def)
qed

lemma check_members_keep: "unchanged id id (for_each tasks (check_member lib taskID seed vrfProof publicKey))"
  unfolding check_member_def by (intro frame_intros)

text \<open>
  C38: Three runs of a task that all end in an error report can never be validated: the request fails whatever
  the state and leaves the database as it was, because the verdict wants to refund the slowest of the three as
  a matching result and a refund is only made for a score.
\<close>

theorem error_group_never_settles:
  assumes "errors_stored ty tasks (fst s)"
  shows "\<exists>e s'. ValidateTaskGroup env lib tasks taskID vrfProof publicKey now s = (Inl e, s') \<and> fst s' = fst s"
proof (cases "length tasks = 3 \<and> \<not> groupHasCreatorValidationTimeout (sort_key t_ID tasks)")
  case True
  define ordered where "ordered = sort_key t_ID tasks"
  define members where "members = for_each ordered (check_member lib taskID (t_SamplingSeed (hd ordered)) vrfProof publicKey)"
  obtain r t where run: "members s = (r, t)" by (metis surj_pair)
  then have t: "t = s"
    using unchanged_run[OF check_members_keep] unfolding members_def by (metis id_apply prod.collapse)
  have "errors_stored ty (map (\<lambda>t. t\<lparr> t_TaskID := taskID \<rparr>) ordered) (fst s)"
    using assms by (simp add: errors_stored_def ordered_def image_image)
  note failed = failed_update_keeps_db[OF error_group_tx_fails[OF this]]
  obtain e s' where ex: "ExecuteNodeStateUpdate (map t_SelectedNode ordered)
      (txn (group_tx env lib (map (\<lambda>t. t\<lparr> t_TaskID := taskID \<rparr>) ordered) taskID now)) s = (Inl e, s')" "fst s' = fst s"
    using failed[of "map t_SelectedNode ordered" env lib taskID now] by blast
  show ?thesis
    using True run ex unfolding ValidateTaskGroup_def Let_def ordered_def[symmetric] members_def[symmetric]
    by (cases r; cases s; cases s') (simp_all add: bnd_run check_run t)
qed (cases s; auto simp: ValidateTaskGroup_def Let_def op_simps)

definition sample_task_env :: task_env where
  "sample_task_env = \<lparr> env_cfg = sample_cfg, env_chain = sample_chain_reads, env_exp = sample_exp, env_sha256 = id,
     env_parse = (\<lambda>_. Inr ()), env_describe = (\<lambda>_ _ _. Inr (60, 30)), env_evidence = (\<lambda>_ _ _. Inr ([], True)),
     env_price = Inr, env_repositories = (\<lambda>_ _. Inr []) \<rparr>"

definition failed_member :: "nat \<Rightarrow> string \<Rightarrow> InferenceTask" where
  "failed_member i c = member_task i c TaskTypeSD TaskErrorReported []"

definition failed_db :: db where
  "failed_db = empty_db\<lparr> d_tasks := [failed_member 1 ''a'', failed_member 2 ''b'', failed_member 3 ''c''] \<rparr>"

theorem error_group_never_settles_witness:
  "\<exists>e s'. ValidateTaskGroup sample_task_env plain_lib (d_tasks failed_db) ''id'' [] [] 0 (failed_db, empty_mem) = (Inl e, s') \<and> fst s' = failed_db"
proof -
  have "errors_stored TaskTypeSD (d_tasks failed_db) (fst (failed_db, empty_mem))"
    by (simp add: errors_stored_def failed_db_def failed_member_def member_task_def)
  from error_group_never_settles[OF this] show ?thesis by simp
qed
end
