(* ===== verification/TaskHandlers.thy ===== *)
theory TaskHandlers
  imports Validation
begin

text \<open>
  The requests that move a task (\<^verbatim>\<open>api/v1/inference_tasks\<close>): score, error report, cancellation, validation and
  result upload, each reading the task by its commitment and retrying while its status changes underneath, and
  the start of a matched pair.  A request carries the address its signature recovers to, or none.
\<close>

section \<open>Requests\<close>

definition signed_by :: "address option \<Rightarrow> address relay" where
  "signed_by signer = of_option (errors_New ''Invalid signature'') signer"

definition find_task :: "string \<Rightarrow> InferenceTask relay" where
  "find_task taskIDCommitment =
    try_catch (GetTaskByIDCommitment taskIDCommitment)
      (\<lambda>e. if e = ErrRecordNotFound then raise (errors_New ''Task not found'') else raise e)"

definition status_changed :: "go_error \<Rightarrow> bool" where
  "status_changed e \<longleftrightarrow> e = ErrTaskStatusChanged \<or> e = ErrNodeStatusChanged"

text \<open>Three attempts; between two of them the status is read again.\<close>

fun task_retry :: "nat \<Rightarrow> go_error \<Rightarrow> (InferenceTask \<Rightarrow> 'a relay) \<Rightarrow> InferenceTask \<Rightarrow> 'a relay" where
  "task_retry 0 err f task = raise err"
| "task_retry (Suc n) err f task =
    try_catch (f task) (\<lambda>e. if status_changed e then bnd (SyncStatus task) (\<lambda>task. task_retry n e f task) else raise e)"

definition SubmitScore ::
  "task_env \<Rightarrow> vrf_lib \<Rightarrow> address option \<Rightarrow> string \<Rightarrow> string \<Rightarrow> string \<Rightarrow> time \<Rightarrow> InferenceTask relay" where
  "SubmitScore env lib signer taskIDCommitment score executionDType now =
    bnd (signed_by signer) (\<lambda>addr.
    bnd (find_task taskIDCommitment) (\<lambda>task.
    bnd (check (t_Status task = TaskStarted) (errors_New ''Illegal task state'')) (\<lambda>_.
    bnd (check (t_SelectedNode task = addr) (errors_New ''Signer not allowed'')) (\<lambda>_.
    bnd (case vl_Decode lib score of Inl _ \<Rightarrow> raise (errors_New ''invalid score'') | Inr bs \<Rightarrow> ret bs) (\<lambda>scoreBytes.
    bnd (check (\<not> ((t_TaskType task = TaskTypeSD \<or> t_TaskType task = TaskTypeSDFTLora) \<and> length scoreBytes mod 8 \<noteq> 0))
          (errors_New ''invalid score'')) (\<lambda>_.
    task_retry 3 ErrTaskStatusChanged (\<lambda>t. SetTaskStatusScoreReady env t now)
      (task\<lparr> t_Score := score, t_ExecutionDType := ToLower (TrimSpace executionDType) \<rparr>)))))))"

definition ReportTaskError ::
  "task_env \<Rightarrow> address option \<Rightarrow> string \<Rightarrow> TaskError \<Rightarrow> time \<Rightarrow> InferenceTask relay" where
  "ReportTaskError env signer taskIDCommitment taskError now =
    bnd (signed_by signer) (\<lambda>addr.
    bnd (find_task taskIDCommitment) (\<lambda>task.
    bnd (check (t_Status task = TaskStarted) (errors_New ''Illegal task state'')) (\<lambda>_.
    bnd (check (t_SelectedNode task = addr) (errors_New ''Signer not allowed'')) (\<lambda>_.
    task_retry 3 ErrTaskStatusChanged (\<lambda>t. SetTaskStatusErrorReported env t now) (task\<lparr> t_TaskError := taskError \<rparr>)))))"

fun cancel_attempts :: "nat \<Rightarrow> go_error \<Rightarrow> task_env \<Rightarrow> InferenceTask \<Rightarrow> address \<Rightarrow> time \<Rightarrow> InferenceTask relay" where
  "cancel_attempts 0 err env task addr now = raise err"
| "cancel_attempts (Suc n) err env task addr now =
    (let task = task\<lparr> t_AbortReason := TaskAbortCreatorCancelled \<rparr> in
     try_catch (SetTaskStatusEndAborted env task addr now)
       (\<lambda>e. if e = ErrTaskStatusChanged
            then bnd (SyncStatus task) (\<lambda>task.
                 bnd (check (t_Status task = TaskQueued) (errors_New ''Task can no longer be cancelled'')) (\<lambda>_.
                 cancel_attempts n e env task addr now))
            else raise e))"

definition AbortTask :: "task_env \<Rightarrow> address option \<Rightarrow> string \<Rightarrow> TaskAbortReason \<Rightarrow> time \<Rightarrow> InferenceTask relay" where
  "AbortTask env signer taskIDCommitment abortReason now =
    bnd (signed_by signer) (\<lambda>addr.
    bnd (find_task taskIDCommitment) (\<lambda>task.
    bnd (check (addr = t_Creator task) (errors_New ''Signer not allowed'')) (\<lambda>_.
    bnd (check (abortReason = TaskAbortCreatorCancelled) (errors_New ''Abort reason not allowed'')) (\<lambda>_.
    bnd (check (t_Status task = TaskQueued) (errors_New ''Task can no longer be cancelled'')) (\<lambda>_.
    cancel_attempts 3 ErrTaskStatusChanged env task addr now)))))"

definition validate_once ::
  "task_env \<Rightarrow> vrf_lib \<Rightarrow> string \<Rightarrow> string \<Rightarrow> string \<Rightarrow> time \<Rightarrow> InferenceTask list \<Rightarrow> InferenceTask list relay" where
  "validate_once env lib taskID vrfProof publicKey now tasks =
    (case tasks of
       [task] \<Rightarrow> bnd (ValidateSingleTask env lib task taskID vrfProof publicKey now) (\<lambda>task. ret [task])
     | [_, _, _] \<Rightarrow> ValidateTaskGroup env lib tasks taskID vrfProof publicKey now
     | _ \<Rightarrow> ret tasks)"

fun validate_attempts ::
  "nat \<Rightarrow> go_error \<Rightarrow> (InferenceTask list \<Rightarrow> InferenceTask list relay) \<Rightarrow> InferenceTask list \<Rightarrow> InferenceTask list relay" where
  "validate_attempts 0 err f tasks = raise err"
| "validate_attempts (Suc n) err f tasks =
    try_catch (f tasks)
      (\<lambda>e. if e = ErrValidationAlreadyApplied then ret tasks
           else if status_changed e then bnd (map_each SyncStatus tasks) (\<lambda>tasks. validate_attempts n e f tasks)
           else raise e)"

definition own_task :: "address \<Rightarrow> string \<Rightarrow> InferenceTask relay" where
  "own_task addr taskIDCommitment =
    bnd (GetTaskByIDCommitment taskIDCommitment) (\<lambda>task.
    bnd (check (t_TaskArgs task \<noteq> []) (errors_New ''Task not ready'')) (\<lambda>_.
    bnd (check (t_Creator task = addr) (errors_New ''Signer not allowed'')) (\<lambda>_.
    ret task)))"

definition ValidateTask ::
  "task_env \<Rightarrow> vrf_lib \<Rightarrow> address option \<Rightarrow> string list \<Rightarrow> string \<Rightarrow> string \<Rightarrow> string \<Rightarrow> time \<Rightarrow> InferenceTask list relay" where
  "ValidateTask env lib signer taskIDCommitments taskID vrfProof publicKey now =
    bnd (check (length taskIDCommitments = 1 \<or> length taskIDCommitments = 3) (errors_New ''TaskIDCommitments length incorrect'')) (\<lambda>_.
    bnd (signed_by signer) (\<lambda>addr.
    bnd (map_each (own_task addr) taskIDCommitments) (\<lambda>tasks.
    validate_attempts 3 ErrTaskStatusChanged (validate_once env lib taskID vrfProof publicKey now) tasks)))"

text \<open>\<^verbatim>\<open>rewrite\<close> puts the artifacts of the given tasks into a stored evidence document.\<close>

definition getSlashEvidenceGroupTasks :: "InferenceTask \<Rightarrow> InferenceTask list relay" where
  "getSlashEvidenceGroupTasks task = (if t_TaskID task = [] then ret [task] else GetTaskGroupByTaskID (t_TaskID task))"

definition UpdatePendingSlashResultEvidence ::
  "(InferenceTask list \<Rightarrow> string \<Rightarrow> go_error + string) \<Rightarrow> string \<Rightarrow> unit relay" where
  "UpdatePendingSlashResultEvidence rewrite taskIDCommitment =
    bnd (GetTaskByIDCommitment taskIDCommitment) (\<lambda>task.
    bnd (getSlashEvidenceGroupTasks task) (\<lambda>groupTasks.
    bnd (read_db (\<lambda>d. filter (\<lambda>p. ps_TaskIDCommitment p \<in> set (map t_TaskIDCommitment groupTasks)) (d_pending_slashes d))) (\<lambda>pendingSlashes.
    for_each pendingSlashes (\<lambda>p.
      bnd (of_sum (rewrite groupTasks (ps_EvidenceJSON p))) (\<lambda>evidence.
      write_db (\<lambda>d. d\<lparr> d_pending_slashes :=
        upd_where (\<lambda>r. ps_ID r = ps_ID p) (\<lambda>_. p\<lparr> ps_EvidenceJSON := evidence \<rparr>) (d_pending_slashes d) \<rparr>))))))"

definition uploadable :: "TaskStatus \<Rightarrow> bool" where
  "uploadable st \<longleftrightarrow> st = TaskValidated \<or> st = TaskGroupValidated"

definition is_slashed :: "InferenceTask \<Rightarrow> InferenceTask list \<Rightarrow> bool" where
  "is_slashed task taskGroup \<longleftrightarrow>
    t_Status task = TaskEndInvalidated \<or> length taskGroup > 1 \<and> list_ex (\<lambda>t. t_Status t = TaskEndInvalidated) taskGroup"

definition selectLLMGroupRefundCalibrationTasks :: "InferenceTask \<Rightarrow> InferenceTask list \<Rightarrow> InferenceTask list" where
  "selectLLMGroupRefundCalibrationTasks uploaded taskGroup =
    (if t_Status uploaded \<noteq> TaskEndGroupSuccess then []
     else filter (\<lambda>t. t_Status t = TaskEndGroupRefund \<and> t_Score t = t_Score uploaded) taskGroup)"

definition calibrateLLMGroupAfterUploadSuccess :: "InferenceTask \<Rightarrow> nat option \<Rightarrow> unit relay" where
  "calibrateLLMGroupAfterUploadSuccess task completionTokens =
    bnd (GetTaskGroupByTaskID (t_TaskID task)) (\<lambda>refreshedGroup.
    bnd (case completionTokens of
           None \<Rightarrow> ret ()
         | Some tokens \<Rightarrow>
             for_each (task # selectLLMGroupRefundCalibrationTasks task refreshedGroup)
               (\<lambda>t. call (CalibrateUploadedLLMTask (t_TaskIDCommitment t) tokens))) (\<lambda>_.
    bnd (call (DeleteTaskExecutionGPUSnapshot (t_TaskIDCommitment task))) (\<lambda>_.
    for_each (filter (\<lambda>t. t_Status t = TaskEndGroupRefund) refreshedGroup)
      (\<lambda>t. call (DeleteTaskExecutionGPUSnapshot (t_TaskIDCommitment t))))))"

text \<open>The uploaded form enters as what the handler computes from its files: the score of the result files, the
  number of checkpoint files where there is such a field, and the completion tokens of a single readable result.
  Writing the files to disk is left out.\<close>

record upload_form =
  uf_uploadedScore :: string
  uf_checkpoints :: "nat option"
  uf_completionTokens :: "nat option"

definition UploadResult ::
  "task_env \<Rightarrow> (InferenceTask list \<Rightarrow> string \<Rightarrow> go_error + string) \<Rightarrow> address option \<Rightarrow> string \<Rightarrow> upload_form \<Rightarrow> time \<Rightarrow> InferenceTask relay" where
  "UploadResult env rewrite signer taskIDCommitment form now =
    bnd (signed_by signer) (\<lambda>addr.
    bnd (find_task taskIDCommitment) (\<lambda>task.
    bnd (check (t_SelectedNode task = addr) (errors_New ''Signer not allowed'')) (\<lambda>_.
    bnd (check (uploadable (t_Status task) \<or> t_Status task = TaskEndInvalidated \<or> t_Status task = TaskEndGroupRefund)
          (errors_New ''Task not validated'')) (\<lambda>_.
    bnd (check (t_Score task = uf_uploadedScore form) (errors_New ''Wrong result files uploaded'')) (\<lambda>_.
    bnd (GetTaskGroupByTaskID (t_TaskID task)) (\<lambda>taskGroup.
    bnd (if t_TaskType task \<noteq> TaskTypeSDFTLora then ret ()
         else case uf_checkpoints form of
                None \<Rightarrow> raise (errors_New ''Checkpoint not uploaded'')
              | Some n \<Rightarrow> check (n = 1) (errors_New ''More than one checkpoint file'')) (\<lambda>_.
    bnd (if is_slashed task taskGroup then UpdatePendingSlashResultEvidence rewrite (t_TaskIDCommitment task) else ret ()) (\<lambda>_.
    if uploadable (t_Status task)
    then bnd (task_retry 3 ErrTaskStatusChanged
                (\<lambda>t. ExecuteNodeStateUpdate [t_SelectedNode t] (SetTaskStatusEndSuccess env t now)) task) (\<lambda>task.
         seq (if t_TaskType task = TaskTypeLLM
              then calibrateLLMGroupAfterUploadSuccess task (uf_completionTokens form) else ret ())
             (ret task))
    else ret task))))))))"

text \<open>The start of a matched pair, as the scheduler runs it for a queued task it has read.\<close>

definition startMatchedPair :: "task_env \<Rightarrow> InferenceTask \<Rightarrow> address \<Rightarrow> time \<Rightarrow> unit relay" where
  "startMatchedPair env task nodeAddress now =
    try_catch
      (bnd (ExecuteNodeStateUpdate [nodeAddress]
             (bnd (GetNodeByAddress nodeAddress) (\<lambda>node. SetTaskStatusStarted env task node now))) (\<lambda>_. ret ()))
      (\<lambda>_. ret ())"

end
