(* ===== verification/TaskFlow.thy ===== *)
theory TaskFlow
  imports TaskHandlers
begin

text \<open>
  What the task table keeps, whatever is requested and whether the request succeeds or fails: no row is removed,
  no row changes what its creator ordered or, once it has started, the node it runs on, no started row goes back
  to the queue, and every row has a deadline exactly as long as it has not ended, so that the timeout worker
  sees every task that is still open.
\<close>

section \<open>How a row may change\<close>

definition armed :: "InferenceTask \<Rightarrow> bool" where
  "armed t \<longleftrightarrow> (t_DeadlineAt t \<noteq> None) = (\<not> task_ended (t_Status t))"

definition same_order :: "InferenceTask \<Rightarrow> InferenceTask \<Rightarrow> bool" where
  "same_order t t' \<longleftrightarrow> t_ID t' = t_ID t \<and> t_TaskIDCommitment t' = t_TaskIDCommitment t \<and> t_Creator t' = t_Creator t \<and>
    t_TaskFee t' = t_TaskFee t \<and> t_TaskType t' = t_TaskType t \<and> t_Nonce t' = t_Nonce t"

definition row_step :: "InferenceTask \<Rightarrow> InferenceTask \<Rightarrow> bool" where
  "row_step t t' \<longleftrightarrow> same_order t t' \<and> (armed t \<longrightarrow> armed t') \<and>
    (t_Status t \<noteq> TaskQueued \<longrightarrow> t_Status t' \<noteq> TaskQueued \<and> t_SelectedNode t' = t_SelectedNode t)"

definition rows_step :: "InferenceTask list \<Rightarrow> InferenceTask list \<Rightarrow> bool" where
  "rows_step rows rows' \<longleftrightarrow>
    length rows \<le> length rows' \<and> list_all2 row_step rows (take (length rows) rows') \<and> list_all armed (drop (length rows) rows')"

definition table_step :: "db \<Rightarrow> db \<Rightarrow> bool" where
  "table_step d d' \<longleftrightarrow> rows_step (d_tasks d) (d_tasks d')"

lemma row_step_refl: "row_step t t"
  by (simp add: row_step_def same_order_def)

lemma row_step_trans: "row_step a b \<Longrightarrow> row_step b c \<Longrightarrow> row_step a c"
  unfolding row_step_def same_order_def by (intro conjI impI) (elim conjE; simp)+

lemma rows_step_split: "rows_step rows rows' \<longleftrightarrow> (\<exists>old new. rows' = old @ new \<and> list_all2 row_step rows old \<and> list_all armed new)"
proof
  assume "rows_step rows rows'"
  then show "\<exists>old new. rows' = old @ new \<and> list_all2 row_step rows old \<and> list_all armed new"
    unfolding rows_step_def by (metis append_take_drop_id)
next
  assume "\<exists>old new. rows' = old @ new \<and> list_all2 row_step rows old \<and> list_all armed new"
  then obtain old new where split: "rows' = old @ new" "list_all2 row_step rows old" "list_all armed new" by blast
  moreover from split(2) have "length rows = length old" by (rule list_all2_lengthD)
  ultimately show "rows_step rows rows'" by (simp add: rows_step_def)
qed

lemma armed_rows: "list_all2 row_step rows old \<Longrightarrow> list_all armed rows \<Longrightarrow> list_all armed old"
  by (induction rule: list_all2_induct) (simp_all add: row_step_def)

lemma rows_step_refl: "rows_step rows rows"
  by (simp add: rows_step_def list_all2_refl row_step_refl)

lemma rows_step_trans:
  assumes "rows_step a b" "rows_step b c"
  shows "rows_step a c"
proof -
  obtain b1 b2 where b: "b = b1 @ b2" "list_all2 row_step a b1" "list_all armed b2"
    using assms(1) unfolding rows_step_split by blast
  obtain c1 c2 where c: "c = c1 @ c2" "list_all2 row_step b c1" "list_all armed c2"
    using assms(2) unfolding rows_step_split by blast
  obtain c11 c12 where c1: "c1 = c11 @ c12" "list_all2 row_step b1 c11" "list_all2 row_step b2 c12"
    using c(2) b(1) by (auto simp: list_all2_append1)
  have "list_all2 row_step a c11" by (rule list_all2_trans[OF row_step_trans b(2) c1(2)])
  moreover have "list_all armed (c12 @ c2)" using armed_rows[OF c1(3) b(3)] c(3) by simp
  ultimately show ?thesis
    unfolding rows_step_split using c(1) c1(1) by (intro exI[of _ c11] exI[of _ "c12 @ c2"]) simp
qed

interpretation table: step_relation table_step
proof (unfold_locales, goal_cases)
  case (1 d) show ?case by (simp add: table_step_def rows_step_refl)
next
  case (2 d e f) then show ?case unfolding table_step_def by (rule rows_step_trans)
qed

abbreviation taskless :: "'a relay \<Rightarrow> bool" where
  "taskless f \<equiv> unchanged d_tasks (\<lambda>_. ()) f"

lemma table_taskless: "taskless f \<Longrightarrow> db_steps table_step f"
  by (simp add: db_steps_def unchanged_def table_step_def rows_step_refl)

lemma rows_step_upd: "(\<And>t. P t \<Longrightarrow> row_step t (upd t)) \<Longrightarrow> rows_step rows (upd_where P upd rows)"
  by (simp add: rows_step_def list_all2_conv_all_nth) (simp add: upd_where_def row_step_refl)

lemma table_update_status:
  assumes "\<And>t. t_Status t = t_Status task \<Longrightarrow> row_step t (upd t)"
  shows "db_steps table_step (task_Update_status task upd)"
  unfolding task_Update_status_def
  by (intro table.steps_if table.steps_raise table.steps_bnd table.steps_check table.steps_ret table_taskless[OF unchanged_basic(3)]
      write_db_steps) (simp add: table_step_def, rule rows_step_upd, simp add: assms)

lemma table_update: "(\<And>t. row_step t (upd t)) \<Longrightarrow> db_steps table_step (task_Update task upd)"
  unfolding task_Update_def
  by (intro table.steps_if table.steps_raise table.steps_bnd table.steps_ret write_db_steps) (simp add: table_step_def rows_step_upd)

section \<open>Operations that leave tasks or nodes alone\<close>

abbreviation crew_db :: "db \<Rightarrow> InferenceTask list \<times> Node list" where
  "crew_db d \<equiv> (d_tasks d, d_nodes d)"

text \<open>An operation that touches neither task nor node rows.\<close>

abbreviation crewless :: "'a relay \<Rightarrow> bool" where
  "crewless f \<equiv> unchanged crew_db (\<lambda>_. ()) f"

lemma crewless_taskless: "crewless f \<Longrightarrow> taskless f"
  by (simp add: unchanged_def)

lemma crewless_money [frame_intros]:
  "crewless (createRelayAccountEvent ty reason a x now)" "crewless (createRelayAccountEvents evs)"
  "crewless (getRelayAccountFromCache a)" "crewless (add_cached a x)"
  "crewless (refundTaskPaymentToRelayAccount c a x now)"
  unfolding createRelayAccountEvent_def createRelayAccountEvents_def createRelayAccountEventWithID_def
    getRelayAccountFromCache_def add_cached_def refundTaskPaymentToRelayAccount_def
  by (intro frame_intros; simp)+

lemma crewless_income [frame_intros]:
  "crewless (addNodeEarning a x y now)" "crewless (addUserStakingEarning u a w x now)" "crewless (addUserEarning u x now)"
  "crewless (addNodeIncentive a q ty now)"
  unfolding addNodeEarning_def addUserStakingEarning_def addUserEarning_def addNodeIncentive_def
  by (intro frame_intros; simp)+

lemma crewless_send [frame_intros]: "crewless (sendTaskIncome cfg c a x ty w now)"
  unfolding sendTaskIncome_def post_income_def by (intro frame_intros; simp)

lemma crewless_caches [frame_intros]:
  "crewless (UpdateMaxStaking a x)" "crewless (RefreshNodeVestingStake a)" "crewless (count_delta node y)"
  "crewless (refreshNodeIndexLocked a)" "crewless (refresh_all as)" "crewless (loadNodeModelState as)"
  "crewless (applyNodeQuitPostCommit node b)" "crewless (getNodeTaskQosScore cfg node q)"
  unfolding UpdateMaxStaking_def RefreshNodeVestingStake_def count_delta_def ApplyNodeNameCountDeltaToCache_def
    refresh_all_def refreshNodeIndexLocked_def loadNodeModelState_def removeSlot_def applyNodeQuitPostCommit_def
    ListNodeModelFileRows_def ListNodeInMemoryModels_def GetNodeInMemoryModel_def getNodeTaskQosScore_def
  by (intro frame_intros; simp)+

lemma crewless_rows [frame_intros]:
  "crewless (clearNodeModelState a)" "crewless (quit_chain_tx cfg ch node slashed)"
  "crewless (DecrementNodeNameCountTx node)" "crewless (IncrementNodeNameCountTx node)"
  "crewless (createPendingSlash task node evidence full)" "crewless AddTotalTask"
  unfolding clearNodeModelState_def ClearNodeInMemoryModel_def DeleteNodeModelsByNodeAddress_def quit_chain_tx_def
    QueueSlashStaking_def QueueUnstake_def transaction_Save_def SlashNodeVestingsTx_def
    DecrementNodeNameCountTx_def IncrementNodeNameCountTx_def createPendingSlash_def AddTotalTask_def
  by (intro frame_intros; simp)+

lemma crewless_checks [frame_intros]:
  "crewless (buildSlashEvidence env task node)" "crewless (checkTaskSelectedNode task)" "crewless (aborted_node task)"
  "crewless (DeleteGroupRefundExecutionGPUSnapshots i)" "crewless (group_payments tasks)"
  "crewless (CheckTaskModelsWhitelisted derive task)" "crewless (start_plan_for env task node now)"
  "crewless (abort_payment env task q now)"
  unfolding buildSlashEvidence_def checkTaskSelectedNode_def aborted_node_def DeleteGroupRefundExecutionGPUSnapshots_def
    group_payments_def CheckTaskModelsWhitelisted_def start_plan_for_def abort_payment_def
  by (intro frame_intros; simp)+

lemma taskless_node_update [frame_intros]:
  "taskless (node_Update_status node upd)" "taskless (node_Update node upd)"
  unfolding node_Update_status_def node_Update_def by (intro frame_intros; simp)+

lemmas taskless_crew [frame_intros] =
  crewless_money[THEN crewless_taskless] crewless_income[THEN crewless_taskless] crewless_send[THEN crewless_taskless]
  crewless_caches[THEN crewless_taskless] crewless_rows[THEN crewless_taskless] crewless_checks[THEN crewless_taskless]

lemma taskless_nodes [frame_intros]:
  "taskless (nodeStartTask ex cfg node c now)" "taskless (setNodeStatusQuitTx cfg ch node slashed)"
  "taskless (SetNodeStatusQuit cfg ch node slashed)" "taskless (nodeFinishTask cfg ch node)"
  "taskless (updateNodeQosScore cfg node q)" "taskless (ApplyHealthPenalty ex cfg node now)" "taskless (ApplyHealthBoost ex cfg node now)"
  unfolding nodeStartTask_def nodeFinishTask_def SetNodeStatusQuit_def setNodeStatusQuitTx_def updateNodeQosScore_def
    ApplyHealthPenalty_def ApplyHealthBoost_def
  by (intro frame_intros; simp)+

lemma taskless_effects [frame_intros]:
  "taskless (apply_group_score env task node)" "taskless (boost_node env task ty node now)"
  "taskless (abort_on_node env task st node now)"
  unfolding apply_group_score_def boost_node_def abort_on_node_def by (intro frame_intros)+

text \<open>The closures that a payment returns for after the commit.\<close>

lemma refund_commit: "returns (refundTaskPaymentToRelayAccount c a x now) s f s' \<Longrightarrow> f = add_cached a x"
  by (auto simp: refundTaskPaymentToRelayAccount_def)

lemma income_commit_crewless: "returns (sendTaskIncome cfg c a x ty w now) s f s' \<Longrightarrow> crewless f"
  by (auto simp: sendTaskIncome_def post_income_def Let_def simp del: returns_txn intro!: frame_intros)

lemma abort_commit_crewless: "returns (abort_payment env task q now) s f s' \<Longrightarrow> crewless f"
  by (auto simp: abort_payment_def split: if_splits option.splits dest: income_commit_crewless dest!: refund_commit intro: frame_intros)

lemma map_each_returns_all:
  assumes "returns (map_each f xs) s ys s'" "\<And>x s y s'. returns (f x) s y s' \<Longrightarrow> P y"
  shows "list_all P ys"
  using assms(1)
proof (induction xs arbitrary: s ys)
  case (Cons x xs)
  then show ?case using assms(2) by (fastforce)
qed simp

lemma crewless_all: "list_all crewless fs \<Longrightarrow> crewless (for_each fs (\<lambda>f. f))"
  by (induction fs) (auto intro: frame_intros)

section \<open>Every operation on tasks is a step\<close>

lemma table_execute: "db_steps table_step f \<Longrightarrow> db_steps table_step (ExecuteNodeStateUpdate addrs f)"
  unfolding db_steps_def
proof (rule allI)
  fix s assume step: "\<forall>s. table_step (fst s) (fst (snd (f s)))"
  have "d_tasks (fst (snd (ExecuteNodeStateUpdate addrs f s))) = d_tasks (fst (snd (f s)))"
    using unchanged_run[OF crewless_caches(5)[THEN crewless_taskless] surjective_pairing]
    by (auto simp: ExecuteNodeStateUpdate_def Let_def split: prod.splits)
  then show "table_step (fst s) (fst (snd (ExecuteNodeStateUpdate addrs f s)))" using step by (cases s) (simp add: table_step_def)
qed

named_theorems table_intros

lemmas table_structure [table_intros] = table.steps_ret table.steps_raise table.steps_check table.steps_of_sum table.steps_of_option
  table.steps_bnd table.steps_txn table.steps_try table.steps_if table.steps_option table.steps_prod table.steps_for_each
  table.steps_map_each table_execute

lemma table_let [table_intros]: "(\<And>x. db_steps table_step (f x)) \<Longrightarrow> db_steps table_step (Let y f)"
  by simp

lemma table_primitives [table_intros]:
  "db_steps table_step (read_db g)" "db_steps table_step (read_mem h)" "db_steps table_step (write_mem k)"
  "db_steps table_step (call c)" "db_steps table_step (emitEvent e)"
  "db_steps table_step (GetTaskByIDCommitment c')" "db_steps table_step (GetNodeByAddress a)"
  "db_steps table_step (GetTaskGroupByTaskID i)" "db_steps table_step (SyncStatus task)" "db_steps table_step (node_Sync node)"
  by (rule table_taskless, intro frame_intros; simp)+

lemmas table_leaves [table_intros] = taskless_crew[THEN table_taskless] taskless_nodes[THEN table_taskless]
  taskless_effects[THEN table_taskless]

lemmas row_step_simps = row_step_def same_order_def armed_def task_ended_def

lemma table_started [table_intros]: "db_steps table_step (SetTaskStatusStarted env task node now)"
proof (cases "t_Status task = TaskQueued")
  case True
  then have row: "row_step t (started n plan owned now t)" if "t_Status t = t_Status task" for t n plan owned
    using that by (simp add: row_step_simps started_def)
  show ?thesis
    unfolding SetTaskStatusStarted_def by (intro table_intros table_update_status row)
next
  case False
  then show ?thesis by (simp add: SetTaskStatusStarted_def db_steps_def bnd_run check_run table.step_refl)
qed

lemma table_progress [table_intros]:
  "db_steps table_step (SetTaskStatusScoreReady env task now)" "db_steps table_step (SetTaskStatusErrorReported env task now)"
  "db_steps table_step (SetTaskStatusValidated env task now)" "db_steps table_step (SetTaskStatusGroupValidated env task now)"
  unfolding SetTaskStatusScoreReady_def SetTaskStatusErrorReported_def SetTaskStatusValidated_def SetTaskStatusGroupValidated_def
  by (intro table_intros table_update_status; simp add: row_step_simps)+

lemma table_bnd_returns:
  assumes "db_steps table_step f" "\<And>s a s'. returns f s a s' \<Longrightarrow> db_steps table_step (g a)"
  shows "db_steps table_step (bnd f g)"
  unfolding db_steps_def
proof (rule allI)
  fix s
  obtain r t where run: "f s = (r, t)" by (metis surj_pair)
  have first: "table_step (fst s) (fst t)" using assms(1) run by (metis db_steps_def snd_conv)
  show "table_step (fst s) (fst (snd (bnd f g s)))"
  proof (cases r)
    case (Inr a)
    then have "db_steps table_step (g a)" using assms(2)[of s a t] run by (simp add: returns_def)
    then have "table_step (fst t) (fst (snd (g a t)))" unfolding db_steps_def by blast
    with first show ?thesis unfolding bnd_run run Inr by (simp add: table.step_trans)
  qed (simp add: bnd_run run first)
qed

text \<open>A payment, and the commit closure it hands on.\<close>

lemma table_payments:
  "(\<And>f. crewless f \<Longrightarrow> db_steps table_step (g f)) \<Longrightarrow> db_steps table_step (bnd (refundTaskPaymentToRelayAccount c a x now) g)"
  "(\<And>f. crewless f \<Longrightarrow> db_steps table_step (g f)) \<Longrightarrow> db_steps table_step (bnd (abort_payment env task q now) g)"
  "(\<And>fs. list_all crewless fs \<Longrightarrow> db_steps table_step (k fs)) \<Longrightarrow>
    db_steps table_step (bnd (map_each (\<lambda>p. sendTaskIncome cfg (c' p) (a' p) (x' p) (ty p) (w p) now) ps) k)"
proof -
  assume g: "\<And>f. crewless f \<Longrightarrow> db_steps table_step (g f)"
  show "db_steps table_step (bnd (refundTaskPaymentToRelayAccount c a x now) g)"
    by (rule table_bnd_returns) (auto dest!: refund_commit intro!: table_intros g frame_intros)
  show "db_steps table_step (bnd (abort_payment env task q now) g)"
    by (rule table_bnd_returns) (auto dest!: abort_commit_crewless intro!: table_intros g)
next
  assume k: "\<And>fs. list_all crewless fs \<Longrightarrow> db_steps table_step (k fs)"
  show "db_steps table_step (bnd (map_each (\<lambda>p. sendTaskIncome cfg (c' p) (a' p) (x' p) (ty p) (w p) now) ps) k)"
  proof (rule table_bnd_returns)
    fix s fs s'
    assume "returns (map_each (\<lambda>p. sendTaskIncome cfg (c' p) (a' p) (x' p) (ty p) (w p) now) ps) s fs s'"
    then have "list_all crewless fs" by (rule map_each_returns_all) (rule income_commit_crewless)
    then show "db_steps table_step (k fs)" by (rule k)
  qed (intro table_intros)
qed

lemma table_commits:
  "crewless f \<Longrightarrow> db_steps table_step f" "list_all crewless fs \<Longrightarrow> db_steps table_step (for_each fs (\<lambda>f. f))"
  by (auto intro!: table_taskless crewless_taskless crewless_all)

lemma table_group_refund [table_intros]: "db_steps table_step (SetTaskStatusEndGroupRefund env task now)"
  unfolding SetTaskStatusEndGroupRefund_def
  by (intro table_payments(1) table_intros table_update_status; (erule table_commits)?; simp add: row_step_simps)

lemma table_abort [table_intros]: "db_steps table_step (SetTaskStatusEndAborted env task issuer now)"
  unfolding SetTaskStatusEndAborted_def abort_tx_def
  by (intro table_payments(2) table_intros table_update_status; (erule table_commits)?; simp add: row_step_simps)

lemma table_success [table_intros]: "db_steps table_step (SetTaskStatusEndSuccess env task now)"
proof -
  have tx: "db_steps table_step (success_tx env task node st payments now)" if "st = TaskEndSuccess \<or> st = TaskEndGroupSuccess" for node st payments
    unfolding success_tx_def
    by (intro table_payments(3) table_commits(2) table_intros table_update_status; assumption?; use that in \<open>auto simp: row_step_simps\<close>)
  show ?thesis unfolding SetTaskStatusEndSuccess_def Let_def by (intro table_intros tx) simp
qed

section \<open>Slashing, validation and the requests\<close>

definition post_commit_of :: "unit relay option \<Rightarrow> unit relay" where
  "post_commit_of p = (case p of None \<Rightarrow> ret () | Some f \<Rightarrow> f)"

lemma slash_commit_crewless:
  assumes "returns (abortNodeCurrentTaskForSlash cfg node now) s p s'"
  shows "crewless (post_commit_of p)"
proof -
  have "p = None \<or> (\<exists>a x c ids. p = Some (slash_abort_commit (add_cached a x) c ids))"
    using assms unfolding abortNodeCurrentTaskForSlash_def refundTaskPaymentToRelayAccount_def Let_def
    by (auto split: option.splits if_splits simp del: returns_txn)
  moreover have "crewless (slash_abort_commit (add_cached a x) c ids)" for a x c ids
    unfolding slash_abort_commit_def by (intro frame_intros; simp)
  ultimately show ?thesis by (auto simp: post_commit_of_def intro!: frame_intros)
qed

lemma slash_tx_crewless: "returns (slashNodeTx cfg ch node c now) s (w, i, p) s' \<Longrightarrow> crewless (post_commit_of p)"
  unfolding slashNodeTx_def by (auto dest: slash_commit_crewless)

lemma pending_tx_crewless: "returns (pending_slash_tx cfg ch parse k now) s (n, w, i, p) s' \<Longrightarrow> crewless (post_commit_of p)"
  unfolding pending_slash_tx_def by (auto dest: slash_tx_crewless)

lemma post_commit_crewless: "crewless (post_commit_of p) \<Longrightarrow> crewless (slash_post_commit node w p)"
  unfolding slash_post_commit_def post_commit_of_def[symmetric] by (intro frame_intros)

lemma table_abort_slash [table_intros]: "db_steps table_step (abortNodeCurrentTaskForSlash cfg node now)"
  unfolding abortNodeCurrentTaskForSlash_def
  by (intro table_intros table_update_status; simp add: row_step_simps)

lemma table_slash_tx [table_intros]:
  "db_steps table_step (slashNodeTx cfg ch node c now)" "db_steps table_step (pending_slash_tx cfg ch parse k now)"
proof -
  show slash: "db_steps table_step (slashNodeTx cfg ch node c now)" for node c
    unfolding slashNodeTx_def by (intro table_intros)
  show "db_steps table_step (pending_slash_tx cfg ch parse k now)"
    unfolding pending_slash_tx_def by (intro table_intros slash write_db_steps) (simp add: table_step_def rows_step_refl)
qed

lemma table_post_commit: "crewless (post_commit_of p) \<Longrightarrow> db_steps table_step (bnd (slash_post_commit node w p) (\<lambda>_. ret i))"
  by (intro table_intros table_commits(1) post_commit_crewless)

lemma table_slash [table_intros]: "db_steps table_step (SlashNode cfg ch node c now)"
  unfolding SlashNode_def
proof (intro table.steps_bnd[of "check _ _"] table.steps_check table_bnd_returns[of "txn _"] table.steps_txn table_slash_tx)
  fix s a s' assume "returns (txn (slashNodeTx cfg ch node c now)) s a s'"
  then show "db_steps table_step (case a of (w, i, p) \<Rightarrow> bnd (slash_post_commit node w p) (\<lambda>_. ret i))"
    by (cases a) (auto intro!: table_post_commit dest: slash_tx_crewless)
qed

lemma table_invalidate [table_intros]:
  "db_steps table_step (setTaskStatusEndInvalidatedWithEvidence env task node evidence full now)"
  "db_steps table_step (SetTaskStatusEndInvalidatedWithEvidence env task evidence full now)"
  unfolding SetTaskStatusEndInvalidatedWithEvidence_def setTaskStatusEndInvalidatedWithEvidence_def
  by (intro table_intros table_update_status; simp add: row_step_simps)+

lemma table_persist [table_intros]: "db_steps table_step (persistValidationGroupAbortedTaskQos env task)"
  unfolding persistValidationGroupAbortedTaskQos_def
  by (intro table_intros table_update; simp add: row_step_simps)

lemma table_verdict [table_intros]: "db_steps table_step (apply_verdict env v evidences k now task)"
  unfolding apply_verdict_def by (cases "verdict_of v task") (auto intro!: table_intros)

lemma table_validation [table_intros]:
  "db_steps table_step (ValidateTaskGroup env lib tasks taskID vrfProof key now)"
  "db_steps table_step (ValidateSingleTask env lib task taskID vrfProof key now)"
  unfolding ValidateTaskGroup_def ValidateSingleTask_def group_tx_def settle_group_def check_member_def
    buildInvalidatedTaskSlashEvidence_def refreshValidationGroupTasksForFinalUpdate_def lockValidationGroupTasks_def
  by (intro table_intros)+

lemma table_retry [table_intros]:
  "(\<And>t. db_steps table_step (f t)) \<Longrightarrow> db_steps table_step (task_retry k err f task)"
  by (induction k arbitrary: err task) (auto intro!: table_intros)

lemma table_cancel [table_intros]: "db_steps table_step (cancel_attempts k err env task addr now)"
  by (induction k arbitrary: err task) (auto simp: Let_def intro!: table_intros)

lemma table_attempts [table_intros]:
  "(\<And>ts. db_steps table_step (f ts)) \<Longrightarrow> db_steps table_step (validate_attempts k err f tasks)"
  by (induction k arbitrary: err tasks) (auto intro!: table_intros)

lemma table_timeouts [table_intros]: "db_steps table_step (abort_attempts k err env task issuer now)"
  by (induction k arbitrary: err task) (auto simp: Let_def intro!: table_intros split: option.splits)

lemma table_lookups [table_intros]:
  "db_steps table_step (signed_by signer)" "db_steps table_step (find_task c)" "db_steps table_step (own_task a c)"
  unfolding signed_by_def find_task_def own_task_def by (intro table_intros)+

lemma table_evidence [table_intros]: "db_steps table_step (UpdatePendingSlashResultEvidence rewrite c)"
  unfolding UpdatePendingSlashResultEvidence_def getSlashEvidenceGroupTasks_def
  by (intro table_intros write_db_steps; simp add: table_step_def rows_step_refl)

lemma table_requests [table_intros]:
  "db_steps table_step (SubmitScore env lib signer c score dtype now)" "db_steps table_step (ReportTaskError env signer c e now)"
  "db_steps table_step (AbortTask env signer c reason now)" "db_steps table_step (UploadResult env rewrite signer c form now)"
  "db_steps table_step (startMatchedPair env task a now)" "db_steps table_step (processTaskTimeouts_round env cursor now)"
  unfolding SubmitScore_def ReportTaskError_def AbortTask_def UploadResult_def startMatchedPair_def
    calibrateLLMGroupAfterUploadSuccess_def processTaskTimeouts_round_def abortTimedOutTasks_def abortTimedOutTask_def
    getDueTaskDeadlines_def
  by (intro table_intros; auto intro!: table_intros split: sum.splits)+

lemma table_validate [table_intros]: "db_steps table_step (ValidateTask env lib signer cs taskID vrfProof key now)"
proof -
  have once: "db_steps table_step (validate_once env lib taskID vrfProof key now ts)" for ts
    unfolding validate_once_def by (auto intro!: table_intros split: list.splits)
  show ?thesis unfolding ValidateTask_def by (intro table_intros once)
qed

lemma table_deliver [table_intros]: "db_steps table_step (MarkTaskDelivered task now)"
  unfolding MarkTaskDelivered_def
  by (intro table_intros write_db_steps) (simp add: table_step_def, rule rows_step_upd, simp add: row_step_simps)

text \<open>The pricing of a task only adds prices to it.\<close>

definition pricing_keeps :: "task_env \<Rightarrow> InferenceTask \<Rightarrow> bool" where
  "pricing_keeps env task \<longleftrightarrow> (case env_price env task of Inl _ \<Rightarrow> True | Inr t \<Rightarrow>
    t_Status t = t_Status task \<and> t_CreateTime t = t_CreateTime task \<and> t_TaskType t = t_TaskType task \<and>
    t_TaskIDCommitment t = t_TaskIDCommitment task \<and> t_SelectedNode t = t_SelectedNode task)"

lemma pricing_cases: "pricing_keeps env task \<Longrightarrow> env_price env task = Inr t \<Longrightarrow>
    t_Status t = t_Status task \<and> t_CreateTime t = t_CreateTime task \<and> t_TaskType t = t_TaskType task \<and>
    t_TaskIDCommitment t = t_TaskIDCommitment task \<and> t_SelectedNode t = t_SelectedNode task"
  by (simp add: pricing_keeps_def)

lemma queue_deadline_exists: "t_CreateTime t = Some c \<Longrightarrow> \<exists>d. GetQueueDeadline cfg t = Some d"
  by (cases "t_TaskType t") (auto simp: GetQueueDeadline_def UsesRelayOwnedTimeouts_def Let_def)

lemma table_insert: "armed task \<Longrightarrow> db_steps table_step (task_Create task)"
  unfolding task_Create_def Let_def
  by (intro table_intros write_db_steps)
    (simp add: table_step_def rows_step_def armed_def list_all2_refl row_step_refl)

lemma table_create:
  assumes "pricing_keeps env task" "t_Status task = TaskQueued" "t_CreateTime task = Some created"
  shows "db_steps table_step (CreateTask env task now)"
  unfolding CreateTask_def
proof (rule table.steps_of_sum_bnd, goal_cases)
  case (1 t)
  have keep: "t_Status t = TaskQueued" "t_CreateTime t = Some created" using pricing_cases[OF assms(1) 1] assms by simp_all
  obtain d where d: "GetQueueDeadline (env_cfg env) t = Some d" using queue_deadline_exists[OF keep(2)] by blast
  have "armed (t\<lparr> t_DeadlineAt := Some d \<rparr>)" using keep by (simp add: armed_def task_ended_def)
  then show ?case by (auto simp: d intro!: table_intros table_insert)
qed

lemma taskless_node_reads [frame_intros]:
  "taskless (node_Save node)" "taskless (node_SyncStatus node)" "taskless (HasUnfinishedDelegatedSlashJobForNode a)"
  "taskless (syncNodeDelegationsFromChainTx a w ds)" "taskless (ClearNodeInMemoryModel a)" "taskless (upsert_network_node r)"
  "taskless (applyNodeDelegationsToCache a w ds)" "taskless (SetDelegatorShare a w h)" "taskless (resetNodeQosScorePool a)"
  "taskless (check_signer signer a)" "taskless (find_node a)" "taskless (ensureNodeNameCountCacheLoaded)"
  unfolding node_Save_def node_SyncStatus_def HasUnfinishedDelegatedSlashJobForNode_def syncNodeDelegationsFromChainTx_def
    ClearNodeInMemoryModel_def upsert_network_node_def applyNodeDelegationsToCache_def cache_delegations_def SetDelegatorShare_def
    resetNodeQosScorePool_def check_signer_def find_node_def ensureNodeNameCountCacheLoaded_def RefreshNodeNameCountCache_def
  by (intro frame_intros; simp)+

lemma taskless_models [frame_intros]: "taskless (CreateNodeModels nms)" "taskless (replaceNodeModelFiles cfg a fs)"
proof -
  show create: "taskless (CreateNodeModels nms)" for nms by (induction nms) (auto intro!: frame_intros)
  show "taskless (replaceNodeModelFiles cfg a fs)"
    unfolding replaceNodeModelFiles_def filterWhitelistedModelFiles_def UpsertModelFiles_def GetNodeModelsByNodeAddress_def
      DeleteNodeModelsByFileHashes_def pruneUncoveredSelections_def
    by (intro frame_intros create; simp)
qed

lemma taskless_once [frame_intros]:
  "taskless (pause_once node)" "taskless (resume_once node)" "taskless (quit_once cfg ch node)"
proof -
  show "taskless (pause_once node)"
    unfolding pause_once_def attempt_def by (cases "n_Status node") (auto intro!: frame_intros)
  show "taskless (resume_once node)" "taskless (quit_once cfg ch node)"
    unfolding resume_once_def quit_once_def attempt_def by (intro frame_intros)+
qed

lemma taskless_retry [frame_intros]: "(\<And>n. taskless (once n)) \<Longrightarrow> taskless (retry k once node)"
  by (induction k arbitrary: node) (auto intro!: frame_intros)

lemma taskless_execute [frame_intros]: "taskless f \<Longrightarrow> taskless (ExecuteNodeStateUpdate addrs f)"
  using unchanged_run[OF crewless_caches(5)[THEN crewless_taskless] surjective_pairing]
  by (auto simp: unchanged_def ExecuteNodeStateUpdate_def Let_def split: prod.splits) (metis fst_conv snd_conv)

lemma taskless_join [frame_intros]:
  "taskless (SetNodeStatusJoin cfg ch node fs now)" "taskless (joining_node input x y z)" "taskless (AdjustNodeQosForJoin cfg node isNew)"
  unfolding SetNodeStatusJoin_def join_reads_def join_tx_def join_caches_def joining_node_def AdjustNodeQosForJoin_def
  by (intro frame_intros; simp)+

lemma taskless_handlers [frame_intros]:
  "taskless (NodePause signer a)" "taskless (NodeResume signer a)" "taskless (NodeQuit cfg ch signer a)"
  "taskless (NodeJoin cfg ch sha signer input now)" "taskless (GetNodeNameActiveCount g v ver)"
  unfolding NodePause_def NodeResume_def NodeQuit_def NodeJoin_def complete_join_def GetNodeNameActiveCount_def
  by (intro frame_intros; simp)+

lemma table_pending [table_intros]: "db_steps table_step (SlashPendingNode cfg ch parse k now)"
  unfolding SlashPendingNode_def
proof (intro table_bnd_returns[of "ExecuteNodeStateUpdate _ _"] table.steps_bnd[of "read_db _"] table.steps_bnd[of "of_option _ _"] table_primitives table.steps_of_option table_execute table.steps_txn table_slash_tx)
  fix r p s a s' assume "returns (ExecuteNodeStateUpdate [ps_NodeAddress p] (txn (pending_slash_tx cfg ch parse k now))) s a s'"
  then have "\<exists>t. returns (txn (pending_slash_tx cfg ch parse k now)) s a t"
    by (auto simp: ExecuteNodeStateUpdate_def returns_def Let_def split: prod.splits)
  then show "db_steps table_step (case a of (node, w, i, p) \<Rightarrow> bnd (slash_post_commit node w p) (\<lambda>_. ret i))"
    by (cases a) (auto intro!: table_post_commit dest: pending_tx_crewless)
qed

lemma table_node_request [table_intros]: "db_steps table_step (node_step env now req)"
  by (cases req) (auto intro!: table_intros taskless_handlers[THEN table_taskless])

section \<open>Reachable states\<close>

datatype task_request =
    RequestCreate InferenceTask
  | RequestPair InferenceTask address
  | RequestScore "address option" string string string
  | RequestError "address option" string TaskError
  | RequestAbort "address option" string TaskAbortReason
  | RequestValidate "address option" "string list" string string string
  | RequestUpload "address option" string upload_form
  | RequestDeliver string
  | RequestTimeouts "taskDeadlineCursor option"
  | RequestNode node_request

record task_libs =
  lib_vrf :: vrf_lib
  lib_rewrite :: "InferenceTask list \<Rightarrow> string \<Rightarrow> go_error + string"

fun task_step :: "task_env \<Rightarrow> task_libs \<Rightarrow> time \<Rightarrow> task_request \<Rightarrow> unit relay" where
  "task_step env libs now (RequestCreate task) = bnd (CreateTask env task now) (\<lambda>_. ret ())"
| "task_step env libs now (RequestPair task a) = startMatchedPair env task a now"
| "task_step env libs now (RequestScore signer c score dtype) =
    bnd (SubmitScore env (lib_vrf libs) signer c score dtype now) (\<lambda>_. ret ())"
| "task_step env libs now (RequestError signer c e) = bnd (ReportTaskError env signer c e now) (\<lambda>_. ret ())"
| "task_step env libs now (RequestAbort signer c reason) = bnd (AbortTask env signer c reason now) (\<lambda>_. ret ())"
| "task_step env libs now (RequestValidate signer cs taskID vrfProof key) =
    bnd (ValidateTask env (lib_vrf libs) signer cs taskID vrfProof key now) (\<lambda>_. ret ())"
| "task_step env libs now (RequestUpload signer c form) =
    bnd (UploadResult env (lib_rewrite libs) signer c form now) (\<lambda>_. ret ())"
| "task_step env libs now (RequestDeliver c) =
    bnd (GetTaskByIDCommitment c) (\<lambda>task. bnd (MarkTaskDelivered task now) (\<lambda>_. ret ()))"
| "task_step env libs now (RequestTimeouts cursor) = bnd (processTaskTimeouts_round env cursor now) (\<lambda>_. ret ())"
| "task_step env libs now (RequestNode req) = bnd (node_step (node_env.truncate env) now req) (\<lambda>_. ret ())"

text \<open>
  What the handlers check before they call the service: a new task is queued, created now, on no node and has a
  commitment; the scheduler pairs a copy of a row, read at some earlier time, with a node; signatures recover to addresses that
  are not empty.  Starting, finishing and slashing a node happen inside the task operations only.
\<close>

fun admissible :: "db \<Rightarrow> time \<Rightarrow> task_request \<Rightarrow> bool" where
  "admissible d now (RequestCreate task) \<longleftrightarrow>
    t_Status task = TaskQueued \<and> t_CreateTime task = Some now \<and> t_SelectedNode task = [] \<and> t_TaskIDCommitment task \<noteq> []"
| "admissible d now (RequestPair task a) \<longleftrightarrow>
    a \<noteq> [] \<and> list_ex (\<lambda>t. t_ID t = t_ID task \<and> t_TaskIDCommitment t = t_TaskIDCommitment task) (d_tasks d)"
| "admissible d now (RequestNode (RequestJoin input)) \<longleftrightarrow> ji_Address input \<noteq> []"
| "admissible d now (RequestNode (RequestStart a c)) \<longleftrightarrow> False"
| "admissible d now (RequestNode (RequestFinish a)) \<longleftrightarrow> False"
| "admissible d now (RequestNode (RequestSlash a c)) \<longleftrightarrow> False"
| "admissible d now _ \<longleftrightarrow> True"

inductive task_reach :: "task_env \<Rightarrow> task_libs \<Rightarrow> state \<Rightarrow> bool" for env libs where
  task_start: "task_reach env libs (empty_db, m)"
| task_next: "task_reach env libs s \<Longrightarrow> admissible (fst s) now req \<Longrightarrow> task_reach env libs (snd (task_step env libs now req s))"

lemma table_task_step:
  assumes "\<And>t. pricing_keeps env t" "admissible d now req"
  shows "db_steps table_step (task_step env libs now req)"
  using assms(2) by (cases req) (auto intro!: table_intros table_create[OF assms(1)])

lemma table_task_run:
  assumes "\<And>t. pricing_keeps env t" "admissible (fst s) now req"
  shows "table_step (fst s) (fst (snd (task_step env libs now req s)))"
  using table_task_step[OF assms] unfolding db_steps_def by blast

lemma step_armed: "table_step d d' \<Longrightarrow> list_all armed (d_tasks d) \<Longrightarrow> list_all armed (d_tasks d')"
  by (auto simp: table_step_def rows_step_split dest: armed_rows)

lemma reach_armed:
  assumes "task_reach env libs s" "\<And>t. pricing_keeps env t"
  shows "list_all armed (d_tasks (fst s))"
  using assms(1)
proof (induction rule: task_reach.induct)
  case (task_start m) show ?case by (simp add: empty_db_def)
next
  case (task_next s now req)
  show ?case by (rule step_armed[OF table_task_run[OF assms(2) task_next(2)] task_next(3)])
qed

end
