(* ===== verification/Crew.thy ===== *)
theory Crew
  imports TaskFlow
begin

text \<open>
  Who works on what.  A node row names the task it works on, a task row the node it runs on, and both change in
  the same transactions.  The theory shows that the two always agree: in every state the relay reaches, the pairs of
  node and task are the same read from either table, a node works on a task exactly while its status says
  so, and so no task runs on two nodes and no node on two tasks.  It follows that an ended task stays as
  it ended, although the operations that end tasks do not all look at the status they end it from.
\<close>

section \<open>Jobs and posts\<close>

type_synonym job = "nat \<times> string \<times> TaskStatus \<times> address"

type_synonym post = "nat \<times> address \<times> NodeStatus \<times> string option"

definition job :: "InferenceTask \<Rightarrow> job" where
  "job t = (t_ID t, t_TaskIDCommitment t, t_Status t, t_SelectedNode t)"

definition post :: "Node \<Rightarrow> post" where
  "post n = (n_ID n, n_Address n, n_Status n, n_CurrentTaskIDCommitment n)"

definition working :: "NodeStatus \<Rightarrow> bool" where
  "working st \<longleftrightarrow> st = NodeStatusBusy \<or> st = NodeStatusPendingPause \<or> st = NodeStatusPendingQuit"

definition assigned :: "job list \<Rightarrow> (address \<times> string) set" where
  "assigned js = {(a, c). \<exists>i st. (i, c, st, a) \<in> set js \<and> running_status st}"

definition held :: "post list \<Rightarrow> (address \<times> string) set" where
  "held ps = {(a, c). \<exists>k st. (k, a, st, Some c) \<in> set ps}"

definition jobs_ok :: "job list \<Rightarrow> bool" where
  "jobs_ok js \<longleftrightarrow> distinct (map fst js) \<and> distinct (map (fst \<circ> snd) js) \<and>
    (\<forall>(i, c, st, a) \<in> set js. i \<noteq> 0 \<and> c \<noteq> [] \<and> (st = TaskQueued \<longrightarrow> a = []))"

definition posts_ok :: "post list \<Rightarrow> bool" where
  "posts_ok ps \<longleftrightarrow> distinct (map fst ps) \<and> distinct (map (fst \<circ> snd) ps) \<and>
    (\<forall>(k, a, st, c) \<in> set ps. k \<noteq> 0 \<and> a \<noteq> [] \<and> (c \<noteq> None) = working st)"

definition staffed :: "job list \<Rightarrow> post list \<Rightarrow> bool" where
  "staffed js ps \<longleftrightarrow> jobs_ok js \<and> posts_ok ps \<and> held ps = assigned js"

text \<open>What the operations do to the two lists.\<close>

definition move_job :: "nat \<Rightarrow> TaskStatus \<Rightarrow> TaskStatus \<Rightarrow> job list \<Rightarrow> job list" where
  "move_job i st st' js = upd_where (\<lambda>j. fst j = i \<and> fst (snd (snd j)) = st) (\<lambda>(i, c, _, a). (i, c, st', a)) js"

definition assign_job :: "nat \<Rightarrow> address \<Rightarrow> job list \<Rightarrow> job list" where
  "assign_job i a js = upd_where (\<lambda>j. fst j = i \<and> fst (snd (snd j)) = TaskQueued) (\<lambda>(i, c, _, _). (i, c, TaskStarted, a)) js"

definition move_post :: "nat \<Rightarrow> NodeStatus \<Rightarrow> NodeStatus \<Rightarrow> string option \<Rightarrow> post list \<Rightarrow> post list" where
  "move_post k st st' c ps = upd_where (\<lambda>p. fst p = k \<and> fst (snd (snd p)) = st) (\<lambda>(k, a, _, _). (k, a, st', c)) ps"

lemma job_unique:
  assumes "jobs_ok js" "(i, c, st, a) \<in> set js" "(i', c', st', a') \<in> set js" "i = i' \<or> c = c'"
  shows "i = i' \<and> c = c' \<and> st = st' \<and> a = a'"
proof -
  have inj: "inj_on fst (set js)" "inj_on (fst \<circ> snd) (set js)" using assms(1) by (simp_all add: jobs_ok_def distinct_map)
  show ?thesis using inj_onD[OF inj(1) _ assms(2,3)] inj_onD[OF inj(2) _ assms(2,3)] assms(4) by auto
qed

lemma post_unique:
  assumes "posts_ok ps" "(k, a, st, c) \<in> set ps" "(k', a', st', c') \<in> set ps" "k = k' \<or> a = a'"
  shows "k = k' \<and> a = a' \<and> st = st' \<and> c = c'"
proof -
  have inj: "inj_on fst (set ps)" "inj_on (fst \<circ> snd) (set ps)" using assms(1) by (simp_all add: posts_ok_def distinct_map)
  show ?thesis using inj_onD[OF inj(1) _ assms(2,3)] inj_onD[OF inj(2) _ assms(2,3)] assms(4) by auto
qed

lemma in_move_job: "(i', c, s, a) \<in> set (move_job i st st' js) \<longleftrightarrow>
    (i', c, s, a) \<in> set js \<and> \<not> (i' = i \<and> s = st) \<or> i' = i \<and> s = st' \<and> (i, c, st, a) \<in> set js"
  by (induction js) (auto simp: move_job_def upd_where_def split: prod.splits if_splits)

lemma in_assign_job: "(i', c, s, b) \<in> set (assign_job i a js) \<longleftrightarrow>
    (i', c, s, b) \<in> set js \<and> \<not> (i' = i \<and> s = TaskQueued) \<or>
    i' = i \<and> s = TaskStarted \<and> b = a \<and> (\<exists>b. (i, c, TaskQueued, b) \<in> set js)"
  by (induction js) (auto simp: assign_job_def upd_where_def split: prod.splits if_splits)

lemma in_move_post: "(k', a, s, b) \<in> set (move_post k st st' c ps) \<longleftrightarrow>
    (k', a, s, b) \<in> set ps \<and> \<not> (k' = k \<and> s = st) \<or> k' = k \<and> s = st' \<and> b = c \<and> (\<exists>b. (k, a, st, b) \<in> set ps)"
  by (induction ps) (auto simp: move_post_def upd_where_def split: prod.splits if_splits)

lemma move_keys [simp]:
  "map fst (move_job i st st' js) = map fst js" "map (fst \<circ> snd) (move_job i st st' js) = map (fst \<circ> snd) js"
  "map fst (assign_job i a js) = map fst js" "map (fst \<circ> snd) (assign_job i a js) = map (fst \<circ> snd) js"
  "map fst (move_post k ps ps' c qs) = map fst qs" "map (fst \<circ> snd) (move_post k ps ps' c qs) = map (fst \<circ> snd) qs"
  by (auto simp: move_job_def assign_job_def move_post_def upd_where_def)

section \<open>Moves that keep the tables in agreement\<close>

lemma jobs_ok_move: "jobs_ok js \<Longrightarrow> st' \<noteq> TaskQueued \<Longrightarrow> jobs_ok (move_job i st st' js)"
  unfolding jobs_ok_def move_keys by (auto simp: in_move_job)

lemma jobs_ok_assign: "jobs_ok js \<Longrightarrow> jobs_ok (assign_job i a js)"
  unfolding jobs_ok_def move_keys by (auto simp: in_assign_job)

lemma posts_ok_move: "posts_ok ps \<Longrightarrow> (c \<noteq> None) = working st' \<Longrightarrow> posts_ok (move_post k st st' c ps)"
  unfolding posts_ok_def move_keys by (fastforce simp: in_move_post)

lemma assigned_same:
  assumes "running_status st = running_status st'"
  shows "assigned (move_job i st st' js) = assigned js"
proof -
  have "(\<exists>j s. (j, c, s, a) \<in> set (move_job i st st' js) \<and> running_status s) = (\<exists>j s. (j, c, s, a) \<in> set js \<and> running_status s)" for a c
    unfolding in_move_job using assms by blast
  then show ?thesis unfolding assigned_def by simp
qed

lemma assigned_end:
  assumes "jobs_ok js" "(i, c, st, a) \<in> set js" "running_status st" "\<not> running_status st'"
  shows "assigned (move_job i st st' js) = assigned js - {(a, c)}"
proof -
  have "(\<exists>j s. (j, c', s, a') \<in> set (move_job i st st' js) \<and> running_status s) =
      ((\<exists>j s. (j, c', s, a') \<in> set js \<and> running_status s) \<and> \<not> (a' = a \<and> c' = c))" for a' c'
    unfolding in_move_job using assms(2-4) job_unique[OF assms(1) _ assms(2)] by metis
  then show ?thesis unfolding assigned_def by auto
qed

lemma held_clear:
  assumes "posts_ok ps" "(k, a, ws, Some c) \<in> set ps"
  shows "held (move_post k ws ns None ps) = held ps - {(a, c)}"
proof -
  have "(\<exists>k' s. (k', a', s, Some c') \<in> set (move_post k ws ns None ps)) =
      ((\<exists>k' s. (k', a', s, Some c') \<in> set ps) \<and> \<not> (a' = a \<and> c' = c))" for a' c'
    unfolding in_move_post using assms(2) post_unique[OF assms(1) _ assms(2)] by (metis option.inject option.distinct(1))
  then show ?thesis unfolding held_def by auto
qed

lemma held_same:
  assumes "\<And>a b. (k, a, st, b) \<in> set ps \<Longrightarrow> b = c"
  shows "held (move_post k st st' c ps) = held ps"
proof -
  have "(\<exists>k' s. (k', a, s, Some b) \<in> set (move_post k st st' c ps)) = (\<exists>k' s. (k', a, s, Some b) \<in> set ps)" for a b
    unfolding in_move_post using assms by metis
  then show ?thesis unfolding held_def by simp
qed

lemma assigned_start:
  assumes "jobs_ok js" "(i, c, TaskQueued, b) \<in> set js"
  shows "assigned (assign_job i a js) = insert (a, c) (assigned js)"
proof -
  have st: "running_status TaskStarted" "\<not> running_status TaskQueued" by (simp_all add: running_status_def)
  have "(\<exists>j s. (j, c', s, a') \<in> set (assign_job i a js) \<and> running_status s) =
      ((\<exists>j s. (j, c', s, a') \<in> set js \<and> running_status s) \<or> a' = a \<and> c' = c)" for a' c'
    unfolding in_assign_job using assms(2) st job_unique[OF assms(1) _ assms(2)] by metis
  then show ?thesis unfolding assigned_def by auto
qed

lemma held_start:
  assumes "posts_ok ps" "(k, a, st, None) \<in> set ps"
  shows "held (move_post k st st' (Some c) ps) = insert (a, c) (held ps)"
proof -
  have "(\<exists>k' s. (k', a', s, Some c') \<in> set (move_post k st st' (Some c) ps)) =
      ((\<exists>k' s. (k', a', s, Some c') \<in> set ps) \<or> a' = a \<and> c' = c)" for a' c'
    unfolding in_move_post using assms(2) post_unique[OF assms(1) _ assms(2)] by (metis option.inject option.distinct(1))
  then show ?thesis unfolding held_def by auto
qed

lemma staffed_holder:
  assumes "staffed js ps" "(k, a, ws, Some c) \<in> set ps"
  shows "\<exists>i st. (i, c, st, a) \<in> set js \<and> running_status st"
proof -
  have "(a, c) \<in> assigned js" using assms unfolding staffed_def held_def by auto
  then show ?thesis by (auto simp: assigned_def)
qed

lemma staffed_holds:
  assumes "staffed js ps" "(i, c, st, a) \<in> set js" "running_status st"
  shows "\<exists>k ws. (k, a, ws, Some c) \<in> set ps \<and> working ws"
proof -
  have "(a, c) \<in> held ps" using assms unfolding staffed_def assigned_def by auto
  then obtain k ws where p: "(k, a, ws, Some c) \<in> set ps" by (auto simp: held_def)
  moreover have "working ws" using assms(1) p by (auto simp: staffed_def posts_ok_def)
  ultimately show ?thesis by blast
qed

lemma staffed_end:
  assumes "staffed js ps" "(i, c, st, a) \<in> set js" "running_status st" "(k, a, ws, Some c) \<in> set ps"
    "\<not> running_status st'" "st' \<noteq> TaskQueued" "\<not> working ns"
  shows "staffed (move_job i st st' js) (move_post k ws ns None ps)"
  using assms assigned_end[OF _ assms(2,3,5)] held_clear[OF _ assms(4)] jobs_ok_move posts_ok_move[of ps None ns]
  by (simp add: staffed_def)

lemma staffed_start:
  assumes "staffed js ps" "(i, c, TaskQueued, b) \<in> set js" "(k, a, NodeStatusAvailable, None) \<in> set ps"
  shows "staffed (assign_job i a js) (move_post k NodeStatusAvailable NodeStatusBusy (Some c) ps)"
  using assms assigned_start[OF _ assms(2)] held_start[OF _ assms(3)] jobs_ok_assign posts_ok_move[of ps "Some c" NodeStatusBusy]
  by (simp add: staffed_def working_def)

lemma staffed_move_job:
  "staffed js ps \<Longrightarrow> running_status st = running_status st' \<Longrightarrow> st' \<noteq> TaskQueued \<Longrightarrow> staffed (move_job i st st' js) ps"
  by (simp add: staffed_def assigned_same jobs_ok_move)

lemma staffed_move_post:
  assumes "staffed js ps" "(c \<noteq> None) = working st'" "\<And>a b. (k, a, st, b) \<in> set ps \<Longrightarrow> b = c"
  shows "staffed js (move_post k st st' c ps)"
  using assms(1) held_same[OF assms(3)] posts_ok_move[OF _ assms(2)] by (simp add: staffed_def)

lemma staffed_new_job:
  assumes "staffed js ps" "i \<noteq> 0" "i \<notin> fst ` set js" "c \<noteq> []" "c \<notin> (fst \<circ> snd) ` set js"
  shows "staffed (js @ [(i, c, TaskQueued, [])]) ps"
proof -
  have "assigned (js @ [(i, c, TaskQueued, [])]) = assigned js" by (auto simp: assigned_def running_status_def)
  then show ?thesis using assms by (auto simp: staffed_def jobs_ok_def)
qed

lemma staffed_new_post:
  assumes "staffed js ps" "k \<noteq> 0" "k \<notin> fst ` set ps" "a \<noteq> []" "a \<notin> (fst \<circ> snd) ` set ps"
  shows "staffed js (ps @ [(k, a, NodeStatusAvailable, None)])"
proof -
  have "held (ps @ [(k, a, NodeStatusAvailable, None)]) = held ps" by (auto simp: held_def)
  then show ?thesis using assms by (auto simp: staffed_def posts_ok_def working_def)
qed

section \<open>What the operations do to jobs and posts\<close>

definition jobs :: "db \<Rightarrow> job list" where
  "jobs d = map job (d_tasks d)"

definition posts :: "db \<Rightarrow> post list" where
  "posts d = map post (d_nodes d)"

definition crew_ok :: "db \<Rightarrow> bool" where
  "crew_ok d \<longleftrightarrow> staffed (jobs d) (posts d)"

definition settled :: "db \<Rightarrow> job set" where
  "settled d = {j \<in> set (jobs d). task_ended (fst (snd (snd j)))}"

abbreviation still :: "'a relay \<Rightarrow> bool" where
  "still f \<equiv> unchanged (\<lambda>d. (jobs d, posts d)) (\<lambda>_. ()) f"

lemma crewless_still: "crewless f \<Longrightarrow> still f"
  by (simp add: unchanged_def jobs_def posts_def)

lemma still_run: "still f \<Longrightarrow> f s = (r, s') \<Longrightarrow> jobs (fst s') = jobs (fst s) \<and> posts (fst s') = posts (fst s)"
  by (drule unchanged_run) simp_all

lemma still_returns: "still f \<Longrightarrow> returns f s a s' \<Longrightarrow> jobs (fst s') = jobs (fst s) \<and> posts (fst s') = posts (fst s)"
  by (drule unchanged_returns) simp_all

lemmas still_crew [frame_intros] =
  crewless_money[THEN crewless_still] crewless_income[THEN crewless_still] crewless_send[THEN crewless_still]
  crewless_caches[THEN crewless_still] crewless_rows[THEN crewless_still] crewless_checks[THEN crewless_still]

lemma views_log [simp]: "jobs (d\<lparr> d_log := x \<rparr>) = jobs d" "posts (d\<lparr> d_log := x \<rparr>) = posts d"
  by (simp_all add: jobs_def posts_def)

lemma map_upd_where: "(\<And>r. P r = Q (f r)) \<Longrightarrow> (\<And>r. P r \<Longrightarrow> f (u r) = v (f r)) \<Longrightarrow> map f (upd_where P u rows) = upd_where Q v (map f rows)"
  by (simp add: upd_where_def)

lemma map_upd_same: "(\<And>r. P r \<Longrightarrow> f (u r) = f r) \<Longrightarrow> map f (upd_where P u rows) = map f rows"
  by (simp add: upd_where_def)

lemma still_node_update [frame_intros]: "(\<And>n. post (upd n) = post n) \<Longrightarrow> still (node_Update node upd)"
  unfolding node_Update_def by (intro frame_intros) (simp add: jobs_def posts_def map_upd_same)

lemma still_task_update [frame_intros]: "(\<And>t. job (upd t) = job t) \<Longrightarrow> still (task_Update task upd)"
  unfolding task_Update_def by (intro frame_intros) (simp add: jobs_def posts_def map_upd_same)

lemma still_scores [frame_intros]:
  "still (updateNodeQosScore cfg node q)" "still (ApplyHealthPenalty ex cfg node now)" "still (ApplyHealthBoost ex cfg node now)"
  "still (apply_group_score env task node)" "still (boost_node env task ty node now)"
  "still (persistValidationGroupAbortedTaskQos env task)"
  unfolding apply_group_score_def boost_node_def persistValidationGroupAbortedTaskQos_def
    updateNodeQosScore_def ApplyHealthPenalty_def ApplyHealthBoost_def
  by (intro frame_intros; simp add: post_def job_def)+

lemma job_update:
  assumes "returns (task_Update_status task upd) s t s'" "\<And>r. job (upd r) = (t_ID r, t_TaskIDCommitment r, st', t_SelectedNode r)"
  shows "t = upd task" "jobs (fst s') = move_job (t_ID task) (t_Status task) st' (jobs (fst s))" "posts (fst s') = posts (fst s)"
    "\<exists>c a. (t_ID task, c, t_Status task, a) \<in> set (jobs (fst s))"
proof -
  have ret: "t = upd task" "\<exists>r\<in>set (d_tasks (fst s)). t_ID r = t_ID task \<and> t_Status r = t_Status task"
    "fst s' = (fst s)\<lparr> d_tasks := upd_where (\<lambda>r. t_ID r = t_ID task \<and> t_Status r = t_Status task) upd (d_tasks (fst s)) \<rparr>"
    using assms(1) by (auto simp: task_Update_status_def filter_empty_conv split: if_splits)
  show "t = upd task" by (rule ret(1))
  show "jobs (fst s') = move_job (t_ID task) (t_Status task) st' (jobs (fst s))"
    unfolding ret(3) jobs_def move_job_def by (simp, rule map_upd_where) (simp_all add: assms(2)[unfolded job_def] job_def)
  show "posts (fst s') = posts (fst s)" unfolding ret(3) by (simp add: posts_def)
  show "\<exists>c a. (t_ID task, c, t_Status task, a) \<in> set (jobs (fst s))" using ret(2) by (auto simp: jobs_def job_def image_iff) metis
qed

lemma job_assign:
  assumes "returns (task_Update_status task (started node plan owned now)) s t s'" "t_Status task = TaskQueued"
  shows "t = started node plan owned now task" "jobs (fst s') = assign_job (t_ID task) (n_Address node) (jobs (fst s))"
    "posts (fst s') = posts (fst s)" "\<exists>c a. (t_ID task, c, TaskQueued, a) \<in> set (jobs (fst s))"
proof -
  have ret: "t = started node plan owned now task" "\<exists>r\<in>set (d_tasks (fst s)). t_ID r = t_ID task \<and> t_Status r = TaskQueued"
    "fst s' = (fst s)\<lparr> d_tasks := upd_where (\<lambda>r. t_ID r = t_ID task \<and> t_Status r = TaskQueued) (started node plan owned now) (d_tasks (fst s)) \<rparr>"
    using assms by (auto simp: task_Update_status_def filter_empty_conv split: if_splits)
  show "t = started node plan owned now task" by (rule ret(1))
  show "jobs (fst s') = assign_job (t_ID task) (n_Address node) (jobs (fst s))"
    unfolding ret(3) jobs_def assign_job_def by (simp, rule map_upd_where) (simp_all add: started_def job_def)
  show "posts (fst s') = posts (fst s)" unfolding ret(3) by (simp add: posts_def)
  show "\<exists>c a. (t_ID task, c, TaskQueued, a) \<in> set (jobs (fst s))" using ret(2) by (auto simp: jobs_def job_def image_iff) metis
qed

lemma post_update:
  assumes "returns (node_Update_status node upd) s n s'" "\<And>r. post (upd r) = (n_ID r, n_Address r, st', c)"
  shows "n = upd node" "posts (fst s') = move_post (n_ID node) (n_Status node) st' c (posts (fst s))" "jobs (fst s') = jobs (fst s)"
proof -
  have ret: "n = upd node"
    "fst s' = (fst s)\<lparr> d_nodes := upd_where (\<lambda>r. n_ID r = n_ID node \<and> n_Status r = n_Status node) upd (d_nodes (fst s)) \<rparr>"
    using assms(1) by (auto simp: node_Update_status_def split: if_splits)
  show "n = upd node" by (rule ret(1))
  show "posts (fst s') = move_post (n_ID node) (n_Status node) st' c (posts (fst s))"
    unfolding ret(2) posts_def move_post_def by (simp, rule map_upd_where) (simp_all add: assms(2)[unfolded post_def] post_def)
  show "jobs (fst s') = jobs (fst s)" unfolding ret(2) by (simp add: jobs_def)
qed

lemma quit_posts:
  assumes "returns (setNodeStatusQuitTx cfg ch node slashed) s r s'"
  shows "posts (fst s') = move_post (n_ID node) (n_Status node) NodeStatusQuit None (posts (fst s))" "jobs (fst s') = jobs (fst s)"
proof -
  obtain b s1 s2 s3 node' txID where
    clear: "returns (clearNodeModelState (n_Address node)) s () s1" and upd: "returns (node_Update_status node is_quit) s1 node' s2"
    and dec: "returns (if b then DecrementNodeNameCountTx node' else ret ()) s2 () s3"
    and chain: "returns (quit_chain_tx cfg ch node' slashed) s3 txID s'"
    using assms unfolding setNodeStatusQuitTx_def Let_def by (auto simp del: returns_if split del: if_split)
  have "still (if b then DecrementNodeNameCountTx node' else ret ())" by (intro frame_intros)
  note frames = still_returns[OF this dec] still_returns[OF crewless_rows(1)[THEN crewless_still] clear]
    still_returns[OF crewless_rows(2)[THEN crewless_still] chain]
  have "post (is_quit n) = (n_ID n, n_Address n, NodeStatusQuit, None)" for n by (simp add: post_def is_quit_def)
  from post_update[OF upd this] show "posts (fst s') = move_post (n_ID node) (n_Status node) NodeStatusQuit None (posts (fst s))"
    "jobs (fst s') = jobs (fst s)" using frames by simp_all
qed

definition frees :: "Node \<Rightarrow> db \<Rightarrow> db \<Rightarrow> bool" where
  "frees node d d' \<longleftrightarrow> jobs d' = jobs d \<and>
    (\<exists>st. \<not> working st \<and> posts d' = move_post (n_ID node) (n_Status node) st None (posts d))"

definition freeing :: "Node \<Rightarrow> 'a relay \<Rightarrow> bool" where
  "freeing node f \<longleftrightarrow> (\<forall>s a s'. returns f s a s' \<longrightarrow> frees node (fst s) (fst s'))"

lemma freeing_run: "freeing node f \<Longrightarrow> returns f s a s' \<Longrightarrow> frees node (fst s) (fst s')"
  unfolding freeing_def by blast

lemma freeing_before:
  assumes "still f" "\<And>a. freeing node (g a)"
  shows "freeing node (bnd f g)"
  unfolding freeing_def
proof (intro allI impI)
  fix s b s' assume "returns (bnd f g) s b s'"
  then obtain a t where "returns f s a t" and "returns (g a) t b s'" unfolding returns_bnd by blast
  from still_returns[OF assms(1) this(1)] freeing_run[OF assms(2) this(2)] show "frees node (fst s) (fst s')" by (simp add: frees_def)
qed

lemma freeing_after:
  assumes "freeing node f" "\<And>a. still (g a)"
  shows "freeing node (bnd f g)"
  unfolding freeing_def
proof (intro allI impI)
  fix s b s' assume "returns (bnd f g) s b s'"
  then obtain a t where "returns f s a t" and "returns (g a) t b s'" unfolding returns_bnd by blast
  from freeing_run[OF assms(1) this(1)] still_returns[OF assms(2) this(2)] show "frees node (fst s) (fst s')" by (simp add: frees_def)
qed

lemma freeing_txn: "freeing node f \<Longrightarrow> freeing node (txn f)"
  by (simp add: freeing_def)

lemma freeing_quit: "freeing node (setNodeStatusQuitTx cfg ch node slashed)"
  unfolding freeing_def frees_def
proof (intro allI impI conjI)
  fix s r s' assume quit: "returns (setNodeStatusQuitTx cfg ch node slashed) s r s'"
  show "jobs (fst s') = jobs (fst s)" by (rule quit_posts(2)[OF quit])
  show "\<exists>st. \<not> working st \<and> posts (fst s') = move_post (n_ID node) (n_Status node) st None (posts (fst s))"
    using quit_posts(1)[OF quit] by (intro exI[of _ NodeStatusQuit]) (simp add: working_def)
qed

lemma freeing_set_quit: "freeing node (SetNodeStatusQuit cfg ch node slashed)"
  unfolding SetNodeStatusQuit_def
  by (intro freeing_after freeing_txn freeing_quit) (auto intro!: frame_intros)

lemma freeing_idle: "\<not> working st \<Longrightarrow>
    freeing node (node_Update_status node (\<lambda>n. n\<lparr> n_Status := st, n_CurrentTaskIDCommitment := None \<rparr>))"
  unfolding freeing_def frees_def
proof (intro allI impI conjI)
  fix s r s' assume idle: "\<not> working st"
    and upd: "returns (node_Update_status node (\<lambda>n. n\<lparr> n_Status := st, n_CurrentTaskIDCommitment := None \<rparr>)) s r s'"
  note eff = post_update(2,3)[OF upd, of st None]
  show "jobs (fst s') = jobs (fst s)" using eff(2) by (simp add: post_def)
  show "\<exists>st. \<not> working st \<and> posts (fst s') = move_post (n_ID node) (n_Status node) st None (posts (fst s))"
    using eff(1) idle by (intro exI[of _ st]) (simp add: post_def)
qed

lemma freeing_finish: "freeing node (nodeFinishTask cfg ch node)"
proof -
  have idle: "\<not> working NodeStatusAvailable" "\<not> working NodeStatusPaused" by (simp_all add: working_def)
  have kick: "freeing node (bnd (setNodeStatusQuitTx cfg ch node False) (\<lambda>(w, _). bnd (emitEvent e) (\<lambda>_. ret w)))" for e
    by (intro freeing_after freeing_quit) (auto intro!: frame_intros)
  have pause: "freeing node (bnd (node_Update_status node (\<lambda>n. n\<lparr> n_Status := NodeStatusPaused, n_CurrentTaskIDCommitment := None \<rparr>))
      DecrementNodeNameCountTx)"
    by (intro freeing_after freeing_idle idle frame_intros)
  have branch: "freeing node (if b then f else g)" if "freeing node f" "freeing node g" for b and f g :: "unit relay" using that by simp
  show ?thesis
    unfolding nodeFinishTask_def
    by (intro freeing_before[of "check _ _"] freeing_before[of "of_option _ _"] freeing_before[of "read_mem _"] branch
        freeing_before[of "GetTaskByIDCommitment _"] freeing_after[OF freeing_txn[OF kick]] freeing_after[OF freeing_txn[OF pause]]
        freeing_after[OF freeing_idle] freeing_set_quit idle frame_intros)
qed

lemma finish_worked: "returns (nodeFinishTask cfg ch node) s u s' \<Longrightarrow> working (n_Status node)"
  by (auto simp: nodeFinishTask_def working_def)

section \<open>A logic of requests\<close>

text \<open>
  \<^verbatim>\<open>crew K f Q\<close>: started in a state with an agreeing crew where \<^verbatim>\<open>K\<close> holds, the operation leaves the crew agreeing
  and every ended task as it was, whether it succeeds or fails, and when it returns a value, \<^verbatim>\<open>Q\<close> holds of it.
  What is known of a task row lasts, because rows only change as \<^verbatim>\<open>row_step\<close> allows.
\<close>

definition lasting :: "(db \<Rightarrow> bool) \<Rightarrow> bool" where
  "lasting K \<longleftrightarrow> (\<forall>d d'. table_step d d' \<longrightarrow> K d \<longrightarrow> K d')"

definition crew :: "(db \<Rightarrow> bool) \<Rightarrow> 'a relay \<Rightarrow> ('a \<Rightarrow> db \<Rightarrow> bool) \<Rightarrow> bool" where
  "crew K f Q \<longleftrightarrow> (\<forall>s r s'. f s = (r, s') \<longrightarrow> crew_ok (fst s) \<longrightarrow> K (fst s) \<longrightarrow>
    crew_ok (fst s') \<and> table_step (fst s) (fst s') \<and> settled (fst s) \<subseteq> settled (fst s') \<and> (\<forall>a. r = Inr a \<longrightarrow> Q a (fst s')))"

lemma crewD:
  assumes "crew K f Q" "f s = (r, s')" "crew_ok (fst s)" "K (fst s)"
  shows "crew_ok (fst s')" "table_step (fst s) (fst s')" "settled (fst s) \<subseteq> settled (fst s')" "r = Inr a \<Longrightarrow> Q a (fst s')"
  using assms unfolding crew_def by blast+

lemma crew_steps: "crew K f Q \<Longrightarrow> crew_ok (fst s) \<Longrightarrow> K (fst s) \<Longrightarrow> crew_ok (fst (snd (f s))) \<and> settled (fst s) \<subseteq> settled (fst (snd (f s)))"
  using crewD(1,3)[of K f Q s "fst (f s)" "snd (f s)"] by simp

lemma crew_weaken:
  assumes "crew K f Q" "\<And>d. crew_ok d \<Longrightarrow> K' d \<Longrightarrow> K d" "\<And>a d. Q a d \<Longrightarrow> Q' a d"
  shows "crew K' f Q'"
  using assms unfolding crew_def by blast

lemma crew_any: "crew K f Q \<Longrightarrow> crew K f (\<lambda>_ _. True)"
  by (erule crew_weaken) simp_all

lemma crew_bnd_gen:
  assumes "crew K f Q" "\<And>a. crew (K' a) (g a) R"
    "\<And>s a s'. f s = (Inr a, s') \<Longrightarrow> K (fst s) \<Longrightarrow> table_step (fst s) (fst s') \<Longrightarrow> Q a (fst s') \<Longrightarrow> K' a (fst s')"
  shows "crew K (bnd f g) R"
  unfolding crew_def
proof (intro allI impI)
  fix s r s' assume run: "bnd f g s = (r, s')" and ok: "crew_ok (fst s)" "K (fst s)"
  obtain q t where f: "f s = (q, t)" by (metis surj_pair)
  note first = crewD[OF assms(1) f ok]
  show "crew_ok (fst s') \<and> table_step (fst s) (fst s') \<and> settled (fst s) \<subseteq> settled (fst s') \<and> (\<forall>a. r = Inr a \<longrightarrow> R a (fst s'))"
  proof (cases q)
    case (Inl e)
    then show ?thesis using run f first by (auto simp: bnd_run)
  next
    case (Inr a)
    then have g: "g a t = (r, s')" using run f by (simp add: bnd_run)
    have "K' a (fst t)" using assms(3)[OF f[unfolded Inr] ok(2) first(2)] first(4)[OF Inr] by blast
    note second = crewD[OF assms(2) g first(1) this]
    show ?thesis using first second table.step_trans by blast
  qed
qed

lemma crew_bnd:
  assumes "lasting K" "crew K f Q" "\<And>a. crew (\<lambda>d. K d \<and> Q a d) (g a) R"
  shows "crew K (bnd f g) R"
  by (rule crew_bnd_gen[OF assms(2,3)]) (use assms(1) in \<open>auto simp: lasting_def\<close>)

definition reading :: "'a relay \<Rightarrow> bool" where
  "reading f \<longleftrightarrow> (\<forall>s. snd (f s) = s)"

lemma crew_read:
  assumes "reading f" "\<And>s a. f s = (Inr a, s) \<Longrightarrow> crew_ok (fst s) \<Longrightarrow> K (fst s) \<Longrightarrow> Q a (fst s)" "\<And>a. crew (\<lambda>d. K d \<and> Q a d) (g a) R"
  shows "crew K (bnd f g) R"
proof (rule crew_bnd_gen[OF _ assms(3)])
  show "crew K f Q"
    unfolding crew_def
  proof (intro allI impI)
    fix s r s' assume run: "f s = (r, s')" and ok: "crew_ok (fst s)" "K (fst s)"
    have "s' = s" using assms(1) run by (metis reading_def snd_conv)
    then show "crew_ok (fst s') \<and> table_step (fst s) (fst s') \<and> settled (fst s) \<subseteq> settled (fst s') \<and> (\<forall>a. r = Inr a \<longrightarrow> Q a (fst s'))"
      using ok run assms(2)[of s, OF _ ok] by (simp add: table.step_refl)
  qed
  show "K (fst s') \<and> Q a (fst s')" if "f s = (Inr a, s')" "K (fst s)" "table_step (fst s) (fst s')" "Q a (fst s')" for s a s'
    using assms(1) that by (metis reading_def snd_conv)
qed

lemma crew_still:
  assumes "still f" "taskless f"
  shows "crew K f (\<lambda>_ _. True)"
  unfolding crew_def
proof (intro allI impI)
  fix s r s' assume run: "f s = (r, s')" and ok: "crew_ok (fst s)"
  have "jobs (fst s') = jobs (fst s)" "posts (fst s') = posts (fst s)" using still_run[OF assms(1) run] by simp_all
  moreover have "d_tasks (fst s') = d_tasks (fst s)" using unchanged_run[OF assms(2) run] by simp
  ultimately show "crew_ok (fst s') \<and> table_step (fst s) (fst s') \<and> settled (fst s) \<subseteq> settled (fst s') \<and> (\<forall>a. r = Inr a \<longrightarrow> True)"
    using ok by (simp add: crew_ok_def settled_def table_step_def rows_step_refl)
qed

lemma crew_last:
  assumes "crew K f (\<lambda>_ _. True)" "\<And>a. still (g a)" "\<And>a. taskless (g a)"
  shows "crew K (bnd f g) (\<lambda>_ _. True)"
proof (rule crew_bnd_gen[OF assms(1), where K' = "\<lambda>_ _. True"])
  fix a show "crew (\<lambda>_. True) (g a) (\<lambda>_ _. True)" by (rule crew_still[OF assms(2,3)])
qed simp

lemma crew_txn_returns:
  assumes "db_steps table_step f"
    "\<And>s a s'. crew_ok (fst s) \<Longrightarrow> K (fst s) \<Longrightarrow> returns f s a s' \<Longrightarrow> crew_ok (fst s') \<and> settled (fst s) \<subseteq> settled (fst s') \<and> Q a (fst s')"
  shows "crew K (txn f) Q"
  unfolding crew_def
proof (intro allI impI)
  fix s r s' assume run: "txn f s = (r, s')" and ok: "crew_ok (fst s)" "K (fst s)"
  have step: "table_step (fst s) (fst s')" using table.steps_txn[OF assms(1)] run unfolding db_steps_def by (metis snd_conv)
  show "crew_ok (fst s') \<and> table_step (fst s) (fst s') \<and> settled (fst s) \<subseteq> settled (fst s') \<and> (\<forall>a. r = Inr a \<longrightarrow> Q a (fst s'))"
  proof (cases r)
    case (Inl e)
    then have "fst s' = fst s" using run by (auto simp: txn_def split: prod.splits sum.splits)
    then show ?thesis using ok step Inl by simp
  next
    case (Inr a)
    then have "returns f s a s'" using run by (auto simp: txn_def returns_def split: prod.splits sum.splits)
    then show ?thesis using assms(2)[OF ok] step Inr by blast
  qed
qed

section \<open>What a copy of a row tells\<close>

definition listed :: "InferenceTask \<Rightarrow> db \<Rightarrow> bool" where
  "listed task d \<longleftrightarrow> (\<exists>r\<in>set (d_tasks d). t_ID r = t_ID task \<and> t_TaskIDCommitment r = t_TaskIDCommitment task)"

text \<open>A copy that also has the right node: none while it says queued, the row's otherwise.\<close>

definition known :: "InferenceTask \<Rightarrow> db \<Rightarrow> bool" where
  "known task d \<longleftrightarrow> (\<exists>r\<in>set (d_tasks d). t_ID r = t_ID task \<and> t_TaskIDCommitment r = t_TaskIDCommitment task \<and>
    (if t_Status task = TaskQueued then t_SelectedNode task = []
     else t_Status r \<noteq> TaskQueued \<and> t_SelectedNode r = t_SelectedNode task))"

lemma known_listed: "known task d \<Longrightarrow> listed task d"
  unfolding known_def listed_def by blast

lemma row_stays:
  assumes "table_step d d'" "r \<in> set (d_tasks d)"
  shows "\<exists>r'\<in>set (d_tasks d'). row_step r r'"
proof -
  obtain old new where split: "d_tasks d' = old @ new" "list_all2 row_step (d_tasks d) old"
    using assms(1) unfolding table_step_def rows_step_split by blast
  obtain i where i: "i < length (d_tasks d)" "d_tasks d ! i = r" using assms(2) by (auto simp: in_set_conv_nth)
  have "row_step r (old ! i)" "old ! i \<in> set old" using list_all2_nthD[OF split(2) i(1)] i split(2) by (auto dest: list_all2_lengthD)
  then show ?thesis unfolding split(1) by auto
qed

named_theorems lasting_intros

lemma lasting_listed [lasting_intros]: "lasting (listed task)"
  unfolding lasting_def
proof (intro allI impI)
  fix d d' assume "table_step d d'" "listed task d"
  then obtain r r' where "t_ID r = t_ID task" "t_TaskIDCommitment r = t_TaskIDCommitment task" "r' \<in> set (d_tasks d')" "row_step r r'"
    unfolding listed_def using row_stays by blast
  then show "listed task d'" unfolding listed_def row_step_def same_order_def by metis
qed

lemma lasting_known [lasting_intros]: "lasting (known task)"
  unfolding lasting_def
proof (intro allI impI)
  fix d d' assume step: "table_step d d'" "known task d"
  obtain r where r: "r \<in> set (d_tasks d)" "t_ID r = t_ID task" "t_TaskIDCommitment r = t_TaskIDCommitment task"
    "if t_Status task = TaskQueued then t_SelectedNode task = [] else t_Status r \<noteq> TaskQueued \<and> t_SelectedNode r = t_SelectedNode task"
    using step(2) unfolding known_def by blast
  obtain r' where r': "r' \<in> set (d_tasks d')" "row_step r r'" using row_stays[OF step(1) r(1)] by blast
  show "known task d'"
    unfolding known_def by (rule bexI[OF _ r'(1)]) (use r r'(2) in \<open>auto simp: row_step_def same_order_def split: if_splits\<close>)
qed

lemma lasting_True [lasting_intros]: "lasting (\<lambda>_. b)"
  by (simp add: lasting_def)

lemma lasting_conj [lasting_intros]: "lasting K \<Longrightarrow> lasting L \<Longrightarrow> lasting (\<lambda>d. K d \<and> L d)"
  unfolding lasting_def by blast

lemma lasting_all [lasting_intros]: "(\<And>x. lasting (K x)) \<Longrightarrow> lasting (\<lambda>d. list_all (\<lambda>x. K x d) xs)"
  unfolding lasting_def list_all_iff by blast

lemma reading_intros:
  "reading (check b e)" "reading (of_sum r)" "reading (read_db g)" "reading (checkTaskSelectedNode task)"
  "reading (GetNodeByAddress a)" "reading (GetTaskByIDCommitment c)" "reading (buildSlashEvidence env task node)" "reading (node_Sync node)"
  "reading (GetTaskGroupByTaskID i)" "reading (signed_by signer)" "reading (find_task c)" "reading (SyncStatus task)"
  by (auto simp: reading_def op_simps checkTaskSelectedNode_def GetNodeByAddress_def GetTaskByIDCommitment_def buildSlashEvidence_def
      node_Sync_def GetTaskGroupByTaskID_def signed_by_def find_task_def SyncStatus_def try_catch_def split: option.splits sum.splits)

definition holder :: "InferenceTask \<Rightarrow> Node \<Rightarrow> db \<Rightarrow> bool" where
  "holder task node d \<longleftrightarrow> post node \<in> set (posts d) \<and> n_CurrentTaskIDCommitment node = Some (t_TaskIDCommitment task) \<and>
    (\<exists>st. (t_ID task, t_TaskIDCommitment task, st, n_Address node) \<in> set (jobs d) \<and> running_status st)"

lemma node_found: "GetNodeByAddress a s = (Inr node, s') \<Longrightarrow> s' = s \<and> node \<in> set (d_nodes (fst s)) \<and> (a = [] \<or> n_Address node = a)"
  by (auto simp: GetNodeByAddress_def op_simps split: option.splits dest: find_SomeD)

lemma post_stored: "node \<in> set (d_nodes d) \<Longrightarrow> post node \<in> set (posts d)"
  by (simp add: posts_def)

lemma job_stored: "t \<in> set (d_tasks d) \<Longrightarrow> job t \<in> set (jobs d)"
  by (simp add: jobs_def)

lemma selected_holder:
  assumes "checkTaskSelectedNode task s = (Inr node, s')" "crew_ok (fst s)" "listed task (fst s)"
  shows "holder task node (fst s)"
proof -
  have found: "node \<in> set (d_nodes (fst s))" "n_CurrentTaskIDCommitment node = Some (t_TaskIDCommitment task)"
    using assms(1) by (auto simp: checkTaskSelectedNode_def bnd_run check_run ret_run split: prod.splits sum.splits if_splits dest: node_found)
  have p: "(n_ID node, n_Address node, n_Status node, Some (t_TaskIDCommitment task)) \<in> set (posts (fst s))"
    using post_stored[OF found(1)] found(2) by (simp add: post_def)
  obtain i st where j: "(i, t_TaskIDCommitment task, st, n_Address node) \<in> set (jobs (fst s))" "running_status st"
    using staffed_holder[OF assms(2)[unfolded crew_ok_def] p] by blast
  obtain r where r: "r \<in> set (d_tasks (fst s))" "t_ID r = t_ID task" "t_TaskIDCommitment r = t_TaskIDCommitment task"
    using assms(3) unfolding listed_def by blast
  have "i = t_ID task"
    using job_unique[of "jobs (fst s)", OF _ j(1) job_stored[OF r(1), unfolded job_def]] assms(2) r by (auto simp: crew_ok_def staffed_def)
  then show ?thesis unfolding holder_def using p j found by (auto simp: post_def)
qed

lemma crew_selected:
  assumes "\<And>d. K d \<Longrightarrow> listed task d" "\<And>node. crew (\<lambda>d. K d \<and> holder task node d) (g node) R"
  shows "crew K (bnd (checkTaskSelectedNode task) g) R"
  by (rule crew_read[OF reading_intros(4) _ assms(2)]) (use selected_holder assms(1) in blast)

lemma crew_check:
  assumes "b \<Longrightarrow> crew K (g ()) R"
  shows "crew K (bnd (check b e) g) R"
  using assms by (cases b) (auto simp: crew_def bnd_run check_run table.step_refl)

lemma crew_of_sum:
  assumes "\<And>a. r = Inr a \<Longrightarrow> crew K (g a) R"
  shows "crew K (bnd (of_sum r) g) R"
  using assms by (cases r) (auto simp: crew_def bnd_run of_sum_run table.step_refl)

section \<open>Progress and the ends of a task\<close>

lemma status_classes: "task_ended st \<longleftrightarrow> st \<noteq> TaskQueued \<and> \<not> running_status st"
  by (cases st) (simp_all add: task_ended_def running_status_def)

lemma settled_move:
  assumes "jobs d' = move_job i st st' (jobs d)" "\<not> task_ended st"
  shows "settled d \<subseteq> settled d'"
  unfolding settled_def assms(1) using assms(2) by (auto simp: in_move_job)

lemma settled_same: "jobs d' = jobs d \<Longrightarrow> settled d \<subseteq> settled d'"
  by (simp add: settled_def)

lemma progress_keeps:
  assumes "crew_ok d" "jobs d' = move_job i st st' (jobs d)" "posts d' = posts d" "running_status st" "running_status st'"
  shows "crew_ok d' \<and> settled d \<subseteq> settled d'"
  using assms staffed_move_job[of "jobs d" "posts d" st st' i] settled_move[OF assms(2)]
  by (auto simp: crew_ok_def status_classes running_status_def)

lemma ending_keeps:
  assumes "crew_ok d" "holder task node d" "(t_ID task, c, st, a) \<in> set (jobs d)" "jobs d' = move_job (t_ID task) st st' (jobs d)" "task_ended st'"
    "\<not> working ns" "posts d' = move_post (n_ID node) (n_Status node) ns None (posts d)"
  shows "crew_ok d' \<and> settled d \<subseteq> settled d'"
proof -
  obtain s where h: "post node \<in> set (posts d)" "n_CurrentTaskIDCommitment node = Some (t_TaskIDCommitment task)"
    "(t_ID task, t_TaskIDCommitment task, s, n_Address node) \<in> set (jobs d)" "running_status s"
    using assms(2) unfolding holder_def by blast
  have "st = s" using job_unique[OF _ assms(3) h(3)] assms(1) by (auto simp: crew_ok_def staffed_def)
  then have run: "running_status st" "(t_ID task, t_TaskIDCommitment task, st, n_Address node) \<in> set (jobs d)" using h by simp_all
  have "staffed (move_job (t_ID task) st st' (jobs d)) (move_post (n_ID node) (n_Status node) ns None (posts d))"
    using staffed_end[OF assms(1)[unfolded crew_ok_def] run(2,1), of "n_ID node" "n_Status node" st' ns] h(1,2) assms(5,6)
    by (simp add: post_def status_classes)
  moreover have "settled d \<subseteq> settled d'" using settled_move[OF assms(4)] run(1) by (simp add: status_classes)
  ultimately show ?thesis using assms(4,7) by (simp add: crew_ok_def)
qed

lemma crew_progress:
  assumes "running_status (t_Status task)" "running_status st'" "\<And>r. job (upd r) = (t_ID r, t_TaskIDCommitment r, st', t_SelectedNode r)"
    "\<And>t. still (g t)" "db_steps table_step (bnd (task_Update_status task upd) g)"
  shows "crew K (txn (bnd (task_Update_status task upd) g)) (\<lambda>_ _. True)"
proof (rule crew_txn_returns[OF assms(5)])
  fix s a s' assume ok: "crew_ok (fst s)" and "returns (bnd (task_Update_status task upd) g) s a s'"
  then obtain t s1 where upd: "returns (task_Update_status task upd) s t s1" and rest: "returns (g t) s1 a s'" unfolding returns_bnd by blast
  note eff = job_update[OF upd assms(3)]
  have "jobs (fst s') = move_job (t_ID task) (t_Status task) st' (jobs (fst s))" "posts (fst s') = posts (fst s)"
    using still_returns[OF assms(4) rest] eff(2,3) by simp_all
  from progress_keeps[OF ok this assms(1,2)] show "crew_ok (fst s') \<and> settled (fst s) \<subseteq> settled (fst s') \<and> True" by simp
qed

lemmas status_simps = running_status_def task_ended_def

lemma still_emit [frame_intros]: "still (emitEvent e)"
  unfolding emitEvent_def by (intro frame_intros) simp

lemma crew_score: "crew (listed task) (SetTaskStatusScoreReady env task now) (\<lambda>_ _. True)"
  unfolding SetTaskStatusScoreReady_def
  by (intro crew_check crew_selected crew_of_sum crew_progress[where st' = TaskScoreReady])
    (auto simp: status_simps job_def intro!: frame_intros table_intros table_update_status simp: row_step_simps)

lemma crew_error: "crew (listed task) (SetTaskStatusErrorReported env task now) (\<lambda>_ _. True)"
  unfolding SetTaskStatusErrorReported_def
  by (intro crew_check crew_selected crew_of_sum crew_progress[where st' = TaskErrorReported])
    (auto simp: status_simps job_def intro!: frame_intros table_intros table_update_status simp: row_step_simps)

lemma crew_validated: "crew (listed task) (SetTaskStatusValidated env task now) (\<lambda>_ _. True)"
  unfolding SetTaskStatusValidated_def
  by (intro crew_check crew_selected crew_of_sum crew_last crew_progress[where st' = TaskValidated])
    (auto simp: status_simps job_def intro!: frame_intros table_intros table_update_status simp: row_step_simps)

lemma crew_group_validated: "crew (listed task) (SetTaskStatusGroupValidated env task now) (\<lambda>_ _. True)"
  unfolding SetTaskStatusGroupValidated_def
  by (intro crew_check crew_selected crew_of_sum crew_last crew_progress[where st' = TaskGroupValidated])
    (auto simp: status_simps job_def intro!: frame_intros table_intros table_update_status simp: row_step_simps)

text \<open>The copy of a node that a score or a health change returns stands for the same post.\<close>

lemma score_post:
  "returns (apply_group_score env task node) s (n, traces) s' \<Longrightarrow> post n = post node"
  "returns (boost_node env task ty node now) s (n, traces) s' \<Longrightarrow> post n = post node"
  "returns (ApplyHealthPenalty ex cfg node now) s n s' \<Longrightarrow> post n = post node"
  by (auto simp: apply_group_score_def boost_node_def updateNodeQosScore_def ApplyHealthPenalty_def ApplyHealthBoost_def
      node_Update_def Let_def post_def split: if_splits)

lemma holder_view: "holder task node d \<Longrightarrow> jobs d' = jobs d \<Longrightarrow> posts d' = posts d \<Longrightarrow> holder task node d'"
  by (simp add: holder_def)

lemma holder_post: "post n = post node \<Longrightarrow> holder task n d = holder task node d"
  by (simp add: holder_def post_def)

text \<open>The end of a task on its node: the task row, then the node row, among steps that touch neither.\<close>

lemma end_on_node:
  assumes ok: "crew_ok (fst s)" "holder task node (fst s)"
    and before: "jobs (fst s1) = jobs (fst s)" "posts (fst s1) = posts (fst s)"
    and upd: "returns (task_Update_status task upd) s1 t s2" "\<And>r. job (upd r) = (t_ID r, t_TaskIDCommitment r, st', t_SelectedNode r)"
    and mid: "jobs (fst s3) = jobs (fst s2)" "posts (fst s3) = posts (fst s2)"
    and fin: "frees n (fst s3) (fst s4)" "post n = post node"
    and after: "jobs (fst s') = jobs (fst s4)" "posts (fst s') = posts (fst s4)"
    and st: "task_ended st'"
  shows "crew_ok (fst s') \<and> settled (fst s) \<subseteq> settled (fst s')"
proof -
  note eff = job_update[OF upd]
  obtain c a where hit: "(t_ID task, c, t_Status task, a) \<in> set (jobs (fst s))" using eff(4) before(1) by auto
  obtain ns where ns: "\<not> working ns" "jobs (fst s4) = jobs (fst s3)"
    "posts (fst s4) = move_post (n_ID n) (n_Status n) ns None (posts (fst s3))"
    using fin(1) unfolding frees_def by blast
  have "jobs (fst s') = move_job (t_ID task) (t_Status task) st' (jobs (fst s))"
    "posts (fst s') = move_post (n_ID node) (n_Status node) ns None (posts (fst s))"
    using eff(2,3) before mid after ns(2,3) fin(2) by (simp_all add: post_def)
  then show ?thesis using ending_keeps[OF ok hit _ st ns(1)] by blast
qed

lemma crew_group_refund: "crew (listed task) (SetTaskStatusEndGroupRefund env task now) (\<lambda>_ _. True)"
  unfolding SetTaskStatusEndGroupRefund_def
proof (intro crew_check crew_selected crew_last crew_txn_returns, goal_cases)
  case 2
  show ?case by (intro table_payments(1) table_intros table_update_status; (erule table_commits)?; simp add: row_step_simps)
next
  case (3 node s a s')
  obtain f s1 n s2 tr t s3 n' tr' s4 s5 s6 where
    refund: "returns (refundTaskPaymentToRelayAccount (t_TaskIDCommitment task) (t_Creator task) (t_TaskFee task) now) s f s1"
    and score: "returns (if t_QOSScore task \<noteq> None then apply_group_score env task node else ret (node, [])) s1 (n, tr) s2"
    and upd: "returns (task_Update_status task (\<lambda>t. t\<lparr> t_Status := TaskEndGroupRefund, t_TaskID := t_TaskID task,
                     t_ValidatedTime := Some now, t_QOSScore := t_QOSScore task, t_DeadlineAt := None \<rparr>)) s2 t s3"
    and boost: "returns (boost_node env t ''validation_group_matched_boost'' n now) s3 (n', tr') s4"
    and fin: "returns (nodeFinishTask (env_cfg env) (env_chain env) n') s4 () s5"
    and emit: "returns (emitEvent (TaskEndGroupRefundEvent (t_TaskIDCommitment t) (t_SelectedNode t))) s5 () s6"
    and commit: "returns f s6 () s'"
    using 3(4) by (auto split del: if_split)
  have "still (if t_QOSScore task \<noteq> None then apply_group_score env task node else ret (node, []))" by (intro frame_intros)
  note f1 = still_returns[OF still_crew(5) refund] still_returns[OF this score]
  have "post n = post node" using score by (auto split: if_splits dest: score_post)
  then have p: "post n' = post node" using score_post(2)[OF boost] by simp
  have "still f" using refund_commit[OF refund] by (simp add: still_crew)
  note f2 = still_returns[OF this commit] still_returns[OF still_emit emit]
  show ?case
    using end_on_node[OF 3(2) conjunct2[OF 3(3)] _ _ upd _ _ _ freeing_run[OF freeing_finish fin] p, of TaskEndGroupRefund s']
      f1 f2 still_returns[OF still_scores(5) boost] by (simp add: job_def task_ended_def)
qed (auto intro!: frame_intros)

lemma crew_reads:
  assumes "reading f" "\<And>a. crew K (g a) R"
  shows "crew K (bnd f g) R"
  by (rule crew_read[OF assms(1), where Q = "\<lambda>_ _. True"]) (simp_all add: assms(2))

lemma reading_payments: "reading (if b then group_payments tasks else ret p)"
  by (auto simp: reading_def group_payments_def GetNodesByAddresses_def op_simps Let_def)

lemma crew_success: "crew (listed task) (SetTaskStatusEndSuccess env task now) (\<lambda>_ _. True)"
proof -
  have tx: "crew (\<lambda>d. listed task d \<and> holder task node d) (txn (success_tx env task node st payments now)) (\<lambda>_ _. True)"
    if st: "st = TaskEndSuccess \<or> st = TaskEndGroupSuccess" for node st payments
  proof (rule crew_txn_returns)
    show "db_steps table_step (success_tx env task node st payments now)"
      unfolding success_tx_def
      by (intro table_payments(3) table_commits(2) table_intros table_update_status; assumption?; use st in \<open>auto simp: row_step_simps\<close>)
    fix s a s' assume ok: "crew_ok (fst s)" "listed task (fst s) \<and> holder task node (fst s)" and ret: "returns (success_tx env task node st payments now) s a s'"
    obtain fs s1 t s2 n tr s3 s4 s5 e where
      pay: "returns (map_each (\<lambda>p. sendTaskIncome (env_cfg env) (tp_taskIDCommitment p) (tp_address p) (tp_payment p) (t_TaskType task)
           (tp_network p) now) payments) s fs s1"
      and upd: "returns (task_Update_status task (\<lambda>t. t\<lparr> t_Status := st, t_ResultUploadedTime := Some now, t_DeadlineAt := None \<rparr>)) s1 t s2"
      and boost: "returns (boost_node env t ''task_result_upload_success_boost'' node now) s2 (n, tr) s3"
      and fin: "returns (nodeFinishTask (env_cfg env) (env_chain env) n) s3 () s4" and emit: "returns (emitEvent e) s4 () s5"
      and commit: "returns (for_each fs (\<lambda>f. f)) s5 () s'"
      using ret unfolding success_tx_def by (auto split del: if_split)
    have "list_all crewless fs" by (rule map_each_returns_all[OF pay]) (rule income_commit_crewless)
    note f2 = still_returns[OF crewless_still[OF crewless_all[OF this]] commit] still_returns[OF still_emit emit]
    have "still (map_each (\<lambda>p. sendTaskIncome (env_cfg env) (tp_taskIDCommitment p) (tp_address p) (tp_payment p) (t_TaskType task)
           (tp_network p) now) payments)" by (intro frame_intros)
    note f1 = still_returns[OF this pay]
    show "crew_ok (fst s') \<and> settled (fst s) \<subseteq> settled (fst s') \<and> True"
      using end_on_node[OF ok(1) conjunct2[OF ok(2)] _ _ upd _ _ _ freeing_run[OF freeing_finish fin] score_post(2)[OF boost], of st s']
        f1 f2 still_returns[OF still_scores(5) boost] st by (auto simp: job_def task_ended_def)
  qed
  show ?thesis
    unfolding SetTaskStatusEndSuccess_def Let_def
    by (intro crew_selected crew_reads[OF reading_intros(9)] crew_reads[OF reading_payments] crew_last tx) (auto intro!: frame_intros)
qed

section \<open>Abortion\<close>

lemma freeing_abort: "freeing node (abort_on_node env task st node now)"
proof -
  have "frees node (fst s) (fst s')" if ret: "returns (abort_on_node env task st node now) s tr s'" for s tr s'
  proof -
    obtain n t1 s1 n' t2 s2 where
      score: "returns (if shouldUpdateNodeQosScoreOnAbort task then apply_group_score env task node else ret (node, [])) s (n, t1) s1"
      and pen: "returns (if penalized task st then bnd (ApplyHealthPenalty (env_exp env) (env_cfg env) n now) (\<lambda>node.
              ret (node, [RecordNodeQosTrace (n_Address node) (t_TaskIDCommitment task) ''task_timeout_penalty''])) else ret (n, [])) s1 (n', t2) s2"
      and fin: "returns (nodeFinishTask (env_cfg env) (env_chain env) n') s2 () s'"
      using ret unfolding abort_on_node_def by (auto split del: if_split)
    have f1: "still (if shouldUpdateNodeQosScoreOnAbort task then apply_group_score env task node else ret (node, []))"
      and f2: "still (if penalized task st then bnd (ApplyHealthPenalty (env_exp env) (env_cfg env) n now) (\<lambda>node.
              ret (node, [RecordNodeQosTrace (n_Address node) (t_TaskIDCommitment task) ''task_timeout_penalty''])) else ret (n, []))"
      by (intro frame_intros)+
    have "post n = post node" using score by (auto split: if_splits dest: score_post)
    moreover have "post n' = post n" using pen by (auto split: if_splits dest: score_post)
    ultimately show ?thesis
      using freeing_run[OF freeing_finish fin] still_returns[OF f1 score] still_returns[OF f2 pen] by (simp add: frees_def post_def)
  qed
  then show ?thesis unfolding freeing_def by blast
qed

lemma aborted_run: "aborted_node task s =
    (if t_SelectedNode task = [] then Inr None
     else case fst (checkTaskSelectedNode task s) of
            Inr n \<Rightarrow> Inr (Some n)
          | Inl e \<Rightarrow> if e = ErrWrongNodeCurrentTask \<and> \<not> timeout_reason (t_AbortReason task) then Inr None else Inl e, s)"
  by (auto simp: aborted_node_def checkTaskSelectedNode_def GetNodeByAddress_def op_simps try_catch_def split: option.splits)

lemma aborted_holder:
  assumes "returns (aborted_node task) s (Some node) s'" "crew_ok (fst s)" "listed task (fst s)"
  shows "holder task node (fst s)"
proof (rule selected_holder[OF _ assms(2,3)])
  have "fst (checkTaskSelectedNode task s) = Inr node"
    using assms(1) by (auto simp: returns_def aborted_run split: if_splits sum.splits)
  then show "checkTaskSelectedNode task s = (Inr node, s)" using reading_intros(4)[of task] by (metis reading_def prod.collapse)
qed

lemma running_is_selected:
  assumes "crew_ok d" "known task d" "(t_ID task, c, t_Status task, a) \<in> set (jobs d)" "running_status (t_Status task)"
  shows "t_SelectedNode task \<noteq> []" "\<exists>node. checkTaskSelectedNode task (d, m) = (Inr node, (d, m))"
proof -
  have ok: "jobs_ok (jobs d)" "posts_ok (posts d)" using assms(1) by (simp_all add: crew_ok_def staffed_def)
  obtain r where r: "r \<in> set (d_tasks d)" "t_ID r = t_ID task" "t_TaskIDCommitment r = t_TaskIDCommitment task"
    "t_SelectedNode r = t_SelectedNode task"
    using assms(2,4) unfolding known_def by (auto simp: running_status_def split: if_splits)
  have job: "c = t_TaskIDCommitment task" "a = t_SelectedNode task"
    using job_unique[OF ok(1) assms(3) job_stored[OF r(1), unfolded job_def]] r by auto
  obtain k ws where p: "(k, t_SelectedNode task, ws, Some (t_TaskIDCommitment task)) \<in> set (posts d)"
    using staffed_holds[OF assms(1)[unfolded crew_ok_def] assms(3,4)] job by blast
  then show sel: "t_SelectedNode task \<noteq> []" using ok(2) by (auto simp: posts_ok_def)
  obtain n where "n \<in> set (d_nodes d)" "n_Address n = t_SelectedNode task" using p by (auto simp: posts_def post_def)
  then have "find (\<lambda>n. t_SelectedNode task = [] \<or> n_Address n = t_SelectedNode task) (d_nodes d) \<noteq> None"
    by (auto simp: find_None_iff)
  then obtain n' where found: "find (\<lambda>n. t_SelectedNode task = [] \<or> n_Address n = t_SelectedNode task) (d_nodes d) = Some n'" by blast
  have "n' \<in> set (d_nodes d)" "n_Address n' = t_SelectedNode task" using find_SomeD[OF found] sel by auto
  then have "n_CurrentTaskIDCommitment n' = Some (t_TaskIDCommitment task)"
    using post_unique[OF ok(2) p post_stored[of n', unfolded post_def]] by auto
  then show "\<exists>node. checkTaskSelectedNode task (d, m) = (Inr node, (d, m))"
    using found by (auto simp: checkTaskSelectedNode_def GetNodeByAddress_def op_simps)
qed

lemma aborted_none:
  assumes "returns (aborted_node task) s None s'" "crew_ok (fst s)" "known task (fst s)" "(t_ID task, c, t_Status task, a) \<in> set (jobs (fst s))"
  shows "\<not> running_status (t_Status task)"
proof
  assume run: "running_status (t_Status task)"
  obtain d m where s: "s = (d, m)" by (cases s)
  have "t_SelectedNode task \<noteq> []" "\<exists>node. checkTaskSelectedNode task (d, m) = (Inr node, (d, m))"
    using running_is_selected[OF assms(2-4) run] s by auto
  then show False using assms(1) s by (auto simp: returns_def aborted_run)
qed

lemma abort_tx_keeps:
  assumes "returns (abort_tx env task issuer now) s r s'" "crew_ok (fst s)" "known task (fst s)" "\<not> task_ended (t_Status task)"
  shows "crew_ok (fst s') \<and> settled (fst s) \<subseteq> settled (fst s')"
proof -
  let ?upd = "\<lambda>t. t\<lparr> t_Status := TaskEndAborted, t_TaskID := t_TaskID task, t_AbortReason := t_AbortReason task,
           t_ValidatedTime := t_ValidatedTime task, t_QOSScore := t_QOSScore task, t_DeadlineAt := None \<rparr>"
  obtain q s0 f s1 t s2 tr s3 s4 e where node: "returns (aborted_node task) s q s0"
    and pay: "returns (abort_payment env task q now) s0 f s1" and upd: "returns (task_Update_status task ?upd) s1 t s2"
    and part: "returns (case q of None \<Rightarrow> ret [] | Some n \<Rightarrow> abort_on_node env t (t_Status task) n now) s2 tr s3"
    and emit: "returns (emitEvent e) s3 () s4" and commit: "returns f s4 () s'"
    using assms(1) unfolding abort_tx_def by (auto split del: option.splits)
  have s0: "s0 = s" using node by (simp add: returns_def aborted_run)
  note before = still_returns[OF crewless_checks(8)[THEN crewless_still] pay, unfolded s0]
  note after = still_returns[OF crewless_still[OF abort_commit_crewless[OF pay]] commit] still_returns[OF still_emit emit]
  have row: "job (?upd r) = (t_ID r, t_TaskIDCommitment r, TaskEndAborted, t_SelectedNode r)" for r by (simp add: job_def)
  show ?thesis
  proof (cases q)
    case (Some n)
    have "frees n (fst s2) (fst s3)" using part Some freeing_run[OF freeing_abort] by fastforce
    then show ?thesis
      using end_on_node[OF assms(2) aborted_holder[OF node[unfolded Some] assms(2) known_listed[OF assms(3)]] _ _ upd row _ _ _ refl, of s2 s3 s']
        before after by (simp add: task_ended_def)
  next
    case None
    note eff = job_update[OF upd row]
    obtain c a where "(t_ID task, c, t_Status task, a) \<in> set (jobs (fst s))" using eff(4) before by auto
    then have idle: "\<not> running_status (t_Status task)" by (rule aborted_none[OF node[unfolded None] assms(2,3)])
    have "jobs (fst s') = move_job (t_ID task) (t_Status task) TaskEndAborted (jobs (fst s))" "posts (fst s') = posts (fst s)"
      using part None eff(2,3) before after by simp_all
    then show ?thesis
      using staffed_move_job[of "jobs (fst s)" "posts (fst s)" "t_Status task" TaskEndAborted] idle assms(2,4) settled_move
      by (simp add: crew_ok_def running_status_def)
  qed
qed

lemma crew_ret: "crew K (ret a) (\<lambda>_ _. True)" and crew_raise: "crew K (raise e) Q"
  by (auto simp: crew_def ret_run raise_run table.step_refl)

lemma crew_if: "(b \<Longrightarrow> crew K f Q) \<Longrightarrow> (\<not> b \<Longrightarrow> crew K g Q) \<Longrightarrow> crew K (if b then f else g) Q"
  by simp

lemma table_abort_tx: "db_steps table_step (abort_tx env task issuer now)"
  unfolding abort_tx_def
  by (intro table_payments(2) table_intros table_update_status; (erule table_commits)?; simp add: row_step_simps)

lemma crew_abort: "crew (known task) (SetTaskStatusEndAborted env task issuer now) (\<lambda>_ _. True)"
proof -
  have "crew (known task) (txn (abort_tx env task issuer now)) (\<lambda>_ _. True)" if "\<not> task_ended (t_Status task)"
    by (rule crew_txn_returns[OF table_abort_tx]) (use abort_tx_keeps that in blast)
  then show ?thesis
    unfolding SetTaskStatusEndAborted_def
    by (intro crew_if crew_ret crew_raise crew_last) (auto simp: task_ended_def intro!: frame_intros)
qed

section \<open>Start\<close>

lemma reading_bnd:
  assumes "reading f" "\<And>a. reading (g a)"
  shows "reading (bnd f g)"
  unfolding reading_def
proof
  fix s
  have "f s = (fst (f s), s)" using assms(1) by (metis reading_def prod.collapse)
  then show "snd (bnd f g s) = s" using assms(2) by (cases "fst (f s)") (simp_all add: bnd_run reading_def del: split_paired_All)
qed

lemma reading_plan: "reading (start_plan_for env task node now)"
  unfolding start_plan_for_def loadNodeModelState_def ListNodeModelFileRows_def ListNodeInMemoryModels_def GetNodeInMemoryModel_def Let_def
  by (intro reading_bnd reading_intros) (auto simp: reading_def op_simps split: prod.splits sum.splits option.splits)

lemma start_posts:
  assumes "returns (nodeStartTask ex cfg node c now) s n s'"
  shows "jobs (fst s') = jobs (fst s)" "posts (fst s') = move_post (n_ID node) NodeStatusAvailable NodeStatusBusy (Some c) (posts (fst s))"
    "\<exists>a b. (n_ID node, a, NodeStatusAvailable, b) \<in> set (posts (fst s))"
proof -
  obtain n' where free: "n_Status node = NodeStatusAvailable"
    and upd: "returns (node_Update_status node (\<lambda>n. n\<lparr> n_Status := NodeStatusBusy, n_CurrentTaskIDCommitment := Some c,
                n_HealthExcluded := (if n_HealthExcluded node then False else n_HealthExcluded n) \<rparr>)) s n' s'"
    using assms unfolding nodeStartTask_def by (auto split del: if_split)
  note eff = post_update(2,3)[OF upd, of NodeStatusBusy "Some c"]
  show "jobs (fst s') = jobs (fst s)" "posts (fst s') = move_post (n_ID node) NodeStatusAvailable NodeStatusBusy (Some c) (posts (fst s))"
    using eff free by (simp_all add: post_def)
  have "\<exists>r\<in>set (d_nodes (fst s)). n_ID r = n_ID node \<and> n_Status r = NodeStatusAvailable"
    using upd free by (auto simp: node_Update_status_def filter_empty_conv split: if_splits)
  then show "\<exists>a b. (n_ID node, a, NodeStatusAvailable, b) \<in> set (posts (fst s))" by (auto simp: posts_def post_def image_iff) metis
qed

lemma settled_assign: "jobs d' = assign_job i a (jobs d) \<Longrightarrow> settled d \<subseteq> settled d'"
  unfolding settled_def by (auto simp: in_assign_job task_ended_def)

definition stored_node :: "Node \<Rightarrow> db \<Rightarrow> bool" where
  "stored_node node d \<longleftrightarrow> post node \<in> set (posts d)"

lemma synced: "node_Sync node s = (Inr n, s') \<Longrightarrow> stored_node n (fst s)"
  by (auto simp: node_Sync_def op_simps stored_node_def split: option.splits dest!: find_SomeD intro: post_stored)

lemma crew_start_tx:
  assumes "t_Status task = TaskQueued"
  shows "crew (\<lambda>d. listed task d \<and> stored_node node d)
    (txn (bnd (task_Update_status task (started node plan owned now)) (\<lambda>task.
          bnd (nodeStartTask ex cfg node (t_TaskIDCommitment task) now) (\<lambda>node.
          bnd (emitEvent (TaskStartedEvent (t_TaskIDCommitment task) (n_Address node))) (\<lambda>_. ret (task, node)))))) (\<lambda>_ _. True)"
proof (rule crew_txn_returns, goal_cases)
  case 1
  have row: "row_step t (started node plan owned now t)" if "t_Status t = t_Status task" for t
    using that assms by (simp add: row_step_simps started_def)
  show ?case by (intro table_intros table_update_status row)
next
  case (2 s a s')
  obtain t s1 n s2 e where upd: "returns (task_Update_status task (started node plan owned now)) s t s1"
    and start: "returns (nodeStartTask ex cfg node (t_TaskIDCommitment t) now) s1 n s2" and emit: "returns (emitEvent e) s2 () s'"
    using 2(3) by auto
  note eff = job_assign[OF upd assms]
  note at = start_posts[OF start]
  have ok: "jobs_ok (jobs (fst s))" "posts_ok (posts (fst s))" using 2(1) by (simp_all add: crew_ok_def staffed_def)
  obtain r where r: "r \<in> set (d_tasks (fst s))" "t_ID r = t_ID task" "t_TaskIDCommitment r = t_TaskIDCommitment task"
    using 2(2) unfolding listed_def by blast
  obtain c b where "(t_ID task, c, TaskQueued, b) \<in> set (jobs (fst s))" using eff(4) by blast
  then have job: "(t_ID task, t_TaskIDCommitment task, TaskQueued, b) \<in> set (jobs (fst s))"
    using job_unique[OF ok(1) _ job_stored[OF r(1), unfolded job_def]] r by auto
  obtain a' c' where p: "(n_ID node, a', NodeStatusAvailable, c') \<in> set (posts (fst s))" using at(3) eff(3) by auto
  have "a' = n_Address node"
    using post_unique[OF ok(2) p, of "n_ID node" "n_Address node"] 2(2) by (auto simp: stored_node_def post_def)
  moreover have "c' = None" using p ok(2) by (fastforce simp: posts_ok_def working_def)
  ultimately have free: "(n_ID node, n_Address node, NodeStatusAvailable, None) \<in> set (posts (fst s))" using p by simp
  have "t_TaskIDCommitment t = t_TaskIDCommitment task" using eff(1) by (simp add: started_def)
  then have "jobs (fst s') = assign_job (t_ID task) (n_Address node) (jobs (fst s))"
    "posts (fst s') = move_post (n_ID node) NodeStatusAvailable NodeStatusBusy (Some (t_TaskIDCommitment task)) (posts (fst s))"
    using eff(2,3) at(1,2) still_returns[OF still_emit emit] by simp_all
  then show ?case
    using staffed_start[OF 2(1)[unfolded crew_ok_def] job free] settled_assign by (simp add: crew_ok_def)
qed

lemma crew_start: "crew (listed task) (SetTaskStatusStarted env task node now) (\<lambda>_ _. True)"
  unfolding SetTaskStatusStarted_def
  by (intro crew_check crew_read[OF reading_intros(8), where Q = "\<lambda>n d. stored_node n d"] crew_of_sum
      crew_reads[OF reading_plan] crew_last crew_start_tx)
    (auto intro!: frame_intros simp: Let_def dest: synced)

section \<open>Slashing and invalidation\<close>

lemma job_found:
  assumes "jobs_ok (jobs (fst s))" "(i, c, st, a) \<in> set (jobs (fst s))"
  shows "\<exists>t. (\<forall>t' s'. returns (GetTaskByIDCommitment c) s t' s' \<longleftrightarrow> t' = t \<and> s' = s) \<and> job t = (i, c, st, a)"
proof -
  have "c \<noteq> []" using assms by (auto simp: jobs_ok_def)
  moreover have "find (\<lambda>t. t_TaskIDCommitment t = c) (d_tasks (fst s)) \<noteq> None"
    using assms(2) by (auto simp: find_None_iff jobs_def job_def)
  ultimately obtain t where run: "GetTaskByIDCommitment c s = (Inr t, s)" and t: "find (\<lambda>t. t_TaskIDCommitment t = c) (d_tasks (fst s)) = Some t"
    by (auto simp: GetTaskByIDCommitment_def op_simps)
  have "job t = (i, c, st, a)"
    using job_unique[OF assms job_stored[of t, unfolded job_def]] find_SomeD[OF t] by (auto simp: job_def)
  moreover have "returns (GetTaskByIDCommitment c) s t' s' \<longleftrightarrow> t' = t \<and> s' = s" for t' s' using run by (auto simp: returns_def)
  ultimately show ?thesis by blast
qed

lemma slash_of_ended:
  assumes "returns (abortNodeCurrentTaskForSlash cfg node now) s p s'" "n_CurrentTaskIDCommitment node = Some c"
    "jobs_ok (jobs (fst s))" "(i, c, st, a) \<in> set (jobs (fst s))" "task_ended st"
  shows "s' = s"
proof -
  obtain t where run: "\<And>t' s'. returns (GetTaskByIDCommitment c) s t' s' \<longleftrightarrow> t' = t \<and> s' = s" and "job t = (i, c, st, a)"
    using job_found[OF assms(3,4)] by blast
  then have "task_ended (t_Status t)" using assms(5) by (simp add: job_def)
  then show ?thesis using assms(1,2) unfolding abortNodeCurrentTaskForSlash_def by (auto simp: run)
qed

lemma slash_tx_frees:
  assumes "returns (slashNodeTx cfg ch node c' now) s r s'" "\<And>p t. returns (abortNodeCurrentTaskForSlash cfg node now) s p t \<Longrightarrow> t = s"
  shows "frees node (fst s) (fst s')"
proof -
  obtain p t q t' e where ab: "returns (abortNodeCurrentTaskForSlash cfg node now) s p t"
    and quit: "returns (setNodeStatusQuitTx cfg ch node True) t q t'" and emit: "returns (emitEvent e) t' () s'"
    using assms(1) unfolding slashNodeTx_def by auto
  have "t = s" by (rule assms(2)[OF ab])
  then show ?thesis using freeing_run[OF freeing_quit quit] still_returns[OF still_emit emit] by (simp add: frees_def)
qed

lemma slash_node_frees:
  assumes "returns (SlashNode cfg ch node c' now) s i s'" "\<And>p t. returns (abortNodeCurrentTaskForSlash cfg node now) s p t \<Longrightarrow> t = s"
  shows "frees node (fst s) (fst s')"
proof -
  obtain w j p t where tx: "returns (slashNodeTx cfg ch node c' now) s (w, j, p) t" and post: "returns (slash_post_commit node w p) t () s'"
    using assms(1) unfolding SlashNode_def by auto
  have "still (slash_post_commit node w p)" by (rule crewless_still[OF post_commit_crewless[OF slash_tx_crewless[OF tx]]])
  then show ?thesis using slash_tx_frees[OF tx assms(2)] still_returns[OF _ post] by (simp add: frees_def)
qed

lemma crew_invalidate:
  "crew (\<lambda>d. listed task d \<and> holder task node d) (setTaskStatusEndInvalidatedWithEvidence env task node evidence full now) (\<lambda>_ _. True)"
  unfolding setTaskStatusEndInvalidatedWithEvidence_def
proof (intro crew_last crew_txn_returns, goal_cases)
  case 1 show ?case by (intro table_intros table_update_status; simp add: row_step_simps)
next
  case (2 s a s')
  let ?upd = "\<lambda>t. t\<lparr> t_Status := TaskEndInvalidated, t_TaskID := t_TaskID task, t_ValidatedTime := Some now, t_QOSScore := Some 0, t_DeadlineAt := None \<rparr>"
  obtain t s1 s2 e where upd: "returns (task_Update_status task ?upd) s t s1" and emit: "returns (emitEvent e) s1 () s2"
    and part: "returns (if cfg_PassiveSlashMode (env_cfg env)
                   then bnd (createPendingSlash t node evidence full) (\<lambda>_. nodeFinishTask (env_cfg env) (env_chain env) node)
                   else bnd (SlashNode (env_cfg env) (env_chain env) node (t_TaskIDCommitment t) now) (\<lambda>_. ret ())) s2 () s'"
    using 2(3) by (auto split del: if_split)
  have row: "job (?upd r) = (t_ID r, t_TaskIDCommitment r, TaskEndInvalidated, t_SelectedNode r)" for r by (simp add: job_def)
  note eff = job_update[OF upd row]
  note h = 2(2)[THEN conjunct2]
  have ok: "jobs_ok (jobs (fst s2))"
    using 2(1) eff(2) still_returns[OF still_emit emit] by (simp add: crew_ok_def staffed_def jobs_ok_move)
  obtain c a where hit: "(t_ID task, c, t_Status task, a) \<in> set (jobs (fst s))" using eff(4) by blast
  obtain st where st: "(t_ID task, t_TaskIDCommitment task, st, n_Address node) \<in> set (jobs (fst s))" using h by (auto simp: holder_def)
  have "st = t_Status task" using job_unique[OF _ hit st] 2(1) by (auto simp: crew_ok_def staffed_def)
  then have ended: "(t_ID task, t_TaskIDCommitment task, TaskEndInvalidated, n_Address node) \<in> set (jobs (fst s2))"
    using st eff(2) still_returns[OF still_emit emit] by (auto simp: in_move_job)
  have cur: "n_CurrentTaskIDCommitment node = Some (t_TaskIDCommitment task)" using h by (simp add: holder_def)
  have "frees node (fst s2) (fst s')"
  proof (cases "cfg_PassiveSlashMode (env_cfg env)")
    case True
    have "freeing node (bnd (createPendingSlash t node evidence full) (\<lambda>_. nodeFinishTask (env_cfg env) (env_chain env) node))"
      by (intro freeing_before freeing_finish frame_intros)
    from freeing_run[OF this] show ?thesis using part True by (simp del: returns_bnd)
  next
    case False
    then obtain i where "returns (SlashNode (env_cfg env) (env_chain env) node (t_TaskIDCommitment t) now) s2 i s'" using part by auto
    then show ?thesis by (rule slash_node_frees) (rule slash_of_ended[OF _ cur ok ended], simp_all add: task_ended_def)
  qed
  then show ?case
    using end_on_node[OF 2(1) h refl refl upd row _ _ _ refl refl refl, of s2] still_returns[OF still_emit emit] by (simp add: task_ended_def)
qed (auto intro!: frame_intros)

lemma crew_invalidate_with: "crew (listed task) (SetTaskStatusEndInvalidatedWithEvidence env task evidence full now) (\<lambda>_ _. True)"
  unfolding SetTaskStatusEndInvalidatedWithEvidence_def by (intro crew_check crew_selected crew_invalidate)

lemma slash_crew:
  assumes "returns (slashNodeTx cfg ch node c' now) s r s'" "crew_ok (fst s)" "stored_node node (fst s)"
  shows "crew_ok (fst s') \<and> settled (fst s) \<subseteq> settled (fst s')"
proof (cases "n_CurrentTaskIDCommitment node")
  case None
  have "frees node (fst s) (fst s')"
    by (rule slash_tx_frees[OF assms(1)]) (use None in \<open>auto simp: abortNodeCurrentTaskForSlash_def\<close>)
  then obtain ns where ns: "\<not> working ns" "jobs (fst s') = jobs (fst s)" "posts (fst s') = move_post (n_ID node) (n_Status node) ns None (posts (fst s))"
    unfolding frees_def by blast
  have "b = None" if "(n_ID node, a, n_Status node, b) \<in> set (posts (fst s))" for a b
    using post_unique[OF _ that, of "n_ID node" "n_Address node"] assms(2,3) None by (auto simp: crew_ok_def staffed_def stored_node_def post_def)
  then show ?thesis
    using staffed_move_post[OF assms(2)[unfolded crew_ok_def], of None ns] ns settled_same by (simp add: crew_ok_def)
next
  case (Some c)
  have p: "(n_ID node, n_Address node, n_Status node, Some c) \<in> set (posts (fst s))" using assms(3) Some by (simp add: stored_node_def post_def)
  obtain i st where j: "(i, c, st, n_Address node) \<in> set (jobs (fst s))" "running_status st"
    using staffed_holder[OF assms(2)[unfolded crew_ok_def] p] by blast
  have ok: "jobs_ok (jobs (fst s))" using assms(2) by (simp add: crew_ok_def staffed_def)
  obtain q s1 r' s2 e where ab: "returns (abortNodeCurrentTaskForSlash cfg node now) s q s1"
    and quit: "returns (setNodeStatusQuitTx cfg ch node True) s1 r' s2" and emit: "returns (emitEvent e) s2 () s'"
    using assms(1) unfolding slashNodeTx_def by auto
  obtain t where find: "\<And>t' s'. returns (GetTaskByIDCommitment c) s t' s' \<longleftrightarrow> t' = t \<and> s' = s" and t: "job t = (i, c, st, n_Address node)" using job_found[OF ok j(1)] by blast
  have live: "\<not> task_ended (t_Status t)" using j(2) t by (simp add: status_classes job_def)
  obtain f a1 t' a2 e' where pay: "returns (refundTaskPaymentToRelayAccount (t_TaskIDCommitment t) (t_Creator t) (t_TaskFee t) now) s f a1"
    and upd: "returns (task_Update_status t (\<lambda>t. t\<lparr> t_Status := TaskEndAborted, t_AbortReason := TaskAbortNodeSlashed, t_DeadlineAt := None \<rparr>)) a1 t' a2"
    and emit': "returns (emitEvent e') a2 () s1"
    using ab Some live unfolding abortNodeCurrentTaskForSlash_def Let_def by (auto simp: find GetTaskGroupByTaskID_def split: if_splits)
  have h: "holder t node (fst s)" using p Some j t by (auto simp: holder_def post_def job_def)
  show ?thesis
    using end_on_node[OF assms(2) h _ _ upd _ _ _ freeing_run[OF freeing_quit quit] refl, of TaskEndAborted s']
      still_returns[OF still_crew(5) pay] still_returns[OF still_emit emit'] still_returns[OF still_emit emit]
    by (simp add: job_def task_ended_def)
qed

text \<open>Requests that carry no copy of a row are steps of one relation.\<close>

definition crew_step :: "db \<Rightarrow> db \<Rightarrow> bool" where
  "crew_step d d' \<longleftrightarrow> (crew_ok d \<longrightarrow> crew_ok d' \<and> table_step d d' \<and> settled d \<subseteq> settled d')"

interpretation calm: step_relation crew_step
proof (unfold_locales, goal_cases)
  case (1 d) show ?case by (simp add: crew_step_def table.step_refl)
next
  case (2 d e f) then show ?case unfolding crew_step_def using table.step_trans by blast
qed

lemma calm_crew: "db_steps crew_step f \<Longrightarrow> crew K f (\<lambda>_ _. True)"
  unfolding db_steps_def crew_step_def crew_def by (metis snd_conv)

lemma crew_calm: "crew (\<lambda>_. True) f Q \<Longrightarrow> db_steps crew_step f"
  unfolding db_steps_def crew_step_def crew_def by (metis prod.collapse)

lemma calm_still: "still f \<Longrightarrow> taskless f \<Longrightarrow> db_steps crew_step f"
  by (rule crew_calm[OF crew_still])

section \<open>Node requests\<close>

lemma calm_execute:
  assumes "db_steps crew_step f"
  shows "db_steps crew_step (ExecuteNodeStateUpdate addrs f)"
  unfolding db_steps_def
proof (rule allI)
  fix s
  have "fst (snd (ExecuteNodeStateUpdate addrs f s)) = fst (snd (f s))"
    using refresh_keeps_db by (simp add: ExecuteNodeStateUpdate_def unchanged_def Let_def split: prod.splits)
  then show "crew_step (fst s) (fst (snd (ExecuteNodeStateUpdate addrs f s)))" using assms unfolding db_steps_def by (cases s) simp
qed

lemma calm_txn_returns:
  fixes f :: "'a relay"
  assumes "db_steps table_step f"
    "\<And>s a s'. crew_ok (fst s) \<Longrightarrow> returns f s a s' \<Longrightarrow> crew_ok (fst s') \<and> settled (fst s) \<subseteq> settled (fst s')"
  shows "db_steps crew_step (txn f)"
  by (rule crew_calm[OF crew_txn_returns[OF assms(1), where Q = "\<lambda>_ _. True"]]) (use assms(2) in blast)

text \<open>A change of status that keeps the task of the node.\<close>

lemma shift_keeps:
  assumes "posts_ok ps" "working st = working st'"
    "ps' = upd_where (\<lambda>p. fst p = k \<and> fst (snd (snd p)) = st) (\<lambda>(k, a, _, c). (k, a, st', c)) ps"
  shows "posts_ok ps'" "held ps' = held ps"
proof -
  have mem: "(k', a, s, b) \<in> set ps' \<longleftrightarrow> (k', a, s, b) \<in> set ps \<and> \<not> (k' = k \<and> s = st) \<or> k' = k \<and> s = st' \<and> (k, a, st, b) \<in> set ps" for k' a s b
    unfolding assms(3) by (induction ps) (auto simp: upd_where_def split: prod.splits if_splits)
  have keys: "map fst ps' = map fst ps" "map (fst \<circ> snd) ps' = map (fst \<circ> snd) ps"
    unfolding assms(3) by (auto simp: upd_where_def)
  show "posts_ok ps'" using assms(1,2) unfolding posts_ok_def keys by (fastforce simp: mem)
  have "(\<exists>k s. (k, a, s, Some b) \<in> set ps') = (\<exists>k s. (k, a, s, Some b) \<in> set ps)" for a b unfolding mem by blast
  then show "held ps' = held ps" unfolding held_def by simp
qed

lemma calm_shift:
  assumes "\<And>n. post (upd n) = (n_ID n, n_Address n, st', n_CurrentTaskIDCommitment n)" "working (n_Status node) = working st'"
  shows "db_steps crew_step (node_Update_status node upd)"
  unfolding node_Update_status_def
proof (intro calm.steps_if calm.steps_raise calm.steps_bnd calm.steps_check calm.steps_ret write_db_steps calm.steps_frame[OF frame_read_db], goal_cases)
  case (1 hits u d)
  let ?d = "d\<lparr> d_nodes := upd_where (\<lambda>n. n_ID n = n_ID node \<and> n_Status n = n_Status node) upd (d_nodes d) \<rparr>"
  have posts: "posts ?d = upd_where (\<lambda>p. fst p = n_ID node \<and> fst (snd (snd p)) = n_Status node) (\<lambda>(k, a, _, c). (k, a, st', c)) (posts d)"
    unfolding posts_def by (simp, rule map_upd_where) (simp_all add: assms(1)[unfolded post_def] post_def)
  have "jobs ?d = jobs d" by (simp add: jobs_def)
  moreover have "posts_ok (posts d) \<Longrightarrow> posts_ok (posts ?d)" "posts_ok (posts d) \<Longrightarrow> held (posts ?d) = held (posts d)"
    using shift_keeps[OF _ assms(2) posts] by simp_all
  ultimately show ?case by (auto simp: crew_step_def crew_ok_def staffed_def settled_def table_step_def rows_step_refl)
qed

lemma calm_quit_idle: "\<not> working (n_Status node) \<Longrightarrow> db_steps crew_step (txn (setNodeStatusQuitTx cfg ch node slashed))"
proof (rule calm_txn_returns)
  show "db_steps table_step (setNodeStatusQuitTx cfg ch node slashed)" by (intro table_intros)
  fix s a s' assume idle: "\<not> working (n_Status node)" and ok: "crew_ok (fst s)" and ret: "returns (setNodeStatusQuitTx cfg ch node slashed) s a s'"
  have "b = None" if "(n_ID node, a, n_Status node, b) \<in> set (posts (fst s))" for a b
    using that ok idle by (auto simp: crew_ok_def staffed_def posts_ok_def)
  then show "crew_ok (fst s') \<and> settled (fst s) \<subseteq> settled (fst s')"
    using staffed_move_post[OF ok[unfolded crew_ok_def], of None NodeStatusQuit] quit_posts[OF ret] settled_same
    by (simp add: crew_ok_def working_def)
qed

named_theorems calm_intros

lemmas calm_structure [calm_intros] = calm.steps_ret calm.steps_raise calm.steps_check calm.steps_of_sum calm.steps_of_option
  calm.steps_bnd calm.steps_txn calm.steps_try calm.steps_if calm.steps_option calm.steps_prod calm_execute calm.steps_for_each

lemma calm_leaves [calm_intros]:
  "db_steps crew_step (DecrementNodeNameCountTx node)" "db_steps crew_step (IncrementNodeNameCountTx node)"
  "db_steps crew_step (count_delta node x)" "db_steps crew_step (applyNodeQuitPostCommit node b)"
  "db_steps crew_step (RefreshNodeVestingStake a)" "db_steps crew_step (refreshNodeIndexLocked a)"
  by (rule calm_still; rule frame_intros)+

lemma calm_reads [calm_intros]:
  "db_steps crew_step (node_SyncStatus node)" "db_steps crew_step (check_signer signer a)" "db_steps crew_step (find_node a)"
  "db_steps crew_step (read_db g)" "db_steps crew_step (call c)"
  unfolding node_SyncStatus_def check_signer_def find_node_def by (rule calm_still; intro frame_intros; simp)+

lemma calm_once [calm_intros]:
  "db_steps crew_step (pause_once node)" "db_steps crew_step (resume_once node)" "db_steps crew_step (quit_once cfg ch node)"
proof -
  have shift: "db_steps crew_step (node_Update_status node (\<lambda>n. n\<lparr> n_Status := st \<rparr>))" if "working (n_Status node) = working st" for st
    by (rule calm_shift[OF _ that]) (simp add: post_def)
  show "db_steps crew_step (pause_once node)"
    unfolding pause_once_def attempt_def by (cases "n_Status node") (auto intro!: calm_intros shift simp: working_def)
  show "db_steps crew_step (resume_once node)"
  proof (cases "n_Status node = NodeStatusPaused")
    case True
    then show ?thesis unfolding resume_once_def attempt_def by (intro calm_intros shift) (simp add: working_def)
  qed (simp add: resume_once_def db_steps_def bnd_run check_run calm.step_refl)
  show "db_steps crew_step (quit_once cfg ch node)"
    unfolding quit_once_def attempt_def SetNodeStatusQuit_def
    by (intro calm_quit_idle shift calm_intros) (auto simp: working_def)
qed

lemma calm_retry [calm_intros]: "(\<And>n. db_steps crew_step (once n)) \<Longrightarrow> db_steps crew_step (retry k once node)"
  by (induction k arbitrary: node) (auto intro!: calm_intros)

lemma calm_handlers [calm_intros]:
  "db_steps crew_step (NodePause signer a)" "db_steps crew_step (NodeResume signer a)" "db_steps crew_step (NodeQuit cfg ch signer a)"
  unfolding NodePause_def NodeResume_def NodeQuit_def by (intro calm_intros)+

text \<open>A node may join when it is new at its address, or when its row says that it has quit.\<close>

definition joinable :: "Node \<Rightarrow> db \<Rightarrow> bool" where
  "joinable node d \<longleftrightarrow> n_Address node \<noteq> [] \<and> n_CurrentTaskIDCommitment node = None \<and>
    (n_ID node = 0 \<and> n_Address node \<notin> (fst \<circ> snd) ` set (posts d) \<or>
     n_ID node \<noteq> 0 \<and> (n_ID node, n_Address node, NodeStatusQuit, None) \<in> set (posts d))"

lemma joinable_cong:
  "n_ID node' = n_ID node \<Longrightarrow> n_Address node' = n_Address node \<Longrightarrow> n_CurrentTaskIDCommitment node' = n_CurrentTaskIDCommitment node \<Longrightarrow>
    joinable node' d = joinable node d"
  by (simp add: joinable_def)

lemma join_rows_still:
  "still (syncNodeDelegationsFromChainTx a w ds)" "still (replaceNodeModelFiles cfg a fs)" "still (ClearNodeInMemoryModel a)"
  "still (upsert_network_node r)" "still (join_caches cfg node ds share now)"
proof -
  have both: "still f" if "nameless f" "taskless f" for f :: "'x relay"
    using that by (auto simp: unchanged_def jobs_def posts_def)
  show "still (syncNodeDelegationsFromChainTx a w ds)" "still (replaceNodeModelFiles cfg a fs)" "still (ClearNodeInMemoryModel a)"
    "still (upsert_network_node r)" by (rule both; rule frame_intros)+
  have "taskless (join_caches cfg node ds share now)" unfolding join_caches_def by (intro frame_intros; simp)
  then show "still (join_caches cfg node ds share now)" by (rule both[OF nameless_join_caches])
qed

lemma save_posts:
  assumes "returns (node_Save row) s r s'" "joinable node (fst s)" "posts_ok (posts (fst s))"
    "n_ID row = n_ID node" "post row = (n_ID node, n_Address node, NodeStatusAvailable, None)"
  shows "jobs (fst s') = jobs (fst s)"
    "posts (fst s') = (if n_ID node = 0 then posts (fst s) @ [(next_id n_ID (d_nodes (fst s)), n_Address node, NodeStatusAvailable, None)]
       else move_post (n_ID node) NodeStatusQuit NodeStatusAvailable None (posts (fst s)))"
proof -
  have "\<exists>n\<in>set (d_nodes (fst s)). n_ID n = n_ID node" if "n_ID node \<noteq> 0"
    using assms(2) that by (auto simp: joinable_def posts_def post_def)
  then have s': "fst s' = (fst s)\<lparr> d_nodes := (if n_ID node = 0 then d_nodes (fst s) @ [row\<lparr> n_ID := next_id n_ID (d_nodes (fst s)) \<rparr>]
      else upd_where (\<lambda>n. n_ID n = n_ID node) (\<lambda>_. row) (d_nodes (fst s))) \<rparr>"
    using assms(1,4) by (auto simp: node_Save_def Let_def)
  then show "jobs (fst s') = jobs (fst s)" by (simp add: jobs_def)
  show "posts (fst s') = (if n_ID node = 0 then posts (fst s) @ [(next_id n_ID (d_nodes (fst s)), n_Address node, NodeStatusAvailable, None)]
       else move_post (n_ID node) NodeStatusQuit NodeStatusAvailable None (posts (fst s)))"
  proof (cases "n_ID node = 0")
    case True
    then show ?thesis using s' assms(5) by (simp add: posts_def post_def)
  next
    case False
    have "post n = (n_ID node, n_Address node, NodeStatusQuit, None)" if "n \<in> set (d_nodes (fst s))" "n_ID n = n_ID node" for n
      using post_unique[OF assms(3) post_stored[OF that(1), unfolded post_def]] assms(2) that False by (auto simp: joinable_def post_def)
    then have "map post (upd_where (\<lambda>n. n_ID n = n_ID node) (\<lambda>_. row) (d_nodes (fst s))) =
        move_post (n_ID node) NodeStatusQuit NodeStatusAvailable None (posts (fst s))"
      unfolding move_post_def posts_def upd_where_def using assms(5) by (auto simp: post_def)
    then show ?thesis using s' False by (simp add: posts_def)
  qed
qed

lemma join_tx_crew:
  assumes "returns (join_tx cfg node fs ds tot share now) s row s'" "crew_ok (fst s)" "joinable node (fst s)"
  shows "crew_ok (fst s') \<and> settled (fst s) \<subseteq> settled (fst s')"
proof -
  obtain s1 s2 s3 s4 s5 s6 a w x e r where save: "returns (node_Save (joined_node node share now)) s r s1"
    and rest: "returns (syncNodeDelegationsFromChainTx a w ds) s1 () s2" "returns (replaceNodeModelFiles cfg a fs) s2 () s3"
      "returns (ClearNodeInMemoryModel a) s3 () s4" "returns (upsert_network_node x) s4 () s5"
      "returns (IncrementNodeNameCountTx r) s5 () s6" "returns (emitEvent e) s6 () s'"
    using assms(1) unfolding join_tx_def by auto
  have ok: "posts_ok (posts (fst s))" using assms(2) by (simp add: crew_ok_def staffed_def)
  have "post (joined_node node share now) = (n_ID node, n_Address node, NodeStatusAvailable, None)"
    using assms(3) by (simp add: joined_node_def post_def joinable_def)
  note saved = save_posts[OF save assms(3) ok joined_fields(1) this]
  have views: "jobs (fst s') = jobs (fst s)" "posts (fst s') = posts (fst s1)"
    using saved(1) still_returns[OF join_rows_still(1) rest(1)] still_returns[OF join_rows_still(2) rest(2)]
      still_returns[OF join_rows_still(3) rest(3)] still_returns[OF join_rows_still(4) rest(4)]
      still_returns[OF crewless_rows(4)[THEN crewless_still] rest(5)] still_returns[OF still_emit rest(6)] by simp_all
  have "staffed (jobs (fst s)) (posts (fst s1))"
  proof (cases "n_ID node = 0")
    case True
    have "next_id n_ID (d_nodes (fst s)) \<notin> fst ` set (posts (fst s))"
      using next_id_fresh[of _ "d_nodes (fst s)" n_ID] by (fastforce simp: posts_def post_def)
    then show ?thesis
      using saved(2) True staffed_new_post[OF assms(2)[unfolded crew_ok_def]] assms(3) by (simp add: joinable_def)
  next
    case False
    have "b = None" if "(n_ID node, a, NodeStatusQuit, b) \<in> set (posts (fst s))" for a b
      using that ok by (fastforce simp: posts_ok_def working_def)
    then show ?thesis
      using saved(2) False staffed_move_post[OF assms(2)[unfolded crew_ok_def], of None NodeStatusAvailable] by (simp add: working_def)
  qed
  then show ?thesis using views settled_same by (simp add: crew_ok_def)
qed

lemma crew_execute:
  assumes "crew K f Q"
  shows "crew K (ExecuteNodeStateUpdate addrs f) Q"
  unfolding crew_def
proof (intro allI impI)
  fix s r s' assume run: "ExecuteNodeStateUpdate addrs f s = (r, s')" and ok: "crew_ok (fst s)" "K (fst s)"
  obtain t where t: "f s = (r, t)" "fst s' = fst t"
    using run refresh_keeps_db by (auto simp: ExecuteNodeStateUpdate_def unchanged_def Let_def split: prod.splits)
  show "crew_ok (fst s') \<and> table_step (fst s) (fst s') \<and> settled (fst s) \<subseteq> settled (fst s') \<and> (\<forall>a. r = Inr a \<longrightarrow> Q a (fst s'))"
    using crewD[OF assms t(1) ok] t(2) by simp
qed

lemma crew_join: "crew (joinable node) (SetNodeStatusJoin cfg ch node fs now) (\<lambda>_ _. True)"
proof -
  have tx: "crew (joinable node) (txn (join_tx cfg node fs ds tot share now)) (\<lambda>_ _. True)" for ds tot share
  proof (rule crew_txn_returns)
    show "db_steps table_step (join_tx cfg node fs ds tot share now)"
      unfolding join_tx_def by (rule table_taskless) (intro frame_intros; simp)
  qed (use join_tx_crew in blast)
  have "crew (joinable node) (case r of (ds, tot, share) \<Rightarrow> bnd (txn (join_tx cfg node fs ds tot share now)) (\<lambda>node.
      bnd (call (RecordNodeQosTrace (n_Address node) [] ''node_join_health_reset'')) (\<lambda>_.
      bnd (count_delta node 1) (\<lambda>_. join_caches cfg node ds share now)))) (\<lambda>_ _. True)" for r
  proof (cases r)
    case (fields ds tot share)
    have "taskless (join_caches cfg n ds share now)" for n unfolding join_caches_def by (intro frame_intros; simp)
    then show ?thesis unfolding fields prod.case by (intro crew_last tx) (auto intro!: frame_intros join_rows_still)
  qed
  moreover have "reading (join_reads ch node)" by (simp add: reading_def join_reads_state del: split_paired_All)
  ultimately show ?thesis unfolding SetNodeStatusJoin_def by (intro crew_reads)
qed

lemma joining_joinable:
  assumes "joining_node input x y z s = (Inr (isNew, node), s')" "crew_ok (fst s)" "ji_Address input \<noteq> []" "n_Status node = NodeStatusQuit"
  shows "joinable node (fst s)"
proof (cases "find (\<lambda>n. n_Address n = ji_Address input) (d_nodes (fst s))")
  case None
  then have "node = new_node input x y z"
    using assms(1,3) by (auto simp: joining_node_def GetNodeByAddress_def op_simps try_catch_def)
  then show ?thesis using None assms(3) by (auto simp: joinable_def new_node_def find_None_iff posts_def post_def)
next
  case (Some n)
  then have n: "n \<in> set (d_nodes (fst s))" "n_Address n = ji_Address input" by (auto dest: find_SomeD)
  have same: "n_ID node = n_ID n" "n_Address node = n_Address n" "n_Status node = n_Status n"
    "n_CurrentTaskIDCommitment node = n_CurrentTaskIDCommitment n"
    using assms(1,3) Some by (auto simp: joining_node_def GetNodeByAddress_def op_simps try_catch_def)
  have "post n = (n_ID n, ji_Address input, NodeStatusQuit, n_CurrentTaskIDCommitment n)" using n same assms(4) by (simp add: post_def)
  moreover have "n_ID n \<noteq> 0" "n_CurrentTaskIDCommitment n = None"
    using post_stored[OF n(1)] assms(2,4) same(3) by (fastforce simp: crew_ok_def staffed_def posts_ok_def post_def working_def)+
  ultimately show ?thesis using post_stored[OF n(1)] same n(2) assms(3) by (simp add: joinable_def)
qed

lemma reading_joining: "reading (joining_node input x y z)"
  by (auto simp: reading_def joining_node_def GetNodeByAddress_def op_simps try_catch_def split: option.splits)

lemma crew_complete_join: "crew (joinable node) (complete_join cfg ch input fs now node) (\<lambda>_ _. True)"
  unfolding complete_join_def Let_def
proof (rule crew_bnd_gen[where K' = "\<lambda>_ _. True" and Q = "\<lambda>_ _. True"], goal_cases)
  case 1
  define x where "x = (if ji_Staking input = 0 then EtherToWei (wrap64 (int (cfg_StakeAmount cfg))) else ji_Staking input)"
  have "crew (joinable node) (SetNodeStatusJoin cfg ch (node\<lparr> n_StakeAmount := x \<rparr>) fs now) (\<lambda>_ _. True)"
    by (rule crew_weaken[OF crew_join]) (simp_all add: joinable_def)
  then show ?case
    unfolding x_def[symmetric] crew_def by (auto simp: try_catch_def bnd_run ret_run split: prod.splits sum.splits; blast)
next
  case (2 q)
  show ?case by (rule calm_crew, intro calm_intros)
qed simp

lemma adjust_db: "unchanged id (\<lambda>_. ()) (AdjustNodeQosForJoin cfg node isNew)"
  unfolding AdjustNodeQosForJoin_def resetNodeQosScorePool_def by (intro frame_intros; simp)

lemma adjusted_joinable:
  assumes "AdjustNodeQosForJoin cfg node isNew s = (Inr n, s')" "joinable node (fst s)"
  shows "joinable n (fst s')"
proof -
  have "fst s' = fst s" using unchanged_run[OF adjust_db assms(1)] by simp
  moreover have "n_ID n = n_ID node" "n_Address n = n_Address node" "n_CurrentTaskIDCommitment n = n_CurrentTaskIDCommitment node"
    using assms(1) by (auto simp: AdjustNodeQosForJoin_def op_simps split: if_splits prod.splits sum.splits)
  ultimately show ?thesis using assms(2) by (simp add: joinable_def)
qed

lemma calm_join:
  assumes "ji_Address input \<noteq> []"
  shows "db_steps crew_step (NodeJoin cfg ch sha signer input now)"
proof -
  have adjust: "crew (joinable node) (bnd (AdjustNodeQosForJoin cfg node isNew) (complete_join cfg ch input fs now)) (\<lambda>_ _. True)" for node isNew fs
  proof (rule crew_bnd_gen[where K' = joinable and Q = "\<lambda>_ _. True"])
    show "crew (joinable node) (AdjustNodeQosForJoin cfg node isNew) (\<lambda>_ _. True)"
      unfolding AdjustNodeQosForJoin_def resetNodeQosScorePool_def by (rule crew_still; intro frame_intros; simp)
  qed (use crew_complete_join adjusted_joinable in blast)+
  have join: "crew (\<lambda>_. True) (bnd (joining_node input x y z) (\<lambda>(isNew, node).
      bnd (check (n_Status node = NodeStatusQuit) e) (\<lambda>_. bnd (AdjustNodeQosForJoin cfg node isNew) (complete_join cfg ch input fs now)))) (\<lambda>_ _. True)"
    for x y z e fs
  proof (rule crew_read[OF reading_joining, where Q = "\<lambda>r d. n_Status (snd r) = NodeStatusQuit \<longrightarrow> joinable (snd r) d"])
    show "n_Status (snd r) = NodeStatusQuit \<longrightarrow> joinable (snd r) (fst s)" if "joining_node input x y z s = (Inr r, s)" "crew_ok (fst s)" for s r
      using joining_joinable[of input x y z s "fst r" "snd r"] that assms by simp
    show "crew (\<lambda>d. True \<and> (n_Status (snd r) = NodeStatusQuit \<longrightarrow> joinable (snd r) d)) (case r of (isNew, node) \<Rightarrow>
      bnd (check (n_Status node = NodeStatusQuit) e) (\<lambda>_. bnd (AdjustNodeQosForJoin cfg node isNew) (complete_join cfg ch input fs now))) (\<lambda>_ _. True)" for r
      by (cases r) (auto intro!: crew_check crew_weaken[OF adjust])
  qed
  show ?thesis unfolding NodeJoin_def by (intro calm.steps_bnd calm.steps_prod calm_reads calm.steps_of_sum crew_calm[OF join])
qed

lemma calm_pending: "db_steps crew_step (SlashPendingNode cfg ch parse k now)"
proof -
  have tx: "crew (\<lambda>_. True) (txn (pending_slash_tx cfg ch parse k now)) (\<lambda>r _. crewless (post_commit_of (snd (snd (snd r)))))"
  proof (rule crew_txn_returns[OF table_slash_tx(2)])
    fix s r s' assume ok: "crew_ok (fst s)" and ret: "returns (pending_slash_tx cfg ch parse k now) s r s'"
    obtain n w i p where r: "r = (n, w, i, p)" by (metis prod_cases4)
    obtain a q s0 s1 g where node: "returns (GetNodeByAddress a) s n s0" and slash: "returns (slashNodeTx cfg ch n q now) s0 (w, i, p) s1"
      and save: "returns (write_db (\<lambda>d. d\<lparr> d_pending_slashes := g d \<rparr>)) s1 () s'"
      using ret[unfolded r] unfolding pending_slash_tx_def by (fastforce simp del: returns_write_db)
    have s': "fst s' = (fst s1)\<lparr> d_pending_slashes := g (fst s1) \<rparr>" using save by simp
    have "s0 = s" "stored_node n (fst s)" using node by (auto simp: returns_def stored_node_def dest!: node_found intro: post_stored)
    moreover have "jobs (fst s') = jobs (fst s1)" "posts (fst s') = posts (fst s1)" using s' by (simp_all add: jobs_def posts_def)
    ultimately show "crew_ok (fst s') \<and> settled (fst s) \<subseteq> settled (fst s') \<and> crewless (post_commit_of (snd (snd (snd r))))"
      using slash_crew[OF slash] ok pending_tx_crewless[OF ret[unfolded r]] r by (simp add: crew_ok_def settled_def)
  qed
  have rest: "crew (\<lambda>_. True) (bnd (ExecuteNodeStateUpdate as (txn (pending_slash_tx cfg ch parse k now)))
      (\<lambda>(node, w, i, p). bnd (slash_post_commit node w p) (\<lambda>_. ret i))) (\<lambda>_ _. True)" for as
  proof (rule crew_bnd[OF lasting_True crew_execute[OF tx]])
    fix r :: "Node \<times> bool \<times> nat \<times> unit relay option"
    obtain n w i p where r: "r = (n, w, i, p)" by (metis prod_cases4)
    have "crew (\<lambda>d. True \<and> crewless (post_commit_of p)) (bnd (slash_post_commit n w p) (\<lambda>_. ret i)) (\<lambda>_ _. True)"
    proof (cases "crewless (post_commit_of p)")
      case True
      then have "crewless (slash_post_commit n w p)" by (rule post_commit_crewless)
      then show ?thesis by (intro crew_still frame_intros crewless_still crewless_taskless)
    qed (simp add: crew_def)
    then show "crew (\<lambda>d. True \<and> crewless (post_commit_of (snd (snd (snd r)))))
        (case r of (node, w, i, p) \<Rightarrow> bnd (slash_post_commit node w p) (\<lambda>_. ret i)) (\<lambda>_ _. True)" by (simp add: r)
  qed
  show ?thesis unfolding SlashPendingNode_def by (intro calm.steps_bnd calm_reads calm.steps_of_option crew_calm[OF rest])
qed

lemma calm_node_request: "admissible d now (RequestNode req) \<Longrightarrow> db_steps crew_step (node_step env now req)"
proof -
  have count: "db_steps crew_step (GetNodeNameActiveCount g v ver)" for g v ver
    unfolding GetNodeNameActiveCount_def ensureNodeNameCountCacheLoaded_def RefreshNodeNameCountCache_def
    by (rule calm_still; intro frame_intros; simp)
  assume "admissible d now (RequestNode req)"
  then show ?thesis by (cases req) (auto intro!: calm_intros calm_join calm_pending count)
qed

end
