(* ===== verification/CrewRequests.thy ===== *)
theory CrewRequests
  imports Crew
begin

text \<open>
  Every request keeps the crew in agreement: the rules for the requests that move tasks, through their retries and
  through the validation of a group, and the properties of the states that requests reach.
\<close>

section \<open>Task requests\<close>

lemma row_known: "crew_ok d \<Longrightarrow> t \<in> set (d_tasks d) \<Longrightarrow> known t d"
  unfolding known_def using job_stored[of t d] by (fastforce simp: crew_ok_def staffed_def jobs_ok_def job_def)

lemma task_found: "GetTaskByIDCommitment c s = (Inr t, s') \<Longrightarrow> t \<in> set (d_tasks (fst s))"
  by (auto simp: GetTaskByIDCommitment_def op_simps split: option.splits dest: find_SomeD)

lemma find_task_found: "find_task c s = (Inr t, s') \<Longrightarrow> t \<in> set (d_tasks (fst s))"
  by (auto simp: find_task_def GetTaskByIDCommitment_def op_simps try_catch_def split: option.splits if_splits dest: find_SomeD)

lemma crew_find:
  assumes "\<And>t. crew (\<lambda>d. K d \<and> known t d) (g t) R"
  shows "crew K (bnd (find_task c) g) R"
  by (rule crew_read[OF reading_intros(11) _ assms]) (use row_known find_task_found in blast)

lemma crew_get:
  assumes "\<And>t. crew (\<lambda>d. K d \<and> known t d) (g t) R"
  shows "crew K (bnd (GetTaskByIDCommitment c) g) R"
  by (rule crew_read[OF reading_intros(6) _ assms]) (use row_known task_found in blast)

lemma crew_try:
  assumes "lasting K" "crew K f Q" "\<And>e. crew K (h e) Q"
  shows "crew K (try_catch f h) Q"
  unfolding crew_def
proof (intro allI impI)
  fix s r s' assume run: "try_catch f h s = (r, s')" and ok: "crew_ok (fst s)" "K (fst s)"
  obtain q t where f: "f s = (q, t)" by (metis surj_pair)
  note first = crewD[OF assms(2) f ok]
  show "crew_ok (fst s') \<and> table_step (fst s) (fst s') \<and> settled (fst s) \<subseteq> settled (fst s') \<and> (\<forall>a. r = Inr a \<longrightarrow> Q a (fst s'))"
  proof (cases q)
    case (Inr a)
    then show ?thesis using run f first by (auto simp: try_catch_def)
  next
    case (Inl e)
    then have h: "h e t = (r, s')" using run f by (simp add: try_catch_def)
    have "K (fst t)" using assms(1) first(2) ok(2) unfolding lasting_def by blast
    note second = crewD[OF assms(3) h first(1) this]
    show ?thesis using first second table.step_trans by blast
  qed
qed

lemma sync_listed: "SyncStatus task s = (Inr t, s') \<Longrightarrow> listed task d \<Longrightarrow> listed t d"
  by (auto simp: SyncStatus_def op_simps listed_def split: if_splits option.splits)

lemma crew_retry:
  assumes "\<And>t. crew (listed t) (f t) (\<lambda>_ _. True)"
  shows "crew (listed task) (task_retry k err f task) (\<lambda>_ _. True)"
proof (induction k arbitrary: err task)
  case (Suc k)
  have "crew (listed task) (bnd (SyncStatus task) (\<lambda>task. task_retry k e f task)) (\<lambda>_ _. True)" for e
    by (rule crew_read[OF reading_intros(12), where Q = listed]) (use sync_listed in blast, rule crew_weaken[OF Suc.IH], simp_all)
  then show ?case by (auto intro!: crew_try crew_if crew_raise assms lasting_intros)
qed (simp add: crew_raise)

lemma crew_submit: "crew K (SubmitScore env lib signer c score dtype now) (\<lambda>_ _. True)"
proof -
  have read: "reading (case r of Inl _ \<Rightarrow> raise e | Inr bs \<Rightarrow> ret bs)" for e and r :: "go_error + bytes"
    by (cases r) (auto simp: reading_def op_simps)
  show ?thesis
    unfolding SubmitScore_def
    by (intro crew_reads[OF reading_intros(10)] crew_find crew_check crew_reads[OF read] crew_weaken[OF crew_retry[OF crew_score]])
      (auto dest: known_listed simp: listed_def)
qed

lemma crew_report: "crew K (ReportTaskError env signer c e now) (\<lambda>_ _. True)"
  unfolding ReportTaskError_def
  by (intro crew_reads[OF reading_intros(10)] crew_find crew_check crew_weaken[OF crew_retry[OF crew_error]])
    (auto dest: known_listed simp: listed_def)

lemma crew_cancel:
  "crew (\<lambda>d. listed task d \<and> t_Status task = TaskQueued \<and> t_SelectedNode task = []) (cancel_attempts k err env task a now) (\<lambda>_ _. True)"
proof (induction k arbitrary: err task)
  case (Suc k)
  let ?t = "task\<lparr> t_AbortReason := TaskAbortCreatorCancelled \<rparr>"
  let ?K = "\<lambda>d. listed ?t d \<and> t_Status ?t = TaskQueued \<and> t_SelectedNode ?t = []"
  have abort: "crew ?K (SetTaskStatusEndAborted env ?t a now) (\<lambda>_ _. True)"
    by (rule crew_weaken[OF crew_abort]) (auto simp: known_def listed_def)
  have again: "crew ?K (bnd (SyncStatus ?t) (\<lambda>task. bnd (check (t_Status task = TaskQueued) e) (\<lambda>_. cancel_attempts k e' env task a now))) (\<lambda>_ _. True)" for e e'
  proof (rule crew_read[OF reading_intros(12), where Q = "\<lambda>t d. listed t d \<and> t_SelectedNode t = []"])
    fix s t assume sync: "SyncStatus ?t s = (Inr t, s)" and K: "?K (fst s)"
    have "t_SelectedNode t = t_SelectedNode ?t" using sync by (auto simp: SyncStatus_def op_simps split: if_splits option.splits)
    then show "listed t (fst s) \<and> t_SelectedNode t = []" using K sync_listed[OF sync] by simp
  qed (intro crew_check, rule crew_weaken[OF Suc.IH], simp_all)
  have "crew ?K (cancel_attempts (Suc k) err env task a now) (\<lambda>_ _. True)"
    unfolding cancel_attempts.simps Let_def by (intro crew_try abort again crew_if crew_raise lasting_intros)
  then show ?case by (rule crew_weaken) (auto simp: listed_def)
qed (simp add: crew_raise)

lemma crew_abort_task: "crew K (AbortTask env signer c reason now) (\<lambda>_ _. True)"
  unfolding AbortTask_def
  by (intro crew_reads[OF reading_intros(10)] crew_find crew_check crew_weaken[OF crew_cancel])
    (auto simp: known_def listed_def)

lemma crew_upload: "crew (\<lambda>_. True) (UploadResult env rewrite signer c form now) (\<lambda>_ _. True)"
proof -
  have evidence: "crew K (if b then UpdatePendingSlashResultEvidence rewrite x else ret ()) (\<lambda>_ _. True)" for K b x
    unfolding UpdatePendingSlashResultEvidence_def getSlashEvidenceGroupTasks_def
    by (rule crew_still; intro frame_intros; simp add: jobs_def posts_def)
  have calibrate: "still (seq (if b then calibrateLLMGroupAfterUploadSuccess t x else ret ()) (ret t))"
    "taskless (seq (if b then calibrateLLMGroupAfterUploadSuccess t x else ret ()) (ret t))" for b t x
    unfolding calibrateLLMGroupAfterUploadSuccess_def by (intro frame_intros; simp)+
  have finish: "crew (listed task) (task_retry k e (\<lambda>t. ExecuteNodeStateUpdate [t_SelectedNode t] (SetTaskStatusEndSuccess env t now)) task) (\<lambda>_ _. True)"
    for k e task by (intro crew_retry crew_execute crew_success)
  have rest: "crew (listed task) (if uploadable (t_Status task) then bnd (task_retry 3 ErrTaskStatusChanged
      (\<lambda>t. ExecuteNodeStateUpdate [t_SelectedNode t] (SetTaskStatusEndSuccess env t now)) task) (\<lambda>task.
         seq (if t_TaskType task = TaskTypeLLM then calibrateLLMGroupAfterUploadSuccess task (uf_completionTokens form) else ret ())
             (ret task)) else ret task) (\<lambda>_ _. True)" for task
    by (intro crew_if crew_ret crew_last finish calibrate)
  have checkpoint: "reading (if b then ret () else case q of None \<Rightarrow> raise e | Some n \<Rightarrow> check (n = 1) e')" for b e e' and q :: "nat option"
    by (cases q) (auto simp: reading_def op_simps)
  show ?thesis
    unfolding UploadResult_def
    by (intro crew_reads[OF reading_intros(10)] crew_find crew_check crew_reads[OF reading_intros(9)] crew_reads[OF checkpoint]
        crew_bnd[OF _ evidence] crew_weaken[OF rest] lasting_intros) (auto dest: known_listed)
qed

lemma crew_for_each:
  assumes "lasting K" "\<And>x. x \<in> set xs \<Longrightarrow> crew K (f x) (\<lambda>_ _. True)"
  shows "crew K (for_each xs f) (\<lambda>_ _. True)"
  using assms(2)
proof (induction xs)
  case (Cons x xs)
  have "crew K (bnd (f x) (\<lambda>_. for_each xs f)) (\<lambda>_ _. True)"
    by (rule crew_bnd[OF assms(1) Cons.prems]) (use Cons in \<open>auto\<close>)
  then show ?case by simp
qed (simp add: crew_ret)

lemma crew_timed_out: "crew (known task) (abort_attempts k err env task issuer now) (\<lambda>_ _. True)"
proof (induction k arbitrary: err task)
  case (Suc k)
  have abort: "crew (known task) (bnd (ExecuteNodeStateUpdate as (SetTaskStatusEndAborted env (task\<lparr> t_AbortReason := x \<rparr>) issuer now)) (\<lambda>_. ret ())) (\<lambda>_ _. True)" for as x
    by (intro crew_last crew_execute crew_weaken[OF crew_abort] frame_intros) (auto simp: known_def)
  have again: "crew (known task) (bnd (GetTaskByIDCommitment c) (\<lambda>t. abort_attempts k e env t issuer now)) (\<lambda>_ _. True)" for c e
    by (intro crew_get crew_weaken[OF Suc.IH]) auto
  show ?case
    by (auto simp: Let_def split: option.splits intro!: crew_ret crew_try crew_raise lasting_intros abort again)
qed (simp add: crew_raise)

lemma due_rows: "t \<in> set (due_tasks d now n cursor) \<Longrightarrow> t \<in> set (d_tasks d)"
  by (auto simp: due_tasks_def sql_limit_def dest!: in_set_takeD split: if_splits)

lemma crew_timeouts: "crew (\<lambda>_. True) (processTaskTimeouts_round env cursor now) (\<lambda>_ _. True)"
proof -
  have each: "crew (\<lambda>d. list_all (\<lambda>t. known t d) tasks) (abortTimedOutTasks env tasks issuer now) (\<lambda>_ _. True)" for tasks issuer
    unfolding abortTimedOutTasks_def abortTimedOutTask_def
    by (intro crew_for_each crew_try crew_ret crew_weaken[OF crew_timed_out] lasting_intros) (auto simp: list_all_iff)
  have due: "reading (getDueTaskDeadlines now n cursor)" for n by (auto simp: getDueTaskDeadlines_def reading_def op_simps)
  have rest: "crew (\<lambda>_. True) (bnd (getDueTaskDeadlines now n cursor) (\<lambda>tasks. bnd (abortTimedOutTasks env tasks issuer now) (\<lambda>_. ret (next_cursor tasks)))) (\<lambda>_ _. True)" for n issuer
  proof (rule crew_read[OF due, where Q = "\<lambda>tasks d. list_all (\<lambda>t. known t d) tasks"])
    show "list_all (\<lambda>t. known t (fst s)) tasks" if "getDueTaskDeadlines now n cursor s = (Inr tasks, s)" "crew_ok (fst s)" for s tasks
      using that due_rows row_known by (auto simp: getDueTaskDeadlines_def op_simps list_all_iff)
  qed (intro crew_last frame_intros, rule crew_weaken[OF each], simp_all)
  show ?thesis unfolding processTaskTimeouts_round_def Let_def by (intro crew_if crew_ret rest)
qed

lemma crew_pair: "crew (listed task) (startMatchedPair env task a now) (\<lambda>_ _. True)"
proof -
  have start: "crew (listed task) (bnd (GetNodeByAddress a) (\<lambda>node. SetTaskStatusStarted env task node now)) (\<lambda>_ _. True)"
    by (intro crew_reads[OF reading_intros(5)] crew_start)
  show ?thesis
    unfolding startMatchedPair_def by (intro crew_try crew_last crew_execute[OF start] crew_ret lasting_intros frame_intros)
qed

lemma calm_deliver: "db_steps crew_step (MarkTaskDelivered task now)"
proof -
  have "still (MarkTaskDelivered task now)"
    unfolding MarkTaskDelivered_def by (intro frame_intros) (simp_all add: jobs_def posts_def map_upd_same job_def)
  then show ?thesis
    unfolding db_steps_def crew_step_def using table_deliver[of task now]
    by (auto simp: db_steps_def unchanged_def crew_ok_def settled_def simp del: split_paired_All)
qed

section \<open>Creation\<close>

lemma crew_create_tx:
  assumes "t_Status task = TaskQueued" "t_SelectedNode task = []" "t_TaskIDCommitment task \<noteq> []" "armed task"
  shows "crew K (txn (bnd (task_Create task) (\<lambda>task. bnd AddTotalTask (\<lambda>_.
      bnd (createRelayAccountEvent ty (reason task) (t_Creator task) (t_TaskFee task) now) (\<lambda>_. ret task))))) (\<lambda>_ _. True)"
proof (rule crew_txn_returns, goal_cases)
  case 1 show ?case by (intro table_intros table_insert assms(4))
next
  case (2 s t s')
  let ?i = "next_id t_ID (d_tasks (fst s))"
  define s1 where "s1 = ((fst s)\<lparr> d_tasks := d_tasks (fst s) @ [task\<lparr> t_ID := ?i \<rparr>] \<rparr>, snd s)"
  obtain s2 x a y where new: "\<forall>t\<in>set (d_tasks (fst s)). t_TaskIDCommitment t \<noteq> t_TaskIDCommitment task"
    and rest: "returns AddTotalTask s1 () s2" "returns (createRelayAccountEvent ty x a y now) s2 () s'"
    using 2(3) unfolding s1_def by (auto simp: task_Create_def Let_def)
  have "jobs (fst s1) = jobs (fst s) @ [(?i, t_TaskIDCommitment task, TaskQueued, [])]" "posts (fst s1) = posts (fst s)"
    using assms(1,2) by (simp_all add: s1_def jobs_def posts_def job_def)
  then have views: "jobs (fst s') = jobs (fst s) @ [(?i, t_TaskIDCommitment task, TaskQueued, [])]" "posts (fst s') = posts (fst s)"
    using still_returns[OF crewless_rows(6)[THEN crewless_still] rest(1)] still_returns[OF still_crew(1) rest(2)] by simp_all
  have "?i \<notin> fst ` set (jobs (fst s))" using next_id_fresh[of _ "d_tasks (fst s)" t_ID] by (fastforce simp: jobs_def job_def)
  moreover have "t_TaskIDCommitment task \<notin> (fst \<circ> snd) ` set (jobs (fst s))" using new by (auto simp: jobs_def job_def)
  ultimately have "staffed (jobs (fst s')) (posts (fst s'))"
    using staffed_new_job[OF 2(1)[unfolded crew_ok_def]] assms(3) views by simp
  moreover have "settled (fst s) \<subseteq> settled (fst s')" using views(1) by (auto simp: settled_def)
  ultimately show ?case by (simp add: crew_ok_def)
qed

lemma crew_create:
  assumes "pricing_keeps env task" "admissible d now (RequestCreate task)"
  shows "crew (\<lambda>_. True) (CreateTask env task now) (\<lambda>_ _. True)"
  unfolding CreateTask_def
proof (rule crew_of_sum, goal_cases)
  case (1 t)
  have t: "t_Status t = TaskQueued" "t_CreateTime t = Some now" "t_SelectedNode t = []" "t_TaskIDCommitment t \<noteq> []"
    using pricing_cases[OF assms(1) 1] assms(2) by auto
  obtain dl where dl: "GetQueueDeadline (env_cfg env) t = Some dl" using queue_deadline_exists[OF t(2)] by blast
  have armed: "armed (t\<lparr> t_DeadlineAt := Some dl \<rparr>)" using t(1) by (simp add: armed_def task_ended_def)
  have allowed: "crew K (if b then CheckTaskModelsWhitelisted f t else ret ()) (\<lambda>_ _. True)" for K b f
    by (rule crew_still; intro frame_intros)
  have balance: "crew K (getRelayAccountFromCache a) (\<lambda>_ _. True)" for K a by (rule crew_still; intro frame_intros)
  show ?case
    unfolding dl option.case Let_def
    by (intro crew_bnd[OF _ allowed] crew_bnd[OF _ balance] crew_check crew_last crew_create_tx lasting_intros armed frame_intros)
      (simp_all add: t)
qed

section \<open>Validation\<close>

lemma known_cong: "job t' = job t \<Longrightarrow> known t' d = known t d"
  by (simp add: known_def job_def)

lemma crew_validate_single: "crew (known task) (ValidateSingleTask env lib task taskID vrfProof key now) (\<lambda>_ _. True)"
  unfolding ValidateSingleTask_def Let_def
  by (intro crew_of_sum crew_check crew_if crew_execute crew_weaken[OF crew_validated] crew_weaken[OF crew_abort])
    (auto simp: known_def listed_def)

lemma crew_map_each:
  assumes "lasting K" "\<And>x. x \<in> set xs \<Longrightarrow> crew K (f x) (\<lambda>_ _. True)"
  shows "crew K (map_each f xs) (\<lambda>_ _. True)"
  using assms(2)
proof (induction xs)
  case (Cons x xs)
  have "crew K (bnd (map_each f xs) (\<lambda>ys. ret (y # ys))) (\<lambda>_ _. True)" for y
    by (rule crew_last[OF Cons.IH]) (auto intro: Cons.prems frame_intros)
  then have "crew K (bnd (f x) (\<lambda>y. bnd (map_each f xs) (\<lambda>ys. ret (y # ys)))) (\<lambda>_ _. True)"
    by (intro crew_bnd[OF assms(1), where Q = "\<lambda>_ _. True"]) (simp_all add: Cons.prems)
  then show ?case by simp
qed (simp add: crew_ret)

lemma crew_verdict: "crew (known task) (apply_verdict env v evidences k now task) (\<lambda>_ _. True)"
proof -
  have known: "known task d \<Longrightarrow> known (task\<lparr> t_AbortReason := x, t_ValidatedTime := y \<rparr>) d" for d x y
    using known_cong[of "task\<lparr> t_AbortReason := x, t_ValidatedTime := y \<rparr>" task] by (simp add: job_def)
  note rules = crew_weaken[OF crew_invalidate_with] crew_weaken[OF crew_group_validated] crew_weaken[OF crew_group_refund]
    crew_weaken[OF crew_abort]
  have persist: "crew (known task) (persistValidationGroupAbortedTaskQos env task) (\<lambda>_ _. True)"
    unfolding crew_def using table_persist[of env task] still_scores(6)[of env task]
    by (auto simp: db_steps_def unchanged_def crew_ok_def settled_def) (metis fst_conv snd_conv)+
  show ?thesis
    unfolding apply_verdict_def
    by (cases "verdict_of v task") (auto split: option.splits intro!: rules persist crew_raise dest: known_listed known)
qed

lemma scored_rows:
  assumes "assign_scores k ts = Inr us"
  shows "map job us = map job ts"
  using assms by (induction k ts arbitrary: us rule: assign_scores.induct) (auto simp: job_def split: if_splits sum.splits)

lemma group_rows:
  assumes "assignValidationGroupQosScores ts = Inr us"
  shows "map job us = map job ts"
proof -
  obtain vs where vs: "assign_scores 0 ts = Inr vs" "us = vs \<or> us = map (\<lambda>t. t\<lparr> t_QOSScore := None \<rparr>) vs"
    using assms by (auto simp: assignValidationGroupQosScores_def split: sum.splits if_splits)
  have "map job (map (\<lambda>t. t\<lparr> t_QOSScore := None \<rparr>) vs) = map job vs" by (simp add: job_def)
  then show ?thesis using vs(2) scored_rows[OF vs(1)] by auto
qed

lemma known_rows: "map job us = map job ts \<Longrightarrow> list_all (\<lambda>t. known t d) us = list_all (\<lambda>t. known t d) ts"
proof (induction us arbitrary: ts)
  case (Cons u us)
  then obtain t ts' where ts: "ts = t # ts'" and u: "job u = job t" "map job us = map job ts'" by (cases ts) auto
  show ?case using Cons.IH[OF u(2)] known_cong[OF u(1)] by (simp add: ts)
qed simp

lemma reading_map_each: "(\<And>x. reading (f x)) \<Longrightarrow> reading (map_each f xs)"
proof (induction xs)
  case (Cons x xs)
  have "reading (bnd (f x) (\<lambda>y. bnd (map_each f xs) (\<lambda>ys. ret (y # ys))))"
    by (intro reading_bnd Cons) (simp add: reading_def ret_run)
  then show ?case by simp
qed (simp add: reading_def ret_run)

lemma crew_settle: "crew (\<lambda>d. list_all (\<lambda>t. known t d) tasks) (settle_group env lib tasks now) (\<lambda>_ _. True)"
  unfolding settle_group_def Let_def
proof (intro crew_of_sum, goal_cases)
  case (1 u scored v)
  have rows: "list_all (\<lambda>t. known t d) tasks = list_all (\<lambda>t. known t d) scored" for d
    using known_rows[OF group_rows[OF 1(2)], of d] by (simp add: list_all_iff)
  have evidence: "reading (buildInvalidatedTaskSlashEvidence env scored v)"
    unfolding buildInvalidatedTaskSlashEvidence_def
    by (intro reading_map_each reading_bnd reading_intros) (auto simp: reading_def ret_run split: prod.splits)
  show ?case
    unfolding rows
    by (intro crew_reads[OF evidence] crew_map_each lasting_intros crew_weaken[OF crew_verdict]) (auto simp: list_all_iff)
qed

lemma locked_rows: "lockValidationGroupTasks tasks s = (Inr rows, s') \<Longrightarrow> crew_ok (fst s) \<Longrightarrow> list_all (\<lambda>t. known t (fst s)) rows"
proof -
  assume lock: "lockValidationGroupTasks tasks s = (Inr rows, s')" and ok: "crew_ok (fst s)"
  have "distinct (map t_ID (d_tasks (fst s)))"
    using ok by (simp add: crew_ok_def staffed_def jobs_ok_def jobs_def job_def comp_def)
  with refreshed_rows(3)[of tasks s rows s'] lock have "set rows \<subseteq> set (d_tasks (fst s))" by (simp add: returns_def)
  then show "list_all (\<lambda>t. known t (fst s)) rows" using row_known[OF ok] by (auto simp: list_all_iff)
qed

lemma reading_lock: "reading (lockValidationGroupTasks tasks)"
  unfolding lockValidationGroupTasks_def
  by (intro reading_bnd reading_intros reading_map_each) (auto simp: reading_def op_simps split: option.splits)

lemma crew_group_tx: "crew K (group_tx env lib tasks taskID now) (\<lambda>_ _. True)"
proof -
  have "reading (refreshValidationGroupTasksForFinalUpdate tasks taskID)"
    unfolding refreshValidationGroupTasksForFinalUpdate_def
    by (intro reading_bnd reading_lock reading_intros) (simp add: reading_def ret_run)
  then show ?thesis
    unfolding group_tx_def
  proof (rule crew_read[where Q = "\<lambda>rows d. list_all (\<lambda>t. known t d) rows"], goal_cases)
    case (1 s rows)
    then obtain s' where "lockValidationGroupTasks tasks s = (Inr rows, s')"
      by (auto simp: refreshValidationGroupTasksForFinalUpdate_def bnd_run check_run ret_run split: prod.splits sum.splits if_splits)
    then show ?case by (rule locked_rows) (rule 1(2))
  next
    case (2 rows)
    have "map job (map (\<lambda>t. t\<lparr> t_TaskID := taskID \<rparr>) rows) = map job rows" by (simp add: job_def)
    from known_rows[OF this] show ?case by (intro crew_weaken[OF crew_settle]) simp_all
  qed
qed

lemma crew_txn:
  assumes "crew K f Q"
  shows "crew K (txn f) Q"
  unfolding crew_def
proof (intro allI impI)
  fix s r s' assume run: "txn f s = (r, s')" and ok: "crew_ok (fst s)" "K (fst s)"
  obtain q t where f: "f s = (q, t)" by (metis surj_pair)
  show "crew_ok (fst s') \<and> table_step (fst s) (fst s') \<and> settled (fst s) \<subseteq> settled (fst s') \<and> (\<forall>a. r = Inr a \<longrightarrow> Q a (fst s'))"
    using run f ok crewD[OF assms f ok] by (cases q) (auto simp: txn_def table.step_refl)
qed

lemma crew_validate_group: "crew (\<lambda>_. True) (ValidateTaskGroup env lib tasks taskID vrfProof key now) (\<lambda>_ _. True)"
proof -
  have members: "crew K (for_each ts (check_member lib taskID seed vrfProof key)) (\<lambda>_ _. True)" for K ts seed
    unfolding check_member_def by (rule crew_still; intro frame_intros)
  show ?thesis
    unfolding ValidateTaskGroup_def Let_def
    by (intro crew_check crew_bnd[OF _ members] crew_last crew_execute crew_txn crew_group_tx lasting_intros frame_intros) simp_all
qed

text \<open>The cryptographic libraries have errors of their own.\<close>

definition own_errors :: "vrf_lib \<Rightarrow> bool" where
  "own_errors lib \<longleftrightarrow> (\<forall>x e. vl_Decode lib x = Inl e \<longrightarrow> \<not> status_changed e) \<and>
    (\<forall>x e. vl_ParsePubKey lib x = Inl e \<longrightarrow> \<not> status_changed e) \<and> (\<forall>k x y e. vl_Verify lib k x y = Inl e \<longrightarrow> \<not> status_changed e)"

lemma queued_not_validated:
  assumes "own_errors lib" "t_Status task = TaskQueued"
  shows "\<exists>e. ValidateSingleTask env lib task taskID vrfProof key now s = (Inl e, s) \<and> \<not> status_changed e"
proof -
  have ids: "validateTaskID lib taskID n c = Inl e \<Longrightarrow> \<not> status_changed e" for n c e
    using assms(1) by (auto simp: validateTaskID_def own_errors_def status_changed_def split: sum.splits if_splits)
  have proofs: "validateVRFProof lib seed vrfProof key creator b = Inl e \<Longrightarrow> \<not> status_changed e" for seed creator b e
    using assms(1) by (auto simp: validateVRFProof_def own_errors_def status_changed_def split: sum.splits if_splits)
  show ?thesis
    using assms(2)
    by (cases "validateTaskID lib taskID (t_Nonce task) (t_TaskIDCommitment task)";
        cases "validateVRFProof lib (t_SamplingSeed task) vrfProof key (t_Creator task) False")
      (auto simp: ValidateSingleTask_def bnd_run check_run of_sum_run status_changed_def dest: ids proofs)
qed

lemma sync_known:
  assumes "SyncStatus task s = (Inr t, s')" "crew_ok (fst s)" "known task (fst s)" "t_Status task \<noteq> TaskQueued"
  shows "known t (fst s) \<and> t_Status t \<noteq> TaskQueued"
proof -
  obtain r where r: "r \<in> set (d_tasks (fst s))" "t_ID r = t_ID task" "t_TaskIDCommitment r = t_TaskIDCommitment task"
    "t_Status r \<noteq> TaskQueued" "t_SelectedNode r = t_SelectedNode task"
    using assms(3,4) unfolding known_def by auto
  obtain x where x: "find (\<lambda>t. t_ID t = t_ID task) (d_tasks (fst s)) = Some x" and t: "t = task\<lparr> t_Status := t_Status x, t_AbortReason := t_AbortReason x \<rparr>"
    using assms(1) by (auto simp: SyncStatus_def op_simps split: if_splits option.splits)
  have ok: "jobs_ok (jobs (fst s))" using assms(2) by (simp add: crew_ok_def staffed_def)
  have "t_Status x = t_Status r"
    using job_unique[OF ok job_stored[of x, unfolded job_def] job_stored[OF r(1), unfolded job_def]] find_SomeD[OF x] r(2) by auto
  then show ?thesis using r t unfolding known_def by auto
qed

lemma map_each_single: "map_each f [x] s = (Inr ys, s') \<Longrightarrow> \<exists>y. ys = [y] \<and> f x s = (Inr y, s')"
  by (auto simp: bnd_run ret_run split: prod.splits sum.splits)

lemma crew_single_attempts:
  "crew (\<lambda>d. known task d \<and> t_Status task \<noteq> TaskQueued) (validate_attempts k err (validate_once env lib taskID vrfProof key now) [task]) (\<lambda>_ _. True)"
proof (induction k arbitrary: err task)
  case (Suc k)
  let ?K = "\<lambda>d. known task d \<and> t_Status task \<noteq> TaskQueued"
  have once: "crew ?K (validate_once env lib taskID vrfProof key now [task]) (\<lambda>_ _. True)"
    unfolding validate_once_def by simp (intro crew_last crew_weaken[OF crew_validate_single] frame_intros; simp)
  have again: "crew ?K (bnd (map_each SyncStatus [task]) (\<lambda>ts. validate_attempts k e (validate_once env lib taskID vrfProof key now) ts)) (\<lambda>_ _. True)" for e
  proof (rule crew_read[OF reading_map_each[OF reading_intros(12)], where Q = "\<lambda>ts d. \<exists>t. ts = [t] \<and> known t d \<and> t_Status t \<noteq> TaskQueued"])
    show "\<exists>t. ts = [t] \<and> known t (fst s) \<and> t_Status t \<noteq> TaskQueued"
      if "map_each SyncStatus [task] s = (Inr ts, s)" "crew_ok (fst s)" "?K (fst s)" for s ts
      using map_each_single[OF that(1)] sync_known that(2,3) by blast
    show "crew (\<lambda>d. ?K d \<and> (\<exists>t. ts = [t] \<and> known t d \<and> t_Status t \<noteq> TaskQueued))
        (validate_attempts k e (validate_once env lib taskID vrfProof key now) ts) (\<lambda>_ _. True)" for ts
    proof (cases "\<exists>t. ts = [t]")
      case True
      then obtain t where "ts = [t]" by blast
      then show ?thesis by (intro crew_weaken[OF Suc.IH[of t e, folded \<open>ts = [t]\<close>]]) auto
    qed (auto simp: crew_def)
  qed
  show ?case unfolding validate_attempts.simps by (intro crew_try once again crew_if crew_ret crew_raise lasting_intros)
qed (simp add: crew_raise)

lemma crew_group_attempts:
  "length tasks \<noteq> 1 \<Longrightarrow> crew (\<lambda>_. True) (validate_attempts k err (validate_once env lib taskID vrfProof key now) tasks) (\<lambda>_ _. True)"
proof (induction k arbitrary: err tasks)
  case (Suc k)
  have once: "crew (\<lambda>_. True) (validate_once env lib taskID vrfProof key now tasks) (\<lambda>_ _. True)"
    using Suc.prems unfolding validate_once_def by (auto split: list.splits intro!: crew_ret crew_validate_group)
  have len: "map_each SyncStatus tasks s = (Inr ts, s') \<Longrightarrow> length ts = length tasks" for s ts s'
    by (induction tasks arbitrary: s ts) (auto simp: bnd_run ret_run split: prod.splits sum.splits)
  have again: "crew (\<lambda>_. True) (bnd (map_each SyncStatus tasks) (\<lambda>ts. validate_attempts k e (validate_once env lib taskID vrfProof key now) ts)) (\<lambda>_ _. True)" for e
  proof (rule crew_read[OF reading_map_each[OF reading_intros(12)], where Q = "\<lambda>ts _. length ts \<noteq> 1"])
    show "length ts \<noteq> 1" if "map_each SyncStatus tasks s = (Inr ts, s)" for s ts using len[OF that] Suc.prems by simp
    show "crew (\<lambda>_. True \<and> length ts \<noteq> 1) (validate_attempts k e (validate_once env lib taskID vrfProof key now) ts) (\<lambda>_ _. True)" for ts
    proof (cases "length ts = 1")
      case False
      then show ?thesis by (intro crew_weaken[OF Suc.IH]) auto
    qed (simp add: crew_def)
  qed
  show ?case unfolding validate_attempts.simps by (intro crew_try once again crew_if crew_ret crew_raise lasting_intros)
qed (simp add: crew_raise)

lemma crew_queued_attempts:
  assumes "own_errors lib" "t_Status task = TaskQueued"
  shows "crew K (validate_attempts k err (validate_once env lib taskID vrfProof key now) [task]) (\<lambda>_ _. True)"
proof (cases k)
  case (Suc n)
  have "\<exists>r. validate_attempts k err (validate_once env lib taskID vrfProof key now) [task] s = (r, s)" for s
    using queued_not_validated[OF assms, of env taskID vrfProof key now s]
    by (auto simp: Suc try_catch_def validate_once_def bnd_run raise_run ret_run)
  then show ?thesis unfolding crew_def by (metis prod.inject table.step_refl order_refl)
qed (simp add: crew_raise)

lemma crew_attempts:
  assumes "own_errors lib"
  shows "crew (\<lambda>d. list_all (\<lambda>t. known t d) tasks) (validate_attempts k err (validate_once env lib taskID vrfProof key now) tasks) (\<lambda>_ _. True)"
proof (cases "length tasks = 1")
  case True
  then obtain task where t: "tasks = [task]" by (auto simp: length_Suc_conv)
  show ?thesis
  proof (cases "t_Status task = TaskQueued")
    case True
    then show ?thesis unfolding t by (rule crew_queued_attempts[OF assms])
  next
    case False
    then show ?thesis unfolding t by (intro crew_weaken[OF crew_single_attempts]) auto
  qed
next
  case False
  then show ?thesis by (intro crew_weaken[OF crew_group_attempts]) auto
qed

lemma own_tasks_known:
  "map_each (own_task a) cs s = (Inr tasks, s') \<Longrightarrow> crew_ok (fst s) \<Longrightarrow> s' = s \<and> list_all (\<lambda>t. known t (fst s)) tasks"
proof (induction cs arbitrary: tasks s)
  case (Cons c cs)
  have own: "s1 = s \<and> t \<in> set (d_tasks (fst s))" if "own_task a c s = (Inr t, s1)" for t s1
    using that reading_intros(6)[of c]
    by (cases "GetTaskByIDCommitment c s")
      (auto simp: own_task_def bnd_run check_run ret_run reading_def split: sum.splits if_splits dest: task_found simp del: split_paired_All; metis snd_conv)
  obtain t s1 ts where t: "own_task a c s = (Inr t, s1)" and ts: "map_each (own_task a) cs s1 = (Inr ts, s')" "tasks = t # ts"
    using Cons.prems(1) by (auto simp: bnd_run ret_run split: prod.splits sum.splits)
  have "s1 = s" "known t (fst s)" using own[OF t] row_known[OF Cons.prems(2)] by auto
  with Cons.IH[of s1 ts] ts Cons.prems(2) show ?case by simp
qed (simp add: ret_run)

lemma crew_validate:
  assumes "own_errors lib"
  shows "crew (\<lambda>_. True) (ValidateTask env lib signer cs taskID vrfProof key now) (\<lambda>_ _. True)"
proof -
  have own: "reading (own_task a c)" for a c
    unfolding own_task_def by (intro reading_bnd reading_intros) (simp add: reading_def ret_run)
  have "crew (\<lambda>_. True) (bnd (map_each (own_task a) cs) (validate_attempts 3 ErrTaskStatusChanged (validate_once env lib taskID vrfProof key now))) (\<lambda>_ _. True)" for a
  proof (rule crew_read[OF reading_map_each[OF own], where Q = "\<lambda>tasks d. list_all (\<lambda>t. known t d) tasks"])
    show "list_all (\<lambda>t. known t (fst s)) tasks" if "map_each (own_task a) cs s = (Inr tasks, s)" "crew_ok (fst s)" for s tasks
      using own_tasks_known[OF that] by blast
  qed (rule crew_weaken[OF crew_attempts[OF assms]], simp_all)
  then show ?thesis unfolding ValidateTask_def by (intro crew_check crew_reads[OF reading_intros(10)])
qed

section \<open>Reachable states\<close>

lemma crew_unit: "crew K f (\<lambda>_ _. True) \<Longrightarrow> crew K (bnd f (\<lambda>_. ret ())) (\<lambda>_ _. True)"
  by (intro crew_last frame_intros)

lemma crew_task_step:
  assumes "\<And>t. pricing_keeps env t" "own_errors (lib_vrf libs)" "admissible (fst s) now req" "crew_ok (fst s)"
  shows "crew_ok (fst (snd (task_step env libs now req s))) \<and> settled (fst s) \<subseteq> settled (fst (snd (task_step env libs now req s)))"
proof -
  have "\<exists>K. K (fst s) \<and> crew K (task_step env libs now req) (\<lambda>_ _. True)"
  proof (cases req)
    case (RequestPair task a)
    then show ?thesis
      using assms(3) crew_pair[of task env a now] by (intro exI[of _ "listed task"]) (auto simp: listed_def list_ex_iff)
  next
    case (RequestDeliver c)
    have "crew (\<lambda>_. True) (bnd (GetTaskByIDCommitment c) (\<lambda>task. bnd (MarkTaskDelivered task now) (\<lambda>_. ret ()))) (\<lambda>_ _. True)"
      by (intro crew_get crew_unit calm_crew calm_deliver)
    then show ?thesis using RequestDeliver by (intro exI[of _ "\<lambda>_. True"]) simp
  next
    case (RequestNode r)
    have "crew (\<lambda>_. True) (node_step (node_env.truncate env) now r) (\<lambda>_ _. True)"
      using assms(3) unfolding RequestNode by (intro calm_crew calm_node_request)
    then show ?thesis using RequestNode crew_unit by (intro exI[of _ "\<lambda>_. True"]) simp
  qed (use assms(2,3) in \<open>auto intro!: exI[of _ "\<lambda>_. True"] crew_unit crew_create[OF assms(1)] crew_submit crew_report crew_abort_task
      crew_validate crew_upload crew_timeouts\<close>)
  then show ?thesis using crew_steps assms(4) by blast
qed

lemma crew_empty: "crew_ok empty_db"
  by (simp add: crew_ok_def staffed_def jobs_ok_def posts_ok_def held_def assigned_def jobs_def posts_def empty_db_def)

lemma reach_crew:
  assumes "task_reach env libs s" "\<And>t. pricing_keeps env t" "own_errors (lib_vrf libs)"
  shows "crew_ok (fst s)"
  using assms(1)
proof (induction rule: task_reach.induct)
  case (task_start m) show ?case by (simp add: crew_empty)
next
  case (task_next s now req)
  show ?case using crew_task_step[OF assms(2,3) task_next(2,3)] by blast
qed

end
