(* ===== verification/Spec2Isabelle.thy ===== *)
theory Spec2Isabelle
  imports Prelude GoStd Json Models Config Emission VestingSchedule MaxStaking DelegationCache State
    RelayAccount Float64 Income Withdraw VestingService NodeNames ModelFiles NodeIndex ModelWhitelist NodeModels Qos Frames NodeLifecycle TaskDeadline TaskLifecycle Validation TaskHandlers TaskFlow Crew CrewRequests
begin

text \<open>
  A verification development of the Crynux relay (\<^verbatim>\<open>src/\<close>, Go), the server that accepts
  inference tasks, matches them to nodes, validates their results and keeps the ledger of relay
  accounts, withdrawals and vestings.

  The plan of the library, in the order the theories build on each other:

  \<^item> \<^verbatim>\<open>Prelude\<close>, \<^verbatim>\<open>GoStd\<close>: integers, times, errors, the operation monad, the standard library;
  \<^item> \<^verbatim>\<open>Emission\<close>: \<^verbatim>\<open>service/emission.go\<close>;
  \<^item> the tables of \<^verbatim>\<open>models/\<close>; vesting; the relay account ledger; withdrawals; the delegation
    caches; the task queue; node and task lifecycle; group validation; matching.
\<close>

end
